(* ===== verification/Go_Prelude.thy ===== *)
theory Go_Prelude
  imports Main "HOL-Library.Word" "HOL-Library.Multiset"
begin

text \<open>
  The Go fragment that every component of the Priority Service uses: run-time faults as
  values, checked slice accesses, loops that may fault, and the machine integers at their
  width.  It also holds the list lemmas shared by the components.

  A Go run-time panic ends the process (nothing in the repository recovers), so the state
  after a fault is not modelled: an operation that may panic returns \<open>go_fault + 'a\<close>.
  Two faults are not panics, and only the cgo implementation can reach them:
  \<open>UnsafeAccess\<close>, a read or write through \<^verbatim>\<open>unsafe\<close> or C outside the allocated
  block, and \<open>UndefinedBehaviour\<close>, a signed overflow in C.
\<close>

section \<open>Machine integers\<close>

type_synonym u32 = "32 word"
type_synonym u64 = "64 word"
type_synonym i16 = "16 word"
type_synonym i32 = "32 word"
type_synonym i64 = "64 word"

named_theorems go_simps \<open>unfolding rules for checked operations that succeed\<close>
named_theorems go_elims \<open>what a checked operation says when it has returned\<close>

section \<open>Faults and sequencing\<close>

datatype go_fault =
    IndexOutOfRange | SliceOutOfRange | MakeOutOfRange | DivideByZero | InvalidArgument
  | OutOfMemory | UnsafeAccess | UndefinedBehaviour

type_synonym 'a go = "go_fault + 'a"

definition gbind :: "'a go \<Rightarrow> ('a \<Rightarrow> 'b go) \<Rightarrow> 'b go" where
  "gbind x f = (case x of Inl e \<Rightarrow> Inl e | Inr a \<Rightarrow> f a)"

lemma gbind_Inr [simp, code]: "gbind (Inr a) f = f a"
  by (simp add: gbind_def)

lemma gbind_Inl [simp, code]: "gbind (Inl e) f = Inl e"
  by (simp add: gbind_def)

lemma gbind_cong [fundef_cong]:
  "x = y \<Longrightarrow> (\<And>a. y = Inr a \<Longrightarrow> f a = g a) \<Longrightarrow> gbind x f = gbind y g"
  by (cases y) simp_all

lemma gbind_eq_Inr [go_elims]: "gbind x f = Inr b \<longleftrightarrow> (\<exists>a. x = Inr a \<and> f a = Inr b)"
  by (cases x) simp_all

lemma gbind_assoc: "gbind (gbind x f) g = gbind x (\<lambda>a. gbind (f a) g)"
  by (cases x) simp_all

text \<open>A \<^verbatim>\<open>for range\<close> loop whose body may fault: the first fault ends it.\<close>

fun gfold :: "('a \<Rightarrow> 's \<Rightarrow> 's go) \<Rightarrow> 'a list \<Rightarrow> 's \<Rightarrow> 's go" where
  "gfold f [] s = Inr s"
| "gfold f (x # xs) s = gbind (f x s) (gfold f xs)"

lemma gfold_append: "gfold f (xs @ ys) s = gbind (gfold f xs s) (gfold f ys)"
proof (induction xs arbitrary: s)
  case (Cons x xs)
  then have "gfold f (xs @ ys) = (\<lambda>s. gbind (gfold f xs s) (gfold f ys))"
    by (simp add: fun_eq_iff)
  then show ?case by (simp add: gbind_assoc)
qed simp

lemma gfold_snoc: "gfold f (xs @ [x]) s = gbind (gfold f xs s) (f x)"
proof -
  have "gfold f [x] s' = f x s'" for s'
    by (cases "f x s'") simp_all
  then have "gfold f [x] = f x" ..
  then show ?thesis
    by (simp only: gfold_append)
qed

lemma gfold_total: "gfold (\<lambda>x s. Inr (f x s)) xs s = Inr (fold f xs s)"
  by (induction xs arbitrary: s) simp_all

lemma gfold_cong [fundef_cong]:
  assumes "xs = ys" and "s = t" and "\<And>x u. x \<in> set ys \<Longrightarrow> f x u = g x u"
  shows "gfold f xs s = gfold g ys t"
proof -
  have "gfold f ys u = gfold g ys u" for u
    using assms(3) by (induction ys arbitrary: u) (auto intro: gbind_cong)
  with assms(1,2) show ?thesis by simp
qed

text \<open>
  Total correctness of such a loop: if each body run from a state with \<open>P\<close> returns the
  pure step \<open>f\<close> and keeps \<open>P\<close>, the loop is the pure fold.
\<close>

lemma gfold_pure:
  assumes "P s"
    and "\<And>x s. x \<in> set xs \<Longrightarrow> P s \<Longrightarrow> g x s = Inr (f x s)"
    and "\<And>x s. x \<in> set xs \<Longrightarrow> P s \<Longrightarrow> P (f x s)"
  shows "gfold g xs s = Inr (fold f xs s) \<and> P (fold f xs s)"
  using assms by (induction xs arbitrary: s) simp_all

lemma gfold_pureI:
  assumes "P s"
    and "\<And>x s. x \<in> set xs \<Longrightarrow> P s \<Longrightarrow> g x s = Inr (f x s)"
    and "\<And>x s. x \<in> set xs \<Longrightarrow> P s \<Longrightarrow> P (f x s)"
  shows "gfold g xs s = Inr (fold f xs s)"
  using gfold_pure [of P s xs g f] assms by blast

text \<open>The counted loop, with an invariant that mentions the counter.\<close>

lemma gfold_upt_inv:
  assumes "P m s" and "m \<le> n"
    and "\<And>i s. m \<le> i \<Longrightarrow> i < n \<Longrightarrow> P i s \<Longrightarrow> \<exists>s'. g i s = Inr s' \<and> P (Suc i) s'"
  shows "\<exists>s'. gfold g [m..<n] s = Inr s' \<and> P n s'"
  using assms(2,3)
proof (induction n rule: dec_induct)
  case base
  with assms(1) show ?case by simp
next
  case (step n)
  then obtain t where "gfold g [m..<n] s = Inr t" and "P n t" by auto
  moreover obtain t' where "g n t = Inr t'" and "P (Suc n) t'"
    using step.prems [of n t] step.hyps \<open>P n t\<close> by auto
  ultimately show ?case using step.hyps by (simp add: gfold_snoc)
qed

section \<open>Slices\<close>

text \<open>
  \<^verbatim>\<open>xs[i]\<close>, \<^verbatim>\<open>xs[i] = v\<close> and \<^verbatim>\<open>xs[a:b]\<close>, with the run-time checks.  Go
  checks the bounds of a slice expression against the capacity; every slice that the code
  slices with a bound that could be too large comes from \<^verbatim>\<open>make\<close> with one size, so its
  capacity is its length.
\<close>

definition go_index :: "'a list \<Rightarrow> nat \<Rightarrow> 'a go" where
  "go_index xs i = (if i < length xs then Inr (xs ! i) else Inl IndexOutOfRange)"

definition go_update :: "'a list \<Rightarrow> nat \<Rightarrow> 'a \<Rightarrow> 'a list go" where
  "go_update xs i v = (if i < length xs then Inr (xs[i := v]) else Inl IndexOutOfRange)"

definition go_slice :: "'a list \<Rightarrow> nat \<Rightarrow> nat \<Rightarrow> 'a list go" where
  "go_slice xs a b =
     (if a \<le> b \<and> b \<le> length xs then Inr (take (b - a) (drop a xs)) else Inl SliceOutOfRange)"

text \<open>
  A write through a slice \<^verbatim>\<open>s := xs[a:b]\<close> is a write to \<^verbatim>\<open>xs\<close>: putting the
  contents \<open>ys\<close> of the view back at its offset.
\<close>

definition write_view :: "'a list \<Rightarrow> nat \<Rightarrow> 'a list \<Rightarrow> 'a list" where
  "write_view xs a ys = take a xs @ ys @ drop (a + length ys) xs"

definition go_swap :: "'a list \<Rightarrow> nat \<Rightarrow> nat \<Rightarrow> 'a list go" where
  "go_swap xs i j =
     gbind (go_index xs i) (\<lambda>x. gbind (go_index xs j) (\<lambda>y.
       gbind (go_update xs i y) (\<lambda>xs'. go_update xs' j x)))"

definition swap :: "'a list \<Rightarrow> nat \<Rightarrow> nat \<Rightarrow> 'a list" where
  "swap xs i j = xs[i := xs ! j, j := xs ! i]"

lemma go_index_ok [go_simps]: "i < length xs \<Longrightarrow> go_index xs i = Inr (xs ! i)"
  by (simp add: go_index_def)

lemma go_index_eq_Inr [go_elims]: "go_index xs i = Inr x \<longleftrightarrow> i < length xs \<and> x = xs ! i"
  by (auto simp: go_index_def)

lemma go_update_ok [go_simps]: "i < length xs \<Longrightarrow> go_update xs i v = Inr (xs[i := v])"
  by (simp add: go_update_def)

lemma go_update_eq_Inr [go_elims]:
  "go_update xs i v = Inr ys \<longleftrightarrow> i < length xs \<and> ys = xs[i := v]"
  by (auto simp: go_update_def)

lemma go_slice_ok [go_simps]:
  "a \<le> b \<Longrightarrow> b \<le> length xs \<Longrightarrow> go_slice xs a b = Inr (take (b - a) (drop a xs))"
  by (simp add: go_slice_def)

lemma go_slice_eq_Inr [go_elims]:
  "go_slice xs a b = Inr ys \<longleftrightarrow> a \<le> b \<and> b \<le> length xs \<and> ys = take (b - a) (drop a xs)"
  by (auto simp: go_slice_def)

lemma go_swap_ok [go_simps]:
  "i < length xs \<Longrightarrow> j < length xs \<Longrightarrow> go_swap xs i j = Inr (swap xs i j)"
  by (simp add: go_swap_def swap_def go_simps)

lemma length_swap [simp]: "length (swap xs i j) = length xs"
  by (simp add: swap_def)

lemma nth_swap:
  "i < length xs \<Longrightarrow> j < length xs \<Longrightarrow>
     swap xs i j ! k = (if k = j then xs ! i else if k = i then xs ! j else xs ! k)"
  by (auto simp: swap_def nth_list_update)

lemma mset_swapped: "i < length xs \<Longrightarrow> j < length xs \<Longrightarrow> mset (swap xs i j) = mset xs"
  unfolding swap_def by (metis mset_swap)

lemma length_write_view [simp]:
  "a + length ys \<le> length xs \<Longrightarrow> length (write_view xs a ys) = length xs"
  by (simp add: write_view_def)

lemma nth_write_view:
  "a + length ys \<le> length xs \<Longrightarrow>
     write_view xs a ys ! i = (if a \<le> i \<and> i < a + length ys then ys ! (i - a) else xs ! i)"
  by (auto simp: write_view_def nth_append)

lemma write_view_same:
  assumes "a + length ys \<le> length xs"
  shows "take (length ys) (drop a (write_view xs a ys)) = ys"
  using assms by (simp add: write_view_def)

lemma write_view_other:
  assumes "a + length ys \<le> length xs" and "b + n \<le> a \<or> a + length ys \<le> b"
  shows "take n (drop b (write_view xs a ys)) = take n (drop b xs)"
  using assms by (intro nth_equalityI) (auto simp: nth_write_view)

section \<open>Maps and lists shared by the components\<close>

text \<open>Reading a Go map of slices: a missing key reads as the nil slice.\<close>

definition map_list :: "('k \<rightharpoonup> 'v list) \<Rightarrow> 'k \<Rightarrow> 'v list" where
  "map_list m k = (case m k of None \<Rightarrow> [] | Some xs \<Rightarrow> xs)"

lemma map_list_upd [simp]: "map_list (m(k \<mapsto> xs)) k' = (if k' = k then xs else map_list m k')"
  by (simp add: map_list_def)

lemma map_list_del [simp]: "map_list (m(k := None)) k' = (if k' = k then [] else map_list m k')"
  by (simp add: map_list_def)

lemma map_list_empty [simp]: "map_list Map.empty k = []"
  by (simp add: map_list_def)

text \<open>A Go map read of a missing key gives the zero value of the value type.\<close>

definition map_zero :: "('k \<rightharpoonup> 'v :: default) \<Rightarrow> 'k \<Rightarrow> 'v" where
  "map_zero m k = (case m k of None \<Rightarrow> default | Some v \<Rightarrow> v)"

lemma count_list_append_single [simp]:
  "count_list (xs @ [x]) y = count_list xs y + (if x = y then 1 else 0)"
  by simp

lemma removeAll_replicate [simp]: "removeAll x (replicate n x) = []"
  by (induction n) simp_all

lemma sorted_wrt_take: "sorted_wrt P xs \<Longrightarrow> sorted_wrt P (take n xs)"
  by (metis append_take_drop_id sorted_wrt_append)

end
