(* ===== verification/Go_Float32.thy ===== *)
theory Go_Float32
  imports Go_Prelude "HOL-Library.Log_Nat"
begin

text \<open>
  Go's \<^verbatim>\<open>float32\<close> (IEEE 754 binary32, round to nearest even), as far as the
  service uses it: multiplication, addition, subtraction and division, the comparisons
  \<^verbatim>\<open>>=\<close> and \<^verbatim>\<open>== 0\<close>, and the conversion \<^verbatim>\<open>int32(f)\<close>; and the
  little of \<^verbatim>\<open>float64\<close> that the mock clients use.

  A finite value is \<open>F32 m e\<close>, standing for \<open>m * 2 ^ e\<close>.  The sign of zero is left
  out: none of these operations can observe it, but for a division by zero, which does not
  occur.  The result of a conversion whose value does not fit is implementation-dependent in Go (the language specification says so), so
  it is the argument \<open>ovf\<close> of \<open>int32_of_f32\<close>.
\<close>

datatype float32 = F32 int int | F32_Inf bool | F32_NaN

text \<open>\<open>n / 2 ^ s\<close>, rounded to the nearest integer, ties to even.\<close>

definition rne :: "nat \<Rightarrow> nat \<Rightarrow> nat" where
  "rne n s =
     (let q = n div 2 ^ s; r = n mod 2 ^ s
      in if 2 * r < 2 ^ s \<or> (2 * r = 2 ^ s \<and> even q) then q else q + 1)"

text \<open>
  The exponent the result is rounded at: 24 significant digits, and never below the
  exponent \<open>-149\<close> of the subnormal numbers.
\<close>

definition f32_round_exp :: "nat \<Rightarrow> int \<Rightarrow> int" where
  "f32_round_exp n e = max e (max (e + int (floorlog 2 n) - 24) (-149))"

definition f32_round :: "int \<Rightarrow> int \<Rightarrow> float32" where
  "f32_round m e =
     (let n = nat \<bar>m\<bar>; e' = f32_round_exp n e; q = rne n (nat (e' - e))
      in if 0 < q \<and> 128 < int (floorlog 2 q) + e' then F32_Inf (m < 0)
         else F32 (sgn m * int q) e')"

fun f32_neg :: "float32 \<Rightarrow> bool" where
  "f32_neg (F32 m e) = (m < 0)"
| "f32_neg (F32_Inf s) = s"
| "f32_neg F32_NaN = False"

fun f32_is_zero :: "float32 \<Rightarrow> bool" where
  "f32_is_zero (F32 m e) = (m = 0)"
| "f32_is_zero (F32_Inf s) = False"
| "f32_is_zero F32_NaN = False"

fun f32_mul :: "float32 \<Rightarrow> float32 \<Rightarrow> float32" where
  "f32_mul (F32 m1 e1) (F32 m2 e2) = f32_round (m1 * m2) (e1 + e2)"
| "f32_mul F32_NaN b = F32_NaN"
| "f32_mul a F32_NaN = F32_NaN"
| "f32_mul a b =
     (if f32_is_zero a \<or> f32_is_zero b then F32_NaN else F32_Inf (f32_neg a \<noteq> f32_neg b))"

text \<open>Two finite values at their smaller exponent.\<close>

definition f32_align :: "int \<Rightarrow> int \<Rightarrow> int \<Rightarrow> int \<Rightarrow> int \<times> int \<times> int" where
  "f32_align m1 e1 m2 e2 =
     (let e = min e1 e2 in (m1 * 2 ^ nat (e1 - e), m2 * 2 ^ nat (e2 - e), e))"

fun f32_sub :: "float32 \<Rightarrow> float32 \<Rightarrow> float32" where
  "f32_sub (F32 m1 e1) (F32 m2 e2) =
     (case f32_align m1 e1 m2 e2 of (a, b, e) \<Rightarrow> f32_round (a - b) e)"
| "f32_sub F32_NaN b = F32_NaN"
| "f32_sub a F32_NaN = F32_NaN"
| "f32_sub (F32_Inf s) (F32_Inf t) = (if s = t then F32_NaN else F32_Inf s)"
| "f32_sub (F32_Inf s) (F32 m e) = F32_Inf s"
| "f32_sub (F32 m e) (F32_Inf t) = F32_Inf (\<not> t)"

fun f32_ge :: "float32 \<Rightarrow> float32 \<Rightarrow> bool" where
  "f32_ge (F32 m1 e1) (F32 m2 e2) = (case f32_align m1 e1 m2 e2 of (a, b, e) \<Rightarrow> b \<le> a)"
| "f32_ge F32_NaN b = False"
| "f32_ge a F32_NaN = False"
| "f32_ge (F32_Inf s) b = (\<not> s \<or> b = F32_Inf True)"
| "f32_ge (F32 m e) (F32_Inf t) = t"

text \<open>Truncation towards zero, and the conversion to 32 bits.\<close>

definition trunc_exp :: "int \<Rightarrow> int \<Rightarrow> int" where
  "trunc_exp m e =
     (if 0 \<le> e then m * 2 ^ nat e else sgn m * (\<bar>m\<bar> div 2 ^ nat (- e)))"

definition int32_of_f32 :: "(float32 \<Rightarrow> i32) \<Rightarrow> float32 \<Rightarrow> i32" where
  "int32_of_f32 ovf f =
     (case f of
        F32 m e \<Rightarrow>
          (let v = trunc_exp m e
           in if - (2 ^ 31) \<le> v \<and> v < 2 ^ 31 then word_of_int v else ovf f)
      | F32_Inf s \<Rightarrow> ovf f
      | F32_NaN \<Rightarrow> ovf f)"

fun f32_uminus :: "float32 \<Rightarrow> float32" where
  "f32_uminus (F32 m e) = F32 (- m) e"
| "f32_uminus (F32_Inf s) = F32_Inf (\<not> s)"
| "f32_uminus F32_NaN = F32_NaN"

definition f32_add :: "float32 \<Rightarrow> float32 \<Rightarrow> float32" where
  "f32_add a b = f32_sub a (f32_uminus b)"

text \<open>
  The conversion of an integer, and division (in the tests only, by numbers other than zero,
  so that the sign of a zero divisor does not matter).  The quotient is computed with at
  least 27 digits, and a last digit that says whether the rest is zero, which is enough to
  round it.
\<close>

definition f32_of_int :: "int \<Rightarrow> float32" where
  "f32_of_int n = f32_round n 0"

fun f32_div :: "float32 \<Rightarrow> float32 \<Rightarrow> float32" where
  "f32_div (F32 m1 e1) (F32 m2 e2) =
     (if m2 = 0 then (if m1 = 0 then F32_NaN else F32_Inf (m1 < 0))
      else let s = 26 + floorlog 2 (nat \<bar>m2\<bar>); n = \<bar>m1\<bar> * 2 ^ s;
               q = 2 * (n div \<bar>m2\<bar>) + (if n mod \<bar>m2\<bar> = 0 then 0 else 1)
           in f32_round (sgn m1 * sgn m2 * q) (e1 - e2 - int s - 1))"
| "f32_div F32_NaN b = F32_NaN"
| "f32_div a F32_NaN = F32_NaN"
| "f32_div (F32_Inf s) (F32 m e) = F32_Inf (s \<noteq> (m < 0))"
| "f32_div (F32_Inf s) (F32_Inf t) = F32_NaN"
| "f32_div (F32 m e) (F32_Inf t) = F32 0 0"

text \<open>
  \<^verbatim>\<open>x * y + z\<close>.  Go lets an implementation fuse the two operations into one with a
  single rounding; \<open>fused\<close> says whether it does.
\<close>

fun f32_fma :: "float32 \<Rightarrow> float32 \<Rightarrow> float32 \<Rightarrow> float32" where
  "f32_fma (F32 m1 e1) (F32 m2 e2) (F32 m3 e3) =
     (case f32_align (m1 * m2) (e1 + e2) m3 e3 of (a, b, e) \<Rightarrow> f32_round (a + b) e)"
| "f32_fma (F32 m1 e1) (F32 m2 e2) z = z"
| "f32_fma x y z = f32_add (f32_mul x y) z"

definition f32_mul_add :: "bool \<Rightarrow> float32 \<Rightarrow> float32 \<Rightarrow> float32 \<Rightarrow> float32" where
  "f32_mul_add fused x y z = (if fused then f32_fma x y z else f32_add (f32_mul x y) z)"

text \<open>
  \<^verbatim>\<open>float64\<close>: the product, the comparison \<^verbatim>\<open><\<close> of finite values, the conversion
  from an integer and, truncating, to \<^verbatim>\<open>int\<close>.
\<close>

datatype float64 = F64 int int | F64_Inf bool | F64_NaN

definition f64_round :: "int \<Rightarrow> int \<Rightarrow> float64" where
  "f64_round m e =
     (let n = nat \<bar>m\<bar>; e' = max e (max (e + int (floorlog 2 n) - 53) (-1074)); q = rne n (nat (e' - e))
      in if 0 < q \<and> 1024 < int (floorlog 2 q) + e' then F64_Inf (m < 0) else F64 (sgn m * int q) e')"

fun f64_mul :: "float64 \<Rightarrow> float64 \<Rightarrow> float64" where
  "f64_mul (F64 m1 e1) (F64 m2 e2) = f64_round (m1 * m2) (e1 + e2)"
| "f64_mul F64_NaN b = F64_NaN"
| "f64_mul a F64_NaN = F64_NaN"
| "f64_mul (F64_Inf s) (F64 m e) = (if m = 0 then F64_NaN else F64_Inf (s \<noteq> (m < 0)))"
| "f64_mul (F64 m e) (F64_Inf s) = (if m = 0 then F64_NaN else F64_Inf (s \<noteq> (m < 0)))"
| "f64_mul (F64_Inf s) (F64_Inf t) = F64_Inf (s \<noteq> t)"

fun f64_lt :: "float64 \<Rightarrow> float64 \<Rightarrow> bool" where
  "f64_lt (F64 m1 e1) (F64 m2 e2) = (case f32_align m1 e1 m2 e2 of (a, b, e) \<Rightarrow> a < b)"
| "f64_lt (F64_Inf s) (F64 m e) = s"
| "f64_lt (F64 m e) (F64_Inf s) = (\<not> s)"
| "f64_lt (F64_Inf s) (F64_Inf t) = (s \<and> \<not> t)"
| "f64_lt F64_NaN b = False"
| "f64_lt a F64_NaN = False"

definition int_of_f64 :: "(float64 \<Rightarrow> int) \<Rightarrow> float64 \<Rightarrow> int" where
  "int_of_f64 ovf f =
     (case f of
        F64 m e \<Rightarrow>
          (let v = trunc_exp m e in if - (2 ^ 63) \<le> v \<and> v < 2 ^ 63 then v else ovf f)
      | _ \<Rightarrow> ovf f)"

text \<open>Small values of the service's own arithmetic, evaluated.\<close>

lemma f32_mul_half: "f32_mul (F32 1 (-1)) (F32 100 0) = F32 100 (-1)"
  by code_simp

lemma int32_of_fifty: "int32_of_f32 ovf (F32 100 (-1)) = 50"
  by (simp add: int32_of_f32_def trunc_exp_def)

lemma rne_zero [simp]: "rne n 0 = n"
  by (simp add: rne_def)

lemma f64_round_small:
  assumes "0 \<le> m" and "m < 2 ^ 53"
  shows "f64_round m 0 = F64 m 0"
proof -
  have "floorlog 2 (nat m) \<le> 53"
    using assms by (intro floorlog_leI) (simp_all add: nat_less_iff)
  then have "max 0 (max (int (floorlog 2 (nat m)) - 53) (-1074)) = 0"
    "\<not> 1024 < int (floorlog 2 (nat m))" by simp_all
  then show ?thesis using assms(1) by (simp add: f64_round_def Let_def rne_def sgn_if)
qed

text \<open>
  Integers of at most 24 binary digits are exact: rounding returns the value it is given.
\<close>

lemma f32_round_exact:
  assumes "\<bar>m\<bar> < 2 ^ 24" and "-149 \<le> e" and "e \<le> 0"
  shows "f32_round m e = F32 m e"
proof -
  have small: "floorlog 2 (nat \<bar>m\<bar>) \<le> 24"
    using assms(1) by (intro floorlog_leI) auto
  then have "f32_round_exp (nat \<bar>m\<bar>) e = e"
    using assms(2) by (simp add: f32_round_exp_def)
  with small assms(3) show ?thesis
    by (simp add: f32_round_def Let_def mult_sgn_abs)
qed

section \<open>Bounds\<close>

text \<open>
  The value of a finite number, and a bound that rounding keeps: a result that is at most a
  power of two is still at most that power when rounded.
\<close>

fun f32_val :: "float32 \<Rightarrow> real" where
  "f32_val (F32 m e) = real_of_int m * 2 powi e"
| "f32_val f = 0"

definition f32_within :: "int \<Rightarrow> float32 \<Rightarrow> bool" where
  "f32_within k f \<longleftrightarrow> (\<exists>m e. f = F32 m e) \<and> \<bar>f32_val f\<bar> \<le> 2 powi k"

lemma rne_le: "n \<le> b * 2 ^ s \<Longrightarrow> rne n s \<le> b"
proof -
  assume n: "n \<le> b * 2 ^ s"
  then have q: "n div 2 ^ s \<le> b"
    by (metis div_le_mono nonzero_mult_div_cancel_right power_not_zero zero_neq_numeral)
  show ?thesis
  proof (cases "n div 2 ^ s = b")
    case True
    have "b * 2 ^ s + n mod 2 ^ s = n" using True div_mult_mod_eq [of n "2 ^ s"] by simp
    then have "n mod 2 ^ s = 0" using n by arith
    then show ?thesis using True by (simp add: rne_def)
  next
    case False
    then show ?thesis using q by (simp add: rne_def Let_def)
  qed
qed

lemma powi_nat: "k \<le> l \<Longrightarrow> (2 :: real) powi l = 2 ^ nat (l - k) * 2 powi k"
proof -
  assume "k \<le> l"
  then have "(2 :: real) powi l = 2 powi (l - k) * 2 powi k"
    by (simp add: power_int_add [symmetric])
  with \<open>k \<le> l\<close> show ?thesis by (simp add: power_int_def)
qed

lemma powi_leD: "(2 :: real) powi a \<le> 2 powi b \<Longrightarrow> a \<le> b"
  using power_int_strict_increasing [of b a "2 :: real"] by force

lemma scaled_le:
  assumes "real n * 2 powi e \<le> 2 powi k" and "e \<le> k"
  shows "n \<le> 2 ^ nat (k - e)"
proof -
  have "real n * 2 powi e \<le> 2 ^ nat (k - e) * 2 powi e"
    using assms(1) powi_nat [OF assms(2)] by simp
  then have "real n \<le> 2 ^ nat (k - e)"
    by (simp add: zero_less_power_int)
  then show ?thesis by (metis of_nat_le_iff of_nat_numeral of_nat_power)
qed

lemma f32_round_within:
  assumes le: "\<bar>real_of_int m\<bar> * 2 powi e \<le> 2 powi k" and k: "-149 \<le> k" "k \<le> 127"
  shows "f32_within k (f32_round m e)"
proof -
  let ?n = "nat \<bar>m\<bar>" and ?e' = "f32_round_exp (nat \<bar>m\<bar>) e"
  let ?q = "rne ?n (nat (?e' - e))"
  have n: "real ?n * 2 powi e \<le> 2 powi k" using le by simp
  have ee: "e \<le> ?e'" by (simp add: f32_round_exp_def)
  have bound: "?e' \<le> k \<and> ?q \<le> 2 ^ nat (k - ?e')" if pos: "0 < ?n"
  proof -
    have fl: "2 ^ (floorlog 2 ?n - 1) \<le> ?n" "0 < floorlog 2 ?n"
      using pos floorlog_bounds [of ?n 2] by (auto simp: floorlog_def)
    have "real (2 ^ (floorlog 2 ?n - 1)) * 2 powi e \<le> 2 powi k"
      using fl(1) n by (meson of_nat_le_iff mult_right_mono order_trans zero_le_power_int zero_le_numeral)
    moreover have "real (2 ^ (floorlog 2 ?n - 1)) * 2 powi e = 2 powi (int (floorlog 2 ?n - 1) + e)"
      by (simp add: power_int_add)
    ultimately have top: "int (floorlog 2 ?n - 1) + e \<le> k"
      by (simp only: powi_leD)
    then have e'k: "?e' \<le> k" using fl(2) k(1) by (simp add: f32_round_exp_def)
    then have "nat (k - e) = nat (k - ?e') + nat (?e' - e)" using ee by linarith
    then have "?n \<le> 2 ^ nat (k - ?e') * 2 ^ nat (?e' - e)"
      using scaled_le [OF n] e'k ee by (simp add: power_add)
    then show ?thesis using e'k rne_le by blast
  qed
  show ?thesis
  proof (cases "?q = 0")
    case True
    then show ?thesis by (simp add: f32_round_def Let_def f32_within_def)
  next
    case False
    have "rne 0 i = 0" for i by (simp add: rne_def)
    then have "0 < ?n" using False by (cases "?n = 0") auto
    note b = bound [OF this]
    have "?q < 2 ^ Suc (nat (k - ?e'))"
      using b by (intro le_less_trans [of ?q "2 ^ nat (k - ?e')"]) simp_all
    then have "floorlog 2 ?q \<le> Suc (nat (k - ?e'))"
      by (intro floorlog_leI) simp_all
    then have "int (floorlog 2 ?q) + ?e' \<le> 128" using b k(2) by linarith
    then have r: "f32_round m e = F32 (sgn m * int ?q) ?e'"
      by (simp add: f32_round_def Let_def)
    have "real ?q * 2 powi ?e' \<le> 2 ^ nat (k - ?e') * 2 powi ?e'"
      using b by (simp add: zero_less_power_int)
    then have "real ?q * 2 powi ?e' \<le> 2 powi k" using powi_nat [of ?e' k] b by simp
    moreover have "\<bar>real_of_int (sgn m * int ?q)\<bar> = real ?q \<or> real_of_int (sgn m * int ?q) = 0"
      by (cases "m = 0") (simp_all add: abs_mult sgn_if)
    ultimately show ?thesis
      by (auto simp: r f32_within_def abs_mult)
  qed
qed

lemma f32_align_val:
  assumes "f32_align m1 e1 m2 e2 = (a, b, e)"
  shows "real_of_int a * 2 powi e = real_of_int m1 * 2 powi e1"
    and "real_of_int b * 2 powi e = real_of_int m2 * 2 powi e2"
  using assms powi_nat [of e e1] powi_nat [of e e2]
  by (auto simp: f32_align_def Let_def)

lemma f32_sub_within:
  assumes "\<bar>f32_val (F32 m1 e1) - f32_val (F32 m2 e2)\<bar> \<le> 2 powi k" and "-149 \<le> k" and "k \<le> 127"
  shows "f32_within k (f32_sub (F32 m1 e1) (F32 m2 e2))"
proof -
  obtain a b e where al: "f32_align m1 e1 m2 e2 = (a, b, e)" by (metis prod_cases3)
  have "real_of_int (a - b) * 2 powi e = f32_val (F32 m1 e1) - f32_val (F32 m2 e2)"
    using f32_align_val [OF al] by (simp add: left_diff_distrib)
  then have "\<bar>real_of_int (a - b)\<bar> * 2 powi e \<le> 2 powi k"
    using assms(1) by (metis abs_mult abs_of_nonneg zero_le_numeral zero_le_power_int)
  then show ?thesis using f32_round_within [OF _ assms(2,3), of "a - b" e] al by simp
qed

lemma f32_mul_within:
  assumes "\<bar>f32_val (F32 m1 e1) * f32_val (F32 m2 e2)\<bar> \<le> 2 powi k" and "-149 \<le> k" and "k \<le> 127"
  shows "f32_within k (f32_mul (F32 m1 e1) (F32 m2 e2))"
proof -
  have "\<bar>real_of_int (m1 * m2)\<bar> * 2 powi (e1 + e2) = \<bar>f32_val (F32 m1 e1) * f32_val (F32 m2 e2)\<bar>"
    by (simp add: power_int_add abs_mult)
  then show ?thesis using f32_round_within [OF _ assms(2,3), of "m1 * m2" "e1 + e2"] assms(1) by simp
qed

lemma trunc_exp_bound:
  assumes "\<bar>real_of_int m\<bar> * 2 powi e \<le> 2 ^ k"
  shows "\<bar>trunc_exp m e\<bar> \<le> 2 ^ k"
proof (cases "0 \<le> e")
  case True
  then have "real_of_int \<bar>m * 2 ^ nat e\<bar> \<le> real_of_int (2 ^ k)"
    using assms by (simp add: abs_mult power_int_def)
  then have "\<bar>m * 2 ^ nat e\<bar> \<le> 2 ^ k" by (simp only: of_int_le_iff)
  then show ?thesis using True by (simp add: trunc_exp_def)
next
  case False
  have "real_of_int \<bar>m\<bar> \<le> 2 ^ k * 2 ^ nat (- e)"
    using assms False by (simp add: power_int_def field_simps power_one_over)
  then have "real_of_int \<bar>m\<bar> \<le> real_of_int (2 ^ k * 2 ^ nat (- e))" by simp
  then have "\<bar>m\<bar> \<le> 2 ^ k * 2 ^ nat (- e)" by (simp only: of_int_le_iff)
  then have "\<bar>m\<bar> div 2 ^ nat (- e) \<le> 2 ^ k * 2 ^ nat (- e) div 2 ^ nat (- e)"
    by (intro zdiv_mono1) simp_all
  then show ?thesis using False
    by (auto simp: trunc_exp_def abs_mult sgn_if pos_imp_zdiv_nonneg_iff)
qed

lemma int32_within:
  assumes "f32_within (int k) f" and "k < 31"
  shows "\<bar>sint (int32_of_f32 ovf f)\<bar> \<le> 2 ^ k"
proof -
  obtain m e where f: "f = F32 m e" "\<bar>real_of_int m\<bar> * 2 powi e \<le> 2 ^ k"
    using assms(1) by (auto simp: f32_within_def abs_mult)
  have t: "\<bar>trunc_exp m e\<bar> \<le> 2 ^ k" using f(2) by (rule trunc_exp_bound)
  have "(2 :: int) ^ k < 2 ^ 31" using assms(2) by (intro power_strict_increasing) simp_all
  with t have r: "- (2 ^ 31) \<le> trunc_exp m e" "trunc_exp m e < 2 ^ 31" by linarith+
  then have "sint (word_of_int (trunc_exp m e) :: i32) = trunc_exp m e"
    by (simp add: signed_of_int signed_take_bit_int_eq_self)
  with t r f(1) show ?thesis by (simp add: int32_of_f32_def Let_def)
qed

lemma f32_mul_add_within:
  assumes xy: "\<bar>f32_val (F32 m1 e1) * f32_val (F32 m2 e2)\<bar> \<le> 2 powi k"
    and z: "\<bar>f32_val (F32 m3 e3)\<bar> \<le> 2 powi k" and k: "-149 \<le> k" "k < 127"
  shows "f32_within (k + 1) (f32_mul_add fused (F32 m1 e1) (F32 m2 e2) (F32 m3 e3))"
proof -
  have two: "2 powi (k + 1) = 2 powi k + (2 :: real) powi k"
    by (simp add: power_int_add)
  show ?thesis
  proof (cases fused)
    case True
    obtain a b e where al: "f32_align (m1 * m2) (e1 + e2) m3 e3 = (a, b, e)" by (metis prod_cases3)
    have "real_of_int (a + b) * 2 powi e = f32_val (F32 m1 e1) * f32_val (F32 m2 e2) + f32_val (F32 m3 e3)"
      using f32_align_val [OF al] by (simp add: distrib_right power_int_add)
    moreover have "\<bar>f32_val (F32 m1 e1) * f32_val (F32 m2 e2) + f32_val (F32 m3 e3)\<bar> \<le> 2 powi (k + 1)"
      using xy z unfolding two by linarith
    ultimately have "\<bar>real_of_int (a + b)\<bar> * 2 powi e \<le> 2 powi (k + 1)"
      by (metis abs_mult abs_of_nonneg zero_le_numeral zero_le_power_int)
    then show ?thesis
      using f32_round_within [of "a + b" e "k + 1"] k True al by (simp add: f32_mul_add_def)
  next
    case False
    obtain m e where p: "f32_mul (F32 m1 e1) (F32 m2 e2) = F32 m e" "\<bar>f32_val (F32 m e)\<bar> \<le> 2 powi k"
      using f32_mul_within [OF xy] k unfolding f32_within_def by auto
    have "f32_val (F32 (- m3) e3) = - f32_val (F32 m3 e3)" by simp
    then have "\<bar>f32_val (F32 m e) - f32_val (F32 (- m3) e3)\<bar> \<le> 2 powi (k + 1)"
      using p(2) z unfolding two by linarith
    from f32_sub_within [OF this] k False p(1) show ?thesis
      by (simp add: f32_mul_add_def f32_add_def del: f32_mul.simps f32_sub.simps)
  qed
qed

section \<open>Lower bounds\<close>

text \<open>A result that is at least a power of two is still at least that power when rounded.\<close>

lemma rne_ge:
  assumes "b * 2 ^ s \<le> n"
  shows "b \<le> rne n s"
proof -
  have "b \<le> n div 2 ^ s" using assms by (simp add: less_eq_div_iff_mult_less_eq)
  then show ?thesis by (simp add: rne_def Let_def)
qed

lemma pos_mantissa: "0 < real_of_int m * 2 powi e \<Longrightarrow> 0 < m"
proof -
  assume "0 < real_of_int m * 2 powi e"
  moreover have "0 < (2 :: real) powi e" by (simp add: zero_less_power_int)
  ultimately show ?thesis by (simp add: zero_less_mult_iff)
qed

definition f32_at_least :: "int \<Rightarrow> float32 \<Rightarrow> bool" where
  "f32_at_least k f \<longleftrightarrow> (\<exists>m e. f = F32 m e) \<and> 2 powi k \<le> f32_val f"

lemma f32_round_at_least:
  assumes ge: "2 powi k \<le> real_of_int m * 2 powi e" and le: "real_of_int m * 2 powi e \<le> 2 powi l"
    and k: "-149 \<le> k" "k \<le> l" "l \<le> 127"
  shows "f32_at_least k (f32_round m e)"
proof -
  have "0 < real_of_int m * 2 powi e" using ge zero_less_power_int [of "2 :: real" k] by linarith
  then have m: "0 < m" by (rule pos_mantissa)
  let ?n = "nat \<bar>m\<bar>" and ?e' = "f32_round_exp (nat \<bar>m\<bar>) e"
  let ?q = "rne ?n (nat (?e' - e))" and ?K = "int (floorlog 2 (nat \<bar>m\<bar>)) - 1 + e"
  have fl: "2 ^ (floorlog 2 ?n - 1) \<le> ?n" "?n < 2 ^ floorlog 2 ?n" "0 < floorlog 2 ?n"
    using m floorlog_bounds [of ?n 2] by (auto simp: floorlog_def)
  have "real_of_int m = real ?n" using m by simp
  moreover have "real ?n < 2 ^ floorlog 2 ?n" using fl(2) by (metis of_nat_less_iff of_nat_numeral of_nat_power)
  ultimately have "real_of_int m * 2 powi e < 2 ^ floorlog 2 ?n * 2 powi e"
    by (simp add: zero_less_power_int)
  also have "\<dots> = 2 powi (?K + 1)" by (simp add: power_int_add)
  finally have "(2 :: real) powi k < 2 powi (?K + 1)" using ge by (rule le_less_trans [rotated])
  have kK: "k \<le> ?K"
  proof (rule ccontr)
    assume "\<not> k \<le> ?K"
    then have "(2 :: real) powi (?K + 1) \<le> 2 powi k" by (intro power_int_increasing) simp_all
    with \<open>2 powi k < 2 powi (?K + 1)\<close> show False by simp
  qed
  have ee: "e \<le> ?e'" "?e' \<le> ?K"
    using fl(3) kK k(1) by (auto simp: f32_round_exp_def)
  have "floorlog 2 ?n - 1 = nat (?K - ?e') + nat (?e' - e)" using ee fl(3) by linarith
  then have "2 ^ nat (?K - ?e') * 2 ^ nat (?e' - e) \<le> ?n" using fl(1) by (simp add: power_add)
  then have q: "2 ^ nat (?K - ?e') \<le> ?q" by (rule rne_ge)
  have w: "f32_within l (f32_round m e)" using le m k by (intro f32_round_within) simp_all
  then have r: "f32_round m e = F32 (int ?q) ?e'"
    using m by (auto simp: f32_within_def f32_round_def Let_def split: if_splits)
  have "(2 :: real) powi k \<le> 2 powi ?K" using kK by (intro power_int_increasing) simp_all
  also have "\<dots> = 2 ^ nat (?K - ?e') * 2 powi ?e'" using powi_nat [OF ee(2)] .
  also have "\<dots> \<le> real ?q * 2 powi ?e'"
    using q by (simp add: zero_less_power_int)
  finally show ?thesis by (simp add: f32_at_least_def r)
qed

lemma f32_mul_at_least:
  assumes "2 powi k \<le> f32_val (F32 m1 e1) * f32_val (F32 m2 e2)"
    and "f32_val (F32 m1 e1) * f32_val (F32 m2 e2) \<le> 2 powi l" and "-149 \<le> k" "k \<le> l" "l \<le> 127"
  shows "f32_at_least k (f32_mul (F32 m1 e1) (F32 m2 e2)) \<and> f32_within l (f32_mul (F32 m1 e1) (F32 m2 e2))"
proof -
  have v: "real_of_int (m1 * m2) * 2 powi (e1 + e2) = f32_val (F32 m1 e1) * f32_val (F32 m2 e2)"
    by (simp add: power_int_add)
  have "0 < f32_val (F32 m1 e1) * f32_val (F32 m2 e2)"
    using assms(1) zero_less_power_int [of "2 :: real" k] by linarith
  then have "\<bar>f32_val (F32 m1 e1) * f32_val (F32 m2 e2)\<bar> \<le> 2 powi l" using assms(2) by linarith
  moreover have "f32_at_least k (f32_round (m1 * m2) (e1 + e2))"
    by (rule f32_round_at_least [of _ _ _ l]) (simp_all only: v assms)
  ultimately show ?thesis using f32_mul_within assms(3-5) by simp
qed

lemma int32_at_least:
  assumes "f32_at_least (int k) f" and "f32_within (int l) f" and "l < 31"
  shows "2 ^ k \<le> sint (int32_of_f32 ovf f)"
proof -
  obtain m e where f: "f = F32 m e" "2 ^ k \<le> real_of_int m * 2 powi e"
    using assms(1) by (auto simp: f32_at_least_def)
  have "0 < real_of_int m * 2 powi e" using f(2) zero_less_power [of "2 :: real" k] by linarith
  then have m: "0 < m" by (rule pos_mantissa)
  have t: "2 ^ k \<le> trunc_exp m e"
  proof (cases "0 \<le> e")
    case True
    then have "real_of_int (2 ^ k) \<le> real_of_int (m * 2 ^ nat e)" using f(2) by (simp add: power_int_def)
    then have "2 ^ k \<le> m * 2 ^ nat e" by (simp only: of_int_le_iff)
    then show ?thesis using True by (simp add: trunc_exp_def)
  next
    case False
    have "2 ^ k * 2 ^ nat (- e) \<le> real_of_int m"
      using f(2) False by (simp add: power_int_def field_simps power_one_over)
    then have "real_of_int (2 ^ k * 2 ^ nat (- e)) \<le> real_of_int m" by simp
    then have "2 ^ k * 2 ^ nat (- e) \<le> m" by (simp only: of_int_le_iff)
    then have "2 ^ k * 2 ^ nat (- e) div 2 ^ nat (- e) \<le> m div 2 ^ nat (- e)"
      by (intro zdiv_mono1) simp_all
    then show ?thesis using False m by (simp add: trunc_exp_def)
  qed
  have "\<bar>real_of_int m\<bar> * 2 powi e \<le> 2 ^ l"
    using assms(2) f(1) by (auto simp: f32_within_def abs_mult)
  from trunc_exp_bound [OF this] have "trunc_exp m e \<le> 2 ^ l" by simp
  moreover have "(2 :: int) ^ l < 2 ^ 31" using assms(3) by (intro power_strict_increasing) simp_all
  moreover have "- (2 ^ 31) \<le> (0 :: int)" "0 \<le> (2 :: int) ^ k" by simp_all
  then have "- (2 ^ 31) \<le> trunc_exp m e" using t by linarith
  ultimately have r: "- (2 ^ 31) \<le> trunc_exp m e" "trunc_exp m e < 2 ^ 31" by linarith+
  then have "sint (word_of_int (trunc_exp m e) :: i32) = trunc_exp m e"
    by (simp add: signed_of_int signed_take_bit_int_eq_self)
  with t r f(1) show ?thesis by (simp add: int32_of_f32_def Let_def)
qed

end
