(* ===== verification/Service_Types.thy ===== *)
theory Service_Types
  imports Go_Prelude Go_Float32
begin

text \<open>
  The data of \<^verbatim>\<open>types.go\<close>: the workload constants, the pair key, the order
  metadata, the ranked output (\<^verbatim>\<open>ReadBuffer\<close>) behind its atomic pointer
  (\<^verbatim>\<open>DoubleBuffer\<close>), and the scratch entries of the ranking phase.  The two Go
  implementations share these structures; what differs between them (the sizes, and
  \<^verbatim>\<open>GetList\<close>) is given for each.

  The compile-time sizes are gathered in a record \<open>workload\<close>, an argument of every
  definition that uses one, so that each theorem holds for any sizes and the definitions
  can be evaluated on small ones.  \<open>pure_workload\<close> and \<open>cgo_workload\<close> are the sizes the
  two programs are compiled with.
\<close>

unbundle bit_operations_syntax

section \<open>Workload constants\<close>

record workload =
  NumOrders :: nat
  numPPS :: nat
  numBinTags :: nat
  TopK :: nat

definition pure_workload :: workload where
  "pure_workload = \<lparr>NumOrders = 1000000, numPPS = 200, numBinTags = 20, TopK = 1000\<rparr>"

definition cgo_workload :: workload where
  "cgo_workload = \<lparr>NumOrders = 300000, numPPS = 70, numBinTags = 10, TopK = 1000\<rparr>"

definition PairsPerPod :: "workload \<Rightarrow> nat" where
  "PairsPerPod w = numPPS w * numBinTags w"

definition NumTables :: nat where "NumTables = 4"
definition TblHeuristic :: nat where "TblHeuristic = 0"
definition TblLarge :: nat where "TblLarge = 1"
definition TblPBT :: nat where "TblPBT = 2"
definition TblCritical :: nat where "TblCritical = 3"

definition LargeQtyThreshold :: float32 where "LargeQtyThreshold = F32 10 0"
definition CriticalCutoff :: i64 where "CriticalCutoff = 1800"
definition ScoreScale :: float32 where "ScoreScale = F32 100 0"
definition OrderTTLSecs :: i64 where "OrderTTLSecs = 3600"

text \<open>The package variable \<^verbatim>\<open>NumWorkers\<close>: initialised to 30 and never assigned.\<close>

definition NumWorkers :: int where "NumWorkers = 30"

lemmas table_defs = NumTables_def TblHeuristic_def TblLarge_def TblPBT_def TblCritical_def

text \<open>
  What the code needs of its sizes: there is an order and a PPS, and an order ID of the
  registry fits a non-negative \<^verbatim>\<open>int32\<close>, the type of the ranked IDs.
\<close>

definition workload_ok :: "workload \<Rightarrow> bool" where
  "workload_ok w \<longleftrightarrow> 0 < NumOrders w \<and> NumOrders w < 2 ^ 31 \<and> 0 < numPPS w \<and> numPPS w < 2 ^ 31"

lemma workload_ok_pure: "workload_ok pure_workload"
  by (simp add: workload_ok_def pure_workload_def)

lemma workload_ok_cgo: "workload_ok cgo_workload"
  by (simp add: workload_ok_def cgo_workload_def)

section \<open>Pair keys\<close>

definition MakePairKey :: "u32 \<Rightarrow> u32 \<Rightarrow> u64" where
  "MakePairKey ppsID bintagID = push_bit 32 (ucast ppsID) OR ucast bintagID"

text \<open>The two halves of a key, read back.\<close>

definition key_pps :: "u64 \<Rightarrow> u32" where "key_pps k = ucast (drop_bit 32 k)"
definition key_bintag :: "u64 \<Rightarrow> u32" where "key_bintag k = ucast k"

lemma key_pps_MakePairKey: "key_pps (MakePairKey p b) = p"
  unfolding key_pps_def MakePairKey_def
  by (rule bit_word_eqI) (auto simp: bit_simps dest: bit_imp_le_length)

lemma key_bintag_MakePairKey: "key_bintag (MakePairKey p b) = b"
  unfolding key_bintag_def MakePairKey_def
  by (rule bit_word_eqI) (auto simp: bit_simps)

lemma MakePairKey_eq_iff [simp]:
  "MakePairKey p b = MakePairKey p' b' \<longleftrightarrow> p = p' \<and> b = b'"
  by (metis key_pps_MakePairKey key_bintag_MakePairKey)

section \<open>Records\<close>

record order_meta =
  OrderID :: u32
  RequiredQty :: float32
  PBTDeadline :: i64
  Active :: bool
  InsertedAtSecs :: i64

definition zero_meta :: order_meta where
  "zero_meta = \<lparr>OrderID = 0, RequiredQty = F32 0 0, PBTDeadline = 0, Active = False,
                 InsertedAtSecs = 0\<rparr>"

record pair_info =
  PPSID :: u32
  BinTagID :: u32
  Key :: u64

record cycle_stats =
  Phase1Ms :: i64
  Phase2Ms :: i64
  TotalMs :: i64
  SLAOk :: bool

record score_entry =
  score :: i32
  orderID :: i32

abbreviation entry :: "i32 \<Rightarrow> i32 \<Rightarrow> score_entry" where
  "entry s oid \<equiv> \<lparr>score = s, orderID = oid\<rparr>"

record worker_scratch =
  heuristic :: "score_entry list"
  large :: "score_entry list"
  pbt :: "score_entry list"
  critical :: "score_entry list"

definition empty_scratch :: worker_scratch where
  "empty_scratch = \<lparr>heuristic = [], large = [], pbt = [], critical = []\<rparr>"

section \<open>The Go run-time as a parameter\<close>

text \<open>
  What the source uses and neither the language nor its library determines:
  \<^item> \<open>sort_Slice\<close>, the library's \<^verbatim>\<open>sort.Slice\<close>, which the documentation says is not
    stable; the order it gives equal elements is its own.  What is documented is
    \<open>sort_contract\<close>: the slice is permuted, and no element is less than an earlier one,
    for any \<^verbatim>\<open>less\<close> that is a strict weak order;
  \<^item> \<open>float_overflow\<close>, the result of \<^verbatim>\<open>int32(f)\<close> when \<open>f\<close> does not fit, and
    \<open>float64_overflow\<close>, that of \<^verbatim>\<open>int(f)\<close> for a \<^verbatim>\<open>float64\<close>;
  \<^item> \<open>fuses\<close>, whether \<^verbatim>\<open>x * y + z\<close> is rounded once.
\<close>

record go_runtime =
  sort_Slice :: "(score_entry \<Rightarrow> score_entry \<Rightarrow> bool) \<Rightarrow> score_entry list \<Rightarrow> score_entry list"
  float_overflow :: "float32 \<Rightarrow> i32"
  float64_overflow :: "float64 \<Rightarrow> int"
  fuses :: bool

definition strict_weak :: "('a \<Rightarrow> 'a \<Rightarrow> bool) \<Rightarrow> bool" where
  "strict_weak lt \<longleftrightarrow>
     (\<forall>x. \<not> lt x x) \<and> (\<forall>x y z. lt x y \<longrightarrow> lt y z \<longrightarrow> lt x z) \<and>
     (\<forall>x y z. \<not> lt x y \<longrightarrow> \<not> lt y z \<longrightarrow> \<not> lt x z)"

definition sort_contract :: "go_runtime \<Rightarrow> bool" where
  "sort_contract rt \<longleftrightarrow>
     (\<forall>lt xs. strict_weak lt \<longrightarrow>
        mset (sort_Slice rt lt xs) = mset xs \<and>
        sorted_wrt (\<lambda>x y. \<not> lt y x) (sort_Slice rt lt xs))"

text \<open>
  A run-time that meets the contract: the insertion sort that \<^verbatim>\<open>sort.Slice\<close> itself
  runs on short slices, and the conversion of an amd64 processor.
\<close>

fun insort_less :: "('a \<Rightarrow> 'a \<Rightarrow> bool) \<Rightarrow> 'a \<Rightarrow> 'a list \<Rightarrow> 'a list" where
  "insort_less lt x [] = [x]"
| "insort_less lt x (y # ys) = (if lt y x then y # insort_less lt x ys else x # y # ys)"

fun insertion_sort :: "('a \<Rightarrow> 'a \<Rightarrow> bool) \<Rightarrow> 'a list \<Rightarrow> 'a list" where
  "insertion_sort lt [] = []"
| "insertion_sort lt (x # xs) = insort_less lt x (insertion_sort lt xs)"

definition amd64_runtime :: go_runtime where
  "amd64_runtime = \<lparr>sort_Slice = insertion_sort, float_overflow = (\<lambda>_. - (2 ^ 31)),
     float64_overflow = (\<lambda>_. - (2 ^ 63)), fuses = False\<rparr>"

lemma mset_insort_less: "mset (insort_less lt x ys) = add_mset x (mset ys)"
  by (induction ys) auto

lemma set_insort_less [simp]: "set (insort_less lt x ys) = insert x (set ys)"
  using mset_insort_less [of lt x ys] by (metis set_mset_add_mset_insert set_mset_mset)

lemma sorted_insort_less:
  assumes "strict_weak lt" and "sorted_wrt (\<lambda>x y. \<not> lt y x) ys"
  shows "sorted_wrt (\<lambda>x y. \<not> lt y x) (insort_less lt x ys)"
  using assms(2)
proof (induction ys)
  case (Cons y ys)
  from assms(1) have asym: "lt y x \<Longrightarrow> \<not> lt x y" unfolding strict_weak_def by blast
  from assms(1) have trans: "\<not> lt z y \<Longrightarrow> \<not> lt y x \<Longrightarrow> \<not> lt z x" for z
    unfolding strict_weak_def by blast
  show ?case using Cons asym trans by auto
qed simp

lemma sort_contract_amd64: "sort_contract amd64_runtime"
proof -
  have "mset (insertion_sort lt xs) = mset xs"
    for lt :: "score_entry \<Rightarrow> score_entry \<Rightarrow> bool" and xs
    by (induction xs) (auto simp: mset_insort_less)
  moreover have "strict_weak lt \<Longrightarrow> sorted_wrt (\<lambda>x y. \<not> lt y x) (insertion_sort lt xs)"
    for lt :: "score_entry \<Rightarrow> score_entry \<Rightarrow> bool" and xs
    by (induction xs) (auto intro: sorted_insort_less)
  ultimately show ?thesis by (simp add: sort_contract_def amd64_runtime_def)
qed

end
