(* ===== verification/Inverted_Index.thy ===== *)
theory Inverted_Index
  imports Service_Types
begin

text \<open>
  \<^verbatim>\<open>InvertedIndexes\<close> of \<^verbatim>\<open>registry.go\<close>: from a TPID or a BinTag ID to the orders
  that have it, with reverse maps from which an order's entries are removed.  A list may
  hold an order more than once (an event may name a TPID twice), so the invariant counts:
  an order occurs in the list of a key exactly as often as the key occurs in the order's
  reverse list.  From it follows that removing an order leaves no trace of it.

  The interface \<open>order_index\<close> is what the registry and the ingestion rely on; the
  indexes of both implementations provide it (their source text is the same).
\<close>

section \<open>The code\<close>

record inverted_indexes =
  TPIDToOrders :: "u64 \<rightharpoonup> u32 list"
  BinTagToOrders :: "u32 \<rightharpoonup> u32 list"
  reverseTPID :: "u32 \<rightharpoonup> u64 list"
  reverseBinTag :: "u32 \<rightharpoonup> u32 list"

definition NewInvertedIndexes :: inverted_indexes where
  "NewInvertedIndexes = \<lparr>TPIDToOrders = Map.empty, BinTagToOrders = Map.empty,
                          reverseTPID = Map.empty, reverseBinTag = Map.empty\<rparr>"

fun removeUint32 :: "u32 list \<Rightarrow> u32 \<Rightarrow> u32 list" where
  "removeUint32 [] v = []"
| "removeUint32 (x # s) v = (if x = v then s else x # removeUint32 s v)"

text \<open>One round of the loops of \<^verbatim>\<open>RemoveOrder\<close> and \<^verbatim>\<open>AddOrder\<close>.\<close>

definition remove_entry :: "u32 \<Rightarrow> 'k \<Rightarrow> ('k \<rightharpoonup> u32 list) \<Rightarrow> ('k \<rightharpoonup> u32 list)" where
  "remove_entry oid k m =
     (let l = removeUint32 (map_list m k) oid
      in if length l = 0 then m(k := None) else m(k \<mapsto> l))"

definition append_entry :: "u32 \<Rightarrow> 'k \<Rightarrow> ('k \<rightharpoonup> u32 list) \<Rightarrow> ('k \<rightharpoonup> u32 list)" where
  "append_entry oid k m = m(k \<mapsto> map_list m k @ [oid])"

definition RemoveOrder :: "u32 \<Rightarrow> inverted_indexes \<Rightarrow> inverted_indexes" where
  "RemoveOrder oid ix =
     (let ix1 = ix\<lparr>TPIDToOrders :=
                     fold (remove_entry oid) (map_list (reverseTPID ix) oid) (TPIDToOrders ix)\<rparr>;
          ix2 = ix1\<lparr>reverseTPID := (reverseTPID ix1)(oid := None)\<rparr>;
          ix3 = ix2\<lparr>BinTagToOrders :=
                     fold (remove_entry oid) (map_list (reverseBinTag ix2) oid) (BinTagToOrders ix2)\<rparr>
      in ix3\<lparr>reverseBinTag := (reverseBinTag ix3)(oid := None)\<rparr>)"

definition AddOrder :: "u32 \<Rightarrow> u64 list \<Rightarrow> u32 list \<Rightarrow> inverted_indexes \<Rightarrow> inverted_indexes" where
  "AddOrder oid tpids bintagIDs ix =
     (let ix0 = RemoveOrder oid ix;
          ix1 = ix0\<lparr>TPIDToOrders := fold (append_entry oid) tpids (TPIDToOrders ix0)\<rparr>;
          ix2 = ix1\<lparr>BinTagToOrders := fold (append_entry oid) bintagIDs (BinTagToOrders ix1)\<rparr>;
          ix3 = (if 0 < length tpids
                 then ix2\<lparr>reverseTPID := (reverseTPID ix2)(oid \<mapsto> tpids)\<rparr> else ix2)
      in if 0 < length bintagIDs
         then ix3\<lparr>reverseBinTag := (reverseBinTag ix3)(oid \<mapsto> bintagIDs)\<rparr> else ix3)"

text \<open>The cgo implementation's copies of the same functions.\<close>

fun cgo_removeUint32 :: "u32 list \<Rightarrow> u32 \<Rightarrow> u32 list" where
  "cgo_removeUint32 [] v = []"
| "cgo_removeUint32 (x # s) v = (if x = v then s else x # cgo_removeUint32 s v)"

definition cgo_remove_entry :: "u32 \<Rightarrow> 'k \<Rightarrow> ('k \<rightharpoonup> u32 list) \<Rightarrow> ('k \<rightharpoonup> u32 list)" where
  "cgo_remove_entry oid k m =
     (let l = cgo_removeUint32 (map_list m k) oid
      in if length l = 0 then m(k := None) else m(k \<mapsto> l))"

definition cgo_RemoveOrder :: "u32 \<Rightarrow> inverted_indexes \<Rightarrow> inverted_indexes" where
  "cgo_RemoveOrder oid ix =
     (let ix1 = ix\<lparr>TPIDToOrders :=
                     fold (cgo_remove_entry oid) (map_list (reverseTPID ix) oid) (TPIDToOrders ix)\<rparr>;
          ix2 = ix1\<lparr>reverseTPID := (reverseTPID ix1)(oid := None)\<rparr>;
          ix3 = ix2\<lparr>BinTagToOrders :=
                  fold (cgo_remove_entry oid) (map_list (reverseBinTag ix2) oid) (BinTagToOrders ix2)\<rparr>
      in ix3\<lparr>reverseBinTag := (reverseBinTag ix3)(oid := None)\<rparr>)"

definition cgo_AddOrder ::
  "u32 \<Rightarrow> u64 list \<Rightarrow> u32 list \<Rightarrow> inverted_indexes \<Rightarrow> inverted_indexes" where
  "cgo_AddOrder oid tpids bintagIDs ix =
     (let ix0 = cgo_RemoveOrder oid ix;
          ix1 = ix0\<lparr>TPIDToOrders := fold (append_entry oid) tpids (TPIDToOrders ix0)\<rparr>;
          ix2 = ix1\<lparr>BinTagToOrders := fold (append_entry oid) bintagIDs (BinTagToOrders ix1)\<rparr>;
          ix3 = (if 0 < length tpids
                 then ix2\<lparr>reverseTPID := (reverseTPID ix2)(oid \<mapsto> tpids)\<rparr> else ix2)
      in if 0 < length bintagIDs
         then ix3\<lparr>reverseBinTag := (reverseBinTag ix3)(oid \<mapsto> bintagIDs)\<rparr> else ix3)"

lemma cgo_removeUint32_eq: "cgo_removeUint32 = removeUint32"
proof -
  have "cgo_removeUint32 s v = removeUint32 s v" for s v by (induction s) auto
  then show ?thesis by (simp add: fun_eq_iff)
qed

lemma cgo_remove_entry_eq: "cgo_remove_entry = remove_entry"
  by (simp add: fun_eq_iff cgo_remove_entry_def remove_entry_def cgo_removeUint32_eq)

lemma cgo_RemoveOrder_eq: "cgo_RemoveOrder = RemoveOrder"
  by (simp add: fun_eq_iff cgo_RemoveOrder_def RemoveOrder_def cgo_remove_entry_eq)

lemma cgo_AddOrder_eq: "cgo_AddOrder = AddOrder"
  by (simp add: fun_eq_iff cgo_AddOrder_def AddOrder_def cgo_RemoveOrder_eq)

section \<open>One direction of the index\<close>

lemma removeUint32_eq: "removeUint32 s v = remove1 v s"
  by (induction s) auto

lemma map_list_remove_entry:
  "map_list (remove_entry oid k m) k' =
     (if k' = k then remove1 oid (map_list m k) else map_list m k')"
  by (auto simp: remove_entry_def removeUint32_eq Let_def)

lemma map_list_append_entry:
  "map_list (append_entry oid k m) k' =
     (if k' = k then map_list m k @ [oid] else map_list m k')"
  by (simp add: append_entry_def)

lemma map_list_remove_entries:
  "map_list (fold (remove_entry oid) ks m) k = (remove1 oid ^^ count_list ks k) (map_list m k)"
  by (induction ks arbitrary: m) (auto simp: map_list_remove_entry funpow_swap1)

lemma map_list_append_entries:
  "map_list (fold (append_entry oid) ks m) k =
     map_list m k @ replicate (count_list ks k) oid"
  by (induction ks arbitrary: m) (auto simp: map_list_append_entry)

lemma remove1_iterated:
  "count_list xs x \<le> n \<Longrightarrow> (remove1 x ^^ n) xs = removeAll x xs"
proof (induction n arbitrary: xs)
  case 0
  then show ?case by (simp add: removeAll_id count_list_0_iff)
next
  case (Suc n)
  have count: "count_list (remove1 x xs) x = count_list xs x - 1" by (induction xs) auto
  have all: "removeAll x (remove1 x xs) = removeAll x xs" by (induction xs) auto
  show ?case using Suc.IH [of "remove1 x xs"] Suc.prems
    by (simp add: funpow_swap1 count all)
qed

lemma count_list_removeAll: "count_list (removeAll x xs) y = (if y = x then 0 else count_list xs y)"
  by (induction xs) auto

lemma count_list_replicate_eq: "count_list (replicate n x) y = (if x = y then n else 0)"
  by (induction n) auto

text \<open>No key is kept with an empty list.\<close>

definition no_empty :: "('k \<rightharpoonup> 'v list) \<Rightarrow> bool" where
  "no_empty m \<longleftrightarrow> (\<forall>k. m k \<noteq> Some [])"

lemma no_empty_remove_entries: "no_empty m \<Longrightarrow> no_empty (fold (remove_entry oid) ks m)"
  by (induction ks arbitrary: m) (auto simp: no_empty_def remove_entry_def Let_def)

lemma no_empty_append_entries: "no_empty m \<Longrightarrow> no_empty (fold (append_entry oid) ks m)"
  by (induction ks arbitrary: m) (auto simp: no_empty_def append_entry_def)

lemma no_empty_upd: "no_empty m \<Longrightarrow> xs \<noteq> [] \<Longrightarrow> no_empty (m(k \<mapsto> xs))"
  by (simp add: no_empty_def)

lemma no_empty_del: "no_empty m \<Longrightarrow> no_empty (m(k := None))"
  by (simp add: no_empty_def)

definition mirrored :: "('k \<rightharpoonup> u32 list) \<Rightarrow> (u32 \<rightharpoonup> 'k list) \<Rightarrow> bool" where
  "mirrored fwd back \<longleftrightarrow>
     (\<forall>k oid. count_list (map_list fwd k) oid = count_list (map_list back oid) k)"

lemma mirrored_remove_lookup:
  assumes "mirrored fwd back"
  shows "map_list (fold (remove_entry oid) (map_list back oid) fwd) k = removeAll oid (map_list fwd k)"
  using assms by (simp add: map_list_remove_entries remove1_iterated mirrored_def)

lemma mirrored_remove:
  assumes "mirrored fwd back"
  shows "mirrored (fold (remove_entry oid) (map_list back oid) fwd) (back(oid := None))"
  using assms by (simp add: mirrored_def mirrored_remove_lookup count_list_removeAll)

lemma mirrored_append:
  assumes "mirrored fwd back" and "map_list back oid = []"
  shows "mirrored (fold (append_entry oid) ks fwd) (back(oid \<mapsto> ks))"
  using assms
  by (auto simp: mirrored_def map_list_append_entries count_list_append count_list_replicate_eq)

section \<open>Both directions\<close>

definition index_inv :: "inverted_indexes \<Rightarrow> bool" where
  "index_inv ix \<longleftrightarrow>
     mirrored (TPIDToOrders ix) (reverseTPID ix) \<and> mirrored (BinTagToOrders ix) (reverseBinTag ix) \<and>
     no_empty (TPIDToOrders ix) \<and> no_empty (BinTagToOrders ix) \<and>
     no_empty (reverseTPID ix) \<and> no_empty (reverseBinTag ix)"

definition tpid_orders :: "inverted_indexes \<Rightarrow> u64 \<Rightarrow> u32 list" where
  "tpid_orders ix = map_list (TPIDToOrders ix)"

definition bintag_orders :: "inverted_indexes \<Rightarrow> u32 \<Rightarrow> u32 list" where
  "bintag_orders ix = map_list (BinTagToOrders ix)"

lemma index_inv_New: "index_inv NewInvertedIndexes"
  by (simp add: index_inv_def NewInvertedIndexes_def mirrored_def no_empty_def)

lemma index_inv_RemoveOrder: "index_inv ix \<Longrightarrow> index_inv (RemoveOrder oid ix)"
  by (simp add: index_inv_def RemoveOrder_def Let_def mirrored_remove no_empty_remove_entries
      no_empty_del)

lemma tpid_orders_RemoveOrder:
  "index_inv ix \<Longrightarrow> tpid_orders (RemoveOrder oid ix) k = removeAll oid (tpid_orders ix k)"
  by (simp add: index_inv_def tpid_orders_def RemoveOrder_def Let_def mirrored_remove_lookup)

lemma bintag_orders_RemoveOrder:
  "index_inv ix \<Longrightarrow> bintag_orders (RemoveOrder oid ix) k = removeAll oid (bintag_orders ix k)"
  by (simp add: index_inv_def bintag_orders_def RemoveOrder_def Let_def mirrored_remove_lookup)

lemma reverse_RemoveOrder:
  "reverseTPID (RemoveOrder oid ix) oid = None" "reverseBinTag (RemoveOrder oid ix) oid = None"
  by (simp_all add: RemoveOrder_def Let_def)

lemma reverse_map_list_RemoveOrder [simp]:
  "map_list (reverseTPID (RemoveOrder oid ix)) oid = []"
  "map_list (reverseBinTag (RemoveOrder oid ix)) oid = []"
  by (simp_all add: map_list_def reverse_RemoveOrder)

lemma index_inv_AddOrder:
  assumes "index_inv ix"
  shows "index_inv (AddOrder oid tpids bts ix)"
proof -
  let ?ix = "RemoveOrder oid ix"
  have inv: "index_inv ?ix" using assms by (rule index_inv_RemoveOrder)
  then have "mirrored (fold (append_entry oid) tpids (TPIDToOrders ?ix)) ((reverseTPID ?ix)(oid \<mapsto> tpids))"
    and "mirrored (fold (append_entry oid) bts (BinTagToOrders ?ix)) ((reverseBinTag ?ix)(oid \<mapsto> bts))"
    by (simp_all add: index_inv_def mirrored_append)
  then show ?thesis using inv
    by (simp add: index_inv_def AddOrder_def Let_def no_empty_append_entries no_empty_upd)
qed

lemma tpid_orders_AddOrder:
  "index_inv ix \<Longrightarrow>
     tpid_orders (AddOrder oid tpids bts ix) k =
       removeAll oid (tpid_orders ix k) @ replicate (count_list tpids k) oid"
  using tpid_orders_RemoveOrder [of ix oid k]
  by (simp add: AddOrder_def Let_def map_list_append_entries tpid_orders_def)

lemma bintag_orders_AddOrder:
  "index_inv ix \<Longrightarrow>
     bintag_orders (AddOrder oid tpids bts ix) k =
       removeAll oid (bintag_orders ix k) @ replicate (count_list bts k) oid"
  using bintag_orders_RemoveOrder [of ix oid k]
  by (simp add: AddOrder_def Let_def map_list_append_entries bintag_orders_def)

section \<open>The interface\<close>

locale order_index =
  fixes add :: "u32 \<Rightarrow> u64 list \<Rightarrow> u32 list \<Rightarrow> 'ix \<Rightarrow> 'ix"
    and remove :: "u32 \<Rightarrow> 'ix \<Rightarrow> 'ix"
    and by_tpid :: "'ix \<Rightarrow> u64 \<Rightarrow> u32 list"
    and by_bintag :: "'ix \<Rightarrow> u32 \<Rightarrow> u32 list"
    and invar :: "'ix \<Rightarrow> bool"
  assumes invar_add: "invar ix \<Longrightarrow> invar (add oid ts bs ix)"
    and invar_remove: "invar ix \<Longrightarrow> invar (remove oid ix)"
    and tpid_add: "invar ix \<Longrightarrow>
      by_tpid (add oid ts bs ix) t = removeAll oid (by_tpid ix t) @ replicate (count_list ts t) oid"
    and bintag_add: "invar ix \<Longrightarrow>
      by_bintag (add oid ts bs ix) b = removeAll oid (by_bintag ix b) @ replicate (count_list bs b) oid"
    and tpid_remove: "invar ix \<Longrightarrow> by_tpid (remove oid ix) t = removeAll oid (by_tpid ix t)"
    and bintag_remove: "invar ix \<Longrightarrow> by_bintag (remove oid ix) b = removeAll oid (by_bintag ix b)"
begin

lemma removed_absent:
  assumes "invar ix"
  shows "oid \<notin> set (by_tpid (remove oid ix) t) \<and> oid \<notin> set (by_bintag (remove oid ix) b)"
  using assms by (simp add: tpid_remove bintag_remove)

lemma added_members:
  assumes "invar ix"
  shows "(oid \<in> set (by_tpid (add oid ts bs ix) t) \<longleftrightarrow> t \<in> set ts) \<and>
         (oid \<in> set (by_bintag (add oid ts bs ix) b) \<longleftrightarrow> b \<in> set bs)"
  using assms count_list_0_iff [of ts t] count_list_0_iff [of bs b]
  by (auto simp: tpid_add bintag_add)

text \<open>Adding an order and removing it again is removing it: nothing of the event is left.\<close>

lemma add_then_remove:
  assumes "invar ix"
  shows "by_tpid (remove oid (add oid ts bs ix)) t = by_tpid (remove oid ix) t \<and>
         by_bintag (remove oid (add oid ts bs ix)) b = by_bintag (remove oid ix) b"
  using assms by (simp add: tpid_remove bintag_remove tpid_add bintag_add invar_add)

text \<open>A later event replaces an earlier one for the same order.\<close>

lemma add_replaces:
  assumes "invar ix"
  shows "by_tpid (add oid ts bs (add oid ts' bs' ix)) t = by_tpid (add oid ts bs ix) t \<and>
         by_bintag (add oid ts bs (add oid ts' bs' ix)) b = by_bintag (add oid ts bs ix) b"
  using assms by (simp add: tpid_add bintag_add invar_add)

lemma removes_absent:
  assumes "invar ix"
  shows "invar (fold remove oids ix) \<and>
         by_tpid (fold remove oids ix) t = filter (\<lambda>x. x \<notin> set oids) (by_tpid ix t) \<and>
         by_bintag (fold remove oids ix) b = filter (\<lambda>x. x \<notin> set oids) (by_bintag ix b)"
  using assms
proof (induction oids arbitrary: ix)
  case (Cons oid oids)
  have "filter (\<lambda>x. x \<notin> set oids) (removeAll oid xs) = filter (\<lambda>x. x \<notin> set (oid # oids)) xs"
    for xs by (induction xs) auto
  with Cons.IH [of "remove oid ix"] Cons.prems show ?case
    by (simp add: invar_remove tpid_remove bintag_remove)
qed simp

end

interpretation idx: order_index AddOrder RemoveOrder tpid_orders bintag_orders index_inv
  by unfold_locales
    (simp_all add: index_inv_AddOrder index_inv_RemoveOrder tpid_orders_AddOrder
      bintag_orders_AddOrder tpid_orders_RemoveOrder bintag_orders_RemoveOrder)

interpretation cidx: order_index cgo_AddOrder cgo_RemoveOrder tpid_orders bintag_orders index_inv
  unfolding cgo_AddOrder_eq cgo_RemoveOrder_eq by (rule idx.order_index_axioms)

text \<open>Every indexed order ID is a slot of the registry.\<close>

definition index_range :: "workload \<Rightarrow> inverted_indexes \<Rightarrow> bool" where
  "index_range w ix \<longleftrightarrow>
     (\<forall>k. \<forall>oid \<in> set (tpid_orders ix k). unat oid < NumOrders w) \<and>
     (\<forall>k. \<forall>oid \<in> set (bintag_orders ix k). unat oid < NumOrders w)"

lemma index_range_New: "index_range w NewInvertedIndexes"
  by (simp add: index_range_def NewInvertedIndexes_def tpid_orders_def bintag_orders_def)

lemma index_range_RemoveOrder:
  "index_inv ix \<Longrightarrow> index_range w ix \<Longrightarrow> index_range w (RemoveOrder oid ix)"
  by (auto simp: index_range_def tpid_orders_RemoveOrder bintag_orders_RemoveOrder)

lemma index_range_AddOrder:
  "index_inv ix \<Longrightarrow> index_range w ix \<Longrightarrow> unat oid < NumOrders w \<Longrightarrow>
     index_range w (AddOrder oid ts bs ix)"
  by (auto simp: index_range_def tpid_orders_AddOrder bintag_orders_AddOrder)

end
