(* ===== verification/Score_Matrix.thy ===== *)
theory Score_Matrix
  imports Service_Types
begin

text \<open>
  \<^verbatim>\<open>PPSMatrix\<close>: one row of \<^verbatim>\<open>int16\<close> scores per PPS, one column per order.  The
  pure implementation keeps it in a Go slice (\<^verbatim>\<open>types.go\<close>, with the clamping of
  \<^verbatim>\<open>compute.go\<close>), the cgo implementation on the C heap, changed by the C kernels of
  \<^verbatim>\<open>scoring.c\<close> through \<^verbatim>\<open>scoring_bridge.go\<close>.  The first checks every index; the
  second reads and writes memory, so its model is a block of cells with an address
  computed as the code computes it, and a fault where the address is outside the block.

  The interface \<open>score_matrix\<close> is what the registry and the engine rely on; both
  representations provide it.
\<close>

section \<open>Clamping\<close>

definition clampInt16 :: "i32 \<Rightarrow> i16" where
  "clampInt16 v = (if sint v > 32767 then 32767 else if sint v < -32767 then -32767 else ucast v)"

definition cgo_clampI16 :: "i32 \<Rightarrow> i16" where
  "cgo_clampI16 v = (if sint v > 32767 then 32767 else if sint v < -32767 then -32767 else ucast v)"

lemma cgo_clampI16_eq: "cgo_clampI16 = clampInt16"
  by (simp add: fun_eq_iff cgo_clampI16_def clampInt16_def)

definition clamp_int :: "int \<Rightarrow> int" where
  "clamp_int v = max (-32767) (min 32767 v)"

lemma sint_ucast_16:
  fixes v :: i32
  assumes "- 32768 \<le> sint v" and "sint v < 32768"
  shows "sint (ucast v :: i16) = sint v"
proof -
  have "sint (ucast v :: i16) = signed_take_bit 15 (sint v)"
    by (simp add: sint_uint unsigned_ucast_eq) (simp add: signed_take_bit_take_bit take_bit_signed_take_bit)
  also have "\<dots> = sint v"
    using assms by (intro signed_take_bit_int_eq_self) auto
  finally show ?thesis .
qed

lemma sint_clampInt16: "sint (clampInt16 v) = clamp_int (sint v)"
  by (simp add: clampInt16_def clamp_int_def sint_ucast_16)

lemma sint_scast_32: "sint (scast (x :: i16) :: i32) = sint x"
  by (rule sint_up_scast) (simp add: is_up)

lemma sint_of_bounded:
  assumes "\<bar>z\<bar> < 2 ^ 31"
  shows "sint (word_of_int z :: i32) = z"
proof -
  have "- (2 ^ 31) \<le> z" "z < 2 ^ 31" using assms by linarith+
  then show ?thesis by (simp add: signed_of_int signed_take_bit_int_eq_self)
qed

lemma sint_16_range: "- 32768 \<le> sint (x :: i16) \<and> sint x < 32768"
  using sint_ge [of x] sint_lt [of x] by simp

section \<open>The pure representation\<close>

record pps_matrix =
  Data :: "i16 list"
  NumPPS :: nat

definition NewPPSMatrix :: "workload \<Rightarrow> nat \<Rightarrow> pps_matrix" where
  "NewPPSMatrix w n = \<lparr>Data = replicate (n * NumOrders w) 0, NumPPS = n\<rparr>"

definition Row :: "workload \<Rightarrow> pps_matrix \<Rightarrow> nat \<Rightarrow> i16 list go" where
  "Row w m ppsID =
     (let start = ppsID * NumOrders w in go_slice (Data m) start (start + NumOrders w))"

text \<open>The loop that writes one order's slot in every row.\<close>

definition write_column :: "workload \<Rightarrow> pps_matrix \<Rightarrow> u32 \<Rightarrow> i16 \<Rightarrow> pps_matrix go" where
  "write_column w m oid v =
     gbind (gfold (\<lambda>p d. go_update d (p * NumOrders w + unat oid) v) [0..<NumPPS m] (Data m))
       (\<lambda>d. Inr (m\<lparr>Data := d\<rparr>))"

definition matrix_EvictOrder :: "workload \<Rightarrow> pps_matrix \<Rightarrow> u32 \<Rightarrow> pps_matrix go" where
  "matrix_EvictOrder w m oid =
     (if NumOrders w \<le> unat oid then Inr m else write_column w m oid 0)"

text \<open>\<^verbatim>\<open>row[o] = clampInt16(int32(row[o]) + d)\<close>, for each \<^verbatim>\<open>o, d\<close> of \<^verbatim>\<open>delta\<close>.\<close>

definition add_clamped :: "i16 \<Rightarrow> i32 \<Rightarrow> i16" where
  "add_clamped x d = clampInt16 (scast x + d)"

definition applyDeltaToRow :: "i16 list \<Rightarrow> i32 list \<Rightarrow> i16 list go" where
  "applyDeltaToRow row delta =
     gfold (\<lambda>(o', d) r. gbind (go_index r o') (\<lambda>x. go_update r o' (add_clamped x d)))
       (enumerate 0 delta) row"

text \<open>\<^verbatim>\<open>applyDeltaToRow(e.Matrix.Row(p), delta)\<close>: the row is a view of the matrix.\<close>

definition apply_to_row :: "workload \<Rightarrow> i32 list \<Rightarrow> nat \<Rightarrow> pps_matrix \<Rightarrow> pps_matrix go" where
  "apply_to_row w delta p m =
     gbind (Row w m p) (\<lambda>row. gbind (applyDeltaToRow row delta) (\<lambda>row'.
       Inr (m\<lparr>Data := write_view (Data m) (p * NumOrders w) row'\<rparr>)))"

section \<open>The cells\<close>

definition matrix_wf :: "workload \<Rightarrow> pps_matrix \<Rightarrow> bool" where
  "matrix_wf w m \<longleftrightarrow> length (Data m) = NumPPS m * NumOrders w"

definition cell :: "workload \<Rightarrow> pps_matrix \<Rightarrow> nat \<Rightarrow> nat \<Rightarrow> i16" where
  "cell w m p o' = Data m ! (p * NumOrders w + o')"

lemma flat_index: "p < n \<Longrightarrow> o' < k \<Longrightarrow> p * k + o' < n * (k :: nat)"
proof -
  assume "p < n" "o' < k"
  then have "p * k + o' < Suc p * k" by simp
  also have "\<dots> \<le> n * k" using \<open>p < n\<close> by (intro mult_le_mono1) simp
  finally show ?thesis .
qed

lemma flat_index_eq:
  assumes "o' < k" and "q' < (k :: nat)"
  shows "p * k + o' = q * k + q' \<longleftrightarrow> p = q \<and> o' = q'"
proof
  assume eq: "p * k + o' = q * k + q'"
  have "(p * k + o') div k = p" "(q * k + q') div k = q" using assms by auto
  with eq show "p = q \<and> o' = q'" by simp
qed simp

lemma flat_index_inside:
  assumes "i < n * (k :: nat)"
  shows "i div k < n \<and> i mod k < k \<and> i div k * k + i mod k = i"
  using assms by (cases "k = 0") (auto simp: less_mult_imp_div_less)

lemma matrix_wf_New [simp]: "matrix_wf w (NewPPSMatrix w n)"
  by (simp add: matrix_wf_def NewPPSMatrix_def)

lemma NumPPS_New [simp]: "NumPPS (NewPPSMatrix w n) = n"
  by (simp add: NewPPSMatrix_def)

lemma cell_New:
  "p < n \<Longrightarrow> o' < NumOrders w \<Longrightarrow> cell w (NewPPSMatrix w n) p o' = 0"
  by (simp add: cell_def NewPPSMatrix_def flat_index)

lemma Row_ok [go_simps]:
  assumes "matrix_wf w m" and "p < NumPPS m"
  shows "Row w m p = Inr (map (cell w m p) [0..<NumOrders w])"
proof -
  let ?s = "p * NumOrders w"
  have "Suc p * NumOrders w \<le> NumPPS m * NumOrders w"
    using assms(2) by (intro mult_le_mono1) simp
  then have b: "?s + NumOrders w \<le> length (Data m)" using assms(1) by (simp add: matrix_wf_def)
  then have "take (NumOrders w) (drop ?s (Data m)) = map (cell w m p) [0..<NumOrders w]"
    by (intro nth_equalityI) (auto simp: cell_def)
  with b show ?thesis by (simp add: Row_def Let_def go_simps)
qed

lemma Row_out_of_range:
  assumes "matrix_wf w m" and "NumPPS m \<le> p" and "0 < NumOrders w"
  shows "Row w m p = Inl SliceOutOfRange"
proof -
  have "NumPPS m * NumOrders w \<le> p * NumOrders w" using assms(2) by (rule mult_le_mono1)
  with assms(1,3) have "\<not> p * NumOrders w + NumOrders w \<le> length (Data m)"
    unfolding matrix_wf_def by linarith
  then show ?thesis by (simp add: Row_def Let_def go_slice_def)
qed

lemma write_column_ok:
  assumes wf: "matrix_wf w m" and oid: "unat oid < NumOrders w"
  shows "\<exists>m'. write_column w m oid v = Inr m' \<and> matrix_wf w m' \<and> NumPPS m' = NumPPS m \<and>
           (\<forall>p < NumPPS m. \<forall>o' < NumOrders w.
              cell w m' p o' = (if o' = unat oid then v else cell w m p o'))"
proof -
  let ?N = "NumOrders w" and ?o = "unat oid"
  let ?P = "\<lambda>n d. length d = length (Data m) \<and>
              (\<forall>p < NumPPS m. \<forall>o' < ?N. d ! (p * ?N + o') =
                 (if p < n \<and> o' = ?o then v else cell w m p o'))"
  let ?g = "\<lambda>p d. go_update d (p * ?N + ?o) v"
  have step: "\<exists>d'. ?g n d = Inr d' \<and> ?P (Suc n) d'" if n: "n < NumPPS m" and P: "?P n d" for n d
  proof -
    have b: "n * ?N + ?o < length d"
      using P n oid wf flat_index by (simp add: matrix_wf_def)
    moreover have "?P (Suc n) (d[n * ?N + ?o := v])"
      using P b oid by (auto simp: nth_list_update flat_index_eq less_Suc_eq)
    ultimately show ?thesis by (simp add: go_simps)
  qed
  have "?P 0 (Data m)" by (simp add: cell_def)
  then obtain d where "gfold ?g [0..<NumPPS m] (Data m) = Inr d" "?P (NumPPS m) d"
    using gfold_upt_inv [of ?P 0 "Data m" "NumPPS m" ?g] step by blast
  then show ?thesis using wf by (auto simp: write_column_def matrix_wf_def cell_def)
qed

lemma applyDeltaToRow_ok:
  assumes "length delta \<le> length row"
  shows "applyDeltaToRow row delta =
           Inr (map2 add_clamped row delta @ drop (length delta) row)"
proof -
  let ?g = "\<lambda>(o', d) r. gbind (go_index r o') (\<lambda>x. go_update r o' (add_clamped x d))"
  have "gfold ?g (enumerate (length pre) delta) (pre @ row) =
          Inr (pre @ map2 add_clamped row delta @ drop (length delta) row)" for pre
    using assms
  proof (induction delta arbitrary: row pre)
    case (Cons d delta)
    then obtain x xs where row: "row = x # xs" by (cases row) auto
    have "gfold ?g (enumerate (length (pre @ [add_clamped x d])) delta) ((pre @ [add_clamped x d]) @ xs) =
            Inr ((pre @ [add_clamped x d]) @ map2 add_clamped xs delta @ drop (length delta) xs)"
      using Cons.prems row by (intro Cons.IH) simp
    then show ?case by (simp add: row go_simps)
  qed simp
  from this [of "[]"] show ?thesis by (simp add: applyDeltaToRow_def)
qed

lemma apply_to_row_ok:
  assumes wf: "matrix_wf w m" and p: "p < NumPPS m" and len: "length delta = NumOrders w"
  shows "\<exists>m'. apply_to_row w delta p m = Inr m' \<and> matrix_wf w m' \<and> NumPPS m' = NumPPS m \<and>
           (\<forall>q < NumPPS m. \<forall>o' < NumOrders w.
              cell w m' q o' =
                (if q = p then add_clamped (cell w m p o') (delta ! o') else cell w m q o'))"
proof -
  let ?N = "NumOrders w"
  let ?row = "map2 add_clamped (map (cell w m p) [0..<?N]) delta"
  let ?m = "m\<lparr>Data := write_view (Data m) (p * ?N) ?row\<rparr>"
  have "Suc p * ?N \<le> NumPPS m * ?N" using p by (intro mult_le_mono1) simp
  then have b: "p * ?N + length ?row \<le> length (Data m)"
    using wf len by (simp add: matrix_wf_def)
  have run: "apply_to_row w delta p m = Inr ?m"
    using assms by (simp add: apply_to_row_def go_simps applyDeltaToRow_ok)
  have cells: "cell w ?m q o' = (if q = p then add_clamped (cell w m p o') (delta ! o') else cell w m q o')"
    if q: "q < NumPPS m" and o': "o' < ?N" for q o'
  proof (cases "q = p")
    case True
    then show ?thesis using o' b len by (simp add: cell_def nth_write_view)
  next
    case False
    then have "Suc q \<le> p \<or> Suc p \<le> q" by arith
    then have "Suc q * ?N \<le> p * ?N \<or> Suc p * ?N \<le> q * ?N" using mult_le_mono1 by blast
    then have "\<not> (p * ?N \<le> q * ?N + o' \<and> q * ?N + o' < p * ?N + length ?row)"
      using o' len by auto
    with False b show ?thesis by (auto simp: cell_def nth_write_view)
  qed
  have "matrix_wf w ?m" using wf b by (simp add: matrix_wf_def)
  with run cells show ?thesis by auto
qed

lemma add_clamped_exact:
  assumes "- (2 ^ 31) \<le> sint x + sint d" and "sint x + sint d < 2 ^ 31"
  shows "sint (add_clamped x d) = clamp_int (sint x + sint d)"
proof -
  have "sint (scast x + d :: i32) = signed_take_bit 31 (sint x + sint d)"
    by (simp add: sint_word_ariths sint_scast_32)
  also have "\<dots> = sint x + sint d" using assms by (intro signed_take_bit_int_eq_self) auto
  finally show ?thesis by (simp add: add_clamped_def sint_clampInt16)
qed

text \<open>The sum that wraps: the largest delta on a positive score.\<close>

lemma wrapped_cell:
  assumes "0 < sint x" and "sint d = 2 ^ 31 - 1"
  shows "sint (add_clamped x d) = -32767"
proof -
  have "sint (scast x + d :: i32) = signed_take_bit 31 (sint x + sint d)"
    by (simp add: sint_word_ariths sint_scast_32)
  also have "\<dots> = signed_take_bit 31 (sint x + sint d - 2 ^ 32)"
    by (intro signed_take_bit_eq_iff_take_bit_eq [THEN iffD2]) (simp add: take_bit_eq_mod mod_diff_eq)
  also have "\<dots> = sint x + sint d - 2 ^ 32"
    using assms sint_16_range [of x] by (intro signed_take_bit_int_eq_self) auto
  finally show ?thesis
    using assms sint_16_range [of x] by (simp add: add_clamped_def sint_clampInt16 clamp_int_def)
qed

section \<open>The C heap\<close>

text \<open>
  \<^verbatim>\<open>ptr\<close> is nil or the block of \<^verbatim>\<open>NumPPS * NumOrders\<close> cells that
  \<^verbatim>\<open>calloc\<close> returned; addresses are cell offsets from it.
\<close>

record c_matrix =
  ptr :: "i16 list option"
  cNumPPS :: nat

definition mem_read :: "i16 list \<Rightarrow> nat \<Rightarrow> i16 go" where
  "mem_read cells a = (if a < length cells then Inr (cells ! a) else Inl UnsafeAccess)"

definition mem_write :: "i16 list \<Rightarrow> nat \<Rightarrow> i16 \<Rightarrow> i16 list go" where
  "mem_write cells a v = (if a < length cells then Inr (cells[a := v]) else Inl UnsafeAccess)"

definition cgo_NewPPSMatrix :: "workload \<Rightarrow> bool \<Rightarrow> nat \<Rightarrow> c_matrix go" where
  "cgo_NewPPSMatrix w enough_memory n =
     (if enough_memory then Inr \<lparr>ptr = Some (replicate (n * NumOrders w) 0), cNumPPS = n\<rparr>
      else Inl OutOfMemory)"

definition cgo_Free :: "c_matrix \<Rightarrow> c_matrix" where
  "cgo_Free m = m\<lparr>ptr := None\<rparr>"

text \<open>
  \<^verbatim>\<open>Row\<close> makes a slice header of length \<^verbatim>\<open>NumOrders\<close> over the memory at the row's
  address and checks nothing; only an access through it can fault.
\<close>

definition cgo_Row :: "workload \<Rightarrow> nat \<Rightarrow> nat" where
  "cgo_Row w ppsID = ppsID * NumOrders w"

definition row_read :: "workload \<Rightarrow> c_matrix \<Rightarrow> nat \<Rightarrow> nat \<Rightarrow> i16 go" where
  "row_read w m row i =
     (if NumOrders w \<le> i then Inl IndexOutOfRange
      else case ptr m of None \<Rightarrow> Inl UnsafeAccess | Some cells \<Rightarrow> mem_read cells (row + i))"

definition row_write :: "workload \<Rightarrow> nat \<Rightarrow> nat \<Rightarrow> i16 \<Rightarrow> c_matrix \<Rightarrow> c_matrix go" where
  "row_write w row i v m =
     (if NumOrders w \<le> i then Inl IndexOutOfRange
      else case ptr m of None \<Rightarrow> Inl UnsafeAccess
           | Some cells \<Rightarrow> gbind (mem_write cells (row + i) v) (\<lambda>c. Inr (m\<lparr>ptr := Some c\<rparr>)))"

text \<open>
  The kernels of \<^verbatim>\<open>scoring.c\<close>, on the cells from address \<open>base\<close>.  Their sizes are
  \<^verbatim>\<open>int\<close>s, and a loop up to a negative size does nothing.  The sum is an
  \<^verbatim>\<open>int32_t\<close> addition, undefined in C when it overflows.
\<close>

definition c_saturate :: "int \<Rightarrow> i16" where
  "c_saturate v =
     (let v1 = (if v > 32767 then 32767 else v);
          v2 = (if v1 < -32767 then -32767 else v1)
      in word_of_int v2)"

definition c_update_cell :: "nat \<Rightarrow> i32 list \<Rightarrow> nat \<Rightarrow> i16 list \<Rightarrow> i16 list go" where
  "c_update_cell row delta i cells =
     gbind (mem_read cells (row + i)) (\<lambda>x.
       if length delta \<le> i then Inl UnsafeAccess
       else let v = sint x + sint (delta ! i)
            in if v < - (2 ^ 31) \<or> 2 ^ 31 \<le> v then Inl UndefinedBehaviour
               else mem_write cells (row + i) (c_saturate v))"

definition update_all_scores_i16 ::
  "i16 list \<Rightarrow> nat \<Rightarrow> i32 list \<Rightarrow> int \<Rightarrow> int \<Rightarrow> i16 list go" where
  "update_all_scores_i16 cells base delta num_pps num_orders =
     gfold (\<lambda>p. gfold (c_update_cell (base + p * nat num_orders) delta) [0..<nat num_orders])
       [0..<nat num_pps] cells"

definition evict_order_scores :: "i16 list \<Rightarrow> int \<Rightarrow> int \<Rightarrow> int \<Rightarrow> i16 list go" where
  "evict_order_scores cells order_id num_pps num_orders =
     gfold (\<lambda>p c. let a = int p * num_orders + order_id
                  in if a < 0 then Inl UnsafeAccess else mem_write c (nat a) 0) [0..<nat num_pps] cells"

definition init_scores_i16 :: "i16 list \<Rightarrow> i16 list \<Rightarrow> int \<Rightarrow> int \<Rightarrow> i16 list go" where
  "init_scores_i16 cells weights num_pps num_orders =
     gfold (\<lambda>p. gfold (\<lambda>i c. if length weights \<le> i then Inl UnsafeAccess
                              else mem_write c (p * nat num_orders + i) (weights ! i)) [0..<nat num_orders])
       [0..<nat num_pps] cells"

text \<open>
  The bridge: guards, then the kernel on the block.  \<open>c_int\<close> is the conversion
  \<^verbatim>\<open>C.int\<close> to 32 bits.
\<close>

definition c_int :: "int \<Rightarrow> int" where
  "c_int n = sint (word_of_int n :: i32)"

definition on_block :: "c_matrix \<Rightarrow> (i16 list \<Rightarrow> i16 list go) \<Rightarrow> c_matrix go" where
  "on_block m f =
     (case ptr m of None \<Rightarrow> Inr m | Some cells \<Rightarrow> gbind (f cells) (\<lambda>c. Inr (m\<lparr>ptr := Some c\<rparr>)))"

definition cgo_matrix_EvictOrder :: "workload \<Rightarrow> c_matrix \<Rightarrow> u32 \<Rightarrow> c_matrix go" where
  "cgo_matrix_EvictOrder w m oid =
     (if NumOrders w \<le> unat oid \<or> ptr m = None then Inr m
      else on_block m (\<lambda>c. evict_order_scores c (c_int (int (unat oid))) (c_int (int (cNumPPS m)))
                             (c_int (int (NumOrders w)))))"

definition CUpdateAllScores :: "workload \<Rightarrow> c_matrix \<Rightarrow> i32 list \<Rightarrow> c_matrix go" where
  "CUpdateAllScores w m delta =
     (if length delta = 0 \<or> cNumPPS m = 0 \<or> ptr m = None then Inr m
      else on_block m (\<lambda>c. update_all_scores_i16 c 0 delta (c_int (int (cNumPPS m)))
                             (c_int (int (NumOrders w)))))"

definition CUpdateRowRange ::
  "workload \<Rightarrow> nat \<Rightarrow> int \<Rightarrow> i32 list \<Rightarrow> c_matrix \<Rightarrow> c_matrix go" where
  "CUpdateRowRange w startRow numRows delta m =
     (if numRows \<le> 0 \<or> length delta = 0 \<or> ptr m = None then Inr m
      else on_block m (\<lambda>c. update_all_scores_i16 c (startRow * NumOrders w) delta
                             (c_int numRows) (c_int (int (NumOrders w)))))"

definition CInitScores :: "workload \<Rightarrow> c_matrix \<Rightarrow> i16 list \<Rightarrow> c_matrix go" where
  "CInitScores w m weights =
     (if length weights = 0 \<or> cNumPPS m = 0 \<or> ptr m = None then Inr m
      else on_block m (\<lambda>c. init_scores_i16 c weights (c_int (int (cNumPPS m))) (c_int (int (NumOrders w)))))"

text \<open>The loop of the cgo \<^verbatim>\<open>IngestOrder\<close> that writes one order's slot in every row.\<close>

definition cgo_write_column :: "workload \<Rightarrow> c_matrix \<Rightarrow> u32 \<Rightarrow> i16 \<Rightarrow> c_matrix go" where
  "cgo_write_column w m oid v =
     gfold (\<lambda>p. row_write w (cgo_Row w p) (unat oid) v) [0..<cNumPPS m] m"

section \<open>Rows in any order\<close>

lemma matrix_eqI:
  assumes "matrix_wf w m" and "matrix_wf w m'" and "NumPPS m' = NumPPS m"
    and "\<And>p o'. p < NumPPS m \<Longrightarrow> o' < NumOrders w \<Longrightarrow> cell w m' p o' = cell w m p o'"
  shows "m' = (m :: pps_matrix)"
proof -
  have "Data m' = Data m"
  proof (rule nth_equalityI)
    fix i assume "i < length (Data m')"
    then have "i < NumPPS m * NumOrders w" using assms(2,3) by (simp add: matrix_wf_def)
    from flat_index_inside [OF this] assms(4) [of "i div NumOrders w" "i mod NumOrders w"]
    show "Data m' ! i = Data m ! i" by (simp add: cell_def)
  qed (use assms(1-3) in \<open>simp add: matrix_wf_def\<close>)
  with assms(3) show ?thesis by simp
qed

text \<open>
  Updating distinct rows one after the other: each of them is updated once, from its old
  contents, whatever the order.
\<close>

lemma apply_rows_ok:
  assumes "matrix_wf w m" and "length delta = NumOrders w" and "distinct ps"
    and "\<forall>p \<in> set ps. p < NumPPS m"
  shows "\<exists>m'. gfold (apply_to_row w delta) ps m = Inr m' \<and> matrix_wf w m' \<and> NumPPS m' = NumPPS m \<and>
           (\<forall>q < NumPPS m. \<forall>o' < NumOrders w.
              cell w m' q o' =
                (if q \<in> set ps then add_clamped (cell w m q o') (delta ! o') else cell w m q o'))"
  using assms
proof (induction ps arbitrary: m)
  case (Cons p ps)
  obtain m1 where m1: "apply_to_row w delta p m = Inr m1" "matrix_wf w m1" "NumPPS m1 = NumPPS m"
    and c1: "\<forall>q < NumPPS m. \<forall>o' < NumOrders w. cell w m1 q o' =
              (if q = p then add_clamped (cell w m p o') (delta ! o') else cell w m q o')"
    using apply_to_row_ok [of w m p delta] Cons.prems by auto
  moreover have "distinct ps" "\<forall>p \<in> set ps. p < NumPPS m1"
    using Cons.prems m1(3) by auto
  ultimately obtain m2 where "gfold (apply_to_row w delta) ps m1 = Inr m2" "matrix_wf w m2"
    "NumPPS m2 = NumPPS m1"
    and c2: "\<forall>q < NumPPS m1. \<forall>o' < NumOrders w. cell w m2 q o' =
              (if q \<in> set ps then add_clamped (cell w m1 q o') (delta ! o') else cell w m1 q o')"
    using Cons.IH [of m1] Cons.prems(2) by blast
  moreover have "cell w m2 q o' =
      (if q \<in> set (p # ps) then add_clamped (cell w m q o') (delta ! o') else cell w m q o')"
    if "q < NumPPS m" "o' < NumOrders w" for q o'
    using that c1 c2 m1(3) Cons.prems(3) by auto
  ultimately show ?case using m1 by auto
qed auto

section \<open>The C kernels against the Go loops\<close>

text \<open>
  The deltas for which no sum leaves \<^verbatim>\<open>int32\<close>: there Go's wrap-around and C's
  undefined behaviour do not arise.
\<close>

definition delta_safe :: "i32 list \<Rightarrow> bool" where
  "delta_safe delta \<longleftrightarrow> (\<forall>d \<in> set delta. - (2 ^ 31) + 32768 \<le> sint d \<and> sint d < 2 ^ 31 - 32767)"

lemma c_saturate_eq: "sint (c_saturate v) = clamp_int v"
proof -
  have "signed_take_bit 15 (clamp_int v) = clamp_int v"
    by (intro signed_take_bit_int_eq_self) (auto simp: clamp_int_def)
  moreover have "c_saturate v = word_of_int (clamp_int v)"
    by (simp add: c_saturate_def clamp_int_def Let_def)
  ultimately show ?thesis by (simp add: sint_sbintrunc')
qed

lemma delta_safe_sum:
  assumes "delta_safe delta" and "i < length delta"
  shows "- (2 ^ 31) \<le> sint (x :: i16) + sint (delta ! i)" "sint x + sint (delta ! i) < 2 ^ 31"
  using assms sint_16_range [of x] unfolding delta_safe_def by (force dest: nth_mem)+

lemma c_update_cell_ok:
  assumes "delta_safe delta" and "i < length delta" and "row + i < length cells"
  shows "c_update_cell row delta i cells =
           Inr (cells[row + i := add_clamped (cells ! (row + i)) (delta ! i)])"
proof -
  let ?x = "cells ! (row + i)" and ?d = "delta ! i"
  note sums = delta_safe_sum [OF assms(1,2), of ?x]
  have "sint (c_saturate (sint ?x + sint ?d)) = sint (add_clamped ?x ?d)"
    using sums by (simp add: c_saturate_eq add_clamped_exact)
  then have "c_saturate (sint ?x + sint ?d) = add_clamped ?x ?d"
    by (rule signed_word_eqI)
  then show ?thesis
    using assms(2,3) sums by (simp add: c_update_cell_def mem_read_def mem_write_def Let_def)
qed

lemma c_row_ok:
  assumes "delta_safe delta" and len: "length delta = N" and b: "row + N \<le> length cells"
  shows "gfold (c_update_cell row delta) [0..<N] cells =
           Inr (write_view cells row (map2 add_clamped (take N (drop row cells)) delta))"
proof -
  let ?P = "\<lambda>i c. length c = length cells \<and>
     (\<forall>j < length cells. c ! j =
        (if row \<le> j \<and> j < row + i then add_clamped (cells ! j) (delta ! (j - row)) else cells ! j))"
  have step: "\<exists>c'. c_update_cell row delta i c = Inr c' \<and> ?P (Suc i) c'"
    if "i < N" and P: "?P i c" for i c
  proof -
    have "c_update_cell row delta i c = Inr (c[row + i := add_clamped (c ! (row + i)) (delta ! i)])"
      using that assms by (intro c_update_cell_ok) auto
    moreover have "?P (Suc i) (c[row + i := add_clamped (c ! (row + i)) (delta ! i)])"
      using that b by (auto simp: nth_list_update less_Suc_eq)
    ultimately show ?thesis by blast
  qed
  have "?P 0 cells" by auto
  then obtain c where c: "gfold (c_update_cell row delta) [0..<N] cells = Inr c" "?P N c"
    using gfold_upt_inv [of ?P 0 cells N "c_update_cell row delta"] step by blast
  let ?r = "map2 add_clamped (take N (drop row cells)) delta"
  have "length ?r = N" using len b by simp
  then have "c = write_view cells row ?r"
    using c(2) b len by (intro nth_equalityI) (auto simp: nth_write_view)
  with c(1) show ?thesis by simp
qed

lemma apply_to_row_eq:
  assumes wf: "matrix_wf w m" and p: "p < NumPPS m" and len: "length delta = NumOrders w"
  shows "apply_to_row w delta p m =
           Inr (m\<lparr>Data := write_view (Data m) (p * NumOrders w)
                  (map2 add_clamped (take (NumOrders w) (drop (p * NumOrders w) (Data m))) delta)\<rparr>)"
proof -
  let ?N = "NumOrders w"
  have "Suc p * ?N \<le> NumPPS m * ?N" using p by (intro mult_le_mono1) simp
  then have b: "p * ?N + ?N \<le> length (Data m)" using wf by (simp add: matrix_wf_def)
  then have "Row w m p = Inr (take ?N (drop (p * ?N) (Data m)))"
    by (simp add: Row_def Let_def go_simps)
  with b len show ?thesis by (simp add: apply_to_row_def applyDeltaToRow_ok)
qed

text \<open>The kernel on a row range does what the Go loop does on those rows.\<close>

lemma kernel_refines:
  assumes wf: "matrix_wf w m" and len: "length delta = NumOrders w" and safe: "delta_safe delta"
    and rows: "start + n \<le> NumPPS m"
  shows "\<exists>m'. gfold (apply_to_row w delta) [start..<start + n] m = Inr m' \<and>
           update_all_scores_i16 (Data m) (start * NumOrders w) delta (int n) (int (NumOrders w)) = Inr (Data m') \<and>
           matrix_wf w m' \<and> NumPPS m' = NumPPS m"
  using rows
proof (induction n)
  case 0
  with wf show ?case by (simp add: update_all_scores_i16_def)
next
  case (Suc n)
  then obtain m1 where m1: "gfold (apply_to_row w delta) [start..<start + n] m = Inr m1"
    "update_all_scores_i16 (Data m) (start * NumOrders w) delta (int n) (int (NumOrders w)) = Inr (Data m1)"
    "matrix_wf w m1" "NumPPS m1 = NumPPS m"
    by auto
  let ?p = "start + n" and ?N = "NumOrders w"
  let ?d = "write_view (Data m1) (?p * ?N)
              (map2 add_clamped (take ?N (drop (?p * ?N) (Data m1))) delta)"
  have "Suc ?p * ?N \<le> NumPPS m1 * ?N" using Suc.prems m1(4) by (intro mult_le_mono1) simp
  then have b: "?p * ?N + ?N \<le> length (Data m1)" using m1(3) by (simp add: matrix_wf_def)
  have "apply_to_row w delta ?p m1 = Inr (m1\<lparr>Data := ?d\<rparr>)"
    using Suc.prems m1 len by (intro apply_to_row_eq) auto
  moreover have "gfold (c_update_cell (?p * ?N) delta) [0..<?N] (Data m1) = Inr ?d"
    using safe len b by (rule c_row_ok)
  moreover have "matrix_wf w (m1\<lparr>Data := ?d\<rparr>)" using m1(3) b len by (simp add: matrix_wf_def)
  ultimately show ?case using m1
    by (auto simp: update_all_scores_i16_def gfold_snoc distrib_right nat_add_distrib)
qed

text \<open>Writing one column of the block: the kernel of eviction and the ingestion loop.\<close>

lemma gfold_mem_write:
  "\<forall>p \<in> set ps. a p < length c \<Longrightarrow>
     gfold (\<lambda>p c. mem_write c (a p) v) ps c = Inr (fold (\<lambda>p c. c[a p := v]) ps c)"
  by (rule gfold_pureI [where P = "\<lambda>d. length d = length c"]) (auto simp: mem_write_def)

lemma gfold_go_update:
  "\<forall>p \<in> set ps. a p < length c \<Longrightarrow>
     gfold (\<lambda>p c. go_update c (a p) v) ps c = Inr (fold (\<lambda>p c. c[a p := v]) ps c)"
  by (rule gfold_pureI [where P = "\<lambda>d. length d = length c"]) (auto simp: go_simps)

lemma length_fold_update [simp]: "length (fold (\<lambda>p c. c[a p := v]) ps c) = length c"
  by (induction ps arbitrary: c) auto

lemma gfold_row_write:
  assumes "\<forall>p \<in> set ps. cgo_Row w p + i < length c" and "i < NumOrders w" and "ptr m = Some c"
  shows "gfold (\<lambda>p. row_write w (cgo_Row w p) i v) ps m =
           Inr (m\<lparr>ptr := Some (fold (\<lambda>p c. c[cgo_Row w p + i := v]) ps c)\<rparr>)"
  using assms
proof (induction ps arbitrary: m c)
  case (Cons p ps)
  let ?c = "c[cgo_Row w p + i := v]"
  have "row_write w (cgo_Row w p) i v m = Inr (m\<lparr>ptr := Some ?c\<rparr>)"
    using Cons.prems by (simp add: row_write_def mem_write_def)
  moreover have "gfold (\<lambda>p. row_write w (cgo_Row w p) i v) ps (m\<lparr>ptr := Some ?c\<rparr>) =
      Inr (m\<lparr>ptr := Some ?c, ptr := Some (fold (\<lambda>p c. c[cgo_Row w p + i := v]) ps ?c)\<rparr>)"
    using Cons.prems by (intro Cons.IH) auto
  ultimately show ?case by simp
qed simp

text \<open>
  The block of a C matrix, and the matrix it stands for; sizes that the kernels' \<^verbatim>\<open>int\<close>s can
  hold.
\<close>

definition c_fits :: "workload \<Rightarrow> nat \<Rightarrow> bool" where
  "c_fits w n \<longleftrightarrow> n < 2 ^ 31 \<and> NumOrders w < 2 ^ 31"

lemma c_int_small: "k < 2 ^ 31 \<Longrightarrow> c_int (int k) = int k"
  unfolding c_int_def by (rule sint_of_bounded) simp

lemma c_int_fits:
  assumes "c_fits w n"
  shows "c_int (int (NumOrders w)) = int (NumOrders w)"
    and "k \<le> n \<Longrightarrow> c_int (int k) = int k" and "k < NumOrders w \<Longrightarrow> c_int (int k) = int k"
  using assms by (auto simp: c_fits_def intro!: c_int_small)

definition c_abs :: "c_matrix \<Rightarrow> pps_matrix \<Rightarrow> bool" where
  "c_abs cm m \<longleftrightarrow> ptr cm = Some (Data m) \<and> cNumPPS cm = NumPPS m"

lemma column_in_range:
  "matrix_wf w m \<Longrightarrow> i < NumOrders w \<Longrightarrow> \<forall>p \<in> set [0..<NumPPS m]. p * NumOrders w + i < length (Data m)"
  by (simp add: matrix_wf_def flat_index)

lemma write_column_refines:
  assumes "c_abs cm m" and wf: "matrix_wf w m" and oid: "unat oid < NumOrders w"
  shows "\<exists>cm' m'. cgo_write_column w cm oid v = Inr cm' \<and> write_column w m oid v = Inr m' \<and> c_abs cm' m'"
proof -
  note r = column_in_range [OF wf oid]
  from gfold_go_update [OF r] gfold_row_write [of "[0..<NumPPS m]" w "unat oid" "Data m" cm v] r assms
  show ?thesis
    by (auto simp: cgo_write_column_def write_column_def c_abs_def cgo_Row_def)
qed

lemma evict_refines:
  assumes "c_abs cm m" and wf: "matrix_wf w m" and fits: "c_fits w (NumPPS m)"
  shows "\<exists>cm' m'. cgo_matrix_EvictOrder w cm oid = Inr cm' \<and> matrix_EvictOrder w m oid = Inr m' \<and>
           c_abs cm' m'"
proof (cases "unat oid < NumOrders w")
  case True
  note r = column_in_range [OF wf True]
  have oid: "c_int (uint oid) = uint oid" using c_int_fits(3) [OF fits True] by simp
  have at: "nat (int p * int (NumOrders w) + uint oid) = p * NumOrders w + unat oid" for p
    by (simp only: uint_nat of_nat_mult [symmetric] of_nat_add [symmetric] nat_int)
  have inside: "\<not> int p * int (NumOrders w) + uint oid < 0" for p by (simp add: not_less)
  from gfold_go_update [OF r] gfold_mem_write [OF r] assms True show ?thesis
    by (auto simp: cgo_matrix_EvictOrder_def matrix_EvictOrder_def write_column_def c_abs_def
        on_block_def evict_order_scores_def c_int_fits [OF fits] oid at inside Let_def)
qed (use assms in \<open>auto simp: cgo_matrix_EvictOrder_def matrix_EvictOrder_def\<close>)

lemma row_range_refines:
  assumes "c_abs cm m" and "matrix_wf w m" and "length delta = NumOrders w" and "delta_safe delta"
    and "start + n \<le> NumPPS m" and "0 < NumOrders w" and fits: "c_fits w (NumPPS m)"
  shows "\<exists>cm' m'. CUpdateRowRange w start (int n) delta cm = Inr cm' \<and>
           gfold (apply_to_row w delta) [start..<start + n] m = Inr m' \<and> c_abs cm' m' \<and>
           matrix_wf w m' \<and> NumPPS m' = NumPPS m"
proof (cases "n = 0")
  case True
  with assms show ?thesis by (simp add: CUpdateRowRange_def)
next
  case False
  with kernel_refines [OF assms(2-5)] assms show ?thesis
    by (auto simp: CUpdateRowRange_def c_abs_def on_block_def c_int_fits [OF fits])
qed

section \<open>The interface\<close>

text \<open>
  What the registry and the ingestion rely on: one order's slot is written in every row,
  and nothing else changes.  \<open>N\<close> is the number of orders.
\<close>

locale score_matrix =
  fixes N :: nat
    and rows :: "'m \<Rightarrow> nat"
    and score_at :: "'m \<Rightarrow> nat \<Rightarrow> nat \<Rightarrow> i16"
    and put_col :: "'m \<Rightarrow> u32 \<Rightarrow> i16 \<Rightarrow> 'm go"
    and evict :: "'m \<Rightarrow> u32 \<Rightarrow> 'm go"
    and minv :: "'m \<Rightarrow> bool"
  assumes put_ok: "minv m \<Longrightarrow> unat oid < N \<Longrightarrow>
      \<exists>m'. put_col m oid v = Inr m' \<and> minv m' \<and> rows m' = rows m \<and>
        (\<forall>p < rows m. \<forall>j < N. score_at m' p j = (if j = unat oid then v else score_at m p j))"
    and evict_ok: "minv m \<Longrightarrow>
      \<exists>m'. evict m oid = Inr m' \<and> minv m' \<and> rows m' = rows m \<and>
        (\<forall>p < rows m. \<forall>j < N. score_at m' p j = (if j = unat oid then 0 else score_at m p j))"
begin

lemma evict_all:
  assumes "minv m"
  shows "\<exists>m'. gfold (\<lambda>oid m. evict m oid) oids m = Inr m' \<and> minv m' \<and> rows m' = rows m \<and>
           (\<forall>p < rows m. \<forall>j < N.
              score_at m' p j = (if j \<in> unat ` set oids then 0 else score_at m p j))"
  using assms
proof (induction oids arbitrary: m)
  case (Cons oid oids)
  obtain m1 where m1: "evict m oid = Inr m1" "minv m1" "rows m1 = rows m"
    and c1: "\<forall>p < rows m. \<forall>j < N. score_at m1 p j = (if j = unat oid then 0 else score_at m p j)"
    using evict_ok [OF Cons.prems] by blast
  obtain m2 where m2: "gfold (\<lambda>oid m. evict m oid) oids m1 = Inr m2" "minv m2" "rows m2 = rows m1"
    and c2: "\<forall>p < rows m1. \<forall>j < N. score_at m2 p j =
               (if j \<in> unat ` set oids then 0 else score_at m1 p j)"
    using Cons.IH [OF m1(2)] by blast
  from m1 m2 c1 c2 show ?case by auto
qed auto

end

lemma matrix_EvictOrder_ok:
  assumes "matrix_wf w m"
  shows "\<exists>m'. matrix_EvictOrder w m oid = Inr m' \<and> matrix_wf w m' \<and> NumPPS m' = NumPPS m \<and>
           (\<forall>p < NumPPS m. \<forall>j < NumOrders w.
              cell w m' p j = (if j = unat oid then 0 else cell w m p j))"
proof (cases "unat oid < NumOrders w")
  case True
  then show ?thesis using write_column_ok [OF assms True, of 0] by (simp add: matrix_EvictOrder_def)
qed (use assms in \<open>auto simp: matrix_EvictOrder_def\<close>)

interpretation pmat: score_matrix "NumOrders w" NumPPS "cell w" "write_column w" "matrix_EvictOrder w"
  "matrix_wf w" for w
  by unfold_locales (rule write_column_ok matrix_EvictOrder_ok; assumption)+

text \<open>The C matrix, through the matrix its block stands for.\<close>

definition c_view :: "c_matrix \<Rightarrow> pps_matrix" where
  "c_view cm = \<lparr>Data = (case ptr cm of None \<Rightarrow> [] | Some c \<Rightarrow> c), NumPPS = cNumPPS cm\<rparr>"

definition c_wf :: "workload \<Rightarrow> c_matrix \<Rightarrow> bool" where
  "c_wf w cm \<longleftrightarrow> ptr cm \<noteq> None \<and> matrix_wf w (c_view cm) \<and> c_fits w (cNumPPS cm)"

lemma row_read_ok:
  assumes "c_wf w m" and "p < cNumPPS m" and "i < NumOrders w"
  shows "row_read w m (cgo_Row w p) i = Inr (cell w (c_view m) p i)"
proof -
  obtain c where "ptr m = Some c" "length c = cNumPPS m * NumOrders w"
    using assms(1) by (auto simp: c_wf_def matrix_wf_def c_view_def)
  with flat_index [OF assms(2,3)] assms(3) show ?thesis
    by (simp add: row_read_def mem_read_def cgo_Row_def cell_def c_view_def)
qed

lemma c_abs_view: "c_wf w cm \<Longrightarrow> c_abs cm (c_view cm)"
  by (auto simp: c_wf_def c_abs_def c_view_def)

lemma c_abs_eq: "c_abs cm m \<Longrightarrow> c_view cm = m"
  by (simp add: c_abs_def c_view_def)

lemma c_abs_wf: "c_abs cm m \<Longrightarrow> matrix_wf w m \<Longrightarrow> c_fits w (NumPPS m) \<Longrightarrow> c_wf w cm"
  by (auto simp: c_wf_def c_abs_eq) (simp_all add: c_abs_def)

lemma cgo_write_column_ok:
  assumes "c_wf w cm" and "unat oid < NumOrders w"
  shows "\<exists>cm'. cgo_write_column w cm oid v = Inr cm' \<and> c_wf w cm' \<and> cNumPPS cm' = cNumPPS cm \<and>
           (\<forall>p < cNumPPS cm. \<forall>j < NumOrders w.
              cell w (c_view cm') p j = (if j = unat oid then v else cell w (c_view cm) p j))"
proof -
  have wf: "matrix_wf w (c_view cm)" "c_fits w (NumPPS (c_view cm))"
    using assms(1) by (simp_all add: c_wf_def c_view_def)
  obtain cm' m' where r: "cgo_write_column w cm oid v = Inr cm'"
    "write_column w (c_view cm) oid v = Inr m'" "c_abs cm' m'"
    using write_column_refines [OF c_abs_view [OF assms(1)] wf(1) assms(2)] by blast
  with write_column_ok [OF wf(1) assms(2), of v] wf(2) show ?thesis
    by (auto simp: c_abs_eq c_abs_wf) (auto simp: c_abs_def c_view_def)
qed

lemma cgo_matrix_EvictOrder_ok:
  assumes "c_wf w cm"
  shows "\<exists>cm'. cgo_matrix_EvictOrder w cm oid = Inr cm' \<and> c_wf w cm' \<and> cNumPPS cm' = cNumPPS cm \<and>
           (\<forall>p < cNumPPS cm. \<forall>j < NumOrders w.
              cell w (c_view cm') p j = (if j = unat oid then 0 else cell w (c_view cm) p j))"
proof -
  have wf: "matrix_wf w (c_view cm)" "c_fits w (NumPPS (c_view cm))"
    using assms by (simp_all add: c_wf_def c_view_def)
  obtain cm' m' where r: "cgo_matrix_EvictOrder w cm oid = Inr cm'"
    "matrix_EvictOrder w (c_view cm) oid = Inr m'" "c_abs cm' m'"
    using evict_refines [OF c_abs_view [OF assms] wf] by blast
  with matrix_EvictOrder_ok [OF wf(1), of oid] wf(2) show ?thesis
    by (auto simp: c_abs_eq c_abs_wf) (auto simp: c_abs_def c_view_def)
qed

interpretation cmat: score_matrix "NumOrders w" cNumPPS "\<lambda>cm. cell w (c_view cm)"
  "cgo_write_column w" "cgo_matrix_EvictOrder w" "c_wf w" for w
  by unfold_locales (rule cgo_write_column_ok cgo_matrix_EvictOrder_ok; assumption)+

end
