(* ===== verification/Order_Registry.thy ===== *)
theory Order_Registry
  imports Inverted_Index Score_Matrix
begin

text \<open>
  \<^verbatim>\<open>OrderRegistry\<close> of \<^verbatim>\<open>registry.go\<close>: one metadata slot per order ID, and the two
  ways an order leaves the service, eviction on an event and expiry by age.  Both also
  clean the inverted indexes and the score matrix; they are written once over the index and
  matrix operations, since the two implementations have the same text, and applied to each
  implementation's own operations.
\<close>

section \<open>The code\<close>

record order_registry =
  Meta :: "order_meta list"

definition NewOrderRegistry :: "workload \<Rightarrow> order_registry" where
  "NewOrderRegistry w = \<lparr>Meta = replicate (NumOrders w) zero_meta\<rparr>"

definition Upsert :: "order_meta \<Rightarrow> order_registry \<Rightarrow> order_registry go" where
  "Upsert m r = gbind (go_update (Meta r) (unat (OrderID m)) m) (\<lambda>ms. Inr (r\<lparr>Meta := ms\<rparr>))"

definition Deactivate :: "u32 \<Rightarrow> order_registry \<Rightarrow> order_registry go" where
  "Deactivate oid r =
     gbind (go_index (Meta r) (unat oid)) (\<lambda>m.
     gbind (go_update (Meta r) (unat oid) (m\<lparr>Active := False\<rparr>)) (\<lambda>ms. Inr (r\<lparr>Meta := ms\<rparr>)))"

definition cgo_Upsert :: "workload \<Rightarrow> order_meta \<Rightarrow> order_registry \<Rightarrow> order_registry go" where
  "cgo_Upsert w m r =
     (if NumOrders w \<le> unat (OrderID m) then Inr r
      else gbind (go_update (Meta r) (unat (OrderID m)) m) (\<lambda>ms. Inr (r\<lparr>Meta := ms\<rparr>)))"

definition cgo_Deactivate :: "workload \<Rightarrow> u32 \<Rightarrow> order_registry \<Rightarrow> order_registry go" where
  "cgo_Deactivate w oid r =
     (if NumOrders w \<le> unat oid then Inr r
      else gbind (go_index (Meta r) (unat oid)) (\<lambda>m.
           gbind (go_update (Meta r) (unat oid) (m\<lparr>Active := False\<rparr>)) (\<lambda>ms.
             Inr (r\<lparr>Meta := ms\<rparr>))))"

text \<open>
  The registry, the indexes and the matrix, which the code passes by pointer and changes in
  place.
\<close>

type_synonym 'm store = "order_registry \<times> inverted_indexes \<times> 'm"

definition deactivated :: "order_meta \<Rightarrow> order_meta" where
  "deactivated m = m\<lparr>Active := False, InsertedAtSecs := 0\<rparr>"

definition evict_slot ::
  "(u32 \<Rightarrow> 'ix \<Rightarrow> 'ix) \<Rightarrow> ('m \<Rightarrow> u32 \<Rightarrow> 'm go) \<Rightarrow> nat \<Rightarrow> u32 \<Rightarrow> order_meta \<Rightarrow>
     order_registry \<times> 'ix \<times> 'm \<Rightarrow> (order_registry \<times> 'ix \<times> 'm) go" where
  "evict_slot remove evict i oid meta st =
     (case st of (r, ix, m) \<Rightarrow>
        gbind (go_update (Meta r) i (deactivated meta)) (\<lambda>ms.
        gbind (evict m oid) (\<lambda>m'. Inr (r\<lparr>Meta := ms\<rparr>, remove oid ix, m'))))"

definition EvictOrder_with ::
  "(u32 \<Rightarrow> 'ix \<Rightarrow> 'ix) \<Rightarrow> ('m \<Rightarrow> u32 \<Rightarrow> 'm go) \<Rightarrow> workload \<Rightarrow> u32 \<Rightarrow>
     order_registry \<times> 'ix \<times> 'm \<Rightarrow> (order_registry \<times> 'ix \<times> 'm) go" where
  "EvictOrder_with remove evict w oid st =
     (if NumOrders w \<le> unat oid then Inr st
      else gbind (go_index (Meta (fst st)) (unat oid)) (\<lambda>meta.
             if \<not> Active meta then Inr st
             else evict_slot remove evict (unat oid) oid meta st))"

definition expired :: "i64 \<Rightarrow> order_meta \<Rightarrow> bool" where
  "expired nowSecs m \<longleftrightarrow>
     Active m \<and> 0 < sint (InsertedAtSecs m) \<and>
     sint OrderTTLSecs < sint (nowSecs - InsertedAtSecs m)"

definition PurgeExpired_with ::
  "(u32 \<Rightarrow> 'ix \<Rightarrow> 'ix) \<Rightarrow> ('m \<Rightarrow> u32 \<Rightarrow> 'm go) \<Rightarrow> workload \<Rightarrow> i64 \<Rightarrow>
     order_registry \<times> 'ix \<times> 'm \<Rightarrow> (order_registry \<times> 'ix \<times> 'm) go" where
  "PurgeExpired_with remove evict w nowSecs =
     gfold (\<lambda>i st.
       gbind (go_index (Meta (fst st)) i) (\<lambda>meta.
         if expired nowSecs meta then evict_slot remove evict i (OrderID meta) meta st
         else Inr st)) [0..<NumOrders w]"

definition EvictOrder :: "workload \<Rightarrow> u32 \<Rightarrow> pps_matrix store \<Rightarrow> pps_matrix store go" where
  "EvictOrder w = EvictOrder_with RemoveOrder (matrix_EvictOrder w) w"

definition PurgeExpired :: "workload \<Rightarrow> i64 \<Rightarrow> pps_matrix store \<Rightarrow> pps_matrix store go" where
  "PurgeExpired w = PurgeExpired_with RemoveOrder (matrix_EvictOrder w) w"

definition cgo_EvictOrder :: "workload \<Rightarrow> u32 \<Rightarrow> c_matrix store \<Rightarrow> c_matrix store go" where
  "cgo_EvictOrder w = EvictOrder_with cgo_RemoveOrder (cgo_matrix_EvictOrder w) w"

definition cgo_PurgeExpired :: "workload \<Rightarrow> i64 \<Rightarrow> c_matrix store \<Rightarrow> c_matrix store go" where
  "cgo_PurgeExpired w = PurgeExpired_with cgo_RemoveOrder (cgo_matrix_EvictOrder w) w"

section \<open>The invariant\<close>

text \<open>An active slot holds the order it is the slot of.\<close>

definition registry_inv :: "workload \<Rightarrow> order_registry \<Rightarrow> bool" where
  "registry_inv w r \<longleftrightarrow>
     length (Meta r) = NumOrders w \<and>
     (\<forall>i < NumOrders w. Active (Meta r ! i) \<longrightarrow> unat (OrderID (Meta r ! i)) = i)"

lemma registry_inv_New: "registry_inv w (NewOrderRegistry w)"
  by (simp add: registry_inv_def NewOrderRegistry_def zero_meta_def)

lemma deactivated_simps [simp]:
  "\<not> Active (deactivated m)" "InsertedAtSecs (deactivated m) = 0"
  "OrderID (deactivated m) = OrderID m"
  by (simp_all add: deactivated_def)

lemma Upsert_ok:
  assumes "registry_inv w r" and "unat (OrderID m) < NumOrders w"
  shows "Upsert m r = Inr (r\<lparr>Meta := (Meta r)[unat (OrderID m) := m]\<rparr>) \<and>
         registry_inv w (r\<lparr>Meta := (Meta r)[unat (OrderID m) := m]\<rparr>)"
  using assms by (auto simp: Upsert_def registry_inv_def go_simps nth_list_update)

lemma Upsert_out_of_range:
  assumes "registry_inv w r" and "NumOrders w \<le> unat (OrderID m)"
  shows "Upsert m r = Inl IndexOutOfRange"
  using assms by (simp add: Upsert_def registry_inv_def go_update_def)

lemma registry_inv_deactivate:
  assumes "registry_inv w r"
  shows "registry_inv w (r\<lparr>Meta := (Meta r)[i := deactivated (Meta r ! i)]\<rparr>)"
proof -
  have "OrderID ((Meta r)[i := deactivated (Meta r ! i)] ! j) = OrderID (Meta r ! j)"
    "Active ((Meta r)[i := deactivated (Meta r ! i)] ! j) \<Longrightarrow> Active (Meta r ! j)"
    if "j < length (Meta r)" for j
    subgoal using that by (cases "i = j") simp_all
    subgoal using that by (cases "i = j") simp_all
    done
  with assms show ?thesis by (simp add: registry_inv_def)
qed

section \<open>Leaving the service\<close>

text \<open>
  Eviction and expiry, over any indexes and matrix that keep their contracts.
\<close>

definition purge_meta :: "i64 \<Rightarrow> order_meta \<Rightarrow> order_meta" where
  "purge_meta nowSecs m = (if expired nowSecs m then deactivated m else m)"

definition expired_ids :: "i64 \<Rightarrow> order_registry \<Rightarrow> u32 list" where
  "expired_ids nowSecs r = map OrderID (filter (expired nowSecs) (Meta r))"

locale order_store = score_matrix + order_index +
  fixes w :: workload
  assumes size: "N = NumOrders w"
begin

lemma evict_inactive:
  assumes "NumOrders w \<le> unat oid \<or> (registry_inv w r \<and> \<not> Active (Meta r ! unat oid))"
  shows "EvictOrder_with remove evict w oid (r, ix, m) = Inr (r, ix, m)"
  using assms by (auto simp: EvictOrder_with_def registry_inv_def go_index_def)

lemma evict_active:
  assumes r: "registry_inv w r" and oid: "unat oid < NumOrders w" "Active (Meta r ! unat oid)"
    and m: "minv m"
  shows "\<exists>m'. EvictOrder_with remove evict w oid (r, ix, m) =
                Inr (r\<lparr>Meta := (Meta r)[unat oid := deactivated (Meta r ! unat oid)]\<rparr>,
                     remove oid ix, m') \<and>
              minv m' \<and> rows m' = rows m \<and>
              (\<forall>p < rows m. \<forall>j < NumOrders w.
                 score_at m' p j = (if j = unat oid then 0 else score_at m p j))"
proof -
  obtain m' where m': "evict m oid = Inr m'" "minv m'" "rows m' = rows m"
    "\<forall>p < rows m. \<forall>j < N. score_at m' p j = (if j = unat oid then 0 else score_at m p j)"
    using evict_ok [OF m] by blast
  with assms show ?thesis
    by (simp add: EvictOrder_with_def evict_slot_def registry_inv_def go_simps size)
qed

text \<open>Both cases: an eviction never faults, and does nothing to an order that is not active.\<close>

lemma evict_total:
  assumes r: "registry_inv w r" and m: "minv m"
  shows "\<exists>r' ix' m'. EvictOrder_with remove evict w oid (r, ix, m) = Inr (r', ix', m') \<and>
           minv m' \<and> rows m' = rows m \<and>
           (if unat oid < NumOrders w \<and> Active (Meta r ! unat oid)
            then r' = r\<lparr>Meta := (Meta r)[unat oid := deactivated (Meta r ! unat oid)]\<rparr> \<and> ix' = remove oid ix \<and>
              (\<forall>p < rows m. \<forall>j < NumOrders w. score_at m' p j = (if j = unat oid then 0 else score_at m p j))
            else (r', ix', m') = (r, ix, m))"
proof (cases "unat oid < NumOrders w \<and> Active (Meta r ! unat oid)")
  case True
  with evict_active [OF r _ _ m, of oid ix] show ?thesis by auto
next
  case False
  then have "EvictOrder_with remove evict w oid (r, ix, m) = Inr (r, ix, m)"
    using evict_inactive [of oid r] r by auto
  with False m show ?thesis by auto
qed

text \<open>The state after the purge has passed the first \<open>i\<close> slots.\<close>

definition purged_to where
  "purged_to now r ix m i st \<longleftrightarrow>
     (\<exists>m'. st = (r\<lparr>Meta := map (purge_meta now) (take i (Meta r)) @ drop i (Meta r)\<rparr>,
              fold remove (map OrderID (filter (expired now) (take i (Meta r)))) ix, m') \<and>
        minv m' \<and> rows m' = rows m \<and>
        (\<forall>p < rows m. \<forall>j < N.
           score_at m' p j = (if j < i \<and> expired now (Meta r ! j) then 0 else score_at m p j)))"

lemma purged_skip:
  assumes P: "purged_to now r ix m i st" and len: "i < length (Meta r)" and live: "\<not> expired now (Meta r ! i)"
  shows "purged_to now r ix m (Suc i) st"
proof -
  have take: "take (Suc i) (Meta r) = take i (Meta r) @ [Meta r ! i]"
    "drop i (Meta r) = Meta r ! i # drop (Suc i) (Meta r)"
    using len by (simp_all add: take_Suc_conv_app_nth Cons_nth_drop_Suc)
  from P obtain m1 where st: "st = (r\<lparr>Meta := map (purge_meta now) (take i (Meta r)) @ drop i (Meta r)\<rparr>,
      fold remove (map OrderID (filter (expired now) (take i (Meta r)))) ix, m1)"
    and m1: "minv m1" "rows m1 = rows m"
    and c1: "\<forall>p < rows m. \<forall>j < N. score_at m1 p j =
               (if j < i \<and> expired now (Meta r ! j) then 0 else score_at m p j)"
    unfolding purged_to_def by blast
  show ?thesis unfolding purged_to_def
  proof (intro exI [of _ m1] conjI allI impI)
    fix p j assume "p < rows m" "j < N"
    with c1 live show "score_at m1 p j = (if j < Suc i \<and> expired now (Meta r ! j) then 0 else score_at m p j)"
      by (cases "j = i") (simp_all add: less_Suc_eq)
  qed (use st m1 live take in \<open>simp_all add: purge_meta_def\<close>)
qed

lemma purged_evict:
  assumes P: "purged_to now r ix m i st" and len: "i < length (Meta r)" and old: "expired now (Meta r ! i)"
    and oid: "unat (OrderID (Meta r ! i)) = i"
  shows "\<exists>st'. evict_slot remove evict i (OrderID (Meta r ! i)) (Meta r ! i) st = Inr st' \<and>
           purged_to now r ix m (Suc i) st'"
proof -
  let ?ms = "Meta r"
  have take: "take (Suc i) ?ms = take i ?ms @ [?ms ! i]" "drop i ?ms = ?ms ! i # drop (Suc i) ?ms"
    using len by (simp_all add: take_Suc_conv_app_nth Cons_nth_drop_Suc)
  from P obtain m1 where st: "st = (r\<lparr>Meta := map (purge_meta now) (take i ?ms) @ drop i ?ms\<rparr>,
      fold remove (map OrderID (filter (expired now) (take i ?ms))) ix, m1)"
    and m1: "minv m1" "rows m1 = rows m"
    and c1: "\<forall>p < rows m. \<forall>j < N. score_at m1 p j =
               (if j < i \<and> expired now (?ms ! j) then 0 else score_at m p j)"
    unfolding purged_to_def by blast
  obtain m2 where m2: "evict m1 (OrderID (?ms ! i)) = Inr m2" "minv m2" "rows m2 = rows m1"
    and c2: "\<forall>p < rows m1. \<forall>j < N. score_at m2 p j =
               (if j = unat (OrderID (?ms ! i)) then 0 else score_at m1 p j)"
    using evict_ok [OF m1(1)] by blast
  let ?st = "(r\<lparr>Meta := map (purge_meta now) (take (Suc i) ?ms) @ drop (Suc i) ?ms\<rparr>,
               fold remove (map OrderID (filter (expired now) (take (Suc i) ?ms))) ix, m2)"
  have upd: "(map (purge_meta now) (take i ?ms) @ drop i ?ms)[i := deactivated (?ms ! i)] =
               map (purge_meta now) (take (Suc i) ?ms) @ drop (Suc i) ?ms"
    using len old take by (simp add: list_update_append purge_meta_def)
  have "evict_slot remove evict i (OrderID (?ms ! i)) (?ms ! i) st = Inr ?st"
    using old m2(1) len upd take(1) by (simp add: st evict_slot_def go_update_def)
  moreover have "purged_to now r ix m (Suc i) ?st" unfolding purged_to_def
  proof (intro exI [of _ m2] conjI allI impI)
    fix p j assume "p < rows m" "j < N"
    with c1 c2 m1(2) oid have "score_at m2 p j = (if j = i then 0 else score_at m1 p j)"
      and "score_at m1 p j = (if j < i \<and> expired now (?ms ! j) then 0 else score_at m p j)"
      by simp_all
    with old show "score_at m2 p j = (if j < Suc i \<and> expired now (?ms ! j) then 0 else score_at m p j)"
      by (cases "j = i") (simp_all add: less_Suc_eq)
  qed (use m2 m1 in simp_all)
  ultimately show ?thesis by blast
qed

lemma purged_slot:
  assumes P: "purged_to now r ix m i st" and len: "i < length (Meta r)"
  shows "go_index (Meta (fst st)) i = Inr (Meta r ! i)"
  using P len by (auto simp: purged_to_def go_index_def nth_append)

lemma purge_ok:
  assumes r: "registry_inv w r" and m: "minv m"
  shows "\<exists>m'. PurgeExpired_with remove evict w now (r, ix, m) =
                Inr (r\<lparr>Meta := map (purge_meta now) (Meta r)\<rparr>, fold remove (expired_ids now r) ix, m') \<and>
              minv m' \<and> rows m' = rows m \<and>
              (\<forall>p < rows m. \<forall>j < NumOrders w.
                 score_at m' p j = (if expired now (Meta r ! j) then 0 else score_at m p j))"
proof -
  let ?g = "\<lambda>i st. gbind (go_index (Meta (fst st)) i) (\<lambda>meta.
              if expired now meta then evict_slot remove evict i (OrderID meta) meta st else Inr st)"
  have len: "length (Meta r) = N" using r by (simp add: registry_inv_def size)
  have "\<exists>st. gfold ?g [0..<N] (r, ix, m) = Inr st \<and> purged_to now r ix m N st"
  proof (rule gfold_upt_inv [where P = "purged_to now r ix m"])
    show "purged_to now r ix m 0 (r, ix, m)" using m by (simp add: purged_to_def)
  next
    fix i st assume i: "i < N" and P: "purged_to now r ix m i st"
    have il: "i < length (Meta r)" using i len by simp
    show "\<exists>st'. ?g i st = Inr st' \<and> purged_to now r ix m (Suc i) st'"
    proof (cases "expired now (Meta r ! i)")
      case True
      then have "unat (OrderID (Meta r ! i)) = i" using r i by (simp add: registry_inv_def expired_def size)
      with purged_evict [OF P il True] show ?thesis using True by (simp add: purged_slot [OF P il])
    next
      case False
      with purged_skip [OF P il] show ?thesis by (simp add: purged_slot [OF P il])
    qed
  qed simp
  then obtain m' where "gfold ?g [0..<N] (r, ix, m) =
      Inr (r\<lparr>Meta := map (purge_meta now) (Meta r)\<rparr>, fold remove (expired_ids now r) ix, m')"
    "minv m'" "rows m' = rows m"
    "\<forall>p < rows m. \<forall>j < N. score_at m' p j = (if expired now (Meta r ! j) then 0 else score_at m p j)"
    by (auto simp: purged_to_def len expired_ids_def)
  then show ?thesis by (simp add: PurgeExpired_with_def size)
qed

end

interpretation pstore: order_store "NumOrders w" NumPPS "cell w" "write_column w" "matrix_EvictOrder w"
  "matrix_wf w" AddOrder RemoveOrder tpid_orders bintag_orders index_inv w for w
  by (intro order_store.intro order_store_axioms.intro pmat.score_matrix_axioms
      idx.order_index_axioms) (rule refl)

interpretation cstore: order_store "NumOrders w" cNumPPS "\<lambda>cm. cell w (c_view cm)"
  "cgo_write_column w" "cgo_matrix_EvictOrder w" "c_wf w"
  cgo_AddOrder cgo_RemoveOrder tpid_orders bintag_orders index_inv w for w
  by (intro order_store.intro order_store_axioms.intro cmat.score_matrix_axioms
      cidx.order_index_axioms) (rule refl)

lemma registry_inv_purge:
  "registry_inv w r \<Longrightarrow> registry_inv w (r\<lparr>Meta := map (purge_meta now) (Meta r)\<rparr>)"
  by (simp add: registry_inv_def purge_meta_def)

lemma index_range_removes:
  "index_inv ix \<Longrightarrow> index_range w ix \<Longrightarrow> index_range w (fold RemoveOrder oids ix)"
  by (induction oids arbitrary: ix) (auto simp: index_range_RemoveOrder index_inv_RemoveOrder)

end
