(* ===== verification/Order_Ingest.thy ===== *)
theory Order_Ingest
  imports Order_Registry
begin

text \<open>
  \<^verbatim>\<open>IngestOrder\<close> of \<^verbatim>\<open>mock.go\<close>: one order event goes into the registry, the
  indexes and the order's column of the matrix.  The pure implementation does this
  unconditionally; the cgo one guards the matrix, but reads the registry slot first.
\<close>

section \<open>The code\<close>

record kafka_order_event =
  evOrderID :: u32
  evRequiredQty :: float32
  evPBTDeadline :: i64
  evBaseScore :: float32
  TPIDs :: "u64 list"
  EligibleBinTags :: "u32 list"
  evActive :: bool

text \<open>The cgo event has no \<^verbatim>\<open>Active\<close> field.\<close>

record cgo_kafka_order_event =
  cevOrderID :: u32
  cevRequiredQty :: float32
  cevPBTDeadline :: i64
  cevTPIDs :: "u64 list"
  cevEligibleBinTags :: "u32 list"
  cevBaseScore :: float32

text \<open>\<^verbatim>\<open>int32(x * ScoreScale)\<close>\<close>

definition scale_score :: "go_runtime \<Rightarrow> float32 \<Rightarrow> i32" where
  "scale_score rt x = int32_of_f32 (float_overflow rt) (f32_mul x ScoreScale)"

lemma scale_score_within:
  assumes "f32_within k x" and "k + 7 = int n" and "n < 31"
  shows "\<bar>sint (scale_score rt x)\<bar> \<le> 2 ^ n"
proof -
  obtain m e where x: "x = F32 m e" "\<bar>f32_val x\<bar> \<le> 2 powi k"
    using assms(1) by (auto simp: f32_within_def)
  have "\<bar>f32_val x * f32_val (F32 100 0)\<bar> = 100 * \<bar>f32_val x\<bar>" by (simp add: abs_mult)
  also have "\<dots> \<le> 2 powi 7 * 2 powi k" using x(2) by simp
  also have "\<dots> = 2 powi (int n)"
    unfolding assms(2) [symmetric] by (subst add.commute, subst power_int_add) simp_all
  finally have "\<bar>f32_val (F32 m e) * f32_val (F32 100 0)\<bar> \<le> 2 powi (int n)" using x(1) by simp
  from f32_mul_within [OF this] assms(3) have "f32_within (int n) (f32_mul x ScoreScale)"
    using x(1) by (simp add: ScoreScale_def)
  then show ?thesis using int32_within assms(3) by (simp add: scale_score_def)
qed

definition IngestOrder ::
  "go_runtime \<Rightarrow> workload \<Rightarrow> kafka_order_event \<Rightarrow> i64 \<Rightarrow> pps_matrix store \<Rightarrow>
     pps_matrix store go" where
  "IngestOrder rt w evt nowSecs st =
     (case st of (registry, indexes, matrix) \<Rightarrow>
      let meta = \<lparr>OrderID = evOrderID evt, RequiredQty = evRequiredQty evt,
                  PBTDeadline = evPBTDeadline evt, Active = evActive evt,
                  InsertedAtSecs = nowSecs\<rparr>
      in gbind (Upsert meta registry) (\<lambda>registry'.
         let indexes' = AddOrder (evOrderID evt) (TPIDs evt) (EligibleBinTags evt) indexes;
             baseI16 = clampInt16 (scale_score rt (evBaseScore evt))
         in gbind (write_column w matrix (evOrderID evt) baseI16) (\<lambda>matrix'.
            Inr (registry', indexes', matrix'))))"

text \<open>The matrix argument of the cgo function may be nil.\<close>

definition cgo_IngestOrder ::
  "go_runtime \<Rightarrow> workload \<Rightarrow> cgo_kafka_order_event \<Rightarrow> i64 \<Rightarrow> c_matrix option store \<Rightarrow>
     c_matrix option store go" where
  "cgo_IngestOrder rt w evt nowSecs st =
     (case st of (registry, indexes, matrix) \<Rightarrow>
      let oid = cevOrderID evt;
          meta = \<lparr>OrderID = oid, RequiredQty = cevRequiredQty evt,
                  PBTDeadline = cevPBTDeadline evt, Active = True,
                  InsertedAtSecs = nowSecs\<rparr>
      in gbind (go_index (Meta registry) (unat oid)) (\<lambda>old.
         let indexes1 = (if Active old then cgo_RemoveOrder oid indexes else indexes)
         in gbind (cgo_Upsert w meta registry) (\<lambda>registry'.
            let indexes' = cgo_AddOrder oid (cevTPIDs evt) (cevEligibleBinTags evt) indexes1
            in case matrix of
                 None \<Rightarrow> Inr (registry', indexes', None)
               | Some m \<Rightarrow>
                   if unat oid < NumOrders w
                   then let baseI16 = cgo_clampI16 (scale_score rt (cevBaseScore evt))
                        in gbind (cgo_write_column w m oid baseI16) (\<lambda>m'.
                             Inr (registry', indexes', Some m'))
                   else Inr (registry', indexes', Some m))))"

section \<open>The store\<close>

text \<open>
  What every operation keeps of the registry, the indexes and the matrix, over any matrix
  with the contract; and what one ingestion does to it.
\<close>

definition store_inv ::
  "workload \<Rightarrow> ('m \<Rightarrow> bool) \<Rightarrow> order_registry \<times> inverted_indexes \<times> 'm \<Rightarrow> bool" where
  "store_inv w minv st \<longleftrightarrow>
     (case st of (r, ix, m) \<Rightarrow> registry_inv w r \<and> index_inv ix \<and> index_range w ix \<and> minv m)"

text \<open>
  The order of slot \<open>i\<close> has been replaced by \<open>meta\<close>: its metadata, its index entries and
  its column, and nothing else.
\<close>

definition ingested ::
  "workload \<Rightarrow> order_meta \<Rightarrow> u64 list \<Rightarrow> u32 list \<Rightarrow> i16 \<Rightarrow>
     ('m \<Rightarrow> nat) \<Rightarrow> ('m \<Rightarrow> nat \<Rightarrow> nat \<Rightarrow> i16) \<Rightarrow>
     order_registry \<times> inverted_indexes \<times> 'm \<Rightarrow> order_registry \<times> inverted_indexes \<times> 'm \<Rightarrow> bool" where
  "ingested w meta tpids bintags base rows score_at st st' \<longleftrightarrow>
     (case (st, st') of ((r, ix, m), (r', ix', m')) \<Rightarrow>
        let oid = OrderID meta in
        Meta r' = (Meta r)[unat oid := meta] \<and>
        (\<forall>t. tpid_orders ix' t = removeAll oid (tpid_orders ix t) @ replicate (count_list tpids t) oid) \<and>
        (\<forall>b. bintag_orders ix' b =
               removeAll oid (bintag_orders ix b) @ replicate (count_list bintags b) oid) \<and>
        rows m' = rows m \<and>
        (\<forall>p < rows m. \<forall>j < NumOrders w.
           score_at m' p j = (if j = unat oid then base else score_at m p j)))"

definition event_meta :: "kafka_order_event \<Rightarrow> i64 \<Rightarrow> order_meta" where
  "event_meta evt nowSecs =
     \<lparr>OrderID = evOrderID evt, RequiredQty = evRequiredQty evt, PBTDeadline = evPBTDeadline evt,
      Active = evActive evt, InsertedAtSecs = nowSecs\<rparr>"

definition cgo_event_meta :: "cgo_kafka_order_event \<Rightarrow> i64 \<Rightarrow> order_meta" where
  "cgo_event_meta evt nowSecs =
     \<lparr>OrderID = cevOrderID evt, RequiredQty = cevRequiredQty evt, PBTDeadline = cevPBTDeadline evt,
      Active = True, InsertedAtSecs = nowSecs\<rparr>"

lemma IngestOrder_steps:
  assumes inv: "store_inv w (matrix_wf w) st" and oid: "unat (evOrderID evt) < NumOrders w"
  shows "\<exists>st'. IngestOrder rt w evt nowSecs st = Inr st' \<and> store_inv w (matrix_wf w) st' \<and>
           ingested w (event_meta evt nowSecs) (TPIDs evt) (EligibleBinTags evt)
             (clampInt16 (scale_score rt (evBaseScore evt))) NumPPS (cell w) st st'"
proof -
  obtain r ix m where st: "st = (r, ix, m)" by (cases st)
  let ?meta = "event_meta evt nowSecs"
  let ?r = "r\<lparr>Meta := (Meta r)[unat (evOrderID evt) := ?meta]\<rparr>"
  let ?ix = "AddOrder (evOrderID evt) (TPIDs evt) (EligibleBinTags evt) ix"
  from inv have i: "registry_inv w r" "index_inv ix" "index_range w ix" "matrix_wf w m"
    by (simp_all add: store_inv_def st)
  have up: "Upsert ?meta r = Inr ?r \<and> registry_inv w ?r"
    using Upsert_ok [OF i(1), of ?meta] oid by (simp add: event_meta_def)
  obtain m' where m': "write_column w m (evOrderID evt) (clampInt16 (scale_score rt (evBaseScore evt))) = Inr m'"
    "matrix_wf w m'" "NumPPS m' = NumPPS m"
    "\<forall>p < NumPPS m. \<forall>j < NumOrders w. cell w m' p j =
       (if j = unat (evOrderID evt) then clampInt16 (scale_score rt (evBaseScore evt)) else cell w m p j)"
    using pmat.put_ok [OF i(4) oid] by blast
  have "IngestOrder rt w evt nowSecs st = Inr (?r, ?ix, m')"
    using up m'(1) by (simp add: IngestOrder_def st Let_def flip: event_meta_def)
  moreover have "store_inv w (matrix_wf w) (?r, ?ix, m')"
    using up i m'(2) oid by (simp add: store_inv_def idx.invar_add index_range_AddOrder)
  moreover have "ingested w ?meta (TPIDs evt) (EligibleBinTags evt)
      (clampInt16 (scale_score rt (evBaseScore evt))) NumPPS (cell w) st (?r, ?ix, m')"
    using i(2) m'(3,4) by (simp add: ingested_def st event_meta_def idx.tpid_add idx.bintag_add)
  ultimately show ?thesis by blast
qed

lemma removeAll_twice: "removeAll x (removeAll x xs) = removeAll x xs"
  by (induction xs) auto

lemma cgo_IngestOrder_steps:
  assumes inv: "store_inv w (c_wf w) (r, ix, m)" and oid: "unat (cevOrderID evt) < NumOrders w"
  shows "\<exists>r' ix' m'. cgo_IngestOrder rt w evt nowSecs (r, ix, Some m) = Inr (r', ix', Some m') \<and>
           store_inv w (c_wf w) (r', ix', m') \<and>
           ingested w (cgo_event_meta evt nowSecs) (cevTPIDs evt) (cevEligibleBinTags evt)
             (clampInt16 (scale_score rt (cevBaseScore evt))) cNumPPS (\<lambda>cm. cell w (c_view cm))
             (r, ix, m) (r', ix', m')"
proof -
  let ?meta = "cgo_event_meta evt nowSecs" and ?oid = "cevOrderID evt"
  let ?base = "clampInt16 (scale_score rt (cevBaseScore evt))"
  let ?r = "r\<lparr>Meta := (Meta r)[unat ?oid := ?meta]\<rparr>"
  let ?ix1 = "if Active (Meta r ! unat ?oid) then cgo_RemoveOrder ?oid ix else ix"
  let ?ix = "cgo_AddOrder ?oid (cevTPIDs evt) (cevEligibleBinTags evt) ?ix1"
  from inv have i: "registry_inv w r" "index_inv ix" "index_range w ix" "c_wf w m"
    by (simp_all add: store_inv_def)
  have len: "unat ?oid < length (Meta r)" using i(1) oid by (simp add: registry_inv_def)
  have up: "cgo_Upsert w ?meta r = Inr ?r" "registry_inv w ?r"
    using Upsert_ok [OF i(1), of ?meta] oid len
    by (simp_all add: cgo_event_meta_def cgo_Upsert_def go_simps)
  have ix1: "index_inv ?ix1" "index_range w ?ix1"
    using i by (simp_all add: cidx.invar_remove cgo_RemoveOrder_eq index_inv_RemoveOrder
        index_range_RemoveOrder)
  obtain m' where m': "cgo_write_column w m ?oid ?base = Inr m'" "c_wf w m'" "cNumPPS m' = cNumPPS m"
    "\<forall>p < cNumPPS m. \<forall>j < NumOrders w. cell w (c_view m') p j =
       (if j = unat ?oid then ?base else cell w (c_view m) p j)"
    using cmat.put_ok [OF i(4) oid] by blast
  have "cgo_IngestOrder rt w evt nowSecs (r, ix, Some m) = Inr (?r, ?ix, Some m')"
    using up(1) m'(1) len oid
    by (simp add: cgo_IngestOrder_def Let_def go_simps cgo_clampI16_eq flip: cgo_event_meta_def)
  moreover have "store_inv w (c_wf w) (?r, ?ix, m')"
    using up(2) ix1 m'(2) oid
    by (simp add: store_inv_def cidx.invar_add cgo_AddOrder_eq idx.invar_add index_range_AddOrder)
  moreover have "ingested w ?meta (cevTPIDs evt) (cevEligibleBinTags evt) ?base cNumPPS
      (\<lambda>cm. cell w (c_view cm)) (r, ix, m) (?r, ?ix, m')"
    using i(2) ix1 m'(3,4)
    by (simp add: ingested_def cgo_event_meta_def cidx.tpid_add cidx.bintag_add cidx.tpid_remove
        cidx.bintag_remove removeAll_twice)
  ultimately show ?thesis by blast
qed

text \<open>An ID outside the registry: both panic, the cgo one before its guards are reached.\<close>

lemma IngestOrder_fault:
  assumes "store_inv w (matrix_wf w) (r, ix, m)" and "NumOrders w \<le> unat (evOrderID evt)"
  shows "IngestOrder rt w evt nowSecs (r, ix, m) = Inl IndexOutOfRange"
  using assms Upsert_out_of_range [of w r "event_meta evt nowSecs"]
  by (simp add: IngestOrder_def store_inv_def event_meta_def)

lemma cgo_IngestOrder_fault:
  assumes "store_inv w minv (r, ix, m)" and "NumOrders w \<le> unat (cevOrderID evt)"
  shows "cgo_IngestOrder rt w evt nowSecs (r, ix, mo) = Inl IndexOutOfRange"
  using assms by (simp add: cgo_IngestOrder_def store_inv_def registry_inv_def go_index_def Let_def)

end
