(* ===== verification/Read_Buffer.thy ===== *)
theory Read_Buffer
  imports Service_Types
begin

text \<open>
  \<^verbatim>\<open>ReadBuffer\<close> and \<^verbatim>\<open>DoubleBuffer\<close> of \<^verbatim>\<open>types.go\<close>: the flat
  array of ranked order IDs, one list of \<^verbatim>\<open>TopK\<close> slots per pair and table, \<open>-1\<close>
  for an empty slot, and the pointer through which a cycle's result is published.
\<close>

section \<open>The flat buffer\<close>

record read_buffer =
  rbData :: "i32 list"
  NumPairs :: nat

definition NewReadBuffer :: "workload \<Rightarrow> nat \<Rightarrow> read_buffer" where
  "NewReadBuffer w numPairs =
     \<lparr>rbData = replicate (numPairs * NumTables * TopK w) (-1), NumPairs = numPairs\<rparr>"

definition listOffset :: "workload \<Rightarrow> nat \<Rightarrow> nat \<Rightarrow> nat" where
  "listOffset w pairIdx table = (pairIdx * NumTables + table) * TopK w"

text \<open>
  \<^verbatim>\<open>GetList\<close> of the pure implementation returns the slots as they are.  A negative
  \<^verbatim>\<open>k\<close> is a slice expression whose bounds are out of order.
\<close>

definition GetList :: "workload \<Rightarrow> read_buffer \<Rightarrow> nat \<Rightarrow> nat \<Rightarrow> int \<Rightarrow> i32 list go" where
  "GetList w b pairIdx table k =
     (let off = listOffset w pairIdx table;
          k' = (if int (TopK w) < k then int (TopK w) else k)
      in if k' < 0 then Inl SliceOutOfRange
         else go_slice (rbData b) off (off + nat k'))"

definition ListMut :: "workload \<Rightarrow> read_buffer \<Rightarrow> nat \<Rightarrow> nat \<Rightarrow> i32 list go" where
  "ListMut w b pairIdx table =
     (let off = listOffset w pairIdx table in go_slice (rbData b) off (off + TopK w))"

text \<open>
  \<^verbatim>\<open>ListMut\<close> returns a view: what its caller leaves in it is in the buffer.
\<close>

definition put_list :: "workload \<Rightarrow> read_buffer \<Rightarrow> nat \<Rightarrow> nat \<Rightarrow> i32 list \<Rightarrow> read_buffer" where
  "put_list w b pairIdx table xs =
     b\<lparr>rbData := write_view (rbData b) (listOffset w pairIdx table) xs\<rparr>"

text \<open>
  \<^verbatim>\<open>GetList\<close> of the cgo implementation copies up to the first empty slot, into a slice
  of capacity \<^verbatim>\<open>k\<close>, which cannot be made for a negative \<^verbatim>\<open>k\<close>.
\<close>

fun copy_until_empty :: "i32 list \<Rightarrow> nat \<Rightarrow> nat \<Rightarrow> i32 list go" where
  "copy_until_empty xs pos 0 = Inr []"
| "copy_until_empty xs pos (Suc n) =
     gbind (go_index xs pos) (\<lambda>v.
       if v = -1 then Inr []
       else gbind (copy_until_empty xs (Suc pos) n) (\<lambda>vs. Inr (v # vs)))"

definition cgo_GetList :: "workload \<Rightarrow> read_buffer \<Rightarrow> nat \<Rightarrow> nat \<Rightarrow> int \<Rightarrow> i32 list go" where
  "cgo_GetList w b pairIdx table k =
     (let off = listOffset w pairIdx table;
          k' = (if int (TopK w) < k then int (TopK w) else k)
      in if k' < 0 then Inl MakeOutOfRange else copy_until_empty (rbData b) off (nat k'))"

section \<open>The double buffer\<close>

record double_buffer =
  db_ptr :: read_buffer

definition NewDoubleBuffer :: "workload \<Rightarrow> nat \<Rightarrow> double_buffer" where
  "NewDoubleBuffer w numPairs = \<lparr>db_ptr = NewReadBuffer w numPairs\<rparr>"

definition Load :: "double_buffer \<Rightarrow> read_buffer" where
  "Load db = db_ptr db"

definition Publish :: "double_buffer \<Rightarrow> read_buffer \<Rightarrow> double_buffer" where
  "Publish db buf = db\<lparr>db_ptr := buf\<rparr>"

section \<open>The layout\<close>

text \<open>A buffer of the size it was allocated with, and the contents of one of its lists.\<close>

definition rb_wf :: "workload \<Rightarrow> read_buffer \<Rightarrow> bool" where
  "rb_wf w b \<longleftrightarrow> length (rbData b) = NumPairs b * NumTables * TopK w"

definition rb_list :: "workload \<Rightarrow> read_buffer \<Rightarrow> nat \<Rightarrow> nat \<Rightarrow> i32 list" where
  "rb_list w b p t = take (TopK w) (drop (listOffset w p t) (rbData b))"

lemma rb_wf_New [simp]: "rb_wf w (NewReadBuffer w n)"
  by (simp add: rb_wf_def NewReadBuffer_def)

lemma NumPairs_New [simp]: "NumPairs (NewReadBuffer w n) = n"
  by (simp add: NewReadBuffer_def)

lemma slot_in_range:
  assumes "p < n" and "t < NumTables"
  shows "listOffset w p t + TopK w \<le> n * NumTables * TopK w"
proof -
  from assms(1) have "Suc p * NumTables \<le> n * NumTables"
    by (intro mult_le_mono1) simp
  with assms(2) have "p * NumTables + t + 1 \<le> n * NumTables"
    by simp
  then have "(p * NumTables + t + 1) * TopK w \<le> n * NumTables * TopK w"
    by (rule mult_le_mono1)
  then show ?thesis by (simp add: listOffset_def algebra_simps)
qed

lemma slots_disjoint:
  assumes "t < NumTables" and "t' < NumTables" and "(p, t) \<noteq> (p', t')"
  shows "listOffset w p t + TopK w \<le> listOffset w p' t' \<or>
         listOffset w p' t' + TopK w \<le> listOffset w p t"
proof -
  let ?s = "p * NumTables + t" and ?s' = "p' * NumTables + t'"
  have "?s \<noteq> ?s'"
    using assms unfolding NumTables_def prod.inject by presburger
  then have "Suc ?s \<le> ?s' \<or> Suc ?s' \<le> ?s" by arith
  then have "Suc ?s * TopK w \<le> ?s' * TopK w \<or> Suc ?s' * TopK w \<le> ?s * TopK w"
    using mult_le_mono1 by blast
  then show ?thesis by (simp add: listOffset_def algebra_simps)
qed

lemma length_rb_list:
  assumes "rb_wf w b" and "p < NumPairs b" and "t < NumTables"
  shows "length (rb_list w b p t) = TopK w"
  using slot_in_range [OF assms(2,3), of w] assms(1) by (simp add: rb_list_def rb_wf_def)

lemma ListMut_ok [go_simps]:
  assumes "rb_wf w b" and "p < NumPairs b" and "t < NumTables"
  shows "ListMut w b p t = Inr (rb_list w b p t)"
  using slot_in_range [OF assms(2,3), of w] assms(1)
  by (simp add: ListMut_def rb_list_def rb_wf_def go_slice_def Let_def)

lemma NumPairs_put_list [simp]: "NumPairs (put_list w b p t xs) = NumPairs b"
  by (simp add: put_list_def)

lemma rb_wf_put_list:
  assumes "rb_wf w b" and "p < NumPairs b" and "t < NumTables" and "length xs = TopK w"
  shows "rb_wf w (put_list w b p t xs)"
  using slot_in_range [OF assms(2,3), of w] assms(1,4) by (simp add: rb_wf_def put_list_def)

lemma rb_list_put_same:
  assumes "rb_wf w b" and "p < NumPairs b" and "t < NumTables" and "length xs = TopK w"
  shows "rb_list w (put_list w b p t xs) p t = xs"
  using slot_in_range [OF assms(2,3), of w] assms(1,4) write_view_same [of _ xs "rbData b"]
  by (simp add: rb_wf_def rb_list_def put_list_def)

lemma rb_list_put_other:
  assumes "rb_wf w b" and "p < NumPairs b" and "t < NumTables" and "length xs = TopK w"
    and "t' < NumTables" and "(p', t') \<noteq> (p, t)"
  shows "rb_list w (put_list w b p t xs) p' t' = rb_list w b p' t'"
  using slot_in_range [OF assms(2,3), of w] assms(1,4)
    slots_disjoint [OF assms(3,5) assms(6) [symmetric], of w]
    write_view_other [of "listOffset w p t" xs "rbData b" "listOffset w p' t'" "TopK w"]
  by (auto simp: rb_wf_def rb_list_def put_list_def)

lemma rb_list_New:
  assumes "p < n" and "t < NumTables"
  shows "rb_list w (NewReadBuffer w n) p t = replicate (TopK w) (-1)"
  using slot_in_range [OF assms, of w]
  by (simp add: rb_list_def NewReadBuffer_def min_def)

lemmas rb_simps = rb_wf_put_list rb_list_put_same rb_list_put_other

text \<open>The two readers, on a buffer of the right size.\<close>

lemma GetList_ok:
  assumes "rb_wf w b" and "p < NumPairs b" and "t < NumTables" and "0 \<le> k"
  shows "GetList w b p t k = Inr (take (nat k) (rb_list w b p t))"
proof -
  let ?k = "if int (TopK w) < k then int (TopK w) else k"
  have "nat ?k = min (TopK w) (nat k)" and "0 \<le> ?k" using assms(4) by auto
  then show ?thesis
    using slot_in_range [OF assms(2,3), of w] assms(1)
    by (simp add: GetList_def Let_def go_slice_def rb_wf_def rb_list_def min.commute)
qed

lemma GetList_out_of_range:
  assumes "rb_wf w b" and "NumPairs b \<le> p" and "0 < k" and "0 < TopK w"
  shows "GetList w b p t k = Inl SliceOutOfRange"
proof -
  have "NumPairs b * NumTables * TopK w \<le> listOffset w p t"
    using assms(2) unfolding listOffset_def by (intro mult_le_mono1) (simp add: trans_le_add1)
  with assms show ?thesis
    by (auto simp: GetList_def Let_def go_slice_def rb_wf_def)
qed

lemma copy_until_empty_ok:
  "pos + n \<le> length xs \<Longrightarrow>
     copy_until_empty xs pos n = Inr (takeWhile (\<lambda>v. v \<noteq> -1) (take n (drop pos xs)))"
proof (induction xs pos n rule: copy_until_empty.induct)
  case (2 xs pos n)
  then have "drop pos xs = xs ! pos # drop (Suc pos) xs"
    by (simp add: Cons_nth_drop_Suc)
  with 2 show ?case by (auto simp: go_simps)
qed simp

lemma cgo_GetList_ok:
  assumes "rb_wf w b" and "p < NumPairs b" and "t < NumTables" and "0 \<le> k"
  shows "cgo_GetList w b p t k =
           Inr (takeWhile (\<lambda>v. v \<noteq> -1) (take (nat k) (rb_list w b p t)))"
proof -
  let ?k = "nat (if int (TopK w) < k then int (TopK w) else k)"
  have k: "?k = min (nat k) (TopK w)" by auto
  with slot_in_range [OF assms(2,3), of w] assms(1)
  have "listOffset w p t + ?k \<le> length (rbData b)" by (simp add: rb_wf_def)
  from copy_until_empty_ok [OF this] k assms(4) show ?thesis
    by (simp add: cgo_GetList_def Let_def rb_list_def)
qed

end
