(* ===== verification/Topology.thy ===== *)
theory Topology
  imports Service_Types
begin

text \<open>
  \<^verbatim>\<open>TopologyState\<close> of \<^verbatim>\<open>topology.go\<close>: the life cycle of each (PPS, BinTag) pair.
  The Go state is an atomically published map that writers replace by a changed copy under
  a mutex; a write is therefore one step on the map's value, and a reader's snapshot is a
  value too.  The copy is the loop \<open>copyMap\<close>, whose result does not depend on the order in
  which Go iterates over the map.

  The implementations differ in \<^verbatim>\<open>Activate\<close>: the pure one acts only on a pair that is
  warming up, the cgo one on any pair.  The interface \<open>topology_ops\<close> holds what both
  promise, \<open>strict_topology\<close> what only the pure one does.
\<close>

section \<open>The code\<close>

datatype pair_status = StatusActive | StatusWarmingUp | StatusRemoved

text \<open>The zero value of \<^verbatim>\<open>PairStatus\<close> is its first constant.\<close>

instantiation pair_status :: default
begin

definition default_pair_status :: pair_status where
  "default_pair_status = StatusActive"

instance ..

end

record topology_state =
  val :: "u64 \<rightharpoonup> pair_status"

definition NewTopologyState :: topology_state where
  "NewTopologyState = \<lparr>val = Map.empty\<rparr>"

definition Get :: "topology_state \<Rightarrow> u64 \<Rightarrow> pair_status \<times> bool" where
  "Get t k = (map_zero (val t) k, val t k \<noteq> None)"

text \<open>The copy loop, over the keys in the order \<open>order\<close> in which Go visits them.\<close>

definition copyMap :: "u64 list \<Rightarrow> (u64 \<rightharpoonup> pair_status) \<Rightarrow> (u64 \<rightharpoonup> pair_status)" where
  "copyMap order src = fold (\<lambda>k dst. dst(k := src k)) order Map.empty"

lemma copy_loop: "fold (\<lambda>k dst. dst(k := src k)) ks dst = (\<lambda>k. if k \<in> set ks then src k else dst k)"
  by (induction ks arbitrary: dst) (auto simp: fun_eq_iff)

lemma copyMap_eq: "set order = dom src \<Longrightarrow> copyMap order src = src"
  by (auto simp: copyMap_def copy_loop fun_eq_iff)

definition AddWarmingUp :: "u32 \<Rightarrow> u32 \<Rightarrow> topology_state \<Rightarrow> topology_state" where
  "AddWarmingUp ppsID bintagID t =
     t\<lparr>val := (val t)(MakePairKey ppsID bintagID \<mapsto> StatusWarmingUp)\<rparr>"

definition Activate :: "u32 \<Rightarrow> u32 \<Rightarrow> topology_state \<Rightarrow> topology_state" where
  "Activate ppsID bintagID t =
     (let k = MakePairKey ppsID bintagID; old = val t
      in if map_zero old k \<noteq> StatusWarmingUp then t
         else t\<lparr>val := old(k \<mapsto> StatusActive)\<rparr>)"

definition Remove :: "u32 \<Rightarrow> u32 \<Rightarrow> topology_state \<Rightarrow> topology_state" where
  "Remove ppsID bintagID t =
     t\<lparr>val := (val t)(MakePairKey ppsID bintagID \<mapsto> StatusRemoved)\<rparr>"

definition WarmingUpPairs :: "u64 list \<Rightarrow> topology_state \<Rightarrow> u64 list" where
  "WarmingUpPairs order t = filter (\<lambda>k. val t k = Some StatusWarmingUp) order"

text \<open>The cgo implementation.\<close>

definition cgo_Get :: "topology_state \<Rightarrow> u64 \<Rightarrow> pair_status \<times> bool" where
  "cgo_Get t k = (map_zero (val t) k, val t k \<noteq> None)"

definition cgo_AddWarmingUp :: "u32 \<Rightarrow> u32 \<Rightarrow> topology_state \<Rightarrow> topology_state" where
  "cgo_AddWarmingUp ppsID bintagID t =
     t\<lparr>val := (val t)(MakePairKey ppsID bintagID \<mapsto> StatusWarmingUp)\<rparr>"

definition cgo_Activate :: "u32 \<Rightarrow> u32 \<Rightarrow> topology_state \<Rightarrow> topology_state" where
  "cgo_Activate ppsID bintagID t =
     t\<lparr>val := (val t)(MakePairKey ppsID bintagID \<mapsto> StatusActive)\<rparr>"

definition cgo_Remove :: "u32 \<Rightarrow> u32 \<Rightarrow> topology_state \<Rightarrow> topology_state" where
  "cgo_Remove ppsID bintagID t =
     t\<lparr>val := (val t)(MakePairKey ppsID bintagID \<mapsto> StatusRemoved)\<rparr>"

definition cgo_WarmingUpPairs :: "u64 list \<Rightarrow> topology_state \<Rightarrow> u64 list" where
  "cgo_WarmingUpPairs order t = filter (\<lambda>k. val t k = Some StatusWarmingUp) order"

section \<open>The interface\<close>

text \<open>
  What the engine and the server rely on: each operation changes the pair it names and no
  other, and activation takes a pair that is warming up to active.
\<close>

locale topology_ops =
  fixes get :: "'t \<Rightarrow> u64 \<Rightarrow> pair_status \<times> bool"
    and add :: "u32 \<Rightarrow> u32 \<Rightarrow> 't \<Rightarrow> 't"
    and activate :: "u32 \<Rightarrow> u32 \<Rightarrow> 't \<Rightarrow> 't"
    and remove :: "u32 \<Rightarrow> u32 \<Rightarrow> 't \<Rightarrow> 't"
  assumes get_add: "get (add p b t) k =
      (if k = MakePairKey p b then (StatusWarmingUp, True) else get t k)"
    and get_remove: "get (remove p b t) k =
      (if k = MakePairKey p b then (StatusRemoved, True) else get t k)"
    and activate_warming: "get t (MakePairKey p b) = (StatusWarmingUp, True) \<Longrightarrow>
      get (activate p b t) (MakePairKey p b) = (StatusActive, True)"
    and activate_other: "k \<noteq> MakePairKey p b \<Longrightarrow> get (activate p b t) k = get t k"
begin

lemma warm_up_cycle:
  "get (activate p b (add p b t)) (MakePairKey p b) = (StatusActive, True)"
  by (rule activate_warming) (simp add: get_add)

lemma readd_after_remove:
  "get (add p b (remove p b t)) (MakePairKey p b) = (StatusWarmingUp, True)"
  by (simp add: get_add)

lemma activate_fold_other:
  "\<forall>(p, b) \<in> set ps. k \<noteq> MakePairKey p b \<Longrightarrow>
     get (fold (\<lambda>(p, b). activate p b) ps t) k = get t k"
  by (induction ps arbitrary: t) (auto simp: activate_other)

end

locale strict_topology = topology_ops +
  assumes activate_strict: "get t (MakePairKey p b) \<noteq> (StatusWarmingUp, True) \<Longrightarrow>
      get (activate p b t) k = get t k"
begin

lemma removed_stays:
  "get t (MakePairKey p b) = (StatusRemoved, True) \<Longrightarrow>
     get (activate p b t) (MakePairKey p b) = (StatusRemoved, True)"
  by (simp add: activate_strict)

end

lemma map_zero_warming: "map_zero m k = StatusWarmingUp \<longleftrightarrow> m k = Some StatusWarmingUp"
  by (simp add: map_zero_def default_pair_status_def split: option.split)

lemma Get_eq_Some: "Get t k = (s, True) \<longleftrightarrow> val t k = Some s"
  by (auto simp: Get_def map_zero_def split: option.split)

lemma Get_absent: "snd (Get t k) \<longleftrightarrow> val t k \<noteq> None"
  by (simp add: Get_def)

lemma cgo_Get_eq: "cgo_Get = Get"
  by (simp add: fun_eq_iff cgo_Get_def Get_def)

interpretation topo: strict_topology Get AddWarmingUp Activate Remove
  by unfold_locales
    (auto simp: Get_eq_Some Get_def AddWarmingUp_def Activate_def Remove_def map_zero_warming
      Let_def map_zero_def default_pair_status_def)

interpretation ctopo: topology_ops cgo_Get cgo_AddWarmingUp cgo_Activate cgo_Remove
  by unfold_locales
    (auto simp: cgo_Get_def cgo_AddWarmingUp_def cgo_Activate_def cgo_Remove_def map_zero_def)

section \<open>The life cycle of one pair\<close>

datatype topo_event = EvAdd u32 u32 | EvActivate u32 u32 | EvRemove u32 u32

fun ev_key :: "topo_event \<Rightarrow> u64" where
  "ev_key (EvAdd p b) = MakePairKey p b"
| "ev_key (EvActivate p b) = MakePairKey p b"
| "ev_key (EvRemove p b) = MakePairKey p b"

fun topo_apply :: "topo_event \<Rightarrow> topology_state \<Rightarrow> topology_state" where
  "topo_apply (EvAdd p b) t = AddWarmingUp p b t"
| "topo_apply (EvActivate p b) t = Activate p b t"
| "topo_apply (EvRemove p b) t = Remove p b t"

fun cgo_topo_apply :: "topo_event \<Rightarrow> topology_state \<Rightarrow> topology_state" where
  "cgo_topo_apply (EvAdd p b) t = cgo_AddWarmingUp p b t"
| "cgo_topo_apply (EvActivate p b) t = cgo_Activate p b t"
| "cgo_topo_apply (EvRemove p b) t = cgo_Remove p b t"

text \<open>
  The diagram of the README (section 7) as a step relation on the status of one pair;
  \<open>None\<close> is an unknown pair.  A removed pair may be added again.
\<close>

inductive life_cycle :: "pair_status option \<Rightarrow> pair_status option \<Rightarrow> bool" where
  lc_add: "life_cycle s (Some StatusWarmingUp)"
| lc_activate: "life_cycle (Some StatusWarmingUp) (Some StatusActive)"
| lc_remove: "life_cycle s (Some StatusRemoved)"
| lc_stay: "life_cycle s s"

inductive_cases life_cycle_to_active: "life_cycle s (Some StatusActive)"

text \<open>Every operation of the pure implementation moves every pair along the diagram.\<close>

lemma topo_apply_life_cycle: "life_cycle (val t k) (val (topo_apply ev t) k)"
  by (cases ev)
    (auto simp: AddWarmingUp_def Activate_def Remove_def Let_def map_zero_warming
      intro: life_cycle.intros)

lemma val_AddWarmingUp: "val (AddWarmingUp p b t) = (val t)(MakePairKey p b \<mapsto> StatusWarmingUp)"
  by (simp add: AddWarmingUp_def)

lemma val_Remove: "val (Remove p b t) = (val t)(MakePairKey p b \<mapsto> StatusRemoved)"
  by (simp add: Remove_def)

lemma val_Activate:
  "val (Activate p b t) =
     (if val t (MakePairKey p b) = Some StatusWarmingUp
      then (val t)(MakePairKey p b \<mapsto> StatusActive) else val t)"
  by (simp add: Activate_def Let_def map_zero_warming)

lemmas topo_val = val_AddWarmingUp val_Remove val_Activate

text \<open>
  A run of operations from an empty topology.  \<open>since_add p b evs post\<close>: the run \<open>evs\<close>
  adds the pair at some point and then continues with \<open>post\<close>.
\<close>

definition topo_run :: "topo_event list \<Rightarrow> topology_state" where
  "topo_run evs = fold topo_apply evs NewTopologyState"

definition since_add :: "u32 \<Rightarrow> u32 \<Rightarrow> topo_event list \<Rightarrow> topo_event list \<Rightarrow> bool" where
  "since_add p b evs post \<longleftrightarrow> (\<exists>pre. evs = pre @ EvAdd p b # post)"

definition untouched :: "u32 \<Rightarrow> u32 \<Rightarrow> topo_event list \<Rightarrow> bool" where
  "untouched p b evs \<longleftrightarrow> EvAdd p b \<notin> set evs \<and> EvRemove p b \<notin> set evs"

lemma topo_run_Nil [simp]: "val (topo_run []) k = None"
  by (simp add: topo_run_def NewTopologyState_def)

lemma topo_run_snoc [simp]: "topo_run (evs @ [ev]) = topo_apply ev (topo_run evs)"
  by (simp add: topo_run_def)

lemma since_add_Nil [simp]: "\<not> since_add p b [] post"
  by (simp add: since_add_def)

lemma since_add_snoc:
  "since_add p b (evs @ [ev]) post \<longleftrightarrow>
     (post = [] \<and> ev = EvAdd p b) \<or> (\<exists>post'. post = post' @ [ev] \<and> since_add p b evs post')"
  by (cases post rule: rev_cases) (auto simp: since_add_def)

lemma untouched_snoc [simp]:
  "untouched p b (evs @ [ev]) \<longleftrightarrow> untouched p b evs \<and> ev \<noteq> EvAdd p b \<and> ev \<noteq> EvRemove p b"
  by (auto simp: untouched_def)

lemma untouched_Nil [simp]: "untouched p b []"
  by (simp add: untouched_def)

text \<open>
  Exactly when a pair is warming up, and exactly when it is active: it was added, not
  added again or removed since, and in the second case activated since.
\<close>

lemma topo_run_warming:
  "val (topo_run evs) (MakePairKey p b) = Some StatusWarmingUp \<longleftrightarrow>
     (\<exists>post. since_add p b evs post \<and> untouched p b post \<and> EvActivate p b \<notin> set post)"
proof (induction evs rule: rev_induct)
  case (snoc ev evs)
  then show ?case by (cases ev) (auto simp: topo_val since_add_snoc)
qed simp

lemma topo_run_active:
  "val (topo_run evs) (MakePairKey p b) = Some StatusActive \<longleftrightarrow>
     (\<exists>post. since_add p b evs post \<and> untouched p b post \<and> EvActivate p b \<in> set post)"
proof (induction evs rule: rev_induct)
  case (snoc ev evs)
  then show ?case
    using topo_run_warming [of evs p b] by (cases ev) (auto simp: topo_val since_add_snoc)
qed simp

end
