(* ===== verification/Engine_State.thy ===== *)
theory Engine_State
  imports Order_Ingest Read_Buffer Topology
begin

text \<open>
  The state of \<^verbatim>\<open>ComputeEngine\<close> (\<^verbatim>\<open>compute.go\<close>), its constructor, and
  the handlers that change the topology: \<^verbatim>\<open>HandleAddPair\<close>,
  \<^verbatim>\<open>HandleRemovePair\<close>, \<^verbatim>\<open>promoteWarmingPairs\<close>.

  The record is the same for both implementations but for the matrix, which is a type
  parameter.  The engine's pointers to its registry, indexes and matrix, to the double buffer
  and to the topology are the values they point to; the server is given the same buffer and
  topology.  The mock item dictionary, which the engine stores and never calls, is left out.
\<close>

section \<open>Slices of pairs\<close>

text \<open>
  \<^verbatim>\<open>e.Pairs\<close> is the caller's slice, and \<^verbatim>\<open>HandleRemovePair\<close> filters it in
  place, so the slice is modelled with its backing array: \<open>arr\<close> up to the capacity, of which
  the first \<open>slen\<close> elements are the slice.
\<close>

record pair_slice =
  arr :: "pair_info list"
  slen :: nat

definition slice_wf :: "pair_slice \<Rightarrow> bool" where
  "slice_wf s \<longleftrightarrow> slen s \<le> length (arr s)"

definition elems :: "pair_slice \<Rightarrow> pair_info list" where
  "elems s = take (slen s) (arr s)"

definition slice_of :: "pair_info list \<Rightarrow> pair_slice" where
  "slice_of xs = \<lparr>arr = xs, slen = length xs\<rparr>"

text \<open>
  \<^verbatim>\<open>append\<close>: into the backing array while its capacity lasts, otherwise into a new
  array, whose spare capacity is unobservable.
\<close>

definition append_pair :: "pair_slice \<Rightarrow> pair_info \<Rightarrow> pair_slice" where
  "append_pair s x =
     (if slen s < length (arr s)
      then \<lparr>arr = (arr s)[slen s := x], slen = Suc (slen s)\<rparr>
      else \<lparr>arr = take (slen s) (arr s) @ [x], slen = Suc (slen s)\<rparr>)"

lemma length_elems: "slice_wf s \<Longrightarrow> length (elems s) = slen s"
  by (simp add: slice_wf_def elems_def)

lemma slice_of_simps [simp]: "elems (slice_of xs) = xs" "slice_wf (slice_of xs)"
  "arr (slice_of xs) = xs" "slen (slice_of xs) = length xs"
  by (simp_all add: slice_of_def elems_def slice_wf_def)

lemma append_pair_ok:
  assumes "slice_wf s"
  shows "slice_wf (append_pair s x) \<and> elems (append_pair s x) = elems s @ [x]"
  using assms by (auto simp: append_pair_def slice_wf_def elems_def take_Suc_conv_app_nth)

text \<open>
  The filter of \<^verbatim>\<open>HandleRemovePair\<close>: \<open>filtered\<close> starts as the empty prefix of the
  array that the loop reads.  The bounds of the range loop are those of the slice at its
  start; the elements are read from the array as the loop has left it.
\<close>

definition filter_step ::
  "(pair_info \<Rightarrow> bool) \<Rightarrow> nat \<Rightarrow> pair_slice \<Rightarrow> pair_slice" where
  "filter_step keep i filtered =
     (let p = arr filtered ! i in if keep p then append_pair filtered p else filtered)"

definition filter_in_place :: "(pair_info \<Rightarrow> bool) \<Rightarrow> pair_slice \<Rightarrow> pair_slice" where
  "filter_in_place keep s = fold (filter_step keep) [0..<slen s] (s\<lparr>slen := 0\<rparr>)"

lemma filter_in_place_upto:
  assumes "slice_wf s" and "n \<le> slen s"
  shows "fold (filter_step keep) [0..<n] (s\<lparr>slen := 0\<rparr>) =
           (let ys = filter keep (take n (arr s))
            in \<lparr>arr = ys @ drop (length ys) (arr s), slen = length ys\<rparr>)"
  using assms(2)
proof (induction n)
  case 0
  then show ?case by simp
next
  case (Suc n)
  let ?ys = "filter keep (take n (arr s))" and ?x = "arr s ! n"
  from Suc.prems assms(1) have n: "n < length (arr s)" by (simp add: slice_wf_def)
  have len: "length ?ys \<le> n" using length_filter_le [of keep "take n (arr s)"] by simp
  have read: "(?ys @ drop (length ?ys) (arr s)) ! n = ?x"
    using len n by (simp add: nth_append)
  have take: "take (Suc n) (arr s) = take n (arr s) @ [?x]"
    using n by (simp add: take_Suc_conv_app_nth)
  have "(?ys @ drop (length ?ys) (arr s))[length ?ys := ?x] =
      (?ys @ [?x]) @ drop (Suc (length ?ys)) (arr s)"
    using len n by (simp add: list_update_append Cons_nth_drop_Suc [symmetric])
  moreover have "length ?ys < length (?ys @ drop (length ?ys) (arr s))"
    using len n by simp
  ultimately show ?case
    using Suc.IH Suc.prems read by (simp add: Let_def filter_step_def append_pair_def take)
qed

text \<open>
  The result is the filtered slice, and the array underneath, which the caller's slice still
  sees at its old length, has been overwritten from the front.
\<close>

lemma filter_in_place_ok:
  assumes "slice_wf s"
  shows "elems (filter_in_place keep s) = filter keep (elems s)"
    and "slice_wf (filter_in_place keep s)"
    and "arr (filter_in_place keep s) =
           filter keep (elems s) @ drop (length (filter keep (elems s))) (arr s)"
proof -
  have len: "length (filter keep (elems s)) \<le> length (arr s)"
    using length_filter_le [of keep "elems s"] by (simp add: elems_def)
  have "filter_in_place keep s =
      (let ys = filter keep (elems s) in \<lparr>arr = ys @ drop (length ys) (arr s), slen = length ys\<rparr>)"
    using filter_in_place_upto [OF assms, of "slen s" keep]
    by (simp add: filter_in_place_def elems_def)
  then show "elems (filter_in_place keep s) = filter keep (elems s)"
    and "slice_wf (filter_in_place keep s)"
    and "arr (filter_in_place keep s) =
           filter keep (elems s) @ drop (length (filter keep (elems s))) (arr s)"
    using len by (simp_all add: Let_def slice_wf_def elems_def)
qed

section \<open>The engine\<close>

record 'm compute_engine =
  Matrix :: 'm
  Registry :: order_registry
  Indexes :: inverted_indexes
  Pairs :: pair_slice
  DB :: double_buffer
  Topology :: topology_state
  numWorkers :: int
  scratch :: "worker_scratch list"
  pendingWarmup :: "pair_info list"

definition NewComputeEngine ::
  "workload \<Rightarrow> pair_slice \<Rightarrow> double_buffer \<Rightarrow> topology_state \<Rightarrow> int \<Rightarrow> pps_matrix compute_engine" where
  "NewComputeEngine w pairs db topo nworkers =
     (let nw = (if nworkers \<le> 0 then NumWorkers else nworkers)
      in \<lparr>Matrix = NewPPSMatrix w (numPPS w), Registry = NewOrderRegistry w,
          Indexes = NewInvertedIndexes, Pairs = pairs, DB = db, Topology = topo,
          numWorkers = nworkers, scratch = replicate (nat nw) empty_scratch, pendingWarmup = []\<rparr>)"

definition cgo_NewComputeEngine ::
  "workload \<Rightarrow> bool \<Rightarrow> pair_slice \<Rightarrow> double_buffer \<Rightarrow> topology_state \<Rightarrow> int \<Rightarrow>
     c_matrix compute_engine go" where
  "cgo_NewComputeEngine w enough_memory pairs db topo nworkers =
     (let nw = (if nworkers \<le> 0 then NumWorkers else nworkers)
      in gbind (cgo_NewPPSMatrix w enough_memory (numPPS w)) (\<lambda>matrix.
         Inr \<lparr>Matrix = matrix, Registry = NewOrderRegistry w,
              Indexes = NewInvertedIndexes, Pairs = pairs, DB = db, Topology = topo,
              numWorkers = nworkers, scratch = replicate (nat nw) empty_scratch,
              pendingWarmup = []\<rparr>))"

text \<open>The size of the pool: the configured one, or the package default, at most \<open>n\<close>.\<close>

definition pool_size :: "'m compute_engine \<Rightarrow> nat \<Rightarrow> nat" where
  "pool_size e n =
     (let numW = (if numWorkers e \<le> 0 then NumWorkers else numWorkers e)
      in nat (if int n < numW then int n else numW))"

lemma pool_size_pos: "0 < n \<Longrightarrow> 0 < pool_size e n \<and> pool_size e n \<le> n"
  by (auto simp: pool_size_def Let_def NumWorkers_def)

function ensureScratch :: "nat \<Rightarrow> 'm compute_engine \<Rightarrow> 'm compute_engine" where
  "ensureScratch numW e =
     (if length (scratch e) < numW
      then ensureScratch numW (e\<lparr>scratch := scratch e @ [empty_scratch]\<rparr>) else e)"
  by pat_completeness auto
termination by (relation "measure (\<lambda>(n, e). n - length (scratch e))") auto

declare ensureScratch.simps [simp del]

lemma ensureScratch_eq:
  "ensureScratch numW e =
     e\<lparr>scratch := scratch e @ replicate (numW - length (scratch e)) empty_scratch\<rparr>"
proof (induction numW e rule: ensureScratch.induct)
  case (1 numW e)
  show ?case
  proof (cases "length (scratch e) < numW")
    case True
    then have "numW - length (scratch e) = Suc (numW - Suc (length (scratch e)))" by simp
    with 1 True show ?thesis by (subst ensureScratch.simps) simp
  next
    case False
    then show ?thesis by (subst ensureScratch.simps) simp
  qed
qed

lemma ensureScratch_simps [simp]:
  "Matrix (ensureScratch n e) = Matrix e" "Registry (ensureScratch n e) = Registry e"
  "Indexes (ensureScratch n e) = Indexes e" "Pairs (ensureScratch n e) = Pairs e"
  "DB (ensureScratch n e) = DB e" "Topology (ensureScratch n e) = Topology e"
  "numWorkers (ensureScratch n e) = numWorkers e" "pendingWarmup (ensureScratch n e) = pendingWarmup e"
  "n \<le> length (scratch (ensureScratch n e))"
  "(ensureScratch n e)\<lparr>scratch := bank\<rparr> = e\<lparr>scratch := bank\<rparr>"
  by (simp_all add: ensureScratch_eq)

section \<open>Topology events\<close>

definition pair_of :: "u32 \<Rightarrow> u32 \<Rightarrow> pair_info" where
  "pair_of ppsID bintagID =
     \<lparr>PPSID = ppsID, BinTagID = bintagID, Key = MakePairKey ppsID bintagID\<rparr>"

definition HandleAddPair :: "u32 \<Rightarrow> u32 \<Rightarrow> 'm compute_engine \<Rightarrow> 'm compute_engine" where
  "HandleAddPair ppsID bintagID e =
     (let e1 = e\<lparr>Topology := AddWarmingUp ppsID bintagID (Topology e)\<rparr>;
          info = pair_of ppsID bintagID
      in e1\<lparr>pendingWarmup := pendingWarmup e1 @ [info]\<rparr>)"

definition HandleRemovePair :: "u32 \<Rightarrow> u32 \<Rightarrow> 'm compute_engine \<Rightarrow> 'm compute_engine" where
  "HandleRemovePair ppsID bintagID e =
     (let k = MakePairKey ppsID bintagID;
          e1 = e\<lparr>Topology := Remove ppsID bintagID (Topology e)\<rparr>
      in e1\<lparr>Pairs := filter_in_place (\<lambda>p. Key p \<noteq> k) (Pairs e1)\<rparr>)"

definition promote_one ::
  "pair_info \<Rightarrow> topology_state \<times> pair_info list \<Rightarrow> topology_state \<times> pair_info list" where
  "promote_one info s =
     (case s of (topo, remaining) \<Rightarrow>
        case Get topo (Key info) of (status, ok) \<Rightarrow>
          if \<not> ok \<or> status = StatusWarmingUp
          then (Activate (PPSID info) (BinTagID info) topo, remaining)
          else (topo, remaining @ [info]))"

definition promoteWarmingPairs :: "'m compute_engine \<Rightarrow> 'm compute_engine" where
  "promoteWarmingPairs e =
     (case fold promote_one (pendingWarmup e) (Topology e, []) of
        (topo, remaining) \<Rightarrow> e\<lparr>Topology := topo, pendingWarmup := remaining\<rparr>)"

text \<open>The cgo implementation: it appends a new pair to the ranked ones, and promotes all.\<close>

definition cgo_HandleAddPair :: "u32 \<Rightarrow> u32 \<Rightarrow> 'm compute_engine \<Rightarrow> 'm compute_engine" where
  "cgo_HandleAddPair ppsID bintagID e =
     (let e1 = e\<lparr>Topology := cgo_AddWarmingUp ppsID bintagID (Topology e)\<rparr>;
          info = pair_of ppsID bintagID;
          e2 = e1\<lparr>pendingWarmup := pendingWarmup e1 @ [info]\<rparr>
      in if list_ex (\<lambda>p. Key p = Key info) (elems (Pairs e2)) then e2
         else e2\<lparr>Pairs := append_pair (Pairs e2) info\<rparr>)"

definition cgo_HandleRemovePair :: "u32 \<Rightarrow> u32 \<Rightarrow> 'm compute_engine \<Rightarrow> 'm compute_engine" where
  "cgo_HandleRemovePair ppsID bintagID e =
     (let k = MakePairKey ppsID bintagID;
          e1 = e\<lparr>Topology := cgo_Remove ppsID bintagID (Topology e)\<rparr>
      in e1\<lparr>Pairs := filter_in_place (\<lambda>p. Key p \<noteq> k) (Pairs e1)\<rparr>)"

definition cgo_promoteWarmingPairs :: "'m compute_engine \<Rightarrow> 'm compute_engine" where
  "cgo_promoteWarmingPairs e =
     e\<lparr>Topology := fold (\<lambda>p. cgo_Activate (PPSID p) (BinTagID p)) (pendingWarmup e) (Topology e),
       pendingWarmup := []\<rparr>"

section \<open>What the handlers do\<close>

text \<open>A pending pair carries its own key.\<close>

definition pending_wf :: "pair_info list \<Rightarrow> bool" where
  "pending_wf ps \<longleftrightarrow> (\<forall>p \<in> set ps. Key p = MakePairKey (PPSID p) (BinTagID p))"

lemma pair_of_simps [simp]:
  "PPSID (pair_of p b) = p" "BinTagID (pair_of p b) = b" "Key (pair_of p b) = MakePairKey p b"
  by (simp_all add: pair_of_def)

lemma pending_wf_simps [simp]:
  "pending_wf []"
  "pending_wf (p # ps) \<longleftrightarrow> Key p = MakePairKey (PPSID p) (BinTagID p) \<and> pending_wf ps"
  "pending_wf (ps @ qs) \<longleftrightarrow> pending_wf ps \<and> pending_wf qs"
  by (auto simp: pending_wf_def)

text \<open>One pair, and the whole list: the pairs that are warming up become active.\<close>

lemma promote_one_val:
  assumes "Key info = MakePairKey (PPSID info) (BinTagID info)"
  shows "val (fst (promote_one info (t, rem))) k =
           (if val t k = Some StatusWarmingUp \<and> k = Key info then Some StatusActive else val t k)"
  using assms
  by (auto simp: promote_one_def Get_def val_Activate map_zero_warming split: prod.splits)

lemma promote_one_rem:
  "snd (promote_one info (t, rem)) =
     (if val t (Key info) = None \<or> val t (Key info) = Some StatusWarmingUp then rem else rem @ [info])"
  by (auto simp: promote_one_def Get_def map_zero_warming split: prod.splits)

lemma promote_all_val:
  assumes "pending_wf ps"
  shows "val (fst (fold promote_one ps (t, rem))) k =
           (if val t k = Some StatusWarmingUp \<and> k \<in> Key ` set ps then Some StatusActive else val t k)"
  using assms
proof (induction ps arbitrary: t rem)
  case (Cons p ps)
  obtain t1 rem1 where 1: "promote_one p (t, rem) = (t1, rem1)" by (cases "promote_one p (t, rem)")
  with Cons.prems promote_one_val [of p t rem k]
  have "val t1 k = (if val t k = Some StatusWarmingUp \<and> k = Key p then Some StatusActive else val t k)"
    by simp
  with Cons 1 show ?case by auto
qed simp

text \<open>
  Nobody takes a pair off the pending list that has left the warming-up state meanwhile: it
  is kept, cycle after cycle.
\<close>

lemma promote_all_keeps:
  assumes "pending_wf ps" and "info \<in> set ps"
    and "val t (Key info) \<noteq> None" and "val t (Key info) \<noteq> Some StatusWarmingUp"
  shows "info \<in> set (snd (fold promote_one ps (t, rem)))"
proof -
  have grow: "set rem \<subseteq> set (snd (fold promote_one ps (t, rem)))" for ps t rem
  proof (induction ps arbitrary: t rem)
    case (Cons p ps)
    obtain t1 rem1 where 1: "promote_one p (t, rem) = (t1, rem1)" by (cases "promote_one p (t, rem)")
    with promote_one_rem [of p t rem] have "set rem \<subseteq> set rem1" by (auto split: if_splits)
    with Cons 1 show ?case by auto
  qed simp
  show ?thesis using assms
  proof (induction ps arbitrary: t rem)
    case (Cons p ps)
    obtain t1 rem1 where 1: "promote_one p (t, rem) = (t1, rem1)" by (cases "promote_one p (t, rem)")
    from Cons.prems promote_one_val [of p t rem "Key info"] 1
    have same: "val t1 (Key info) = val t (Key info)" by (auto split: if_splits)
    show ?case
    proof (cases "info = p")
      case True
      with Cons.prems promote_one_rem [of p t rem] 1 have "info \<in> set rem1" by auto
      with grow [of rem1 ps t1] 1 show ?thesis by auto
    next
      case False
      with Cons same 1 show ?thesis by auto
    qed
  qed simp
qed

lemma promote_engine:
  "val (Topology (promoteWarmingPairs e)) = val (fst (fold promote_one (pendingWarmup e) (Topology e, [])))"
  "pendingWarmup (promoteWarmingPairs e) = snd (fold promote_one (pendingWarmup e) (Topology e, []))"
  "Matrix (promoteWarmingPairs e) = Matrix e" "Registry (promoteWarmingPairs e) = Registry e"
  "Indexes (promoteWarmingPairs e) = Indexes e" "Pairs (promoteWarmingPairs e) = Pairs e"
  "DB (promoteWarmingPairs e) = DB e" "numWorkers (promoteWarmingPairs e) = numWorkers e"
  "scratch (promoteWarmingPairs e) = scratch e"
  by (simp_all add: promoteWarmingPairs_def split: prod.splits)

lemma cgo_promote_val:
  assumes "pending_wf ps"
  shows "val (fold (\<lambda>p. cgo_Activate (PPSID p) (BinTagID p)) ps t) k =
           (if k \<in> Key ` set ps then Some StatusActive else val t k)"
  using assms
proof (induction ps arbitrary: t)
  case (Cons p ps)
  then show ?case by (auto simp: cgo_Activate_def)
qed simp

text \<open>Every pending pair keeps its key, whatever the pending list becomes.\<close>

lemma promote_pending_wf:
  "pending_wf ps \<Longrightarrow> pending_wf rem \<Longrightarrow> pending_wf (snd (fold promote_one ps (t, rem)))"
proof (induction ps arbitrary: t rem)
  case (Cons p ps)
  obtain t1 rem1 where 1: "promote_one p (t, rem) = (t1, rem1)" by (cases "promote_one p (t, rem)")
  with promote_one_rem [of p t rem] Cons.prems have "pending_wf rem1"
    by (auto split: if_splits)
  with Cons 1 show ?case by simp
qed simp

section \<open>The engine's invariant\<close>

text \<open>
  What every operation keeps, for either matrix: the store is consistent, the matrix has a
  row, the slice of pairs is a slice of its array, the published buffer has its size, and
  pending pairs carry their keys.
\<close>

definition engine_inv ::
  "workload \<Rightarrow> ('m \<Rightarrow> bool) \<Rightarrow> ('m \<Rightarrow> nat) \<Rightarrow> 'm compute_engine \<Rightarrow> bool" where
  "engine_inv w minv rows e \<longleftrightarrow>
     workload_ok w \<and> store_inv w minv (Registry e, Indexes e, Matrix e) \<and> 0 < rows (Matrix e) \<and>
     slice_wf (Pairs e) \<and> rb_wf w (Load (DB e)) \<and> pending_wf (pendingWarmup e)"

abbreviation pure_inv :: "workload \<Rightarrow> pps_matrix compute_engine \<Rightarrow> bool" where
  "pure_inv w \<equiv> engine_inv w (matrix_wf w) NumPPS"

abbreviation cgo_inv :: "workload \<Rightarrow> c_matrix compute_engine \<Rightarrow> bool" where
  "cgo_inv w \<equiv> engine_inv w (c_wf w) cNumPPS"

lemma store_inv_New: "store_inv w (matrix_wf w) (NewOrderRegistry w, NewInvertedIndexes, NewPPSMatrix w n)"
  by (simp add: store_inv_def registry_inv_New index_inv_New index_range_New)

lemma engine_inv_New:
  assumes "workload_ok w" and "slice_wf pairs" and "rb_wf w (Load db)"
  shows "pure_inv w (NewComputeEngine w pairs db topo nw)"
  using assms store_inv_New [of w "numPPS w"]
  by (simp add: engine_inv_def NewComputeEngine_def Let_def workload_ok_def)

lemma engine_inv_cgo_New:
  assumes "workload_ok w" and "slice_wf pairs" and "rb_wf w (Load db)"
  shows "\<exists>e. cgo_NewComputeEngine w True pairs db topo nw = Inr e \<and> cgo_inv w e"
  using assms
  by (simp add: engine_inv_def cgo_NewComputeEngine_def Let_def workload_ok_def cgo_NewPPSMatrix_def
      store_inv_def registry_inv_New index_inv_New index_range_New c_wf_def c_view_def matrix_wf_def c_fits_def)

lemma engine_inv_topology:
  assumes "engine_inv w minv rows e"
  shows "engine_inv w minv rows (HandleAddPair p b e)"
    and "engine_inv w minv rows (HandleRemovePair p b e)"
    and "engine_inv w minv rows (promoteWarmingPairs e)"
    and "engine_inv w minv rows (cgo_HandleAddPair p b e)"
    and "engine_inv w minv rows (cgo_HandleRemovePair p b e)"
    and "engine_inv w minv rows (cgo_promoteWarmingPairs e)"
  using assms append_pair_ok filter_in_place_ok(2) promote_pending_wf
  by (auto simp: engine_inv_def HandleAddPair_def HandleRemovePair_def promote_engine Let_def
      cgo_HandleAddPair_def cgo_HandleRemovePair_def cgo_promoteWarmingPairs_def)

end
