(* ===== verification/Worker_Pool.thy ===== *)
theory Worker_Pool
  imports Go_Prelude
begin

text \<open>
  The goroutine pools of the two phases: the work is cut into contiguous ranges, one per
  worker, the workers run concurrently and the main goroutine waits for all of them
  (\<^verbatim>\<open>sync.WaitGroup\<close>).

  The models of the phases run the workers one after the other.  This theory shows when
  that is no restriction: \<open>pool_step\<close> lets any worker do its next job, and if jobs of
  different workers commute, every complete run ends in the state of the sequential run.
  The interface \<open>worker_pool\<close> states what that needs of the jobs.
\<close>

section \<open>Cutting the work\<close>

text \<open>\<^verbatim>\<open>(n + numW - 1) / numW\<close>, a division that panics for no workers.\<close>

definition ceil_div :: "nat \<Rightarrow> nat \<Rightarrow> nat go" where
  "ceil_div n k = (if k = 0 then Inl DivideByZero else Inr ((n + k - 1) div k))"

lemma ceil_div_ok:
  assumes "0 < k" and "0 < n"
  shows "\<exists>s. ceil_div n k = Inr s \<and> 0 < s \<and> n \<le> k * s"
proof -
  have "n + k - 1 < k * ((n + k - 1) div k) + k"
    using assms(1) by (metis div_mult_mod_eq mod_less_divisor mult.commute nat_add_left_cancel_less)
  moreover have "0 < (n + k - 1) div k" using assms by (simp add: div_greater_zero_iff)
  ultimately show ?thesis using assms by (auto simp: ceil_div_def)
qed

lemma upt_split: "i \<le> j \<Longrightarrow> j \<le> k \<Longrightarrow> [i..<j] @ [j..<k] = [i..<k]"
  using upt_add_eq_append [of i j "k - j"] by simp

text \<open>
  \<^verbatim>\<open>for start := 0; start < n; start += step\<close>, the loop of phase 1.  A step of zero
  would repeat for ever; \<open>ceil_div_ok\<close> shows that the code's is positive.
\<close>

function row_ranges :: "nat \<Rightarrow> nat \<Rightarrow> nat \<Rightarrow> (nat \<times> nat) list" where
  "row_ranges n step start =
     (if start < n \<and> 0 < step then (start, min (start + step) n) # row_ranges n step (start + step)
      else [])"
  by pat_completeness auto
termination by (relation "measure (\<lambda>(n, step, start). n - start)") auto

declare row_ranges.simps [simp del]

text \<open>
  \<^verbatim>\<open>for w := 0; w < numW; w++\<close> with its break at the first empty range, the loop of
  phase 2: the worker's number and its range.
\<close>

fun static_ranges :: "nat \<Rightarrow> nat \<Rightarrow> nat list \<Rightarrow> (nat \<times> nat \<times> nat) list" where
  "static_ranges n step [] = []"
| "static_ranges n step (w # ws) =
     (let lo = w * step; hi = min (lo + step) n
      in if n \<le> lo then [] else (w, lo, hi) # static_ranges n step ws)"

definition range_jobs :: "nat \<times> nat \<Rightarrow> nat list" where
  "range_jobs r = (case r of (lo, hi) \<Rightarrow> [lo..<hi])"

definition worker_jobs :: "nat \<times> nat \<times> nat \<Rightarrow> (nat \<times> nat) list" where
  "worker_jobs r = (case r of (w, lo, hi) \<Rightarrow> map (Pair w) [lo..<hi])"

lemma row_ranges_cover:
  "0 < step \<Longrightarrow> concat (map range_jobs (row_ranges n step start)) = [start..<n]"
proof (induction n step start rule: row_ranges.induct)
  case (1 n step start)
  have "row_ranges n step start =
      (if start < n \<and> 0 < step then (start, min (start + step) n) # row_ranges n step (start + step)
       else [])" by (rule row_ranges.simps)
  with 1 upt_split [of start "start + step" n] show ?case
    by (auto simp: range_jobs_def min_def)
qed

lemma static_ranges_cover:
  assumes "n \<le> k * step" and "i \<le> k" and "0 < step"
  shows "map snd (concat (map worker_jobs (static_ranges n step [i..<k]))) = [i * step..<n]"
  using assms
proof (induction "k - i" arbitrary: i)
  case 0
  then show ?case by simp
next
  case (Suc m)
  then have i: "[i..<k] = i # [Suc i..<k]" by (simp add: upt_conv_Cons)
  have IH: "map snd (concat (map worker_jobs (static_ranges n step [Suc i..<k]))) =
      [Suc i * step..<n]"
    using Suc by (intro Suc.hyps(1)) auto
  show ?case
  proof (cases "n \<le> i * step")
    case True
    then show ?thesis by (simp add: i)
  next
    case False
    have "[i * step..<min (i * step + step) n] @ [Suc i * step..<n] = [i * step..<n]"
    proof (cases "i * step + step \<le> n")
      case True
      then show ?thesis
        using upt_split [of "i * step" "Suc i * step" n] by (simp add: add.commute)
    qed (auto simp: min_def)
    with False IH show ?thesis by (simp add: i Let_def worker_jobs_def comp_def)
  qed
qed

lemma static_ranges_worker_of:
  "(v, lo, hi) \<in> set (static_ranges n step ws) \<Longrightarrow>
     v \<in> set ws \<and> lo = v * step \<and> hi = min (lo + step) n"
  by (induction ws) (auto simp: Let_def split: if_splits)

lemma static_ranges_workers:
  assumes "(v, p) \<in> set (concat (map worker_jobs (static_ranges n step ws)))"
  shows "v \<in> set ws \<and> p < n"
proof -
  from assms obtain r where r: "r \<in> set (static_ranges n step ws)" "(v, p) \<in> set (worker_jobs r)"
    by auto
  obtain u lo hi where "r = (u, lo, hi)" by (cases r)
  with r static_ranges_worker_of [of u lo hi n step ws] show ?thesis
    by (auto simp: worker_jobs_def)
qed

section \<open>Runs of the pool\<close>

text \<open>
  The queues of the workers' remaining jobs, and the shared state.  A job is one step:
  the jobs of the two phases touch no memory that a job of another worker touches, which is
  what their commutation says.
\<close>

inductive pool_step ::
  "('j \<Rightarrow> 's \<Rightarrow> 's go) \<Rightarrow> 'j list list \<times> 's \<Rightarrow> 'j list list \<times> 's \<Rightarrow> bool"
  for job :: "'j \<Rightarrow> 's \<Rightarrow> 's go" where
  do_job: "i < length qs \<Longrightarrow> qs ! i = j # rest \<Longrightarrow> job j s = Inr s' \<Longrightarrow>
             pool_step job (qs, s) (qs[i := rest], s')"

inductive_cases pool_step_elim: "pool_step job (qs, s) c"

definition pool_done :: "'j list list \<Rightarrow> bool" where
  "pool_done qs \<longleftrightarrow> (\<forall>q \<in> set qs. q = [])"

definition across :: "('j \<Rightarrow> 'j \<Rightarrow> bool) \<Rightarrow> 'j list list \<Rightarrow> bool" where
  "across indep qs \<longleftrightarrow>
     (\<forall>i < length qs. \<forall>k < length qs. i \<noteq> k \<longrightarrow> (\<forall>x \<in> set (qs ! i). \<forall>y \<in> set (qs ! k). indep x y))"

lemma across_shrink:
  assumes "across indep qs" and "\<And>k. k < length qs \<Longrightarrow> set (qs' ! k) \<subseteq> set (qs ! k)"
    and "length qs' = length qs"
  shows "across indep qs'"
  using assms unfolding across_def by (simp add: subset_iff)

lemma across_distinct:
  assumes "distinct (concat qs)"
  shows "across (\<noteq>) qs"
  using assms
proof (induction qs)
  case (Cons q qs)
  then have "set q \<inter> set (qs ! k) = {}" if "k < length qs" for k
    using that nth_mem by fastforce
  with Cons show ?case
    by (fastforce simp: across_def nth_Cons split: nat.splits)
qed (simp add: across_def)

locale worker_pool =
  fixes job :: "'j \<Rightarrow> 's \<Rightarrow> 's go"
    and inv :: "'s \<Rightarrow> bool"
    and valid :: "'j \<Rightarrow> bool"
    and indep :: "'j \<Rightarrow> 'j \<Rightarrow> bool"
  assumes job_ok: "inv s \<Longrightarrow> valid j \<Longrightarrow> \<exists>s'. job j s = Inr s' \<and> inv s'"
    and commute: "inv s \<Longrightarrow> valid j \<Longrightarrow> valid k \<Longrightarrow> indep j k \<Longrightarrow>
      gbind (job j s) (job k) = gbind (job k s) (job j)"
begin

lemma jobs_ok:
  assumes "inv s" and "\<forall>j \<in> set js. valid j"
  shows "\<exists>s'. gfold job js s = Inr s' \<and> inv s'"
  using assms
proof (induction js arbitrary: s)
  case (Cons j js)
  then obtain s1 where "job j s = Inr s1" "inv s1" using job_ok [of s j] by auto
  with Cons show ?case by simp
qed simp

lemma job_first:
  assumes "inv s" and "\<forall>k \<in> set js. valid k \<and> indep j k" and "valid j"
  shows "gbind (gfold job js s) (job j) = gbind (job j s) (gfold job js)"
  using assms(1,2)
proof (induction js arbitrary: s)
  case Nil
  obtain s1 where "job j s = Inr s1" using job_ok Nil assms(3) by blast
  then show ?case by simp
next
  case (Cons k js)
  obtain s1 where s1: "job k s = Inr s1" "inv s1" using job_ok [of s k] Cons.prems by auto
  obtain s2 where s2: "job j s = Inr s2" "inv s2" using job_ok [of s j] Cons.prems assms(3) by auto
  have "job j s1 = job k s2"
    using commute [of s j k] Cons.prems assms(3) s1 s2 by simp
  moreover have "gbind (gfold job js s1) (job j) = gbind (job j s1) (gfold job js)"
    using Cons.prems s1(2) by (intro Cons.IH) auto
  ultimately show ?case using s1 s2 by simp
qed

lemma one_step:
  assumes "inv s" and i: "i < length qs" and q: "qs ! i = j # rest" and run: "job j s = Inr s'"
    and valid: "\<forall>q \<in> set qs. \<forall>j \<in> set q. valid j" and indep: "across indep qs"
  shows "gfold job (concat qs) s = gfold job (concat (qs[i := rest])) s'"
proof -
  let ?a = "concat (take i qs)" and ?b = "concat (drop (Suc i) qs)"
  have qs: "qs = take i qs @ qs ! i # drop (Suc i) qs"
    using i by (simp add: Cons_nth_drop_Suc)
  have "qs[i := rest] = take i qs @ rest # drop (Suc i) qs"
    using i by (simp add: upd_conv_take_nth_drop)
  then have "concat (qs[i := rest]) = ?a @ rest @ ?b"
    by (simp only: concat_append concat.simps)
  moreover have "concat qs = ?a @ j # (rest @ ?b)"
    using q by (subst qs) simp
  ultimately have split: "concat qs = ?a @ j # (rest @ ?b)" "concat (qs[i := rest]) = ?a @ rest @ ?b"
    by blast+
  have j: "valid j" using valid q i nth_mem by fastforce
  have "valid k \<and> indep j k" if "k \<in> set ?a" for k
  proof -
    from that obtain q' where "q' \<in> set (take i qs)" "k \<in> set q'" by auto
    then obtain l where "l < i" "k \<in> set (qs ! l)"
      by (metis in_set_conv_nth length_take min_less_iff_conj nth_take)
    with i q valid indep show ?thesis unfolding across_def
      by (metis less_irrefl less_trans list.set_intros(1) nth_mem)
  qed
  then have "gbind (gfold job ?a s) (job j) = gbind (job j s) (gfold job ?a)"
    using assms(1) j by (intro job_first) auto
  then have "gbind (gbind (gfold job ?a s) (job j)) (gfold job (rest @ ?b)) =
      gbind (gfold job ?a s') (gfold job (rest @ ?b))"
    using run by simp
  moreover have "gfold job (j # xs) = (\<lambda>s. gbind (job j s) (gfold job xs))" for xs
    by (simp add: fun_eq_iff)
  ultimately show ?thesis
    by (simp only: split gfold_append gbind_assoc)
qed

text \<open>Every complete run ends where the sequential run ends.\<close>

lemma any_run:
  assumes "rtranclp (pool_step job) (qs, s) (qs', s')" and "pool_done qs'"
    and "inv s" and "\<forall>q \<in> set qs. \<forall>j \<in> set q. valid j" and "across indep qs"
  shows "gfold job (concat qs) s = Inr s'"
  using assms(1,3-5)
proof (induction "(qs, s)" arbitrary: qs s rule: converse_rtranclp_induct)
  case base
  from assms(2) have "concat qs' = []" by (simp add: pool_done_def concat_eq_Nil_conv)
  then show ?case by (simp only: gfold.simps)
next
  case (step c)
  from step.hyps(1) obtain i j rest s1 where c: "c = (qs[i := rest], s1)"
    and i: "i < length qs" "qs ! i = j # rest" and run: "job j s = Inr s1"
    by (auto elim: pool_step_elim)
  have valid: "\<forall>q \<in> set (qs[i := rest]). \<forall>j \<in> set q. valid j"
  proof (intro ballI)
    fix q x assume q: "q \<in> set (qs[i := rest])" and x: "x \<in> set q"
    from q have "q = rest \<or> q \<in> set qs" using set_update_subset_insert [of qs i rest] by blast
    then show "valid x"
    proof
      assume "q = rest"
      with x i nth_mem [OF i(1)] step.prems(2) show ?thesis by auto
    qed (use x step.prems(2) in blast)
  qed
  have shrink: "set (qs[i := rest] ! k) \<subseteq> set (qs ! k)" if "k < length qs" for k
    using i that by (cases "k = i") auto
  have indep: "across indep (qs[i := rest])"
    by (rule across_shrink [OF step.prems(3) shrink length_list_update])
  have "valid j" using step.prems(2) i nth_mem [OF i(1)] by auto
  then have "inv s1" using job_ok [OF step.prems(1), of j] run by auto
  then have "gfold job (concat (qs[i := rest])) s1 = Inr s'"
    using step.hyps(3) [OF c] valid indep by blast
  then show ?case using one_step [OF step.prems(1) i run step.prems(2,3)] by simp
qed

text \<open>A run never gets stuck: while a job is left, some worker can do its next one.\<close>

lemma progress:
  assumes "inv s" and "\<forall>q \<in> set qs. \<forall>j \<in> set q. valid j" and "\<not> pool_done qs"
  shows "\<exists>c. pool_step job (qs, s) c"
proof -
  from assms(3) obtain i where i: "i < length qs" "qs ! i \<noteq> []"
    by (auto simp: pool_done_def in_set_conv_nth)
  then obtain j rest where q: "qs ! i = j # rest" by (cases "qs ! i") auto
  with i assms(2) have "valid j" by (metis list.set_intros(1) nth_mem)
  with assms(1) obtain s' where "job j s = Inr s'" using job_ok by blast
  with i q show ?thesis using do_job by metis
qed

text \<open>
  Every step takes one job off the queues, so the pool finishes: from every state a complete
  run exists, and it is as long as there are jobs.
\<close>

lemma step_shrinks:
  assumes "pool_step job (qs, s) (qs', s')"
  shows "sum_list (map length qs) = Suc (sum_list (map length qs'))"
proof -
  from assms obtain i j rest where i: "i < length qs" "qs ! i = j # rest" "qs' = qs[i := rest]"
    by (auto elim: pool_step_elim)
  have "sum_list (map length qs) = length (qs ! i) + sum_list (map length (take i qs)) +
      sum_list (map length (drop (Suc i) qs))"
    using i(1) by (subst id_take_nth_drop [OF i(1)], simp)
  moreover have "sum_list (map length qs') = length rest + sum_list (map length (take i qs)) +
      sum_list (map length (drop (Suc i) qs))"
    using i by (simp add: upd_conv_take_nth_drop)
  ultimately show ?thesis using i(2) by simp
qed

lemma step_keeps:
  assumes "inv s" and "\<forall>q \<in> set qs. \<forall>j \<in> set q. valid j" and "pool_step job (qs, s) (qs', s')"
  shows "inv s' \<and> (\<forall>q \<in> set qs'. \<forall>j \<in> set q. valid j)"
proof -
  from assms(3) obtain i j rest where i: "i < length qs" "qs ! i = j # rest" "qs' = qs[i := rest]"
    and run: "job j s = Inr s'"
    by (auto elim: pool_step_elim)
  have "j # rest \<in> set qs" using i nth_mem by metis
  then have "valid j" "\<forall>k \<in> set rest. valid k" using assms(2) by auto
  then have "\<forall>q \<in> set qs'. \<forall>j \<in> set q. valid j"
    using assms(2) i(3) set_update_subset_insert [of qs i rest] by blast
  moreover have "inv s'" using job_ok [OF assms(1) \<open>valid j\<close>] run by auto
  ultimately show ?thesis by blast
qed

lemma run_exists:
  assumes "inv s" and "\<forall>q \<in> set qs. \<forall>j \<in> set q. valid j"
  shows "\<exists>qs' s'. rtranclp (pool_step job) (qs, s) (qs', s') \<and> pool_done qs'"
  using assms
proof (induction "sum_list (map length qs)" arbitrary: qs s rule: less_induct)
  case less
  show ?case
  proof (cases "pool_done qs")
    case False
    then obtain c where "pool_step job (qs, s) c" using progress [OF less.prems] by blast
    then obtain qs1 s1 where 1: "pool_step job (qs, s) (qs1, s1)" by (cases c) auto
    have "sum_list (map length qs1) < sum_list (map length qs)" using step_shrinks [OF 1] by simp
    from less.hyps [OF this] step_keeps [OF less.prems 1] obtain qs' s' where
      "rtranclp (pool_step job) (qs1, s1) (qs', s')" "pool_done qs'" by blast
    with 1 show ?thesis by (meson converse_rtranclp_into_rtranclp)
  qed blast
qed

end

end
