(* ===== verification/Phase1_Update.thy ===== *)
theory Phase1_Update
  imports Engine_State Worker_Pool
begin

text \<open>
  Phase 1 (\<^verbatim>\<open>phase1Update\<close> of \<^verbatim>\<open>compute.go\<close>): an item-dictionary update becomes one
  vector of deltas, one \<^verbatim>\<open>int32\<close> per order, which the workers add to every row of the
  matrix.  The two implementations receive different updates (a delta per TPID, or an old
  and a new contribution) and apply the vector with the Go loop or the C kernel.
\<close>

section \<open>The code\<close>

record tpid_delta =
  TPID :: u64
  ScoreDelta :: float32

record item_dict_update =
  TPIDDeltas :: "tpid_delta list"
  Timestamp :: i64

record tpid_update =
  uTPID :: u64
  OldContrib :: float32
  NewContrib :: float32

record cgo_item_dict_update =
  Updates :: "tpid_update list"

text \<open>\<^verbatim>\<open>delta[oid] += d\<close>\<close>

definition add_delta :: "i32 \<Rightarrow> u32 \<Rightarrow> i32 list \<Rightarrow> i32 list go" where
  "add_delta d oid delta =
     gbind (go_index delta (unat oid)) (\<lambda>x. go_update delta (unat oid) (x + d))"

definition build_delta ::
  "go_runtime \<Rightarrow> workload \<Rightarrow> inverted_indexes \<Rightarrow> tpid_delta list \<Rightarrow> i32 list go" where
  "build_delta rt w ix deltas =
     gfold (\<lambda>entry. gfold (add_delta (scale_score rt (ScoreDelta entry)))
                       (map_list (TPIDToOrders ix) (TPID entry)))
       deltas (replicate (NumOrders w) 0)"

definition phase1Update ::
  "go_runtime \<Rightarrow> workload \<Rightarrow> item_dict_update option \<Rightarrow> pps_matrix compute_engine \<Rightarrow>
     pps_matrix compute_engine go" where
  "phase1Update rt w update e =
     (case update of None \<Rightarrow> Inr e
      | Some u \<Rightarrow>
          gbind (build_delta rt w (Indexes e) (TPIDDeltas u)) (\<lambda>delta.
          let n = NumPPS (Matrix e); numW = pool_size e n
          in gbind (ceil_div n numW) (\<lambda>rowsPerWorker.
             gbind (gfold (\<lambda>(lo, hi). gfold (apply_to_row w delta) [lo..<hi])
                      (row_ranges n rowsPerWorker 0) (Matrix e)) (\<lambda>m.
             Inr (e\<lparr>Matrix := m\<rparr>)))))"

text \<open>The cgo implementation skips zero differences, unknown TPIDs and IDs out of range.\<close>

definition cgo_add_update ::
  "go_runtime \<Rightarrow> workload \<Rightarrow> inverted_indexes \<Rightarrow> tpid_update \<Rightarrow> i32 list \<Rightarrow> i32 list go" where
  "cgo_add_update rt w ix u delta =
     (let diff = f32_sub (NewContrib u) (OldContrib u)
      in if f32_is_zero diff then Inr delta
         else let diffI32 = scale_score rt diff
              in case TPIDToOrders ix (uTPID u) of
                   None \<Rightarrow> Inr delta
                 | Some orderIDs \<Rightarrow>
                     gfold (\<lambda>oid d. if unat oid < NumOrders w then add_delta diffI32 oid d else Inr d)
                       orderIDs delta)"

definition cgo_build_delta ::
  "go_runtime \<Rightarrow> workload \<Rightarrow> inverted_indexes \<Rightarrow> tpid_update list \<Rightarrow> i32 list go" where
  "cgo_build_delta rt w ix us = gfold (cgo_add_update rt w ix) us (replicate (NumOrders w) 0)"

definition cgo_phase1Update ::
  "go_runtime \<Rightarrow> workload \<Rightarrow> cgo_item_dict_update option \<Rightarrow> c_matrix compute_engine \<Rightarrow>
     c_matrix compute_engine go" where
  "cgo_phase1Update rt w update e =
     (case update of None \<Rightarrow> Inr e
      | Some u \<Rightarrow>
          if length (Updates u) = 0 then Inr e
          else gbind (cgo_build_delta rt w (Indexes e) (Updates u)) (\<lambda>delta.
               let n = cNumPPS (Matrix e); numW = pool_size e n
               in gbind (ceil_div n numW) (\<lambda>rowsPerWorker.
                  gbind (gfold (\<lambda>(lo, hi). CUpdateRowRange w lo (int hi - int lo) delta)
                           (row_ranges n rowsPerWorker 0) (Matrix e)) (\<lambda>m.
                  Inr (e\<lparr>Matrix := m\<rparr>)))))"

section \<open>The delta vector\<close>

text \<open>
  The delta of an order is the sum of its contributions modulo \<open>2 ^ 32\<close>: one per entry of
  the update and per occurrence of the order in that TPID's list.
\<close>

definition order_delta :: "(u64 \<times> i32) list \<Rightarrow> inverted_indexes \<Rightarrow> u32 \<Rightarrow> i32" where
  "order_delta cs ix oid =
     sum_list (map (\<lambda>(t, d). of_nat (count_list (tpid_orders ix t) oid) * d) cs)"

lemma add_deltas_ok:
  assumes "\<forall>oid \<in> set oids. unat oid < length delta"
  shows "\<exists>delta'. gfold (add_delta d) oids delta = Inr delta' \<and> length delta' = length delta \<and>
           (\<forall>oid. unat oid < length delta \<longrightarrow>
              delta' ! unat oid = delta ! unat oid + of_nat (count_list oids oid) * d)"
  using assms
proof (induction oids arbitrary: delta)
  case (Cons x oids)
  let ?d1 = "delta[unat x := delta ! unat x + d]"
  have step: "add_delta d x delta = Inr ?d1" using Cons.prems by (simp add: add_delta_def go_simps)
  obtain d2 where d2: "gfold (add_delta d) oids ?d1 = Inr d2" "length d2 = length delta"
    and c: "\<forall>oid. unat oid < length delta \<longrightarrow>
              d2 ! unat oid = ?d1 ! unat oid + of_nat (count_list oids oid) * d"
    using Cons.IH [of ?d1] Cons.prems by auto
  have "d2 ! unat oid = delta ! unat oid + of_nat (count_list (x # oids) oid) * d"
    if "unat oid < length delta" for oid
    using c that by (cases "x = oid") (simp_all add: algebra_simps word_unat_eq_iff)
  with step d2 show ?case by simp
qed simp

lemma build_deltas_ok:
  assumes "index_range w ix" and "length delta = NumOrders w"
  shows "\<exists>delta'. gfold (\<lambda>(t, d). gfold (add_delta d) (tpid_orders ix t)) cs delta = Inr delta' \<and>
           length delta' = NumOrders w \<and>
           (\<forall>oid. unat oid < NumOrders w \<longrightarrow>
              delta' ! unat oid = delta ! unat oid + order_delta cs ix oid)"
  using assms(2)
proof (induction cs arbitrary: delta)
  case Nil
  then show ?case by (simp add: order_delta_def)
next
  case (Cons c cs)
  obtain t d where c: "c = (t, d)" by (cases c)
  have "\<forall>oid \<in> set (tpid_orders ix t). unat oid < length delta"
    using assms(1) Cons.prems by (simp add: index_range_def)
  then obtain d1 where d1: "gfold (add_delta d) (tpid_orders ix t) delta = Inr d1"
    "length d1 = length delta"
    and c1: "\<forall>oid. unat oid < length delta \<longrightarrow>
        d1 ! unat oid = delta ! unat oid + of_nat (count_list (tpid_orders ix t) oid) * d"
    using add_deltas_ok by blast
  obtain d2 where d2: "gfold (\<lambda>(t, d). gfold (add_delta d) (tpid_orders ix t)) cs d1 = Inr d2"
    "length d2 = NumOrders w"
    and c2: "\<forall>oid. unat oid < NumOrders w \<longrightarrow> d2 ! unat oid = d1 ! unat oid + order_delta cs ix oid"
    using Cons.IH [of d1] Cons.prems d1(2) by auto
  have "d2 ! unat oid = delta ! unat oid + order_delta (c # cs) ix oid"
    if "unat oid < NumOrders w" for oid
    using c1 c2 that Cons.prems by (simp add: order_delta_def c algebra_simps)
  with d1 d2 show ?case by (simp add: c)
qed

definition contributions :: "go_runtime \<Rightarrow> tpid_delta list \<Rightarrow> (u64 \<times> i32) list" where
  "contributions rt ds = map (\<lambda>e. (TPID e, scale_score rt (ScoreDelta e))) ds"

definition cgo_contributions :: "go_runtime \<Rightarrow> tpid_update list \<Rightarrow> (u64 \<times> i32) list" where
  "cgo_contributions rt us =
     map (\<lambda>u. (uTPID u, scale_score rt (f32_sub (NewContrib u) (OldContrib u))))
       (filter (\<lambda>u. \<not> f32_is_zero (f32_sub (NewContrib u) (OldContrib u))) us)"

lemma gfold_map: "gfold f (map g xs) s = gfold (\<lambda>x. f (g x)) xs s"
proof (induction xs arbitrary: s)
  case (Cons x xs)
  then have "gfold f (map g xs) = gfold (\<lambda>x. f (g x)) xs" by (simp add: fun_eq_iff)
  then show ?case by simp
qed simp

lemma build_delta_ok:
  assumes "index_range w ix"
  shows "\<exists>delta. build_delta rt w ix ds = Inr delta \<and> length delta = NumOrders w \<and>
           (\<forall>oid. unat oid < NumOrders w \<longrightarrow>
              delta ! unat oid = order_delta (contributions rt ds) ix oid)"
  using build_deltas_ok [OF assms, of "replicate (NumOrders w) 0" "contributions rt ds"]
  by (auto simp: build_delta_def contributions_def gfold_map tpid_orders_def)

lemma cgo_add_update_eq:
  assumes "index_range w ix"
  shows "cgo_add_update rt w ix u delta =
           (if f32_is_zero (f32_sub (NewContrib u) (OldContrib u)) then Inr delta
            else gfold (add_delta (scale_score rt (f32_sub (NewContrib u) (OldContrib u))))
                   (tpid_orders ix (uTPID u)) delta)"
proof -
  let ?d = "scale_score rt (f32_sub (NewContrib u) (OldContrib u))"
  have "gfold (\<lambda>oid d. if unat oid < NumOrders w then add_delta ?d oid d else Inr d) oids delta =
      gfold (add_delta ?d) oids delta" if "oids = tpid_orders ix (uTPID u)" for oids
    using assms that by (intro gfold_cong) (auto simp: index_range_def)
  then show ?thesis
    by (auto simp: cgo_add_update_def Let_def tpid_orders_def map_list_def split: option.split)
qed

lemma cgo_build_delta_eq:
  assumes "index_range w ix"
  shows "gfold (cgo_add_update rt w ix) us delta =
           gfold (\<lambda>(t, d). gfold (add_delta d) (tpid_orders ix t)) (cgo_contributions rt us) delta"
  by (induction us arbitrary: delta)
    (simp_all add: cgo_contributions_def cgo_add_update_eq [OF assms] cong: gbind_cong)

lemma cgo_build_delta_ok:
  assumes "index_range w ix"
  shows "\<exists>delta. cgo_build_delta rt w ix us = Inr delta \<and> length delta = NumOrders w \<and>
           (\<forall>oid. unat oid < NumOrders w \<longrightarrow>
              delta ! unat oid = order_delta (cgo_contributions rt us) ix oid)"
  using build_deltas_ok [OF assms, of "replicate (NumOrders w) 0" "cgo_contributions rt us"]
  by (simp add: cgo_build_delta_def cgo_build_delta_eq [OF assms])

section \<open>The rows\<close>

lemma gfold_concat: "gfold (\<lambda>x. gfold f (g x)) xs s = gfold f (concat (map g xs)) s"
proof (induction xs arbitrary: s)
  case (Cons x xs)
  then have "gfold (\<lambda>x. gfold f (g x)) xs = gfold f (concat (map g xs))" by (simp add: fun_eq_iff)
  then show ?case by (simp add: gfold_append)
qed simp

text \<open>The workers' ranges are the rows, each once.\<close>

lemma worker_rows:
  assumes "0 < n"
  shows "\<exists>step. ceil_div n (pool_size e n) = Inr step \<and>
           concat (map range_jobs (row_ranges n step 0)) = [0..<n]"
proof -
  have "0 < pool_size e n" using pool_size_pos [OF assms] by blast
  from ceil_div_ok [OF this assms] obtain step where "ceil_div n (pool_size e n) = Inr step" "0 < step"
    by blast
  then show ?thesis using row_ranges_cover [of step n 0] by auto
qed

text \<open>All cells have received their order's delta.\<close>

definition shifted ::
  "workload \<Rightarrow> (u32 \<Rightarrow> i32) \<Rightarrow> nat \<Rightarrow> (nat \<Rightarrow> nat \<Rightarrow> i16) \<Rightarrow> (nat \<Rightarrow> nat \<Rightarrow> i16) \<Rightarrow> bool" where
  "shifted w d n c c' \<longleftrightarrow>
     (\<forall>p < n. \<forall>oid. unat oid < NumOrders w \<longrightarrow>
        c' p (unat oid) = add_clamped (c p (unat oid)) (d oid))"

lemma range_rows: "(\<lambda>(lo, hi). gfold f [lo..<hi]) = (\<lambda>r. gfold f (range_jobs r))"
  by (simp add: fun_eq_iff range_jobs_def)

lemma phase1_rows:
  assumes wf: "matrix_wf w m" "0 < NumPPS m" and len: "length delta = NumOrders w"
    and delta: "\<forall>oid. unat oid < NumOrders w \<longrightarrow> delta ! unat oid = d oid"
  shows "\<exists>step m'. ceil_div (NumPPS m) (pool_size e (NumPPS m)) = Inr step \<and>
           gfold (\<lambda>(lo, hi). gfold (apply_to_row w delta) [lo..<hi]) (row_ranges (NumPPS m) step 0) m = Inr m' \<and>
           matrix_wf w m' \<and> NumPPS m' = NumPPS m \<and>
           shifted w d (NumPPS m) (cell w m) (cell w m')"
proof -
  obtain step where step: "ceil_div (NumPPS m) (pool_size e (NumPPS m)) = Inr step"
    "concat (map range_jobs (row_ranges (NumPPS m) step 0)) = [0..<NumPPS m]"
    using worker_rows [OF wf(2)] by blast
  obtain m' where "gfold (apply_to_row w delta) [0..<NumPPS m] m = Inr m'" "matrix_wf w m'"
    "NumPPS m' = NumPPS m"
    and c: "\<forall>q < NumPPS m. \<forall>j < NumOrders w. cell w m' q j =
        (if q \<in> set [0..<NumPPS m] then add_clamped (cell w m q j) (delta ! j) else cell w m q j)"
    using apply_rows_ok [OF wf(1) len, of "[0..<NumPPS m]"] by auto
  moreover have "shifted w d (NumPPS m) (cell w m) (cell w m')"
    using c delta by (simp add: shifted_def)
  ultimately show ?thesis using step by (simp add: range_rows gfold_concat)
qed

lemma phase1_ok:
  assumes "pure_inv w e"
  shows "\<exists>m. phase1Update rt w (Some u) e = Inr (e\<lparr>Matrix := m\<rparr>) \<and> matrix_wf w m \<and>
           NumPPS m = NumPPS (Matrix e) \<and>
           shifted w (order_delta (contributions rt (TPIDDeltas u)) (Indexes e)) (NumPPS m)
             (cell w (Matrix e)) (cell w m)"
proof -
  from assms have i: "index_range w (Indexes e)" "matrix_wf w (Matrix e)" "0 < NumPPS (Matrix e)"
    by (simp_all add: engine_inv_def store_inv_def)
  obtain delta where d: "build_delta rt w (Indexes e) (TPIDDeltas u) = Inr delta"
    "length delta = NumOrders w"
    "\<forall>oid. unat oid < NumOrders w \<longrightarrow>
       delta ! unat oid = order_delta (contributions rt (TPIDDeltas u)) (Indexes e) oid"
    using build_delta_ok [OF i(1)] by blast
  from phase1_rows [OF i(2,3) d(2,3), of e] show ?thesis
    by (auto simp: phase1Update_def d(1) Let_def)
qed

lemma phase1_None [simp]: "phase1Update rt w None e = Inr e"
  by (simp add: phase1Update_def)

text \<open>An engine without rows divides by zero as soon as there is an update.\<close>

lemma phase1_no_rows:
  assumes "index_range w (Indexes e)" and "NumPPS (Matrix e) = 0"
  shows "phase1Update rt w (Some u) e = Inl DivideByZero"
proof -
  obtain delta where "build_delta rt w (Indexes e) (TPIDDeltas u) = Inr delta"
    using build_delta_ok [OF assms(1)] by blast
  moreover have "pool_size e 0 = 0" by (simp add: pool_size_def Let_def NumWorkers_def)
  ultimately show ?thesis using assms(2) by (simp add: phase1Update_def Let_def ceil_div_def)
qed

section \<open>The schedule does not matter\<close>

text \<open>
  The row jobs of different workers commute, so the pool's result does not depend on how the
  goroutines are interleaved.
\<close>

interpretation row_pool: worker_pool "apply_to_row w delta"
  "\<lambda>m. matrix_wf w m \<and> NumPPS m = n \<and> length delta = NumOrders w" "\<lambda>p. p < n" "(\<noteq>)"
  for w delta n
proof (unfold_locales, goal_cases)
  case (1 m p)
  then show ?case using apply_to_row_ok [of w m p delta] by blast
next
  case (2 m p q)
  then have m: "matrix_wf w m" "length delta = NumOrders w" "p < NumPPS m" "q < NumPPS m" "p \<noteq> q"
    by auto
  have run: "gfold (apply_to_row w delta) [a, b] m = gbind (apply_to_row w delta a m) (apply_to_row w delta b)"
    for a b
  proof -
    have "gfold (apply_to_row w delta) [b] s = apply_to_row w delta b s" for s
      by (cases "apply_to_row w delta b s") simp_all
    then show ?thesis by (simp cong: gbind_cong)
  qed
  obtain m1 where m1: "gfold (apply_to_row w delta) [p, q] m = Inr m1" "matrix_wf w m1"
    "NumPPS m1 = NumPPS m"
    "\<forall>r < NumPPS m. \<forall>j < NumOrders w. cell w m1 r j =
       (if r \<in> set [p, q] then add_clamped (cell w m r j) (delta ! j) else cell w m r j)"
    using apply_rows_ok [OF m(1,2), of "[p, q]"] m(3-5) by auto
  obtain m2 where m2: "gfold (apply_to_row w delta) [q, p] m = Inr m2" "matrix_wf w m2"
    "NumPPS m2 = NumPPS m"
    "\<forall>r < NumPPS m. \<forall>j < NumOrders w. cell w m2 r j =
       (if r \<in> set [q, p] then add_clamped (cell w m r j) (delta ! j) else cell w m r j)"
    using apply_rows_ok [OF m(1,2), of "[q, p]"] m(3-5) by auto
  have "m1 = m2"
    using m1(2-4) m2(2-4) by (intro matrix_eqI [of w]) auto
  with m1(1) m2(1) show ?case by (simp only: run)
qed

definition row_queues :: "nat \<Rightarrow> nat \<Rightarrow> nat list list" where
  "row_queues n step = map range_jobs (row_ranges n step 0)"

lemma row_queues_across:
  assumes "0 < step"
  shows "across (\<noteq>) (row_queues n step)"
proof -
  have "distinct (concat (row_queues n step))"
    using row_ranges_cover [OF assms, of n 0] by (simp add: row_queues_def)
  then show ?thesis by (rule across_distinct)
qed

text \<open>A complete run of the workers in any interleaving is the model's sequential loop.\<close>

lemma phase1_schedule:
  assumes "matrix_wf w m" and "0 < NumPPS m" and "length delta = NumOrders w" and "0 < step"
    and "rtranclp (pool_step (apply_to_row w delta)) (row_queues (NumPPS m) step, m) (qs, m')"
    and "pool_done qs"
  shows "gfold (\<lambda>(lo, hi). gfold (apply_to_row w delta) [lo..<hi]) (row_ranges (NumPPS m) step 0) m = Inr m'"
proof -
  have rows: "concat (row_queues (NumPPS m) step) = [0..<NumPPS m]"
    using row_ranges_cover [OF assms(4)] by (simp add: row_queues_def)
  then have "\<forall>q \<in> set (row_queues (NumPPS m) step). \<forall>p \<in> set q. p < NumPPS m"
    by (metis UN_I atLeastLessThan_iff set_concat set_upt)
  then have "gfold (apply_to_row w delta) (concat (row_queues (NumPPS m) step)) m = Inr m'"
    using row_pool.any_run [OF assms(5,6)] assms(1,3) row_queues_across [OF assms(4)] by blast
  then show ?thesis by (simp add: range_rows gfold_concat row_queues_def)
qed

lemma phase1_interleaved:
  assumes "pure_inv w e"
    and "build_delta rt w (Indexes e) (TPIDDeltas u) = Inr delta"
    and "ceil_div (NumPPS (Matrix e)) (pool_size e (NumPPS (Matrix e))) = Inr step"
    and "rtranclp (pool_step (apply_to_row w delta))
           (row_queues (NumPPS (Matrix e)) step, Matrix e) (qs, m)"
    and "pool_done qs"
  shows "phase1Update rt w (Some u) e = Inr (e\<lparr>Matrix := m\<rparr>)"
proof -
  from assms(1) have i: "index_range w (Indexes e)" "matrix_wf w (Matrix e)" "0 < NumPPS (Matrix e)"
    by (simp_all add: engine_inv_def store_inv_def)
  have len: "length delta = NumOrders w" using build_delta_ok [OF i(1), of rt "TPIDDeltas u"] assms(2) by auto
  have "0 < pool_size e (NumPPS (Matrix e))" using pool_size_pos [OF i(3)] by blast
  from ceil_div_ok [OF this i(3)] assms(3) have step: "0 < step" by auto
  from phase1_schedule [OF i(2,3) len step assms(4,5)] show ?thesis
    using assms(2,3) by (simp add: phase1Update_def Let_def)
qed

lemma row_run_exists:
  assumes "matrix_wf w m" and "length delta = NumOrders w" and "0 < step"
  shows "\<exists>qs m'. rtranclp (pool_step (apply_to_row w delta)) (row_queues (NumPPS m) step, m) (qs, m') \<and>
           pool_done qs"
proof -
  have "concat (row_queues (NumPPS m) step) = [0..<NumPPS m]"
    using row_ranges_cover [OF assms(3)] by (simp add: row_queues_def)
  then have "\<forall>q \<in> set (row_queues (NumPPS m) step). \<forall>p \<in> set q. p < NumPPS m"
    by (metis UN_I atLeastLessThan_iff set_concat set_upt)
  then show ?thesis using row_pool.run_exists [of w m "NumPPS m" delta] assms(1,2) by blast
qed

section \<open>The C kernel\<close>

lemma row_ranges_bounds:
  "(lo, hi) \<in> set (row_ranges n step start) \<Longrightarrow> lo \<le> hi \<and> hi \<le> n"
proof (induction n step start rule: row_ranges.induct)
  case (1 n step start)
  have "row_ranges n step start =
      (if start < n \<and> 0 < step then (start, min (start + step) n) # row_ranges n step (start + step)
       else [])" by (rule row_ranges.simps)
  with 1 show ?case by (auto split: if_splits)
qed

lemma c_ranges_refine:
  assumes "c_abs cm m" and "matrix_wf w m" and "length delta = NumOrders w" and "delta_safe delta"
    and "0 < NumOrders w" and "\<forall>(lo, hi) \<in> set rs. lo \<le> hi \<and> hi \<le> NumPPS m" and "c_fits w (NumPPS m)"
  shows "\<exists>cm' m'. gfold (\<lambda>(lo, hi). CUpdateRowRange w lo (int hi - int lo) delta) rs cm = Inr cm' \<and>
           gfold (\<lambda>(lo, hi). gfold (apply_to_row w delta) [lo..<hi]) rs m = Inr m' \<and>
           c_abs cm' m'"
  using assms(1,2,6,7)
proof (induction rs arbitrary: cm m)
  case (Cons r rs)
  obtain lo hi where r: "r = (lo, hi)" by (cases r)
  define n where "n = hi - lo"
  from Cons.prems(3) r have b: "hi = lo + n" "lo + n \<le> NumPPS m" by (auto simp: n_def)
  obtain cm1 m1 where 1: "CUpdateRowRange w lo (int n) delta cm = Inr cm1"
    "gfold (apply_to_row w delta) [lo..<lo + n] m = Inr m1" "c_abs cm1 m1" "matrix_wf w m1"
    "NumPPS m1 = NumPPS m"
    using row_range_refines [OF Cons.prems(1,2) assms(3,4) b(2) assms(5) Cons.prems(4)] by blast
  obtain cm2 m2 where "gfold (\<lambda>(lo, hi). CUpdateRowRange w lo (int hi - int lo) delta) rs cm1 = Inr cm2"
    "gfold (\<lambda>(lo, hi). gfold (apply_to_row w delta) [lo..<hi]) rs m1 = Inr m2" "c_abs cm2 m2"
    using Cons.IH [OF 1(3,4)] Cons.prems(3,4) 1(5) by auto
  with 1 show ?case by (simp add: r b(1))
qed simp

definition safe_deltas :: "workload \<Rightarrow> (u32 \<Rightarrow> i32) \<Rightarrow> bool" where
  "safe_deltas w d \<longleftrightarrow>
     (\<forall>oid. unat oid < NumOrders w \<longrightarrow>
        - (2 ^ 31) + 32768 \<le> sint (d oid) \<and> sint (d oid) < 2 ^ 31 - 32767)"

lemma order_at:
  assumes "workload_ok w" and "i < NumOrders w"
  shows "unat (of_nat i :: u32) = i"
  using assms by (simp add: unat_of_nat take_bit_eq_mod workload_ok_def)

lemma delta_safeI:
  assumes "workload_ok w" and "length delta = NumOrders w" and "safe_deltas w d"
    and "\<forall>oid. unat oid < NumOrders w \<longrightarrow> delta ! unat oid = d oid"
  shows "delta_safe delta"
proof -
  have "delta ! i = d (of_nat i)" if "i < NumOrders w" for i
    using assms(4) order_at [OF assms(1) that] that by metis
  with assms(1-3) show ?thesis
    unfolding delta_safe_def safe_deltas_def
    by (auto simp: in_set_conv_nth order_at)
qed

lemma cgo_phase1_ok:
  assumes inv: "cgo_inv w e" and us: "Updates u \<noteq> []"
    and safe: "safe_deltas w (order_delta (cgo_contributions rt (Updates u)) (Indexes e))"
  shows "\<exists>cm. cgo_phase1Update rt w (Some u) e = Inr (e\<lparr>Matrix := cm\<rparr>) \<and> c_wf w cm \<and>
           cNumPPS cm = cNumPPS (Matrix e) \<and>
           shifted w (order_delta (cgo_contributions rt (Updates u)) (Indexes e)) (cNumPPS cm)
             (cell w (c_view (Matrix e))) (cell w (c_view cm))"
proof -
  let ?m = "c_view (Matrix e)" and ?d = "order_delta (cgo_contributions rt (Updates u)) (Indexes e)"
  from inv have i: "index_range w (Indexes e)" "c_wf w (Matrix e)" "0 < cNumPPS (Matrix e)"
    "workload_ok w" "0 < NumOrders w"
    by (simp_all add: engine_inv_def store_inv_def workload_ok_def)
  then have m: "matrix_wf w ?m" "0 < NumPPS ?m" "NumPPS ?m = cNumPPS (Matrix e)" "c_fits w (NumPPS ?m)"
    by (simp_all add: c_wf_def c_view_def)
  obtain delta where d: "cgo_build_delta rt w (Indexes e) (Updates u) = Inr delta"
    "length delta = NumOrders w" "\<forall>oid. unat oid < NumOrders w \<longrightarrow> delta ! unat oid = ?d oid"
    using cgo_build_delta_ok [OF i(1)] by blast
  note ds = delta_safeI [OF i(4) d(2) safe d(3)]
  obtain step m' where step: "ceil_div (NumPPS ?m) (pool_size e (NumPPS ?m)) = Inr step"
    and run: "gfold (\<lambda>(lo, hi). gfold (apply_to_row w delta) [lo..<hi]) (row_ranges (NumPPS ?m) step 0) ?m = Inr m'"
    and m': "matrix_wf w m'" "NumPPS m' = NumPPS ?m" "shifted w ?d (NumPPS ?m) (cell w ?m) (cell w m')"
    using phase1_rows [OF m(1,2) d(2,3)] by blast
  have "\<forall>(lo, hi) \<in> set (row_ranges (NumPPS ?m) step 0). lo \<le> hi \<and> hi \<le> NumPPS ?m"
    using row_ranges_bounds by blast
  from c_ranges_refine [OF c_abs_view [OF i(2)] m(1) d(2) ds i(5) this m(4)] run
  obtain cm where cm: "gfold (\<lambda>(lo, hi). CUpdateRowRange w lo (int hi - int lo) delta)
      (row_ranges (NumPPS ?m) step 0) (Matrix e) = Inr cm" "c_abs cm m'"
    by auto
  then have "cgo_phase1Update rt w (Some u) e = Inr (e\<lparr>Matrix := cm\<rparr>)"
    using us step m(3) by (simp add: cgo_phase1Update_def d(1) Let_def)
  moreover have "c_wf w cm" "cNumPPS cm = cNumPPS (Matrix e)" "c_view cm = m'"
    using c_abs_wf [OF cm(2) m'(1)] m(4) c_abs_eq [OF cm(2)] cm(2) m' m(3) by (simp_all add: c_abs_def)
  ultimately show ?thesis using m' m(3) by auto
qed

lemma cgo_phase1_None [simp]: "cgo_phase1Update rt w None e = Inr e"
  by (simp add: cgo_phase1Update_def)

end
