(* ===== verification/Quickselect.thy ===== *)
theory Quickselect
  imports Service_Types
begin

text \<open>
  The selection of the best \<^verbatim>\<open>k\<close> entries of a scratch slice (\<^verbatim>\<open>compute.go\<close> of
  both implementations): median-of-three, partition, the quickselect loop, and the copy of
  the ranked IDs into the output.  Slices are read and written through the checked
  operations, so that a wrong index is a fault of the model; the lemmas show that none
  occurs, and the loop's termination is part of its definition.

  The pure implementation steers the loop to index \<open>k - 1\<close> and sorts inside
  \<^verbatim>\<open>quickselectTopK\<close>; the cgo implementation steers it to index \<open>k\<close> and leaves the
  sorting to its caller.  The interface \<open>top_k_select\<close> is what both give their caller.
\<close>

abbreviation key :: "score_entry \<Rightarrow> int" where
  "key x \<equiv> sint (score x)"

section \<open>The code\<close>

definition medianOfThree :: "score_entry list \<Rightarrow> nat \<Rightarrow> nat \<Rightarrow> nat \<Rightarrow> nat go" where
  "medianOfThree e lo mid hi =
     gbind (go_index e lo) (\<lambda>x. gbind (go_index e mid) (\<lambda>y. gbind (go_index e hi) (\<lambda>z.
       let a = key x; b = key y; c = key z
       in Inr (if (a \<ge> b \<and> b \<ge> c) \<or> (c \<ge> b \<and> b \<ge> a) then mid
               else if (b \<ge> a \<and> a \<ge> c) \<or> (c \<ge> a \<and> a \<ge> b) then lo
               else hi))))"

text \<open>
  The body of the partition loop.  The source's \<^verbatim>\<open>i\<close> starts at \<^verbatim>\<open>lo - 1\<close>
  and is incremented before each use; the model carries \<^verbatim>\<open>i + 1\<close>, which is never
  negative.
\<close>

definition partition_step ::
  "i32 \<Rightarrow> nat \<Rightarrow> score_entry list \<times> nat \<Rightarrow> (score_entry list \<times> nat) go" where
  "partition_step pivot j s =
     (case s of (e, i1) \<Rightarrow>
        gbind (go_index e j) (\<lambda>x.
          if key x \<ge> sint pivot
          then gbind (go_swap e i1 j) (\<lambda>e'. Inr (e', Suc i1))
          else Inr (e, i1)))"

definition partitionDesc ::
  "score_entry list \<Rightarrow> nat \<Rightarrow> nat \<Rightarrow> (score_entry list \<times> nat) go" where
  "partitionDesc e lo hi =
     (let mid = lo + (hi - lo) div 2
      in gbind (medianOfThree e lo mid hi) (\<lambda>pivotIdx.
         gbind (go_swap e pivotIdx hi) (\<lambda>e1.
         gbind (go_index e1 hi) (\<lambda>pv.
         gbind (gfold (partition_step (score pv)) [lo..<hi] (e1, lo)) (\<lambda>(e2, i1).
         gbind (go_swap e2 i1 hi) (\<lambda>e3. Inr (e3, i1)))))))"

lemma partition_step_index:
  "partition_step pv j (e, i) = Inr (e', i') \<Longrightarrow> i \<le> i' \<and> i' \<le> Suc i"
  by (auto simp: partition_step_def go_elims split: if_splits)

lemma partition_loop_index:
  "gfold (partition_step pv) js (e, i) = Inr (e', i') \<Longrightarrow> i \<le> i' \<and> i' \<le> i + length js"
proof (induction js arbitrary: e i)
  case (Cons j js)
  from Cons.prems obtain e1 i1 where "partition_step pv j (e, i) = Inr (e1, i1)"
    and "gfold (partition_step pv) js (e1, i1) = Inr (e', i')"
    by (auto simp: go_elims)
  with partition_step_index [of pv j e i e1 i1] Cons.IH [of e1 i1] show ?case by simp
qed simp

lemma partitionDesc_index:
  assumes "partitionDesc e lo hi = Inr (e', p)" and "lo \<le> hi"
  shows "lo \<le> p \<and> p \<le> hi"
  using assms partition_loop_index
  by (fastforce simp: partitionDesc_def go_elims Let_def)

text \<open>
  The loop of \<^verbatim>\<open>quickselectTopK\<close>, which ends when the pivot lands on \<open>target\<close>.  In
  the last branch \<open>p > target \<ge> 0\<close>, so \<open>p - 1\<close> is the source's value.
\<close>

function qs_loop :: "nat \<Rightarrow> score_entry list \<Rightarrow> nat \<Rightarrow> nat \<Rightarrow> score_entry list go" where
  "qs_loop target e lo hi =
     (if lo < hi
      then gbind (partitionDesc e lo hi) (\<lambda>(e', p).
             if p = target then Inr e'
             else if p < target then qs_loop target e' (p + 1) hi
             else qs_loop target e' lo (p - 1))
      else Inr e)"
  by pat_completeness auto
termination
proof (relation "measure (\<lambda>(t, e, lo, hi). hi - lo)", goal_cases)
  case (2 t e lo hi r e' p)
  then show ?case using partitionDesc_index [of e lo hi e' p] by auto
next
  case (3 t e lo hi r e' p)
  then show ?case using partitionDesc_index [of e lo hi e' p] by auto
qed simp

declare qs_loop.simps [simp del]

definition score_greater :: "score_entry \<Rightarrow> score_entry \<Rightarrow> bool" where
  "score_greater x y \<longleftrightarrow> key x > key y"

text \<open>\<^verbatim>\<open>sort.Slice(e[:k], ...)\<close>: the prefix is sorted in place.\<close>

definition sort_prefix :: "go_runtime \<Rightarrow> score_entry list \<Rightarrow> nat \<Rightarrow> score_entry list go" where
  "sort_prefix rt e k =
     gbind (go_slice e 0 k) (\<lambda>s. Inr (write_view e 0 (sort_Slice rt score_greater s)))"

definition quickselectTopK ::
  "go_runtime \<Rightarrow> score_entry list \<Rightarrow> int \<Rightarrow> score_entry list go" where
  "quickselectTopK rt e k =
     (if k \<le> 0 \<or> int (length e) \<le> k then Inr e
      else gbind (qs_loop (nat k - 1) e 0 (length e - 1)) (\<lambda>e'. sort_prefix rt e' (nat k)))"

definition cgo_quickselectTopK :: "score_entry list \<Rightarrow> int \<Rightarrow> score_entry list go" where
  "cgo_quickselectTopK e k =
     (if k \<le> 0 \<or> length e = 0 then Inr e
      else if k \<ge> int (length e) then Inr e
      else qs_loop (nat k) e 0 (length e - 1))"

definition copy_ids :: "i32 list \<Rightarrow> score_entry list \<Rightarrow> nat \<Rightarrow> i32 list go" where
  "copy_ids dst e k =
     gfold (\<lambda>i d. gbind (go_index e i) (\<lambda>x. go_update d i (orderID x))) [0..<k] dst"

text \<open>Both functions return the output slice and the scratch slice they leave behind.\<close>

definition quickselectAndCopy ::
  "go_runtime \<Rightarrow> workload \<Rightarrow> i32 list \<Rightarrow> score_entry list \<Rightarrow> (i32 list \<times> score_entry list) go"
where
  "quickselectAndCopy rt w dst scratch =
     (let k = min (length scratch) (TopK w)
      in if k = 0 then Inr (dst, scratch)
         else gbind (quickselectTopK rt scratch (int k)) (\<lambda>e.
              gbind (if length e \<le> k then sort_prefix rt e k else Inr e) (\<lambda>e'.
              gbind (copy_ids dst e' k) (\<lambda>d. Inr (d, e')))))"

definition cgo_quickselectAndCopy ::
  "go_runtime \<Rightarrow> workload \<Rightarrow> i32 list \<Rightarrow> score_entry list \<Rightarrow> (i32 list \<times> score_entry list) go"
where
  "cgo_quickselectAndCopy rt w dst scratch =
     (let k = min (length scratch) (TopK w)
      in if k = 0 then Inr (dst, scratch)
         else gbind (cgo_quickselectTopK scratch (int k)) (\<lambda>e.
              gbind (sort_prefix rt e k) (\<lambda>e'.
              gbind (copy_ids dst e' k) (\<lambda>d. Inr (d, e')))))"

section \<open>The partition\<close>

text \<open>
  \<open>rearranged lo hi e e'\<close>: \<open>e'\<close> holds the entries of \<open>e\<close>, with only those at
  \<open>lo..hi\<close> moved, and among themselves.
\<close>

definition rearranged ::
  "nat \<Rightarrow> nat \<Rightarrow> score_entry list \<Rightarrow> score_entry list \<Rightarrow> bool" where
  "rearranged lo hi e e' \<longleftrightarrow>
     length e' = length e \<and> mset e' = mset e \<and>
     (\<forall>i. i < lo \<or> hi < i \<longrightarrow> e' ! i = e ! i) \<and>
     (\<forall>j. lo \<le> j \<and> j \<le> hi \<longrightarrow> (\<exists>i. lo \<le> i \<and> i \<le> hi \<and> e' ! j = e ! i))"

lemma rearranged_refl [simp]: "rearranged lo hi e e"
  by (auto simp: rearranged_def)

lemma rearranged_trans:
  "rearranged lo hi e e' \<Longrightarrow> rearranged lo hi e' e'' \<Longrightarrow> rearranged lo hi e e''"
  unfolding rearranged_def by metis

lemma rearranged_swap:
  assumes "lo \<le> i" "i \<le> hi" "lo \<le> j" "j \<le> hi" "hi < length e"
  shows "rearranged lo hi e (swap e i j)"
  using assms by (auto simp: rearranged_def mset_swapped nth_swap)

lemma rearranged_widen:
  assumes "rearranged lo' hi' e e'" and "lo \<le> lo'" and "hi' \<le> hi"
  shows "rearranged lo hi e e'"
  unfolding rearranged_def
proof (intro conjI allI impI)
  fix j assume j: "lo \<le> j \<and> j \<le> hi"
  show "\<exists>i. lo \<le> i \<and> i \<le> hi \<and> e' ! j = e ! i"
  proof (cases "lo' \<le> j \<and> j \<le> hi'")
    case True
    with assms show ?thesis unfolding rearranged_def by (meson le_trans)
  next
    case False
    with assms(1) j show ?thesis unfolding rearranged_def by (meson not_le)
  qed
qed (use assms in \<open>auto simp: rearranged_def\<close>)

lemma rearranged_length: "rearranged lo hi e e' \<Longrightarrow> length e' = length e"
  by (simp add: rearranged_def)

lemma rearranged_mset: "rearranged lo hi e e' \<Longrightarrow> mset e' = mset e"
  by (simp add: rearranged_def)

lemma rearranged_outside:
  "rearranged lo hi e e' \<Longrightarrow> i < lo \<or> hi < i \<Longrightarrow> e' ! i = e ! i"
  unfolding rearranged_def by blast

lemma medianOfThree_ok:
  assumes "lo \<le> mid" "mid \<le> hi" "hi < length e"
  shows "\<exists>p. medianOfThree e lo mid hi = Inr p \<and> lo \<le> p \<and> p \<le> hi"
  using assms by (auto simp: medianOfThree_def go_simps Let_def)

text \<open>What the partition loop has established when it is at index \<open>j\<close>.\<close>

definition part_inv ::
  "nat \<Rightarrow> nat \<Rightarrow> int \<Rightarrow> score_entry list \<Rightarrow> nat \<Rightarrow> score_entry list \<times> nat \<Rightarrow> bool" where
  "part_inv lo hi pv e j s \<longleftrightarrow>
     (case s of (e', i) \<Rightarrow>
        rearranged lo hi e e' \<and> e' ! hi = e ! hi \<and> lo \<le> i \<and> i \<le> j \<and>
        (\<forall>k. lo \<le> k \<and> k < i \<longrightarrow> pv \<le> key (e' ! k)) \<and>
        (\<forall>k. i \<le> k \<and> k < j \<longrightarrow> key (e' ! k) < pv))"

lemma partition_step_inv:
  assumes inv: "part_inv lo hi (sint pv) e j s" and j: "lo \<le> j" "j < hi" and hi: "hi < length e"
  shows "\<exists>s'. partition_step pv j s = Inr s' \<and> part_inv lo hi (sint pv) e (Suc j) s'"
proof -
  obtain e' i where s: "s = (e', i)" by (cases s)
  from inv s have r: "rearranged lo hi e e'" and i: "lo \<le> i" "i \<le> j" "e' ! hi = e ! hi"
    and left: "\<And>k. lo \<le> k \<Longrightarrow> k < i \<Longrightarrow> sint pv \<le> key (e' ! k)"
    and right: "\<And>k. i \<le> k \<Longrightarrow> k < j \<Longrightarrow> key (e' ! k) < sint pv"
    by (auto simp: part_inv_def)
  have len: "length e' = length e" using r by (rule rearranged_length)
  show ?thesis
  proof (cases "key (e' ! j) \<ge> sint pv")
    case True
    let ?e = "swap e' i j"
    have step: "partition_step pv j s = Inr (?e, Suc i)"
      using True len i j hi by (simp add: partition_step_def s go_simps)
    have "rearranged lo hi e ?e"
      by (rule rearranged_trans [OF r rearranged_swap]) (use len i j hi in auto)
    moreover have "?e ! hi = e ! hi" using len i j hi by (simp add: nth_swap)
    moreover have "sint pv \<le> key (?e ! k)" if "lo \<le> k" "k < Suc i" for k
      using that True left [of k] len i j hi by (cases "k = i") (auto simp: nth_swap)
    moreover have "key (?e ! k) < sint pv" if "Suc i \<le> k" "k < Suc j" for k
      using that right [of k] right [of i] len i j hi by (cases "k = j") (auto simp: nth_swap)
    ultimately show ?thesis using step i by (simp add: part_inv_def)
  next
    case False
    then have "partition_step pv j s = Inr s"
      using len j hi by (simp add: partition_step_def s go_simps)
    moreover have "key (e' ! k) < sint pv" if "i \<le> k" "k < Suc j" for k
      using that right [of k] False by (cases "k = j") auto
    ultimately show ?thesis using r i left by (simp add: part_inv_def s)
  qed
qed

text \<open>
  The contract of \<^verbatim>\<open>partitionDesc\<close>: no fault, only \<open>lo..hi\<close> is touched, and the entry
  at the returned index separates it: no entry before it has a smaller score, every entry
  after it has a smaller one.
\<close>

lemma partitionDesc_ok:
  assumes "lo \<le> hi" and hi: "hi < length e"
  shows "\<exists>e' p. partitionDesc e lo hi = Inr (e', p) \<and> rearranged lo hi e e' \<and> lo \<le> p \<and> p \<le> hi \<and>
           (\<forall>i. lo \<le> i \<and> i \<le> p \<longrightarrow> key (e' ! p) \<le> key (e' ! i)) \<and>
           (\<forall>i. p < i \<and> i \<le> hi \<longrightarrow> key (e' ! i) < key (e' ! p))"
proof -
  let ?mid = "lo + (hi - lo) div 2"
  have "lo \<le> ?mid" "?mid \<le> hi" using assms(1) by auto
  then obtain m where m: "medianOfThree e lo ?mid hi = Inr m" "lo \<le> m" "m \<le> hi"
    using medianOfThree_ok hi by blast
  define e1 where "e1 = swap e m hi"
  have e1: "rearranged lo hi e e1"
    unfolding e1_def using m assms by (intro rearranged_swap) auto
  then have len1: "length e1 = length e" by (rule rearranged_length)
  let ?pv = "score (e1 ! hi)"
  have "part_inv lo hi (sint ?pv) e1 lo (e1, lo)" by (simp add: part_inv_def)
  then obtain s where s: "gfold (partition_step ?pv) [lo..<hi] (e1, lo) = Inr s"
    and inv: "part_inv lo hi (sint ?pv) e1 hi s"
    using gfold_upt_inv [of "part_inv lo hi (sint ?pv) e1" lo "(e1, lo)" hi "partition_step ?pv"]
      partition_step_inv assms(1) hi len1 by metis
  obtain e2 i where si: "s = (e2, i)" by (cases s)
  from inv have r2: "rearranged lo hi e1 e2" and last: "e2 ! hi = e1 ! hi"
    and i: "lo \<le> i" "i \<le> hi"
    and left: "\<And>k. lo \<le> k \<Longrightarrow> k < i \<Longrightarrow> sint ?pv \<le> key (e2 ! k)"
    and right: "\<And>k. i \<le> k \<Longrightarrow> k < hi \<Longrightarrow> key (e2 ! k) < sint ?pv"
    by (auto simp: part_inv_def si)
  have len2: "length e2 = length e" using r2 len1 rearranged_length by metis
  define e3 where "e3 = swap e2 i hi"
  have run: "partitionDesc e lo hi = Inr (e3, i)"
    using m s i hi len1 len2 unfolding e1_def e3_def si
    by (simp add: partitionDesc_def Let_def go_simps)
  have "rearranged lo hi e2 e3"
    unfolding e3_def using i assms len2 by (intro rearranged_swap) auto
  with e1 r2 have r: "rearranged lo hi e e3" by (blast intro: rearranged_trans)
  have e3: "e3 ! k = (if k = hi then e2 ! i else if k = i then e2 ! hi else e2 ! k)" for k
    unfolding e3_def using i hi len2 by (auto simp: nth_swap)
  have "key (e3 ! i) \<le> key (e3 ! k)" if "lo \<le> k" "k \<le> i" for k
    using that left [of k] i by (auto simp: e3 last)
  moreover have "key (e3 ! k) < key (e3 ! i)" if "i < k" "k \<le> hi" for k
    using that right [of k] right [of i] i by (auto simp: e3 last)
  ultimately show ?thesis using run r i by blast
qed

section \<open>The selection loop\<close>

text \<open>The entry at index \<open>t\<close> separates the slice.\<close>

definition separated :: "score_entry list \<Rightarrow> nat \<Rightarrow> bool" where
  "separated e t \<longleftrightarrow> (\<forall>i j. i \<le> t \<and> t \<le> j \<and> j < length e \<longrightarrow> key (e ! j) \<le> key (e ! i))"

text \<open>The loop's invariant: nothing outside \<open>lo..hi\<close> needs to cross it any more.\<close>

definition narrowed :: "score_entry list \<Rightarrow> nat \<Rightarrow> nat \<Rightarrow> bool" where
  "narrowed e lo hi \<longleftrightarrow>
     (\<forall>i j. i < lo \<and> lo \<le> j \<and> j < length e \<longrightarrow> key (e ! j) \<le> key (e ! i)) \<and>
     (\<forall>i j. i \<le> hi \<and> hi < j \<and> j < length e \<longrightarrow> key (e ! j) \<le> key (e ! i))"

lemma narrowed_rearranged:
  assumes n: "narrowed e lo hi" and r: "rearranged lo hi e e'" and "lo \<le> hi" and hi: "hi < length e"
  shows "narrowed e' lo hi"
proof -
  have len: "length e' = length e" using r by (rule rearranged_length)
  have inside: "\<exists>i. lo \<le> i \<and> i \<le> hi \<and> e' ! j = e ! i" if "lo \<le> j" "j \<le> hi" for j
    using r that by (simp add: rearranged_def)
  note outside = rearranged_outside [OF r]
  have "key (e' ! j) \<le> key (e' ! i)" if ij: "i < lo" "lo \<le> j" "j < length e" for i j
  proof (cases "j \<le> hi")
    case True
    then obtain j' where "lo \<le> j'" "j' \<le> hi" "e' ! j = e ! j'" using inside ij by blast
    with n ij hi outside [of i] show ?thesis by (auto simp: narrowed_def)
  next
    case False
    with n ij outside [of i] outside [of j] show ?thesis by (auto simp: narrowed_def)
  qed
  moreover have "key (e' ! j) \<le> key (e' ! i)" if ij: "i \<le> hi" "hi < j" "j < length e" for i j
  proof (cases "lo \<le> i")
    case True
    then obtain i' where "i' \<le> hi" "e' ! i = e ! i'" using inside ij by blast
    with n ij outside [of j] show ?thesis by (auto simp: narrowed_def)
  next
    case False
    with n ij outside [of i] outside [of j] show ?thesis by (auto simp: narrowed_def)
  qed
  ultimately show ?thesis unfolding narrowed_def len by blast
qed

text \<open>After the partition of a narrowed range the pivot separates the whole slice.\<close>

lemma pivot_separates:
  assumes n: "narrowed e lo hi"
    and left: "\<And>i. lo \<le> i \<Longrightarrow> i \<le> p \<Longrightarrow> key (e ! p) \<le> key (e ! i)"
    and right: "\<And>i. p < i \<Longrightarrow> i \<le> hi \<Longrightarrow> key (e ! i) < key (e ! p)"
    and p: "lo \<le> p" "p \<le> hi" and ij: "i \<le> p" "p \<le> j" "j < length e"
  shows "key (e ! j) \<le> key (e ! i)"
proof -
  have "key (e ! j) \<le> key (e ! p)"
    using ij n p right [of j] by (cases "j = p"; cases "j \<le> hi") (auto simp: narrowed_def)
  moreover have "key (e ! p) \<le> key (e ! i)"
    using ij n p left [of i] by (cases "lo \<le> i") (auto simp: narrowed_def)
  ultimately show ?thesis by simp
qed

lemma qs_loop_ok:
  assumes "lo \<le> target" "target \<le> hi" "hi < length e" "narrowed e lo hi"
  shows "\<exists>e'. qs_loop target e lo hi = Inr e' \<and> mset e' = mset e \<and> separated e' target"
  using assms
proof (induction target e lo hi rule: qs_loop.induct)
  case (1 target e lo hi)
  show ?case
  proof (cases "lo < hi")
    case False
    with "1.prems"(1,2) have eq: "lo = target" "hi = target" by auto
    have "key (e ! j) \<le> key (e ! i)" if "i \<le> target" "target \<le> j" "j < length e" for i j
      using that "1.prems"(4) eq by (cases "i = target"; cases "j = target") (auto simp: narrowed_def)
    then have "separated e target" by (simp add: separated_def)
    with False show ?thesis by (simp add: qs_loop.simps)
  next
    case True
    with "1.prems"(3) obtain e' p where part: "partitionDesc e lo hi = Inr (e', p)"
      and r: "rearranged lo hi e e'" and p: "lo \<le> p" "p \<le> hi"
      and left: "\<And>i. lo \<le> i \<Longrightarrow> i \<le> p \<Longrightarrow> key (e' ! p) \<le> key (e' ! i)"
      and right: "\<And>i. p < i \<Longrightarrow> i \<le> hi \<Longrightarrow> key (e' ! i) < key (e' ! p)"
      using partitionDesc_ok [of lo hi e] by auto
    have len: "length e' = length e" using r by (rule rearranged_length)
    have n: "narrowed e' lo hi"
      using narrowed_rearranged "1.prems" r True by auto
    note sep = pivot_separates [OF n left right p]
    consider "p = target" | "p < target" | "target < p" by arith
    then show ?thesis
    proof cases
      case 1
      with sep have "separated e' target" by (simp add: separated_def)
      with 1 True part r show ?thesis by (simp add: qs_loop.simps [of target e] rearranged_mset)
    next
      case 2
      have "narrowed e' (p + 1) hi"
        unfolding narrowed_def using n sep by (auto simp: narrowed_def)
      then obtain e'' where "qs_loop target e' (p + 1) hi = Inr e''"
        and "mset e'' = mset e'" "separated e'' target"
        using "1.IH"(1) [OF True part] 2 "1.prems" len by auto
      with 2 True part r show ?thesis by (simp add: qs_loop.simps [of target e] rearranged_mset)
    next
      case 3
      have "narrowed e' lo (p - 1)"
        unfolding narrowed_def using n sep 3 by (auto simp: narrowed_def)
      moreover have "target \<le> p - 1" "p - 1 < length e'" using 3 p "1.prems"(3) len by auto
      ultimately obtain e'' where "qs_loop target e' lo (p - 1) = Inr e''"
        and "mset e'' = mset e'" "separated e'' target"
        using "1.IH"(2) [OF True part refl] 3 "1.prems"(1) by auto
      with 3 True part r show ?thesis by (simp add: qs_loop.simps [of target e] rearranged_mset)
    qed
  qed
qed

text \<open>The whole slice: the loop as \<^verbatim>\<open>quickselectTopK\<close> starts it.\<close>

lemma qs_loop_all:
  assumes "t < length e"
  shows "\<exists>e'. qs_loop t e 0 (length e - 1) = Inr e' \<and> mset e' = mset e \<and> separated e' t"
proof -
  have "t \<le> length e - 1" "length e - 1 < length e" using assms by auto
  moreover have "narrowed e 0 (length e - 1)" by (auto simp: narrowed_def)
  ultimately show ?thesis by (intro qs_loop_ok) auto
qed

section \<open>What is selected\<close>

text \<open>
  The specification: \<open>ys\<close> are entries of \<open>xs\<close> (each at most as often as it occurs
  there), and their scores are the first \<open>k\<close> of all scores in descending order.  The
  entries of equal score at the boundary are not determined, and neither is their order.
\<close>

definition top_k :: "nat \<Rightarrow> score_entry list \<Rightarrow> score_entry list \<Rightarrow> bool" where
  "top_k k xs ys \<longleftrightarrow> mset ys \<subseteq># mset xs \<and> map key ys = take k (rev (sort (map key xs)))"

lemma top_k_length: "top_k k xs ys \<Longrightarrow> length ys = min k (length xs)"
proof -
  assume "top_k k xs ys"
  then have "length (map key ys) = length (take k (rev (sort (map key xs))))"
    by (simp only: top_k_def)
  then show ?thesis by simp
qed

lemma top_k_set: "top_k k xs ys \<Longrightarrow> set ys \<subseteq> set xs"
  unfolding top_k_def by (metis set_mset_mono set_mset_mset)

lemma top_k_sorted: "top_k k xs ys \<Longrightarrow> sorted_wrt (\<lambda>x y. y \<le> x) (map key ys)"
  by (simp add: top_k_def sorted_wrt_take sorted_wrt_rev)

text \<open>The scores are determined, and with distinct scores the entries are.\<close>

lemma top_k_scores: "top_k k xs ys \<Longrightarrow> top_k k xs zs \<Longrightarrow> map key ys = map key zs"
  by (simp add: top_k_def)

lemma top_k_unique:
  assumes "distinct (map key xs)" and "top_k k xs ys" and "top_k k xs zs"
  shows "ys = zs"
proof (rule map_inj_on)
  show "map key ys = map key zs" using assms(2,3) by (rule top_k_scores)
  have "inj_on key (set xs)" using assms(1) by (simp add: distinct_map)
  then show "inj_on key (set ys \<union> set zs)"
    using top_k_set [OF assms(2)] top_k_set [OF assms(3)] by (meson Un_least inj_on_subset)
qed

lemma top_kI:
  assumes perm: "mset e = mset xs" and split: "\<forall>x\<in>set (take k e). \<forall>y\<in>set (drop k e). key y \<le> key x"
    and ys: "mset ys = mset (take k e)" and desc: "sorted_wrt (\<lambda>x y. key y \<le> key x) ys"
  shows "top_k k xs ys"
proof -
  let ?zs = "rev (sort (map key (drop k e)))"
  have "mset ys + mset (drop k e) = mset xs"
    using perm ys by (metis append_take_drop_id mset_append)
  then have "image_mset key (mset ys + mset (drop k e)) = image_mset key (mset xs)"
    by simp
  then have "mset (map key ys @ ?zs) = mset (map key xs)"
    by simp
  moreover have "sorted_wrt (\<lambda>x y. y \<le> x) (map key ys @ ?zs)"
    using desc split ys [THEN mset_eq_setD]
    by (auto simp: sorted_wrt_append sorted_wrt_map sorted_wrt_rev)
  ultimately have "mset (rev (map key ys @ ?zs)) = mset (map key xs)"
    and "sorted (rev (map key ys @ ?zs))"
    by (simp_all only: mset_rev sorted_wrt_rev)
  then have "sort (map key xs) = rev (map key ys @ ?zs)"
    by (rule properties_for_sort)
  then have *: "rev (sort (map key xs)) = map key ys @ ?zs" by simp
  have len: "length ys = min k (length e)" using ys by (metis length_take min.commute size_mset)
  have "take k (map key ys @ ?zs) = map key ys"
  proof (cases "k \<le> length e")
    case True
    with len show ?thesis by simp
  next
    case False
    with len show ?thesis by simp
  qed
  moreover have "mset ys \<subseteq># mset xs"
    using \<open>mset ys + mset (drop k e) = mset xs\<close> by (metis mset_subset_eq_add_left)
  ultimately show ?thesis by (simp add: top_k_def *)
qed

lemma strict_weak_score [simp]: "strict_weak score_greater"
  by (auto simp: strict_weak_def score_greater_def)

lemma sort_prefix_ok:
  assumes "sort_contract rt" and "k \<le> length e"
  shows "\<exists>ys. sort_prefix rt e k = Inr (ys @ drop k e) \<and> mset ys = mset (take k e) \<and>
           sorted_wrt (\<lambda>x y. key y \<le> key x) ys"
proof -
  let ?ys = "sort_Slice rt score_greater (take k e)"
  from assms(1) have ys: "mset ?ys = mset (take k e)"
    "sorted_wrt (\<lambda>x y. \<not> score_greater y x) ?ys"
    by (simp_all add: sort_contract_def)
  then have "length ?ys = k" using assms(2) by (metis length_take min_absorb2 size_mset)
  then have "sort_prefix rt e k = Inr (?ys @ drop k e)"
    using assms(2) by (simp add: sort_prefix_def go_simps write_view_def)
  moreover have "sorted_wrt (\<lambda>x y. key y \<le> key x) ?ys"
    using ys(2) by (simp add: score_greater_def not_less)
  ultimately show ?thesis using ys(1) by blast
qed

text \<open>
  The interface between the selection and its caller: the entries are permuted so that
  the first \<open>k\<close> are not beaten by any of the rest.
\<close>

locale top_k_select =
  fixes select :: "score_entry list \<Rightarrow> nat \<Rightarrow> score_entry list go"
  assumes select_ok: "0 < k \<Longrightarrow> k \<le> length e \<Longrightarrow>
    \<exists>e'. select e k = Inr e' \<and> mset e' = mset e \<and>
      (\<forall>x\<in>set (take k e'). \<forall>y\<in>set (drop k e'). key y \<le> key x)"
begin

lemma select_then_sort:
  assumes rt: "sort_contract rt" and k: "0 < k" "k \<le> length e"
  shows "\<exists>e' e''. select e k = Inr e' \<and> length e' = length e \<and> sort_prefix rt e' k = Inr e'' \<and>
           mset e'' = mset e \<and> top_k k e (take k e'')"
proof -
  obtain e' where e': "select e k = Inr e'" "mset e' = mset e"
    and split: "\<forall>x\<in>set (take k e'). \<forall>y\<in>set (drop k e'). key y \<le> key x"
    using select_ok k by blast
  have len: "length e' = length e" using e'(2) by (metis size_mset)
  obtain ys where ys: "sort_prefix rt e' k = Inr (ys @ drop k e')" "mset ys = mset (take k e')"
    and desc: "sorted_wrt (\<lambda>x y. key y \<le> key x) ys"
    using sort_prefix_ok [OF rt, of k e'] k len by auto
  have "length ys = k" using ys(2) k len by (metis length_take min_absorb2 size_mset)
  then have "take k (ys @ drop k e') = ys" by simp
  moreover have "mset (ys @ drop k e') = mset e"
    using ys(2) e'(2) by (metis append_take_drop_id mset_append)
  moreover have "top_k k e ys" using top_kI e'(2) split ys(2) desc by blast
  ultimately show ?thesis using e'(1) ys(1) len by metis
qed

end

text \<open>The selecting part of the pure \<^verbatim>\<open>quickselectTopK\<close>, and the cgo function as it is.\<close>

definition pure_select :: "score_entry list \<Rightarrow> nat \<Rightarrow> score_entry list go" where
  "pure_select e k = (if length e \<le> k then Inr e else qs_loop (k - 1) e 0 (length e - 1))"

lemma separated_split:
  assumes "separated e t" and "k = t \<or> k = Suc t" and "x \<in> set (take k e)" and "y \<in> set (drop k e)"
  shows "key y \<le> key x"
proof -
  obtain i where "i < k" "i < length e" "x = e ! i"
    using assms(3) by (auto simp: in_set_conv_nth)
  moreover obtain j where "k \<le> j" "j < length e" "y = e ! j"
    using assms(4) by (auto simp: in_set_conv_nth) (metis add.commute le_add1 less_diff_conv)
  ultimately show ?thesis using assms(1,2) by (auto simp: separated_def)
qed

interpretation pure_sel: top_k_select pure_select
proof (unfold_locales, goal_cases)
  case (1 k e)
  show ?case
  proof (cases "length e \<le> k")
    case False
    then have "k - 1 < length e" by simp
    then obtain e' where "qs_loop (k - 1) e 0 (length e - 1) = Inr e'" "mset e' = mset e"
      and "separated e' (k - 1)"
      using qs_loop_all by blast
    with False 1 show ?thesis
      using separated_split [of e' "k - 1" k] by (auto simp: pure_select_def)
  qed (simp add: pure_select_def)
qed

interpretation cgo_sel: top_k_select "\<lambda>e k. cgo_quickselectTopK e (int k)"
proof (unfold_locales, goal_cases)
  case (1 k e)
  show ?case
  proof (cases "length e \<le> k")
    case False
    with 1 obtain e' where "qs_loop k e 0 (length e - 1) = Inr e'" "mset e' = mset e"
      and "separated e' k"
      using qs_loop_all [of k e] by auto
    with False 1 show ?thesis
      using separated_split [of e' k k] by (auto simp: cgo_quickselectTopK_def)
  qed (use 1 in \<open>auto simp: cgo_quickselectTopK_def\<close>)
qed

section \<open>Copying the result\<close>

lemma copy_ids_ok:
  assumes "k \<le> length dst" and "k \<le> length e"
  shows "copy_ids dst e k = Inr (map orderID (take k e) @ drop k dst)"
proof -
  let ?g = "\<lambda>i d. gbind (go_index e i) (\<lambda>x. go_update d i (orderID x))"
  let ?P = "\<lambda>i d. d = map orderID (take i e) @ drop i dst"
  have step: "\<exists>d'. ?g i d = Inr d' \<and> ?P (Suc i) d'" if "i < k" "?P i d" for i d
  proof -
    from that assms have "i < length d" "i < length e" by auto
    moreover have "d[i := orderID (e ! i)] = map orderID (take (Suc i) e) @ drop (Suc i) dst"
      using that assms
      by (simp add: list_update_append take_Suc_conv_app_nth Cons_nth_drop_Suc [symmetric])
    ultimately show ?thesis by (simp add: go_simps)
  qed
  obtain d where "gfold ?g [0..<k] dst = Inr d" "?P k d"
    using gfold_upt_inv [of ?P 0 dst k ?g] step by auto
  then show ?thesis by (simp add: copy_ids_def)
qed

text \<open>
  The contract of \<^verbatim>\<open>quickselectAndCopy\<close>, the same for both implementations: it never
  faults on an output slice of \<^verbatim>\<open>TopK\<close> slots, it only permutes the scratch slice, and
  the output starts with the IDs of the best entries.
\<close>

definition select_and_copy_ok ::
  "workload \<Rightarrow> i32 list \<Rightarrow> score_entry list \<Rightarrow> (i32 list \<times> score_entry list) go \<Rightarrow> bool" where
  "select_and_copy_ok w dst xs r \<longleftrightarrow>
     (\<exists>ys e. r = Inr (map orderID ys @ drop (length ys) dst, e) \<and> mset e = mset xs \<and>
        top_k (TopK w) xs ys)"

lemma select_and_copy_okI:
  assumes "mset e = mset xs" and "k = min (length xs) (TopK w)" and "top_k k xs (take k e)"
    and "r = gbind (copy_ids dst e k) (\<lambda>d. Inr (d, e))" and "TopK w \<le> length dst"
  shows "select_and_copy_ok w dst xs r"
proof -
  have "length e = length xs" using assms(1) by (metis size_mset)
  then have len: "k \<le> length e" "length (take k e) = k" using assms(2) by auto
  have "top_k (TopK w) xs (take k e)"
    using assms(2,3) by (auto simp: top_k_def min_def split: if_splits)
  moreover have "r = Inr (map orderID (take k e) @ drop (length (take k e)) dst, e)"
    using assms(2,4,5) len copy_ids_ok [of k dst e] by simp
  ultimately show ?thesis unfolding select_and_copy_ok_def using assms(1) by blast
qed

lemma quickselectTopK_select:
  assumes "0 < k"
  shows "quickselectTopK rt e (int k) =
           (if length e \<le> k then Inr e
            else gbind (pure_select e k) (\<lambda>e'. sort_prefix rt e' k))"
  using assms by (simp add: quickselectTopK_def pure_select_def)

lemma select_and_copy_zero:
  "min (length xs) (TopK w) = 0 \<Longrightarrow> select_and_copy_ok w dst xs (Inr (dst, xs))"
  by (auto simp: select_and_copy_ok_def top_k_def min_def split: if_splits intro!: exI [of _ "[]"])

lemma quickselectAndCopy_ok:
  assumes rt: "sort_contract rt" and dst: "TopK w \<le> length dst"
  shows "select_and_copy_ok w dst xs (quickselectAndCopy rt w dst xs)"
proof -
  define k where "k = min (length xs) (TopK w)"
  show ?thesis
  proof (cases "k = 0")
    case True
    then show ?thesis using select_and_copy_zero by (simp add: quickselectAndCopy_def k_def)
  next
    case False
    then have k: "0 < k" "k \<le> length xs" by (simp_all add: k_def)
    then obtain e' e'' where e: "pure_select xs k = Inr e'" "length e' = length xs"
      "sort_prefix rt e' k = Inr e''" "mset e'' = mset xs" "top_k k xs (take k e'')"
      using pure_sel.select_then_sort [OF rt] by blast
    then have "length e'' = length xs" by (metis size_mset)
    then have "quickselectAndCopy rt w dst xs = gbind (copy_ids dst e'' k) (\<lambda>d. Inr (d, e''))"
      using k e False
      by (auto simp: quickselectAndCopy_def Let_def quickselectTopK_select pure_select_def
          simp flip: k_def)
    with e dst show ?thesis using select_and_copy_okI k_def by blast
  qed
qed

lemma cgo_quickselectAndCopy_ok:
  assumes rt: "sort_contract rt" and dst: "TopK w \<le> length dst"
  shows "select_and_copy_ok w dst xs (cgo_quickselectAndCopy rt w dst xs)"
proof -
  define k where "k = min (length xs) (TopK w)"
  show ?thesis
  proof (cases "k = 0")
    case True
    then show ?thesis using select_and_copy_zero by (simp add: cgo_quickselectAndCopy_def k_def)
  next
    case False
    then have k: "0 < k" "k \<le> length xs" by (simp_all add: k_def)
    then obtain e' e'' where e: "cgo_quickselectTopK xs (int k) = Inr e'"
      "sort_prefix rt e' k = Inr e''" "mset e'' = mset xs" "top_k k xs (take k e'')"
      using cgo_sel.select_then_sort [OF rt] by blast
    then have "cgo_quickselectAndCopy rt w dst xs = gbind (copy_ids dst e'' k) (\<lambda>d. Inr (d, e''))"
      using False by (simp add: cgo_quickselectAndCopy_def Let_def flip: k_def)
    with e dst show ?thesis using select_and_copy_okI k_def by blast
  qed
qed

end
