(* ===== verification/Rank_Pool.thy ===== *)
theory Rank_Pool
  imports Quickselect Read_Buffer Worker_Pool
begin

text \<open>
  The part of phase 2 (\<^verbatim>\<open>phase2Rank\<close> of \<^verbatim>\<open>compute.go\<close>) that the two
  implementations share: a goroutine takes the pairs of its range one after the other, fills
  its four scratch slices for the pair, and copies the best of each into the pair's four
  lists of the new buffer.  How the slices are filled differs and is a parameter (\<open>fill\<close>),
  as is the selection; the interface \<open>pair_ranking\<close> states what the two owe to the ranking.
\<close>

section \<open>The code\<close>

text \<open>\<^verbatim>\<open>quickselectAndCopy(buf.ListMut(p, t), xs)\<close>: the list is a view of the buffer.\<close>

definition rank_table ::
  "(i32 list \<Rightarrow> score_entry list \<Rightarrow> (i32 list \<times> score_entry list) go) \<Rightarrow> workload \<Rightarrow> nat \<Rightarrow> nat \<Rightarrow>
     score_entry list \<Rightarrow> read_buffer \<Rightarrow> (score_entry list \<times> read_buffer) go" where
  "rank_table select w p t xs buf =
     gbind (ListMut w buf p t) (\<lambda>dst. gbind (select dst xs) (\<lambda>(dst', xs').
       Inr (xs', put_list w buf p t dst')))"

definition rank_tables ::
  "(i32 list \<Rightarrow> score_entry list \<Rightarrow> (i32 list \<times> score_entry list) go) \<Rightarrow> workload \<Rightarrow> nat \<Rightarrow>
     worker_scratch \<Rightarrow> read_buffer \<Rightarrow> (worker_scratch \<times> read_buffer) go" where
  "rank_tables select w p sc buf =
     gbind (rank_table select w p TblHeuristic (heuristic sc) buf) (\<lambda>(h, buf1).
     gbind (rank_table select w p TblLarge (large sc) buf1) (\<lambda>(l, buf2).
     gbind (rank_table select w p TblPBT (pbt sc) buf2) (\<lambda>(d, buf3).
     gbind (rank_table select w p TblCritical (critical sc) buf3) (\<lambda>(c, buf4).
       Inr (\<lparr>heuristic = h, large = l, pbt = d, critical = c\<rparr>, buf4)))))"

text \<open>
  One iteration of a goroutine's loop: worker \<open>v\<close>, pair \<open>p\<close>.  \<open>fill\<close> returns \<open>None\<close> where
  the code continues with the next pair.
\<close>

definition rank_job ::
  "(nat \<Rightarrow> worker_scratch \<Rightarrow> worker_scratch option go) \<Rightarrow>
   (i32 list \<Rightarrow> score_entry list \<Rightarrow> (i32 list \<times> score_entry list) go) \<Rightarrow> workload \<Rightarrow>
     nat \<times> nat \<Rightarrow> worker_scratch list \<times> read_buffer \<Rightarrow> (worker_scratch list \<times> read_buffer) go" where
  "rank_job fill select w vp s =
     (case (vp, s) of ((v, p), (bank, buf)) \<Rightarrow>
        gbind (go_index bank v) (\<lambda>sc. gbind (fill p sc) (\<lambda>r.
          case r of None \<Rightarrow> Inr (bank, buf)
          | Some sc' \<Rightarrow> gbind (rank_tables select w p sc' buf) (\<lambda>(sc'', buf').
              Inr (bank[v := sc''], buf')))))"

section \<open>What a job does\<close>

definition tbl :: "worker_scratch \<Rightarrow> nat \<Rightarrow> score_entry list" where
  "tbl sc t = (if t = TblHeuristic then heuristic sc else if t = TblLarge then large sc
               else if t = TblPBT then pbt sc else critical sc)"

text \<open>The new contents of a list, and of the scratch slices, from the list's old contents.\<close>

definition slot_of ::
  "(i32 list \<Rightarrow> score_entry list \<Rightarrow> (i32 list \<times> score_entry list) go) \<Rightarrow>
     i32 list \<Rightarrow> score_entry list \<Rightarrow> i32 list" where
  "slot_of select old xs = (case select old xs of Inr (dst, ys) \<Rightarrow> dst | Inl _ \<Rightarrow> old)"

definition slot_after ::
  "(i32 list \<Rightarrow> score_entry list \<Rightarrow> (i32 list \<times> score_entry list) go) \<Rightarrow>
     worker_scratch option \<Rightarrow> nat \<Rightarrow> i32 list \<Rightarrow> i32 list" where
  "slot_after select tabs t old =
     (case tabs of None \<Rightarrow> old | Some sc \<Rightarrow> slot_of select old (tbl sc t))"

definition table_after ::
  "(i32 list \<Rightarrow> score_entry list \<Rightarrow> (i32 list \<times> score_entry list) go) \<Rightarrow>
     i32 list \<Rightarrow> score_entry list \<Rightarrow> score_entry list" where
  "table_after select old xs = (case select old xs of Inr (dst, ys) \<Rightarrow> ys | Inl _ \<Rightarrow> xs)"

definition scratch_after ::
  "(i32 list \<Rightarrow> score_entry list \<Rightarrow> (i32 list \<times> score_entry list) go) \<Rightarrow>
     worker_scratch option \<Rightarrow> (nat \<Rightarrow> i32 list) \<Rightarrow> worker_scratch \<Rightarrow> worker_scratch" where
  "scratch_after select tabs olds sc =
     (case tabs of None \<Rightarrow> sc
      | Some s \<Rightarrow> \<lparr>heuristic = table_after select (olds TblHeuristic) (heuristic s),
                   large = table_after select (olds TblLarge) (large s),
                   pbt = table_after select (olds TblPBT) (pbt s),
                   critical = table_after select (olds TblCritical) (critical s)\<rparr>)"

text \<open>Buffers are equal when their lists are.\<close>

lemma flat_slot:
  assumes "i < n * NumTables * TopK w"
  shows "\<exists>p t j. p < n \<and> t < NumTables \<and> j < TopK w \<and> i = listOffset w p t + j"
proof -
  let ?K = "TopK w"
  have K: "0 < ?K" using assms by (cases "?K = 0") auto
  define s where "s = i div ?K"
  have s: "s < n * NumTables" using assms by (simp add: s_def less_mult_imp_div_less)
  then have "s div NumTables < n" by (simp add: less_mult_imp_div_less)
  moreover have "s mod NumTables < NumTables" by (simp add: NumTables_def)
  moreover have "i = (s div NumTables * NumTables + s mod NumTables) * ?K + i mod ?K"
    by (simp add: s_def)
  moreover have "i mod ?K < ?K" using K by simp
  ultimately show ?thesis unfolding listOffset_def by blast
qed

lemma rb_eqI:
  assumes "rb_wf w b" and "rb_wf w b'" and "NumPairs b' = NumPairs b"
    and "\<And>p t. p < NumPairs b \<Longrightarrow> t < NumTables \<Longrightarrow> rb_list w b' p t = rb_list w b p t"
  shows "b' = (b :: read_buffer)"
proof -
  have "rbData b' = rbData b"
  proof (rule nth_equalityI)
    fix i assume "i < length (rbData b')"
    then have "i < NumPairs b * NumTables * TopK w" using assms(2,3) by (simp add: rb_wf_def)
    then obtain p t j where i: "p < NumPairs b" "t < NumTables" "j < TopK w" "i = listOffset w p t + j"
      using flat_slot by blast
    have "listOffset w p t + TopK w \<le> NumPairs b * NumTables * TopK w"
      by (rule slot_in_range [OF i(1,2)])
    then have "rb_list w x p t ! j = rbData x ! i" if "rb_wf w x" "NumPairs x = NumPairs b" for x
      using that i(3,4) by (simp add: rb_list_def rb_wf_def)
    with assms i show "rbData b' ! i = rbData b ! i" by metis
  qed (use assms in \<open>simp add: rb_wf_def\<close>)
  with assms(3) show ?thesis by simp
qed

lemma rank_table_ok:
  assumes sel: "\<And>dst xs. TopK w \<le> length dst \<Longrightarrow> select_and_copy_ok w dst xs (select dst xs)"
    and b: "rb_wf w buf" "p < NumPairs buf" "t < NumTables"
  shows "\<exists>buf'. rank_table select w p t xs buf = Inr (table_after select (rb_list w buf p t) xs, buf') \<and>
           rb_wf w buf' \<and> NumPairs buf' = NumPairs buf \<and>
           (\<forall>p' t'. t' < NumTables \<longrightarrow> rb_list w buf' p' t' =
              (if (p', t') = (p, t) then slot_of select (rb_list w buf p t) xs
               else rb_list w buf p' t'))"
proof -
  let ?old = "rb_list w buf p t"
  have len: "length ?old = TopK w" using length_rb_list [OF b] .
  then obtain ys e where r: "select ?old xs = Inr (map orderID ys @ drop (length ys) ?old, e)"
    and k: "top_k (TopK w) xs ys"
    using sel [of ?old xs] by (auto simp: select_and_copy_ok_def)
  let ?new = "map orderID ys @ drop (length ys) ?old"
  have new: "length ?new = TopK w" using len top_k_length [OF k] by simp
  have "rank_table select w p t xs buf = Inr (table_after select ?old xs, put_list w buf p t ?new)"
    using r by (simp add: rank_table_def ListMut_ok [OF b] table_after_def)
  then show ?thesis
    using rb_wf_put_list [OF b new] rb_list_put_same [OF b new] rb_list_put_other [OF b new] r
    by (auto simp: slot_of_def)
qed

lemma rank_tables_ok:
  assumes sel: "\<And>dst xs. TopK w \<le> length dst \<Longrightarrow> select_and_copy_ok w dst xs (select dst xs)"
    and b: "rb_wf w buf" "p < NumPairs buf"
  shows "\<exists>buf'. rank_tables select w p s buf = Inr (scratch_after select (Some s) (rb_list w buf p) sc, buf') \<and>
           rb_wf w buf' \<and> NumPairs buf' = NumPairs buf \<and>
           (\<forall>p' t. t < NumTables \<longrightarrow> rb_list w buf' p' t =
              (if p' = p then slot_after select (Some s) t (rb_list w buf p t) else rb_list w buf p' t))"
proof -
  have T: "TblHeuristic < NumTables" "TblLarge < NumTables" "TblPBT < NumTables"
    "TblCritical < NumTables" by (simp_all add: table_defs)
  have D: "TblHeuristic \<noteq> TblLarge" "TblHeuristic \<noteq> TblPBT" "TblHeuristic \<noteq> TblCritical"
    "TblLarge \<noteq> TblPBT" "TblLarge \<noteq> TblCritical" "TblPBT \<noteq> TblCritical"
    by (simp_all add: table_defs)
  note step = rank_table_ok [of w select, OF sel]
  let ?old = "rb_list w buf p"
  obtain b1 where 1: "rank_table select w p TblHeuristic (heuristic s) buf =
      Inr (table_after select (?old TblHeuristic) (heuristic s), b1)" "rb_wf w b1" "NumPairs b1 = NumPairs buf"
    and l1: "\<forall>p' t'. t' < NumTables \<longrightarrow> rb_list w b1 p' t' = (if (p', t') = (p, TblHeuristic)
        then slot_of select (?old TblHeuristic) (heuristic s)
        else rb_list w buf p' t')"
    using step [OF _ b(1) b(2) T(1)] by blast
  have o1: "rb_list w b1 p TblLarge = ?old TblLarge" using l1 T D by simp
  obtain b2 where 2: "rank_table select w p TblLarge (large s) b1 =
      Inr (table_after select (?old TblLarge) (large s), b2)" "rb_wf w b2" "NumPairs b2 = NumPairs buf"
    and l2: "\<forall>p' t'. t' < NumTables \<longrightarrow> rb_list w b2 p' t' = (if (p', t') = (p, TblLarge)
        then slot_of select (?old TblLarge) (large s)
        else rb_list w b1 p' t')"
    using step [OF _ 1(2) _ T(2), of p "large s"] b(2) 1(3) o1 by auto
  have o2: "rb_list w b2 p TblPBT = ?old TblPBT" using l1 l2 T D by simp
  obtain b3 where 3: "rank_table select w p TblPBT (pbt s) b2 =
      Inr (table_after select (?old TblPBT) (pbt s), b3)" "rb_wf w b3" "NumPairs b3 = NumPairs buf"
    and l3: "\<forall>p' t'. t' < NumTables \<longrightarrow> rb_list w b3 p' t' = (if (p', t') = (p, TblPBT)
        then slot_of select (?old TblPBT) (pbt s)
        else rb_list w b2 p' t')"
    using step [OF _ 2(2) _ T(3), of p "pbt s"] b(2) 2(3) o2 by auto
  have o3: "rb_list w b3 p TblCritical = ?old TblCritical" using l1 l2 l3 T D by simp
  obtain b4 where 4: "rank_table select w p TblCritical (critical s) b3 =
      Inr (table_after select (?old TblCritical) (critical s), b4)" "rb_wf w b4" "NumPairs b4 = NumPairs buf"
    and l4: "\<forall>p' t'. t' < NumTables \<longrightarrow> rb_list w b4 p' t' = (if (p', t') = (p, TblCritical)
        then slot_of select (?old TblCritical) (critical s)
        else rb_list w b3 p' t')"
    using step [OF _ 3(2) _ T(4), of p "critical s"] b(2) 3(3) o3 by auto
  have "rb_list w b4 p' t =
      (if p' = p then slot_after select (Some s) t (rb_list w buf p t) else rb_list w buf p' t)"
    if t: "t < NumTables" for p' t
  proof -
    have "t = TblHeuristic \<or> t = TblLarge \<or> t = TblPBT \<or> t = TblCritical"
      using t by (auto simp: table_defs)
    then show ?thesis
      using l1 l2 l3 l4 t D by (elim disjE) (simp_all add: slot_after_def tbl_def)
  qed
  with 1 2 3 4 show ?thesis
    by (simp add: rank_tables_def scratch_after_def)
qed

section \<open>The interface\<close>

text \<open>
  What a list holds after the phase: nothing for a pair that was skipped, otherwise the IDs
  of the best entries, best first, and \<open>-1\<close> in the slots that are left.
\<close>

definition ranked_slot :: "workload \<Rightarrow> worker_scratch option \<Rightarrow> nat \<Rightarrow> i32 list \<Rightarrow> bool" where
  "ranked_slot w tabs t xs \<longleftrightarrow>
     (case tabs of None \<Rightarrow> xs = replicate (TopK w) (-1)
      | Some sc \<Rightarrow> \<exists>ys. top_k (TopK w) (tbl sc t) ys \<and>
                    xs = map orderID ys @ replicate (TopK w - length ys) (-1))"

definition ranked_buffer ::
  "workload \<Rightarrow> nat \<Rightarrow> (nat \<Rightarrow> worker_scratch option) \<Rightarrow> read_buffer \<Rightarrow> bool" where
  "ranked_buffer w n tables buf \<longleftrightarrow>
     rb_wf w buf \<and> NumPairs buf = n \<and>
     (\<forall>p < n. \<forall>t < NumTables. ranked_slot w (tables p) t (rb_list w buf p t))"

text \<open>
  \<open>c\<close> is what the workers only read (the engine, the time); \<open>tables c p\<close> is what the
  scratch slices must hold for pair \<open>p\<close>, whatever an earlier pair left in them.
\<close>

locale pair_ranking =
  fixes w :: workload
    and fill :: "'c \<Rightarrow> nat \<Rightarrow> worker_scratch \<Rightarrow> worker_scratch option go"
    and select :: "'c \<Rightarrow> i32 list \<Rightarrow> score_entry list \<Rightarrow> (i32 list \<times> score_entry list) go"
    and tables :: "'c \<Rightarrow> nat \<Rightarrow> worker_scratch option"
    and ok :: "'c \<Rightarrow> bool"
    and pairs :: "'c \<Rightarrow> nat"
  assumes fill_ok: "ok c \<Longrightarrow> p < pairs c \<Longrightarrow> fill c p sc = Inr (tables c p)"
    and select_ok: "ok c \<Longrightarrow> TopK w \<le> length dst \<Longrightarrow>
      select_and_copy_ok w dst xs (select c dst xs)"
begin

lemma job_effect:
  assumes c: "ok c" and p: "p < pairs c" and v: "v < length bank"
    and b: "rb_wf w buf" "NumPairs buf = pairs c"
  shows "\<exists>buf'. rank_job (fill c) (select c) w (v, p) (bank, buf) =
             Inr (bank[v := scratch_after (select c) (tables c p) (rb_list w buf p) (bank ! v)], buf') \<and>
           rb_wf w buf' \<and> NumPairs buf' = pairs c \<and>
           (\<forall>p' t. t < NumTables \<longrightarrow> rb_list w buf' p' t =
              (if p' = p then slot_after (select c) (tables c p) t (rb_list w buf p t)
               else rb_list w buf p' t))"
proof (cases "tables c p")
  case None
  then show ?thesis using assms
    by (simp add: rank_job_def go_simps fill_ok scratch_after_def slot_after_def)
next
  case (Some s)
  obtain buf' where "rank_tables (select c) w p s buf =
      Inr (scratch_after (select c) (Some s) (rb_list w buf p) (bank ! v), buf')"
    "rb_wf w buf'" "NumPairs buf' = NumPairs buf"
    "\<forall>p' t. t < NumTables \<longrightarrow> rb_list w buf' p' t =
       (if p' = p then slot_after (select c) (Some s) t (rb_list w buf p t) else rb_list w buf p' t)"
    using rank_tables_ok [of w "select c" buf p s "bank ! v"] select_ok [OF c] b p by auto
  with Some assms show ?thesis by (simp add: rank_job_def go_simps fill_ok)
qed

lemma jobs_commute:
  assumes c: "ok c" and p: "p < pairs c" "p' < pairs c" "p \<noteq> p'"
    and v: "v < length bank" "v' < length bank" "v \<noteq> v'"
    and b: "rb_wf w buf" "NumPairs buf = pairs c"
  shows "gbind (rank_job (fill c) (select c) w (v, p) (bank, buf))
             (rank_job (fill c) (select c) w (v', p')) =
         gbind (rank_job (fill c) (select c) w (v', p') (bank, buf))
             (rank_job (fill c) (select c) w (v, p))"
proof -
  let ?S = "\<lambda>q buf. scratch_after (select c) (tables c q) (rb_list w buf q)"
  let ?L = "\<lambda>q t buf. slot_after (select c) (tables c q) t (rb_list w buf q t)"
  obtain b1 where 1: "rank_job (fill c) (select c) w (v, p) (bank, buf) = Inr (bank[v := ?S p buf (bank ! v)], b1)"
    "rb_wf w b1" "NumPairs b1 = pairs c"
    and l1: "\<forall>q t. t < NumTables \<longrightarrow> rb_list w b1 q t = (if q = p then ?L p t buf else rb_list w buf q t)"
    using job_effect [OF c p(1) v(1) b] by blast
  obtain b2 where 2: "rank_job (fill c) (select c) w (v', p') (bank, buf) = Inr (bank[v' := ?S p' buf (bank ! v')], b2)"
    "rb_wf w b2" "NumPairs b2 = pairs c"
    and l2: "\<forall>q t. t < NumTables \<longrightarrow> rb_list w b2 q t = (if q = p' then ?L p' t buf else rb_list w buf q t)"
    using job_effect [OF c p(2) v(2) b] by blast
  obtain b12 where 12: "rank_job (fill c) (select c) w (v', p') (bank[v := ?S p buf (bank ! v)], b1) =
      Inr (bank[v := ?S p buf (bank ! v), v' := ?S p' b1 (bank[v := ?S p buf (bank ! v)] ! v')], b12)"
    "rb_wf w b12" "NumPairs b12 = pairs c"
    and l12: "\<forall>q t. t < NumTables \<longrightarrow> rb_list w b12 q t = (if q = p' then ?L p' t b1 else rb_list w b1 q t)"
    using job_effect [OF c p(2) _ 1(2,3), of v' "bank[v := ?S p buf (bank ! v)]"] v by auto
  obtain b21 where 21: "rank_job (fill c) (select c) w (v, p) (bank[v' := ?S p' buf (bank ! v')], b2) =
      Inr (bank[v' := ?S p' buf (bank ! v'), v := ?S p b2 (bank[v' := ?S p' buf (bank ! v')] ! v)], b21)"
    "rb_wf w b21" "NumPairs b21 = pairs c"
    and l21: "\<forall>q t. t < NumTables \<longrightarrow> rb_list w b21 q t = (if q = p then ?L p t b2 else rb_list w b2 q t)"
    using job_effect [OF c p(1) _ 2(2,3), of v "bank[v' := ?S p' buf (bank ! v')]"] v by auto
  have T: "TblHeuristic < NumTables" "TblLarge < NumTables" "TblPBT < NumTables"
    "TblCritical < NumTables" by (simp_all add: table_defs)
  have s: "?S p' b1 x = ?S p' buf x" "?S p b2 x = ?S p buf x" for x
    using l1 l2 p(3) T by (simp_all add: scratch_after_def split: option.split)
  have "b21 = b12"
    using l1 l2 l12 l21 p(3) 12(2,3) 21(2,3) by (intro rb_eqI [of w]) auto
  with s v show ?thesis
    by (simp add: 1(1) 2(1) 12(1) 21(1) list_update_swap)
qed

text \<open>A selection into an empty slot leaves it as specified.\<close>

lemma empty_slot_ranked:
  assumes c: "ok c"
  shows "ranked_slot w (tables c p) t (slot_after (select c) (tables c p) t (replicate (TopK w) (-1)))"
proof (cases "tables c p")
  case None
  then show ?thesis by (simp add: ranked_slot_def slot_after_def)
next
  case (Some s)
  obtain ys e where "select c (replicate (TopK w) (-1)) (tbl s t) =
      Inr (map orderID ys @ drop (length ys) (replicate (TopK w) (-1)), e)"
    "top_k (TopK w) (tbl s t) ys"
    using select_ok [OF c, of "replicate (TopK w) (-1)" "tbl s t"] by (auto simp: select_and_copy_ok_def)
  then show ?thesis using Some
    by (auto simp: ranked_slot_def slot_after_def slot_of_def intro!: exI [of _ ys])
qed

text \<open>The jobs of all pairs, each once: every list of the new buffer is as specified.\<close>

lemma all_pairs_ranked:
  assumes c: "ok c" and v: "\<forall>(v, p) \<in> set js. v < length bank \<and> p < pairs c"
    and d: "distinct (map snd js)" and b: "rb_wf w buf" "NumPairs buf = pairs c"
    and empty: "\<forall>p \<in> snd ` set js. \<forall>t < NumTables. rb_list w buf p t = replicate (TopK w) (-1)"
  shows "\<exists>bank' buf'. gfold (rank_job (fill c) (select c) w) js (bank, buf) = Inr (bank', buf') \<and>
           length bank' = length bank \<and> rb_wf w buf' \<and> NumPairs buf' = pairs c \<and>
           (\<forall>p t. t < NumTables \<longrightarrow>
              (if p \<in> snd ` set js then ranked_slot w (tables c p) t (rb_list w buf' p t)
               else rb_list w buf' p t = rb_list w buf p t))"
  using v d b empty
proof (induction js arbitrary: bank buf)
  case Nil
  then show ?case by simp
next
  case (Cons j js)
  obtain v p where j: "j = (v, p)" by (cases j)
  have vp: "v < length bank" "p < pairs c" using Cons.prems(1) by (auto simp: j)
  obtain bank1 b1 where 1: "rank_job (fill c) (select c) w (v, p) (bank, buf) = Inr (bank1, b1)"
    "length bank1 = length bank" "rb_wf w b1" "NumPairs b1 = pairs c"
    and l1: "\<forall>q t. t < NumTables \<longrightarrow> rb_list w b1 q t =
        (if q = p then slot_after (select c) (tables c p) t (rb_list w buf p t) else rb_list w buf q t)"
    using job_effect [OF c vp(2,1) Cons.prems(3,4)] by fastforce
  have p: "p \<notin> snd ` set js" using Cons.prems(2) by (simp add: j)
  have "rb_list w b1 q t = replicate (TopK w) (-1)" if "q \<in> snd ` set js" "t < NumTables" for q t
  proof -
    from that(1) p have "q \<noteq> p" by blast
    moreover from that Cons.prems(5) have "rb_list w buf q t = replicate (TopK w) (-1)" by auto
    ultimately show ?thesis using l1 that(2) by simp
  qed
  moreover have "\<forall>(v, p) \<in> set js. v < length bank1 \<and> p < pairs c" "distinct (map snd js)"
    using Cons.prems(1,2) 1(2) by auto
  ultimately have rest: "\<forall>(v, p) \<in> set js. v < length bank1 \<and> p < pairs c" "distinct (map snd js)"
    "\<forall>q \<in> snd ` set js. \<forall>t < NumTables. rb_list w b1 q t = replicate (TopK w) (-1)"
    by blast+
  obtain bank2 b2 where 2: "gfold (rank_job (fill c) (select c) w) js (bank1, b1) = Inr (bank2, b2)"
    "length bank2 = length bank" "rb_wf w b2" "NumPairs b2 = pairs c"
    and l2: "\<forall>q t. t < NumTables \<longrightarrow>
        (if q \<in> snd ` set js then ranked_slot w (tables c q) t (rb_list w b2 q t)
         else rb_list w b2 q t = rb_list w b1 q t)"
    using Cons.IH [of bank1 b1, OF rest(1,2) 1(3,4) rest(3)] 1(2) by auto
  have "ranked_slot w (tables c p) t (rb_list w b1 p t)" if t: "t < NumTables" for t
  proof -
    have "rb_list w buf p t = replicate (TopK w) (-1)" using Cons.prems(5) t by (simp add: j)
    then show ?thesis using l1 t empty_slot_ranked [OF c, of p t] by simp
  qed
  then have "\<forall>q t. t < NumTables \<longrightarrow>
      (if q \<in> snd ` set (j # js) then ranked_slot w (tables c q) t (rb_list w b2 q t)
       else rb_list w b2 q t = rb_list w buf q t)"
    using l1 l2 p by (auto simp: j split: if_splits)
  moreover have "gfold (rank_job (fill c) (select c) w) (j # js) (bank, buf) = Inr (bank2, b2)"
    using 1(1) 2(1) by (simp add: j)
  ultimately show ?case using 2 by blast
qed

lemma new_buffer_ranked:
  assumes c: "ok c" and js: "map snd js = [0..<pairs c]" "\<forall>(v, p) \<in> set js. v < length bank \<and> p < pairs c"
  shows "\<exists>bank' buf. gfold (rank_job (fill c) (select c) w) js (bank, NewReadBuffer w (pairs c)) =
             Inr (bank', buf) \<and> length bank' = length bank \<and>
           ranked_buffer w (pairs c) (tables c) buf"
proof -
  have snd: "snd ` set js = {0..<pairs c}" using js(1) by (metis list.set_map set_upt)
  then have empty: "\<forall>p \<in> snd ` set js. \<forall>t < NumTables.
      rb_list w (NewReadBuffer w (pairs c)) p t = replicate (TopK w) (-1)"
    using rb_list_New by simp
  have distinct: "distinct (map snd js)" by (simp add: js(1))
  obtain bank' buf where
    "gfold (rank_job (fill c) (select c) w) js (bank, NewReadBuffer w (pairs c)) = Inr (bank', buf)"
    "length bank' = length bank" "rb_wf w buf" "NumPairs buf = pairs c"
    "\<forall>p t. t < NumTables \<longrightarrow>
       (if p \<in> snd ` set js then ranked_slot w (tables c p) t (rb_list w buf p t)
        else rb_list w buf p t = rb_list w (NewReadBuffer w (pairs c)) p t)"
    using all_pairs_ranked [OF c js(2) distinct rb_wf_New NumPairs_New empty] by blast
  with snd show ?thesis by (auto simp: ranked_buffer_def)
qed

end

sublocale pair_ranking \<subseteq> pool: worker_pool "rank_job (fill c) (select c) w"
  "\<lambda>(bank, buf). ok c \<and> length bank = n \<and> rb_wf w buf \<and> NumPairs buf = pairs c"
  "\<lambda>(v, p). v < n \<and> p < pairs c" "\<lambda>(v, p) (v', p'). v \<noteq> v' \<and> p \<noteq> p'" for c n
proof (unfold_locales, goal_cases)
  case (1 s j)
  then obtain bank buf v p where s: "s = (bank, buf)" "j = (v, p)" by (cases s, cases j) auto
  with 1 job_effect [of c p v bank buf] show ?case by fastforce
next
  case (2 s j k)
  then obtain bank buf v p v' p' where "s = (bank, buf)" "j = (v, p)" "k = (v', p')"
    by (cases s, cases j, cases k) auto
  with 2 jobs_commute [of c p p' v bank v' buf] show ?case by simp
qed

end
