(* ===== verification/Phase2_Rank.thy ===== *)
theory Phase2_Rank
  imports Engine_State Rank_Pool
begin

text \<open>
  Phase 2 (\<^verbatim>\<open>phase2Rank\<close> of \<^verbatim>\<open>compute.go\<close>): how each implementation fills
  the scratch slices of a pair, the partition of the pairs among the workers, and the whole
  phase.  Its specification is \<open>table_entries\<close>: for each of the four tables, the entries of
  the active orders that may be ranked there.
\<close>

section \<open>Filling the scratch slices\<close>

text \<open>What both loops do with an active order, given its score in the pair's row.\<close>

definition add_to_tables ::
  "i64 \<Rightarrow> i64 \<Rightarrow> order_meta \<Rightarrow> i32 \<Rightarrow> u32 \<Rightarrow> worker_scratch \<Rightarrow> worker_scratch" where
  "add_to_tables nowSecs critDeadline meta s oid sc =
     (let sc1 = sc\<lparr>heuristic := heuristic sc @ [entry s oid]\<rparr>;
          sc2 = (if f32_ge (RequiredQty meta) LargeQtyThreshold
                 then sc1\<lparr>large := large sc1 @ [entry s oid]\<rparr> else sc1)
      in if 0 < sint (PBTDeadline meta)
         then let dl = entry (ucast (nowSecs - PBTDeadline meta)) oid;
                  sc3 = sc2\<lparr>pbt := pbt sc2 @ [dl]\<rparr>
              in if sint (PBTDeadline meta) \<le> sint critDeadline
                 then sc3\<lparr>critical := critical sc3 @ [dl]\<rparr> else sc3
         else sc2)"

definition scan_order ::
  "i64 \<Rightarrow> i64 \<Rightarrow> order_registry \<Rightarrow> i16 list \<Rightarrow> u32 \<Rightarrow> worker_scratch \<Rightarrow> worker_scratch go" where
  "scan_order nowSecs critDeadline reg ppsRow oid sc =
     gbind (go_index (Meta reg) (unat oid)) (\<lambda>meta.
       if \<not> Active meta then Inr sc
       else gbind (go_index ppsRow (unat oid)) (\<lambda>s.
              Inr (add_to_tables nowSecs critDeadline meta (scast s) oid sc)))"

text \<open>The warm-up fallback: every active order.\<close>

definition all_active :: "workload \<Rightarrow> order_registry \<Rightarrow> u32 list go" where
  "all_active w reg =
     gfold (\<lambda>oid acc. gbind (go_index (Meta reg) oid) (\<lambda>meta.
       Inr (if Active meta then acc @ [of_nat oid] else acc))) [0..<NumOrders w] []"

text \<open>
  The pair's row: the PPS ID is 1-based, and one outside the matrix is folded into it by a
  remainder, which panics for a matrix without rows.
\<close>

definition ppsRowIdx :: "nat \<Rightarrow> u32 \<Rightarrow> nat go" where
  "ppsRowIdx numRows ppsID =
     (let i = int (unat ppsID) - 1
      in if i < 0 \<or> int numRows \<le> i
         then (if numRows = 0 then Inl DivideByZero else Inr (unat ppsID mod numRows))
         else Inr (nat i))"

definition fill_scratch ::
  "workload \<Rightarrow> i64 \<Rightarrow> pps_matrix compute_engine \<Rightarrow> nat \<Rightarrow> worker_scratch \<Rightarrow>
     worker_scratch option go" where
  "fill_scratch w nowSecs e p sc =
     gbind (go_index (elems (Pairs e)) p) (\<lambda>pair.
       case Get (Topology e) (Key pair) of (status, ok) \<Rightarrow>
         if ok \<and> status = StatusRemoved then Inr None
         else
           gbind (ppsRowIdx (NumPPS (Matrix e)) (PPSID pair)) (\<lambda>rowIdx.
           gbind (Row w (Matrix e) rowIdx) (\<lambda>ppsRow.
           let eligible = map_list (BinTagToOrders (Indexes e)) (BinTagID pair)
           in gbind (if length eligible = 0 then all_active w (Registry e) else Inr eligible) (\<lambda>oids.
              let sc0 = sc\<lparr>heuristic := [], large := [], pbt := [], critical := []\<rparr>
              in gbind (gfold (scan_order nowSecs (nowSecs + CriticalCutoff) (Registry e) ppsRow)
                          oids sc0) (\<lambda>sc'. Inr (Some sc'))))))"

text \<open>
  The cgo loop: no topology check, a 0-based row that is not checked, no fallback, and IDs out
  of range are skipped.
\<close>

definition cgo_scan_order ::
  "workload \<Rightarrow> i64 \<Rightarrow> i64 \<Rightarrow> order_registry \<Rightarrow> c_matrix \<Rightarrow> nat \<Rightarrow> u32 \<Rightarrow> worker_scratch \<Rightarrow>
     worker_scratch go" where
  "cgo_scan_order w nowSecs critDeadline reg m ppsRow oid sc =
     (if NumOrders w \<le> unat oid then Inr sc
      else gbind (go_index (Meta reg) (unat oid)) (\<lambda>meta.
             if \<not> Active meta then Inr sc
             else gbind (row_read w m ppsRow (unat oid)) (\<lambda>s.
                    Inr (add_to_tables nowSecs critDeadline meta (scast s) oid sc))))"

definition cgo_fill_scratch ::
  "workload \<Rightarrow> i64 \<Rightarrow> c_matrix compute_engine \<Rightarrow> nat \<Rightarrow> worker_scratch \<Rightarrow>
     worker_scratch option go" where
  "cgo_fill_scratch w nowSecs e p sc =
     gbind (go_index (elems (Pairs e)) p) (\<lambda>pair.
       let ppsRow = cgo_Row w (unat (PPSID pair));
           eligible = map_list (BinTagToOrders (Indexes e)) (BinTagID pair);
           sc0 = sc\<lparr>heuristic := [], large := [], pbt := [], critical := []\<rparr>
       in gbind (gfold (cgo_scan_order w nowSecs (nowSecs + CriticalCutoff) (Registry e) (Matrix e) ppsRow)
                   eligible sc0) (\<lambda>sc'. Inr (Some sc')))"

section \<open>The phase\<close>

text \<open>The jobs of the workers' loops, in the order of the workers.\<close>

definition pair_jobs :: "nat \<Rightarrow> nat \<Rightarrow> nat \<Rightarrow> (nat \<times> nat) list list" where
  "pair_jobs numPairs pairsPerWorker numW =
     map worker_jobs (static_ranges numPairs pairsPerWorker [0..<numW])"

definition phase2Rank ::
  "go_runtime \<Rightarrow> workload \<Rightarrow> i64 \<Rightarrow> pps_matrix compute_engine \<Rightarrow>
     (read_buffer \<times> pps_matrix compute_engine) go" where
  "phase2Rank rt w nowSecs e =
     (let numPairs = slen (Pairs e); buf = NewReadBuffer w numPairs
      in if numPairs = 0 then Inr (buf, e)
         else let numW = pool_size e numPairs; e1 = ensureScratch numW e
              in gbind (ceil_div numPairs numW) (\<lambda>pairsPerWorker.
                 gbind (gfold (rank_job (fill_scratch w nowSecs e1) (quickselectAndCopy rt w) w)
                          (concat (pair_jobs numPairs pairsPerWorker numW)) (scratch e1, buf))
                   (\<lambda>(bank, buf'). Inr (buf', e1\<lparr>scratch := bank\<rparr>))))"

definition cgo_phase2Rank ::
  "go_runtime \<Rightarrow> workload \<Rightarrow> i64 \<Rightarrow> c_matrix compute_engine \<Rightarrow>
     (read_buffer \<times> c_matrix compute_engine) go" where
  "cgo_phase2Rank rt w nowSecs e =
     (let numPairs = slen (Pairs e); buf = NewReadBuffer w numPairs
      in if numPairs = 0 then Inr (buf, e)
         else let numW = pool_size e numPairs; e1 = ensureScratch numW e
              in gbind (ceil_div numPairs numW) (\<lambda>pairsPerWorker.
                 gbind (gfold (rank_job (cgo_fill_scratch w nowSecs e1) (cgo_quickselectAndCopy rt w) w)
                          (concat (pair_jobs numPairs pairsPerWorker numW)) (scratch e1, buf))
                   (\<lambda>(bank, buf'). Inr (buf', e1\<lparr>scratch := bank\<rparr>))))"

section \<open>What the slices hold\<close>

text \<open>
  The specification: table \<open>t\<close> of the orders \<open>oids\<close>, of which \<open>sc\<close> gives the score, at time
  \<open>now\<close>.
\<close>

definition candidates :: "order_registry \<Rightarrow> u32 list \<Rightarrow> u32 list" where
  "candidates reg oids = filter (\<lambda>oid. Active (Meta reg ! unat oid)) oids"

definition has_deadline :: "order_meta \<Rightarrow> bool" where
  "has_deadline m \<longleftrightarrow> 0 < sint (PBTDeadline m)"

definition is_critical :: "i64 \<Rightarrow> order_meta \<Rightarrow> bool" where
  "is_critical now m \<longleftrightarrow> has_deadline m \<and> sint (PBTDeadline m) \<le> sint (now + CriticalCutoff)"

definition is_large :: "order_meta \<Rightarrow> bool" where
  "is_large m \<longleftrightarrow> f32_ge (RequiredQty m) LargeQtyThreshold"

definition lateness :: "i64 \<Rightarrow> order_meta \<Rightarrow> i32" where
  "lateness now m = ucast (now - PBTDeadline m)"

definition table_entries ::
  "i64 \<Rightarrow> order_registry \<Rightarrow> (u32 \<Rightarrow> i16) \<Rightarrow> u32 list \<Rightarrow> worker_scratch" where
  "table_entries now reg sc oids =
     (let cs = candidates reg oids; meta = (\<lambda>oid. Meta reg ! unat oid);
          scored = map (\<lambda>oid. entry (scast (sc oid)) oid);
          dated = map (\<lambda>oid. entry (lateness now (meta oid)) oid)
      in \<lparr>heuristic = scored cs,
          large = scored (filter (is_large \<circ> meta) cs),
          pbt = dated (filter (has_deadline \<circ> meta) cs),
          critical = dated (filter (is_critical now \<circ> meta) cs)\<rparr>)"

definition append_tables :: "worker_scratch \<Rightarrow> worker_scratch \<Rightarrow> worker_scratch" where
  "append_tables a b =
     \<lparr>heuristic = heuristic a @ heuristic b, large = large a @ large b, pbt = pbt a @ pbt b,
      critical = critical a @ critical b\<rparr>"

lemma append_tables_simps [simp]:
  "append_tables a empty_scratch = a" "append_tables empty_scratch a = a"
  "append_tables (append_tables a b) c = append_tables a (append_tables b c)"
  by (simp_all add: append_tables_def empty_scratch_def)

lemma reset_scratch [simp]:
  "sc\<lparr>heuristic := [], large := [], pbt := [], critical := []\<rparr> = empty_scratch"
  by (simp add: empty_scratch_def)

lemma table_entries_Nil [simp]: "table_entries now reg s [] = empty_scratch"
  by (simp add: table_entries_def candidates_def empty_scratch_def)

lemma add_to_tables_eq:
  assumes "Active (Meta reg ! unat oid)"
  shows "add_to_tables now (now + CriticalCutoff) (Meta reg ! unat oid) (scast (s oid)) oid sc =
           append_tables sc (table_entries now reg s [oid])"
  using assms
  by (simp add: add_to_tables_def append_tables_def table_entries_def candidates_def Let_def
      is_large_def has_deadline_def is_critical_def lateness_def)

lemma table_entries_Cons:
  "table_entries now reg s (oid # oids) =
     append_tables (if Active (Meta reg ! unat oid) then table_entries now reg s [oid] else empty_scratch)
       (table_entries now reg s oids)"
  by (simp add: table_entries_def candidates_def append_tables_def empty_scratch_def Let_def)

lemma table_entries_candidates:
  "table_entries now reg s (candidates reg oids) = table_entries now reg s oids"
  by (simp add: table_entries_def candidates_def)

text \<open>Any scan that treats each order so fills the slices as specified.\<close>

lemma scan_ok:
  assumes "\<And>oid sc. oid \<in> set oids \<Longrightarrow>
      scan oid sc = Inr (if Active (Meta reg ! unat oid)
                         then add_to_tables now (now + CriticalCutoff) (Meta reg ! unat oid)
                                (scast (s oid)) oid sc
                         else sc)"
  shows "gfold scan oids sc = Inr (append_tables sc (table_entries now reg s oids))"
  using assms
proof (induction oids arbitrary: sc)
  case (Cons oid oids)
  then show ?case
    by (simp add: table_entries_Cons [of now reg s oid oids] add_to_tables_eq)
qed simp

lemma all_active_ok:
  assumes "length (Meta reg) = NumOrders w" and "workload_ok w"
  shows "all_active w reg = Inr (candidates reg (map of_nat [0..<NumOrders w]))"
proof -
  let ?g = "\<lambda>oid acc. gbind (go_index (Meta reg) oid) (\<lambda>meta.
       Inr (if Active meta then acc @ [of_nat oid] else acc))"
  have "gfold ?g [0..<n] [] = Inr (candidates reg (map of_nat [0..<n]))" if "n \<le> NumOrders w" for n
    using that
  proof (induction n)
    case (Suc n)
    have "unat (of_nat n :: u32) = n"
      using Suc.prems assms(2) by (simp add: unat_of_nat take_bit_eq_mod workload_ok_def)
    with Suc assms(1) show ?case by (simp add: gfold_snoc go_simps candidates_def)
  qed (simp add: candidates_def)
  then show ?thesis by (simp add: all_active_def)
qed

text \<open>The pair's row and its candidates, and the contents of its scratch slices.\<close>

definition pair_row :: "nat \<Rightarrow> pair_info \<Rightarrow> nat" where
  "pair_row n pair =
     (if 1 \<le> unat (PPSID pair) \<and> unat (PPSID pair) \<le> n then unat (PPSID pair) - 1
      else unat (PPSID pair) mod n)"

definition pair_orders ::
  "workload \<Rightarrow> order_registry \<Rightarrow> inverted_indexes \<Rightarrow> pair_info \<Rightarrow> u32 list" where
  "pair_orders w reg ix pair =
     (if bintag_orders ix (BinTagID pair) = [] then map of_nat [0..<NumOrders w]
      else bintag_orders ix (BinTagID pair))"

definition pair_tables ::
  "workload \<Rightarrow> i64 \<Rightarrow> pps_matrix compute_engine \<Rightarrow> nat \<Rightarrow> worker_scratch option" where
  "pair_tables w now e p =
     (let pair = elems (Pairs e) ! p
      in if val (Topology e) (Key pair) = Some StatusRemoved then None
         else Some (table_entries now (Registry e)
                (\<lambda>oid. cell w (Matrix e) (pair_row (NumPPS (Matrix e)) pair) (unat oid))
                (pair_orders w (Registry e) (Indexes e) pair)))"

definition cgo_pair_tables ::
  "workload \<Rightarrow> i64 \<Rightarrow> c_matrix compute_engine \<Rightarrow> nat \<Rightarrow> worker_scratch option" where
  "cgo_pair_tables w now e p =
     (let pair = elems (Pairs e) ! p
      in Some (table_entries now (Registry e)
                (\<lambda>oid. cell w (c_view (Matrix e)) (unat (PPSID pair)) (unat oid))
                (bintag_orders (Indexes e) (BinTagID pair))))"

lemma ppsRowIdx_ok:
  assumes "0 < n"
  shows "ppsRowIdx n (PPSID pair) = Inr (pair_row n pair) \<and> pair_row n pair < n"
proof -
  have "(let i = int k - 1 in if i < 0 \<or> int n \<le> i then (if n = 0 then Inl DivideByZero else Inr (k mod n))
           else Inr (nat i)) = Inr (if 1 \<le> k \<and> k \<le> n then k - 1 else k mod n)" for k
    using assms by (cases k) (auto simp: Let_def)
  moreover have "pair_row n pair < n" using assms by (auto simp: pair_row_def)
  ultimately show ?thesis unfolding ppsRowIdx_def pair_row_def by (simp only: simp_thms)
qed

lemma pair_orders_range:
  assumes "index_range w ix" and "workload_ok w" and "oid \<in> set (pair_orders w reg ix pair)"
  shows "unat oid < NumOrders w"
  using assms
  by (auto simp: pair_orders_def index_range_def unat_of_nat take_bit_eq_mod workload_ok_def
      split: if_splits)

lemma fill_scratch_ok:
  assumes inv: "pure_inv w e" and p: "p < slen (Pairs e)"
  shows "fill_scratch w now e p sc = Inr (pair_tables w now e p)"
proof -
  let ?pair = "elems (Pairs e) ! p" and ?reg = "Registry e" and ?ix = "Indexes e"
  let ?row = "pair_row (NumPPS (Matrix e)) ?pair"
  let ?oids = "pair_orders w ?reg ?ix ?pair"
  let ?sc = "\<lambda>oid. cell w (Matrix e) ?row (unat oid)"
  from inv have i: "workload_ok w" "length (Meta ?reg) = NumOrders w" "index_range w ?ix"
    "matrix_wf w (Matrix e)" "0 < NumPPS (Matrix e)" "slice_wf (Pairs e)"
    by (simp_all add: engine_inv_def store_inv_def registry_inv_def)
  have nth: "go_index (elems (Pairs e)) p = Inr ?pair"
    using p length_elems [OF i(6)] by (simp add: go_simps)
  have row: "ppsRowIdx (NumPPS (Matrix e)) (PPSID ?pair) = Inr ?row" "?row < NumPPS (Matrix e)"
    using ppsRowIdx_ok [OF i(5)] by blast+
  have cells: "Row w (Matrix e) ?row = Inr (map (cell w (Matrix e) ?row) [0..<NumOrders w])"
    using i(4) row(2) by (rule Row_ok)
  have "gfold (scan_order now (now + CriticalCutoff) ?reg (map (cell w (Matrix e) ?row) [0..<NumOrders w]))
      oids empty_scratch = Inr (append_tables empty_scratch (table_entries now ?reg ?sc oids))"
    if "\<forall>oid \<in> set oids. unat oid < NumOrders w" for oids
    using that i(2) by (intro scan_ok) (simp add: scan_order_def go_simps)
  then have scan: "gfold (scan_order now (now + CriticalCutoff) ?reg (map (cell w (Matrix e) ?row) [0..<NumOrders w]))
      oids empty_scratch = Inr (table_entries now ?reg ?sc oids)"
    if "\<forall>oid \<in> set oids. unat oid < NumOrders w" for oids
    using that by simp
  have range: "\<forall>oid \<in> set ?oids. unat oid < NumOrders w"
    using pair_orders_range [OF i(3,1)] by blast
  show ?thesis
  proof (cases "bintag_orders ?ix (BinTagID ?pair) = []")
    case True
    then have o: "?oids = map of_nat [0..<NumOrders w]" by (simp add: pair_orders_def)
    have "\<forall>oid \<in> set (candidates ?reg ?oids). unat oid < NumOrders w"
      using range by (simp add: candidates_def)
    note s = scan [OF this, unfolded table_entries_candidates, unfolded o]
    from True show ?thesis
      using s by (auto simp: fill_scratch_def pair_tables_def nth row(1) cells Get_def Let_def
          bintag_orders_def all_active_ok [OF i(2,1)] o map_zero_def split: option.split)
  next
    case False
    then have o: "?oids = bintag_orders ?ix (BinTagID ?pair)" by (simp add: pair_orders_def)
    note s = scan [OF range, unfolded o]
    from False show ?thesis
      using s by (auto simp: fill_scratch_def pair_tables_def nth row(1) cells Get_def Let_def
          bintag_orders_def o map_zero_def split: option.split)
  qed
qed

text \<open>
  The cgo scan reads a row only at an active order: a ranked pair whose PPS has no row is
  harmless while no order of its bin tag is active.
\<close>

definition cgo_rows_ok :: "c_matrix compute_engine \<Rightarrow> bool" where
  "cgo_rows_ok e \<longleftrightarrow>
     (\<forall>pair \<in> set (elems (Pairs e)). unat (PPSID pair) < cNumPPS (Matrix e) \<or>
        candidates (Registry e) (bintag_orders (Indexes e) (BinTagID pair)) = [])"

lemma cgo_fill_scratch_ok:
  assumes inv: "cgo_inv w e" and p: "p < slen (Pairs e)"
    and rows: "cgo_rows_ok e"
  shows "cgo_fill_scratch w now e p sc = Inr (cgo_pair_tables w now e p)"
proof -
  let ?pair = "elems (Pairs e) ! p" and ?reg = "Registry e" and ?ix = "Indexes e"
  let ?row = "unat (PPSID ?pair)"
  let ?oids = "bintag_orders ?ix (BinTagID ?pair)"
  let ?sc = "\<lambda>oid. cell w (c_view (Matrix e)) ?row (unat oid)"
  from inv have i: "length (Meta ?reg) = NumOrders w" "index_range w ?ix" "c_wf w (Matrix e)"
    "slice_wf (Pairs e)"
    by (simp_all add: engine_inv_def store_inv_def registry_inv_def)
  have len: "p < length (elems (Pairs e))" using p length_elems [OF i(4)] by simp
  then have row: "?row < cNumPPS (Matrix e) \<or> candidates ?reg ?oids = []"
    using rows nth_mem unfolding cgo_rows_ok_def by blast
  have read: "row_read w (Matrix e) (cgo_Row w ?row) (unat oid) = Inr (?sc oid)"
    if "unat oid < NumOrders w" "oid \<in> set ?oids" "Active (Meta ?reg ! unat oid)" for oid
  proof -
    have "oid \<in> set (candidates ?reg ?oids)" using that(2,3) by (simp add: candidates_def)
    with row have "?row < cNumPPS (Matrix e)" by auto
    from row_read_ok [OF i(3) this that(1)] show ?thesis .
  qed
  have "gfold (cgo_scan_order w now (now + CriticalCutoff) ?reg (Matrix e) (cgo_Row w ?row)) ?oids
      empty_scratch = Inr (append_tables empty_scratch (table_entries now ?reg ?sc ?oids))"
  proof (rule scan_ok)
    fix oid sc assume oid: "oid \<in> set ?oids"
    then have "unat oid < NumOrders w" using i(2) by (simp add: index_range_def)
    with i(1) read [OF _ oid] show "cgo_scan_order w now (now + CriticalCutoff) ?reg (Matrix e) (cgo_Row w ?row) oid sc =
        Inr (if Active (Meta ?reg ! unat oid)
             then add_to_tables now (now + CriticalCutoff) (Meta ?reg ! unat oid) (scast (?sc oid)) oid sc
             else sc)"
      by (simp add: cgo_scan_order_def go_simps)
  qed
  then show ?thesis
    using len by (simp add: cgo_fill_scratch_def cgo_pair_tables_def go_simps Let_def bintag_orders_def)
qed

section \<open>The ranking\<close>

interpretation pure_rank: pair_ranking w "\<lambda>(rt, now, e). fill_scratch w now e"
  "\<lambda>(rt, now, e). quickselectAndCopy rt w" "\<lambda>(rt, now, e). pair_tables w now e"
  "\<lambda>(rt, now, e). pure_inv w e \<and> sort_contract rt" "\<lambda>(rt, now, e). slen (Pairs e)" for w
  by unfold_locales (auto simp: fill_scratch_ok quickselectAndCopy_ok)

interpretation cgo_rank: pair_ranking w "\<lambda>(rt, now, e). cgo_fill_scratch w now e"
  "\<lambda>(rt, now, e). cgo_quickselectAndCopy rt w" "\<lambda>(rt, now, e). cgo_pair_tables w now e"
  "\<lambda>(rt, now, e). cgo_inv w e \<and> sort_contract rt \<and> cgo_rows_ok e"
  "\<lambda>(rt, now, e). slen (Pairs e)" for w
  by unfold_locales (auto simp: cgo_fill_scratch_ok cgo_quickselectAndCopy_ok)

text \<open>The workers' jobs are the pairs, each once, with workers of the scratch bank.\<close>

lemma pair_jobs_ok:
  assumes "0 < n" and "ceil_div n (pool_size e n) = Inr step"
  shows "map snd (concat (pair_jobs n step (pool_size e n))) = [0..<n] \<and>
         (\<forall>(v, p) \<in> set (concat (pair_jobs n step (pool_size e n))). v < pool_size e n \<and> p < n)"
proof -
  have "0 < pool_size e n" using pool_size_pos [OF assms(1)] by blast
  from ceil_div_ok [OF this assms(1)] assms(2) have step: "0 < step" "n \<le> pool_size e n * step"
    by auto
  show ?thesis
    using static_ranges_cover [OF step(2) le0 step(1)]
      static_ranges_workers [of _ _ n step "[0..<pool_size e n]"]
    by (auto simp: pair_jobs_def)
qed

lemma ensureScratch_inv [simp]: "engine_inv w minv rows (ensureScratch n e) = engine_inv w minv rows e"
  by (simp add: engine_inv_def)

lemma ensureScratch_tables [simp]:
  "pair_tables w now (ensureScratch n e) = pair_tables w now e"
  by (simp add: fun_eq_iff pair_tables_def Let_def)

lemma ensureScratch_cgo_tables [simp]:
  "cgo_pair_tables w now (ensureScratch n e) = cgo_pair_tables w now e"
  "cgo_rows_ok (ensureScratch n e) = cgo_rows_ok e"
  by (simp_all add: fun_eq_iff cgo_pair_tables_def cgo_rows_ok_def Let_def)

lemma worker_step:
  assumes "0 < n"
  shows "\<exists>step. ceil_div n (pool_size e n) = Inr step"
proof -
  have "0 < pool_size e n" using pool_size_pos [OF assms] by blast
  from ceil_div_ok [OF this assms] show ?thesis by blast
qed

lemma phase2_ok:
  assumes inv: "pure_inv w e" and rt: "sort_contract rt"
  shows "\<exists>buf bank. phase2Rank rt w now e = Inr (buf, e\<lparr>scratch := bank\<rparr>) \<and>
           ranked_buffer w (slen (Pairs e)) (pair_tables w now e) buf"
proof (cases "slen (Pairs e) = 0")
  case True
  then show ?thesis
    by (intro exI [of _ "NewReadBuffer w 0"] exI [of _ "scratch e"])
      (simp add: phase2Rank_def ranked_buffer_def)
next
  case False
  let ?n = "slen (Pairs e)" and ?k = "pool_size e (slen (Pairs e))"
  let ?e1 = "ensureScratch ?k e"
  from False obtain step where step: "ceil_div ?n ?k = Inr step" using worker_step by blast
  let ?js = "concat (pair_jobs ?n step ?k)"
  have js: "map snd ?js = [0..<?n]" "\<forall>(v, p) \<in> set ?js. v < length (scratch ?e1) \<and> p < ?n"
    using pair_jobs_ok [OF _ step] False ensureScratch_simps(9) [of ?k e] less_le_trans by fastforce+
  obtain bank buf where
    "gfold (rank_job (fill_scratch w now ?e1) (quickselectAndCopy rt w) w) ?js
       (scratch ?e1, NewReadBuffer w ?n) = Inr (bank, buf)"
    "ranked_buffer w ?n (pair_tables w now ?e1) buf"
    using pure_rank.new_buffer_ranked [of w "(rt, now, ?e1)" ?js "scratch ?e1"] inv rt js by auto
  moreover from this(1) False step have "phase2Rank rt w now e = Inr (buf, e\<lparr>scratch := bank\<rparr>)"
    by (simp add: phase2Rank_def Let_def)
  ultimately show ?thesis by auto
qed

lemma cgo_phase2_ok:
  assumes inv: "cgo_inv w e" and rt: "sort_contract rt" and rows: "cgo_rows_ok e"
  shows "\<exists>buf bank. cgo_phase2Rank rt w now e = Inr (buf, e\<lparr>scratch := bank\<rparr>) \<and>
           ranked_buffer w (slen (Pairs e)) (cgo_pair_tables w now e) buf"
proof (cases "slen (Pairs e) = 0")
  case True
  then show ?thesis
    by (intro exI [of _ "NewReadBuffer w 0"] exI [of _ "scratch e"])
      (simp add: cgo_phase2Rank_def ranked_buffer_def)
next
  case False
  let ?n = "slen (Pairs e)" and ?k = "pool_size e (slen (Pairs e))"
  let ?e1 = "ensureScratch ?k e"
  from False obtain step where step: "ceil_div ?n ?k = Inr step" using worker_step by blast
  let ?js = "concat (pair_jobs ?n step ?k)"
  have js: "map snd ?js = [0..<?n]" "\<forall>(v, p) \<in> set ?js. v < length (scratch ?e1) \<and> p < ?n"
    using pair_jobs_ok [OF _ step] False ensureScratch_simps(9) [of ?k e] less_le_trans by fastforce+
  obtain bank buf where
    "gfold (rank_job (cgo_fill_scratch w now ?e1) (cgo_quickselectAndCopy rt w) w) ?js
       (scratch ?e1, NewReadBuffer w ?n) = Inr (bank, buf)"
    "ranked_buffer w ?n (cgo_pair_tables w now ?e1) buf"
    using cgo_rank.new_buffer_ranked [of w "(rt, now, ?e1)" ?js "scratch ?e1"] inv rt rows js by auto
  moreover from this(1) False step have "cgo_phase2Rank rt w now e = Inr (buf, e\<lparr>scratch := bank\<rparr>)"
    by (simp add: cgo_phase2Rank_def Let_def)
  ultimately show ?thesis by auto
qed

section \<open>The schedule does not matter\<close>

lemma static_ranges_fst: "set (map fst (static_ranges n step ws)) \<subseteq> set ws"
  by (induction ws) (auto simp: Let_def)

lemma distinct_static_ranges:
  "distinct ws \<Longrightarrow> distinct (map fst (static_ranges n step ws))"
proof (induction ws)
  case (Cons v ws)
  then show ?case using static_ranges_fst [of n step ws] by (auto simp: Let_def)
qed simp

lemma worker_jobs_fst: "j \<in> set (worker_jobs r) \<Longrightarrow> fst j = fst r"
  by (cases r) (auto simp: worker_jobs_def)

lemma pair_jobs_across:
  assumes "distinct (map snd (concat (pair_jobs n step k)))"
  shows "across (\<lambda>(v, p) (v', p'). v \<noteq> v' \<and> p \<noteq> p') (pair_jobs n step k)"
proof -
  let ?qs = "pair_jobs n step k" and ?rs = "static_ranges n step [0..<k]"
  have "across (\<noteq>) (map (map snd) ?qs)"
    using assms by (intro across_distinct) (simp add: map_concat)
  then have pairs: "snd x \<noteq> snd y" if "i < length ?qs" "l < length ?qs" "i \<noteq> l"
    "x \<in> set (?qs ! i)" "y \<in> set (?qs ! l)" for i l x y
    using that unfolding across_def by force
  have "distinct (map fst ?rs)" by (rule distinct_static_ranges) simp
  then have "fst (?rs ! i) \<noteq> fst (?rs ! l)" if "i < length ?rs" "l < length ?rs" "i \<noteq> l" for i l
    using that by (simp add: distinct_conv_nth)
  moreover have "fst x = fst (?rs ! i)" if "i < length ?rs" "x \<in> set (?qs ! i)" for i x
    using that worker_jobs_fst by (simp add: pair_jobs_def)
  moreover have "length ?qs = length ?rs" by (simp add: pair_jobs_def)
  ultimately have workers: "fst x \<noteq> fst y" if "i < length ?qs" "l < length ?qs" "i \<noteq> l"
    "x \<in> set (?qs ! i)" "y \<in> set (?qs ! l)" for i l x y
    using that by simp
  have "(case x of (v, p) \<Rightarrow> \<lambda>(v', p'). v \<noteq> v' \<and> p \<noteq> p') y"
    if "i < length ?qs" "l < length ?qs" "i \<noteq> l" "x \<in> set (?qs ! i)" "y \<in> set (?qs ! l)" for i l x y
    using pairs [OF that] workers [OF that] by (cases x, cases y) simp
  then show ?thesis unfolding across_def by blast
qed

lemma pair_jobs_valid:
  assumes n: "0 < slen (Pairs e)"
    and step: "ceil_div (slen (Pairs e)) (pool_size e (slen (Pairs e))) = Inr step"
  shows "\<forall>q \<in> set (pair_jobs (slen (Pairs e)) step (pool_size e (slen (Pairs e)))).
           \<forall>j \<in> set q. case j of (v, p) \<Rightarrow>
             v < length (scratch (ensureScratch (pool_size e (slen (Pairs e))) e)) \<and> p < slen (Pairs e)"
proof -
  have "\<forall>j \<in> set (concat (pair_jobs (slen (Pairs e)) step (pool_size e (slen (Pairs e))))).
      case j of (v, p) \<Rightarrow> v < pool_size e (slen (Pairs e)) \<and> p < slen (Pairs e)"
    using pair_jobs_ok [OF n step] by blast
  then show ?thesis
    using ensureScratch_simps(9) [of "pool_size e (slen (Pairs e))" e]
    by (fastforce intro: less_le_trans)
qed

lemma phase2_run_exists:
  assumes "pure_inv w e" and "sort_contract rt" and "0 < slen (Pairs e)"
    and "ceil_div (slen (Pairs e)) (pool_size e (slen (Pairs e))) = Inr step"
    and "e1 = ensureScratch (pool_size e (slen (Pairs e))) e"
  shows "\<exists>qs bank buf.
           rtranclp (pool_step (rank_job (fill_scratch w now e1) (quickselectAndCopy rt w) w))
             (pair_jobs (slen (Pairs e)) step (pool_size e (slen (Pairs e))),
              (scratch e1, NewReadBuffer w (slen (Pairs e)))) (qs, (bank, buf)) \<and>
           pool_done qs"
  using pure_rank.pool.run_exists [where c = "(rt, now, e1)" and w = w and n = "length (scratch e1)"
      and s = "(scratch e1, NewReadBuffer w (slen (Pairs e)))"
      and qs = "pair_jobs (slen (Pairs e)) step (pool_size e (slen (Pairs e)))"]
    assms pair_jobs_valid [OF assms(3,4)] by (simp add: split_paired_Ex)

lemma phase2_schedule:
  assumes "pure_inv w e" and "sort_contract rt" and "0 < slen (Pairs e)"
    and "ceil_div (slen (Pairs e)) (pool_size e (slen (Pairs e))) = Inr step"
    and "e1 = ensureScratch (pool_size e (slen (Pairs e))) e"
    and "rtranclp (pool_step (rank_job (fill_scratch w now e1) (quickselectAndCopy rt w) w))
           (pair_jobs (slen (Pairs e)) step (pool_size e (slen (Pairs e))),
            (scratch e1, NewReadBuffer w (slen (Pairs e)))) (qs, (bank, buf))"
    and "pool_done qs"
  shows "phase2Rank rt w now e = Inr (buf, e\<lparr>scratch := bank\<rparr>)"
proof -
  let ?js = "pair_jobs (slen (Pairs e)) step (pool_size e (slen (Pairs e)))"
  have "distinct (map snd (concat ?js))" using pair_jobs_ok [OF assms(3,4)] by simp
  then have "across (\<lambda>(v, p) (v', p'). v \<noteq> v' \<and> p \<noteq> p') ?js" by (rule pair_jobs_across)
  then have "gfold (rank_job (fill_scratch w now e1) (quickselectAndCopy rt w) w) (concat ?js)
      (scratch e1, NewReadBuffer w (slen (Pairs e))) = Inr (bank, buf)"
    using pure_rank.pool.any_run [where c = "(rt, now, e1)" and w = w and n = "length (scratch e1)",
        OF _ assms(7)] assms pair_jobs_valid [OF assms(3,4)] by simp
  then show ?thesis using assms(3-5) by (simp add: phase2Rank_def Let_def)
qed

end
