(* ===== verification/Compute_Cycle.thy ===== *)
theory Compute_Cycle
  imports Phase1_Update Phase2_Rank
begin

text \<open>
  \<^verbatim>\<open>RunCycleWithDict\<close>, \<^verbatim>\<open>RunCycle\<close> and \<^verbatim>\<open>HandleOrderRemoved\<close>
  (\<^verbatim>\<open>compute.go\<close>): one cycle purges the expired orders, applies the update, ranks every
  pair into a new buffer, publishes the buffer and promotes the pairs that were warming up.
  The clock is an input: the time the cycle starts at, and the durations it reports.
\<close>

section \<open>The code\<close>

record cycle_clock =
  now_secs :: i64
  p1_elapsed :: i64
  p2_elapsed :: i64
  total_elapsed :: i64

definition set_store ::
  "'m compute_engine \<Rightarrow> order_registry \<times> inverted_indexes \<times> 'm \<Rightarrow> 'm compute_engine" where
  "set_store e st = (case st of (r, ix, m) \<Rightarrow> e\<lparr>Registry := r, Indexes := ix, Matrix := m\<rparr>)"

definition cycle_result :: "cycle_clock \<Rightarrow> i64 \<Rightarrow> cycle_stats" where
  "cycle_result clk p1 =
     \<lparr>Phase1Ms = p1, Phase2Ms = p2_elapsed clk, TotalMs = total_elapsed clk,
      SLAOk = (sint (total_elapsed clk) < 5000)\<rparr>"

definition RunCycleWithDict ::
  "go_runtime \<Rightarrow> workload \<Rightarrow> cycle_clock \<Rightarrow> item_dict_update option \<Rightarrow> pps_matrix compute_engine \<Rightarrow>
     (cycle_stats \<times> pps_matrix compute_engine) go" where
  "RunCycleWithDict rt w clk update e =
     (let nowSecs = now_secs clk
      in gbind (PurgeExpired w nowSecs (Registry e, Indexes e, Matrix e)) (\<lambda>st.
         gbind (phase1Update rt w update (set_store e st)) (\<lambda>e1.
         gbind (phase2Rank rt w nowSecs e1) (\<lambda>(buf, e2).
         let e3 = e2\<lparr>DB := Publish (DB e2) buf\<rparr>;
             p1ms = (case update of None \<Rightarrow> 0 | Some _ \<Rightarrow> p1_elapsed clk)
         in Inr (cycle_result clk p1ms, promoteWarmingPairs e3)))))"

definition RunCycle ::
  "go_runtime \<Rightarrow> workload \<Rightarrow> cycle_clock \<Rightarrow> pps_matrix compute_engine \<Rightarrow>
     (cycle_stats \<times> pps_matrix compute_engine) go" where
  "RunCycle rt w clk e = RunCycleWithDict rt w clk None e"

definition HandleOrderRemoved ::
  "workload \<Rightarrow> u32 \<Rightarrow> pps_matrix compute_engine \<Rightarrow> pps_matrix compute_engine go" where
  "HandleOrderRemoved w oid e =
     gbind (EvictOrder w oid (Registry e, Indexes e, Matrix e)) (\<lambda>st. Inr (set_store e st))"

definition cgo_RunCycleWithDict ::
  "go_runtime \<Rightarrow> workload \<Rightarrow> cycle_clock \<Rightarrow> cgo_item_dict_update option \<Rightarrow> c_matrix compute_engine \<Rightarrow>
     (cycle_stats \<times> c_matrix compute_engine) go" where
  "cgo_RunCycleWithDict rt w clk update e =
     (let nowSecs = now_secs clk
      in gbind (cgo_PurgeExpired w nowSecs (Registry e, Indexes e, Matrix e)) (\<lambda>st.
         gbind (cgo_phase1Update rt w update (set_store e st)) (\<lambda>e1.
         gbind (cgo_phase2Rank rt w nowSecs e1) (\<lambda>(buf, e2).
         let e3 = e2\<lparr>DB := Publish (DB e2) buf\<rparr>
         in Inr (cycle_result clk (p1_elapsed clk), cgo_promoteWarmingPairs e3)))))"

definition cgo_RunCycle ::
  "go_runtime \<Rightarrow> workload \<Rightarrow> cycle_clock \<Rightarrow> c_matrix compute_engine \<Rightarrow>
     (cycle_stats \<times> c_matrix compute_engine) go" where
  "cgo_RunCycle rt w clk e = cgo_RunCycleWithDict rt w clk None e"

definition cgo_HandleOrderRemoved ::
  "workload \<Rightarrow> u32 \<Rightarrow> c_matrix compute_engine \<Rightarrow> c_matrix compute_engine go" where
  "cgo_HandleOrderRemoved w oid e =
     gbind (cgo_EvictOrder w oid (Registry e, Indexes e, Matrix e)) (\<lambda>st. Inr (set_store e st))"

section \<open>What a cycle does\<close>

lemma set_store_simps [simp]:
  "Registry (set_store e (r, ix, m)) = r" "Indexes (set_store e (r, ix, m)) = ix"
  "Matrix (set_store e (r, ix, m)) = m" "Pairs (set_store e st) = Pairs e"
  "DB (set_store e st) = DB e" "Topology (set_store e st) = Topology e"
  "pendingWarmup (set_store e st) = pendingWarmup e"
  by (simp_all add: set_store_def split: prod.split)

lemma Publish_simps [simp]: "Load (Publish db buf) = buf"
  by (simp add: Load_def Publish_def)

text \<open>The scores after the cycle, from those before: \<open>d\<close> is \<open>None\<close> where there is no update.\<close>

definition next_score ::
  "i64 \<Rightarrow> order_registry \<Rightarrow> (u32 \<Rightarrow> i32) option \<Rightarrow> (nat \<Rightarrow> nat \<Rightarrow> i16) \<Rightarrow> nat \<Rightarrow> u32 \<Rightarrow> i16" where
  "next_score now r d c p oid =
     (let base = (if expired now (Meta r ! unat oid) then 0 else c p (unat oid))
      in case d of None \<Rightarrow> base | Some f \<Rightarrow> add_clamped base (f oid))"

text \<open>
  What the phases see of the store, and what they leave: the same for both implementations
  but for the reading of a cell (\<open>c\<close> before, \<open>c'\<close> after).
\<close>

definition store_after_cycle ::
  "workload \<Rightarrow> i64 \<Rightarrow> (inverted_indexes \<Rightarrow> (u32 \<Rightarrow> i32) option) \<Rightarrow> nat \<Rightarrow>
     (nat \<Rightarrow> nat \<Rightarrow> i16) \<Rightarrow> (nat \<Rightarrow> nat \<Rightarrow> i16) \<Rightarrow> 'm compute_engine \<Rightarrow> 'm compute_engine \<Rightarrow> bool" where
  "store_after_cycle w now d n c c' e e' \<longleftrightarrow>
     Meta (Registry e') = map (purge_meta now) (Meta (Registry e)) \<and>
     Indexes e' = fold RemoveOrder (expired_ids now (Registry e)) (Indexes e) \<and>
     Pairs e' = Pairs e \<and>
     (\<forall>p < n. \<forall>oid. unat oid < NumOrders w \<longrightarrow>
        c' p (unat oid) = next_score now (Registry e) (d (Indexes e')) c p oid)"

definition promoted :: "pair_info list \<Rightarrow> topology_state \<Rightarrow> topology_state \<Rightarrow> bool" where
  "promoted ps t t' \<longleftrightarrow>
     (\<forall>k. val t' k = (if val t k = Some StatusWarmingUp \<and> k \<in> Key ` set ps
                      then Some StatusActive else val t k))"

definition update_deltas ::
  "go_runtime \<Rightarrow> item_dict_update option \<Rightarrow> inverted_indexes \<Rightarrow> (u32 \<Rightarrow> i32) option" where
  "update_deltas rt update ix =
     (case update of None \<Rightarrow> None
      | Some u \<Rightarrow> Some (order_delta (contributions rt (TPIDDeltas u)) ix))"

definition cgo_update_deltas ::
  "go_runtime \<Rightarrow> cgo_item_dict_update option \<Rightarrow> inverted_indexes \<Rightarrow> (u32 \<Rightarrow> i32) option" where
  "cgo_update_deltas rt update ix =
     (case update of None \<Rightarrow> None
      | Some u \<Rightarrow> if Updates u = [] then None
                  else Some (order_delta (cgo_contributions rt (Updates u)) ix))"

lemma purge_engine:
  assumes inv: "pure_inv w e"
  shows "\<exists>r ix m. PurgeExpired w now (Registry e, Indexes e, Matrix e) = Inr (r, ix, m) \<and>
           pure_inv w (set_store e (r, ix, m)) \<and>
           Meta r = map (purge_meta now) (Meta (Registry e)) \<and>
           ix = fold RemoveOrder (expired_ids now (Registry e)) (Indexes e) \<and>
           NumPPS m = NumPPS (Matrix e) \<and>
           (\<forall>p < NumPPS m. \<forall>oid. unat (oid :: u32) < NumOrders w \<longrightarrow>
              cell w m p (unat oid) = next_score now (Registry e) None (cell w (Matrix e)) p oid)"
proof -
  from inv have i: "registry_inv w (Registry e)" "index_inv (Indexes e)" "index_range w (Indexes e)"
    "matrix_wf w (Matrix e)"
    by (simp_all add: engine_inv_def store_inv_def)
  let ?r = "(Registry e)\<lparr>Meta := map (purge_meta now) (Meta (Registry e))\<rparr>"
  let ?ix = "fold RemoveOrder (expired_ids now (Registry e)) (Indexes e)"
  obtain m where m: "PurgeExpired w now (Registry e, Indexes e, Matrix e) = Inr (?r, ?ix, m)"
    "matrix_wf w m" "NumPPS m = NumPPS (Matrix e)"
    "\<forall>p < NumPPS (Matrix e). \<forall>j < NumOrders w.
       cell w m p j = (if expired now (Meta (Registry e) ! j) then 0 else cell w (Matrix e) p j)"
    using pstore.purge_ok [OF i(1,4)] unfolding PurgeExpired_def by blast
  moreover have "registry_inv w ?r" using i(1) by (rule registry_inv_purge)
  moreover have "index_inv ?ix" using idx.removes_absent [OF i(2)] by blast
  moreover have "index_range w ?ix" using i(2,3) by (rule index_range_removes)
  ultimately show ?thesis using inv
    by (auto simp: engine_inv_def store_inv_def next_score_def)
qed

text \<open>Phase 1 with and without an update: every cell has its order's delta added.\<close>

definition updated :: "(u32 \<Rightarrow> i32) option \<Rightarrow> u32 \<Rightarrow> i16 \<Rightarrow> i16" where
  "updated d oid x = (case d of None \<Rightarrow> x | Some f \<Rightarrow> add_clamped x (f oid))"

lemma updated_next_score:
  "updated d oid (next_score now r None c p oid) = next_score now r d c p oid"
  by (cases d) (simp_all add: updated_def next_score_def Let_def)

lemma phase1_scores:
  assumes inv: "pure_inv w e"
  shows "\<exists>m. phase1Update rt w update e = Inr (e\<lparr>Matrix := m\<rparr>) \<and> matrix_wf w m \<and> NumPPS m = NumPPS (Matrix e) \<and>
           (\<forall>p < NumPPS (Matrix e). \<forall>oid. unat (oid :: u32) < NumOrders w \<longrightarrow> cell w m p (unat oid) =
              updated (update_deltas rt update (Indexes e)) oid (cell w (Matrix e) p (unat oid)))"
proof (cases update)
  case None
  then show ?thesis using inv
    by (intro exI [of _ "Matrix e"]) (simp add: update_deltas_def updated_def engine_inv_def store_inv_def)
next
  case (Some u)
  then show ?thesis
    using phase1_ok [OF inv, of rt u] by (auto simp: update_deltas_def updated_def shifted_def)
qed

lemma cycle_ok:
  assumes inv: "pure_inv w e" and rt: "sort_contract rt"
  shows "\<exists>stats e'. RunCycleWithDict rt w clk update e = Inr (stats, e') \<and> pure_inv w e' \<and>
           NumPPS (Matrix e') = NumPPS (Matrix e) \<and>
           store_after_cycle w (now_secs clk) (update_deltas rt update) (NumPPS (Matrix e))
             (cell w (Matrix e)) (cell w (Matrix e')) e e' \<and>
           ranked_buffer w (slen (Pairs e))
             (pair_tables w (now_secs clk) (e'\<lparr>Topology := Topology e\<rparr>)) (Load (DB e')) \<and>
           promoted (pendingWarmup e) (Topology e) (Topology e')"
proof -
  let ?now = "now_secs clk"
  obtain r ix m where 0: "PurgeExpired w ?now (Registry e, Indexes e, Matrix e) = Inr (r, ix, m)"
    "pure_inv w (set_store e (r, ix, m))" "Meta r = map (purge_meta ?now) (Meta (Registry e))"
    "ix = fold RemoveOrder (expired_ids ?now (Registry e)) (Indexes e)"
    "NumPPS m = NumPPS (Matrix e)"
    and c0: "\<forall>p < NumPPS m. \<forall>oid. unat (oid :: u32) < NumOrders w \<longrightarrow>
        cell w m p (unat oid) = next_score ?now (Registry e) None (cell w (Matrix e)) p oid"
    using purge_engine [OF inv] by blast
  let ?e0 = "set_store e (r, ix, m)"
  obtain m1 where 1: "phase1Update rt w update ?e0 = Inr (?e0\<lparr>Matrix := m1\<rparr>)" "matrix_wf w m1"
    "NumPPS m1 = NumPPS m"
    "\<forall>p < NumPPS m. \<forall>oid. unat (oid :: u32) < NumOrders w \<longrightarrow>
       cell w m1 p (unat oid) = updated (update_deltas rt update ix) oid (cell w m p (unat oid))"
    using phase1_scores [OF 0(2), of rt update] by auto
  have c1: "\<forall>p < NumPPS m. \<forall>oid. unat (oid :: u32) < NumOrders w \<longrightarrow> cell w m1 p (unat oid) =
      next_score ?now (Registry e) (update_deltas rt update ix) (cell w (Matrix e)) p oid"
    using 1(4) c0 by (simp add: updated_next_score)
  let ?e1 = "?e0\<lparr>Matrix := m1\<rparr>"
  have inv1: "pure_inv w ?e1" using 0(2) 1(2,3) by (simp add: engine_inv_def store_inv_def)
  obtain buf bank where 2: "phase2Rank rt w ?now ?e1 = Inr (buf, ?e1\<lparr>scratch := bank\<rparr>)"
    "ranked_buffer w (slen (Pairs e)) (pair_tables w ?now ?e1) buf"
    using phase2_ok [OF inv1 rt, of ?now] by auto
  let ?e3 = "?e1\<lparr>scratch := bank, DB := Publish (DB e) buf\<rparr>"
  let ?e' = "promoteWarmingPairs ?e3"
  have run: "RunCycleWithDict rt w clk update e =
      Inr (cycle_result clk (case update of None \<Rightarrow> 0 | Some _ \<Rightarrow> p1_elapsed clk), ?e')"
    using 0(1) 1(1) 2(1) by (simp add: RunCycleWithDict_def Let_def)
  have "pure_inv w ?e3" using inv1 2(2) by (simp add: engine_inv_def ranked_buffer_def)
  then have inv': "pure_inv w ?e'" by (rule engine_inv_topology)
  have "pair_tables w ?now (?e'\<lparr>Topology := Topology e\<rparr>) = pair_tables w ?now ?e1"
    by (simp add: fun_eq_iff pair_tables_def promote_engine Let_def)
  then have ranked: "ranked_buffer w (slen (Pairs e))
      (pair_tables w ?now (?e'\<lparr>Topology := Topology e\<rparr>)) (Load (DB ?e'))"
    using 2(2) by (simp only:) (simp add: promote_engine)
  have store: "store_after_cycle w ?now (update_deltas rt update) (NumPPS (Matrix e))
      (cell w (Matrix e)) (cell w (Matrix ?e')) e ?e'" "NumPPS (Matrix ?e') = NumPPS (Matrix e)"
    using 0(3-5) 1(3) c1 by (simp_all add: store_after_cycle_def promote_engine)
  have "promoted (pendingWarmup e) (Topology e) (Topology ?e')"
    using inv promote_all_val [of "pendingWarmup e"]
    by (simp add: promoted_def promote_engine engine_inv_def)
  with run inv' ranked store show ?thesis by blast
qed

text \<open>A cycle leaves no expired order behind.\<close>

lemma not_expired_purged: "\<not> expired now (purge_meta now m)"
  by (simp add: purge_meta_def expired_def)

lemma cgo_purge_engine:
  assumes inv: "cgo_inv w e"
  shows "\<exists>r ix m. cgo_PurgeExpired w now (Registry e, Indexes e, Matrix e) = Inr (r, ix, m) \<and>
           cgo_inv w (set_store e (r, ix, m)) \<and>
           Meta r = map (purge_meta now) (Meta (Registry e)) \<and>
           ix = fold RemoveOrder (expired_ids now (Registry e)) (Indexes e) \<and>
           cNumPPS m = cNumPPS (Matrix e) \<and>
           (\<forall>p < cNumPPS m. \<forall>oid. unat (oid :: u32) < NumOrders w \<longrightarrow>
              cell w (c_view m) p (unat oid) =
                next_score now (Registry e) None (cell w (c_view (Matrix e))) p oid)"
proof -
  from inv have i: "registry_inv w (Registry e)" "index_inv (Indexes e)" "index_range w (Indexes e)"
    "c_wf w (Matrix e)"
    by (simp_all add: engine_inv_def store_inv_def)
  let ?r = "(Registry e)\<lparr>Meta := map (purge_meta now) (Meta (Registry e))\<rparr>"
  let ?ix = "fold RemoveOrder (expired_ids now (Registry e)) (Indexes e)"
  obtain m where m: "cgo_PurgeExpired w now (Registry e, Indexes e, Matrix e) = Inr (?r, ?ix, m)"
    "c_wf w m" "cNumPPS m = cNumPPS (Matrix e)"
    "\<forall>p < cNumPPS (Matrix e). \<forall>j < NumOrders w. cell w (c_view m) p j =
       (if expired now (Meta (Registry e) ! j) then 0 else cell w (c_view (Matrix e)) p j)"
    using cstore.purge_ok [OF i(1,4)] unfolding cgo_PurgeExpired_def cgo_RemoveOrder_eq by blast
  moreover have "registry_inv w ?r" using i(1) by (rule registry_inv_purge)
  moreover have "index_inv ?ix" using idx.removes_absent [OF i(2)] by blast
  moreover have "index_range w ?ix" using i(2,3) by (rule index_range_removes)
  ultimately show ?thesis using inv
    by (auto simp: engine_inv_def store_inv_def next_score_def)
qed

text \<open>
  The deltas of a cycle are safe when, with the indexes as they are after the purge, no sum
  in the C kernel can overflow.
\<close>

definition update_safe :: "workload \<Rightarrow> (u32 \<Rightarrow> i32) option \<Rightarrow> bool" where
  "update_safe w d \<longleftrightarrow> (case d of None \<Rightarrow> True | Some f \<Rightarrow> safe_deltas w f)"

lemma cgo_rows_purged:
  assumes inv: "cgo_inv w e" and rows: "cgo_rows_ok e"
    and e1: "Pairs e1 = Pairs e" "cNumPPS (Matrix e1) = cNumPPS (Matrix e)"
      "Meta (Registry e1) = map (purge_meta now) (Meta (Registry e))"
      "Indexes e1 = fold RemoveOrder oids (Indexes e)"
  shows "cgo_rows_ok e1"
proof -
  from inv have i: "length (Meta (Registry e)) = NumOrders w" "index_inv (Indexes e)" "index_range w (Indexes e)"
    by (simp_all add: engine_inv_def store_inv_def registry_inv_def)
  have "set (candidates (Registry e1) (bintag_orders (Indexes e1) b)) \<subseteq>
      set (candidates (Registry e) (bintag_orders (Indexes e) b))" for b
    using i(1,3) idx.removes_absent [OF i(2), of oids]
    by (auto simp: candidates_def e1(3,4) index_range_def purge_meta_def split: if_splits)
  then have "candidates (Registry e1) (bintag_orders (Indexes e1) b) = []"
    if "candidates (Registry e) (bintag_orders (Indexes e) b) = []" for b
    using that by (metis set_empty subset_empty)
  with rows show ?thesis unfolding cgo_rows_ok_def e1(1,2) by blast
qed

lemma cgo_phase1_scores:
  assumes inv: "cgo_inv w e" and safe: "update_safe w (cgo_update_deltas rt update (Indexes e))"
  shows "\<exists>m. cgo_phase1Update rt w update e = Inr (e\<lparr>Matrix := m\<rparr>) \<and> c_wf w m \<and> cNumPPS m = cNumPPS (Matrix e) \<and>
           (\<forall>p < cNumPPS (Matrix e). \<forall>oid. unat (oid :: u32) < NumOrders w \<longrightarrow> cell w (c_view m) p (unat oid) =
              updated (cgo_update_deltas rt update (Indexes e)) oid (cell w (c_view (Matrix e)) p (unat oid)))"
proof (cases "\<exists>u. update = Some u \<and> Updates u \<noteq> []")
  case False
  then have "cgo_phase1Update rt w update e = Inr e" "cgo_update_deltas rt update (Indexes e) = None"
    by (auto simp: cgo_phase1Update_def cgo_update_deltas_def split: option.split)
  then show ?thesis using inv
    by (intro exI [of _ "Matrix e"]) (simp add: updated_def engine_inv_def store_inv_def)
next
  case True
  then obtain u where u: "update = Some u" "Updates u \<noteq> []" by blast
  then have "safe_deltas w (order_delta (cgo_contributions rt (Updates u)) (Indexes e))"
    using safe by (simp add: update_safe_def cgo_update_deltas_def)
  from cgo_phase1_ok [OF inv u(2) this] u show ?thesis
    by (auto simp: cgo_update_deltas_def updated_def shifted_def)
qed

lemma cgo_cycle_ok:
  assumes inv: "cgo_inv w e" and rt: "sort_contract rt" and rows: "cgo_rows_ok e"
    and safe: "update_safe w (cgo_update_deltas rt update
        (fold RemoveOrder (expired_ids (now_secs clk) (Registry e)) (Indexes e)))"
  shows "\<exists>stats e'. cgo_RunCycleWithDict rt w clk update e = Inr (stats, e') \<and> cgo_inv w e' \<and>
           cNumPPS (Matrix e') = cNumPPS (Matrix e) \<and>
           store_after_cycle w (now_secs clk) (cgo_update_deltas rt update) (cNumPPS (Matrix e))
             (cell w (c_view (Matrix e))) (cell w (c_view (Matrix e'))) e e' \<and>
           ranked_buffer w (slen (Pairs e)) (cgo_pair_tables w (now_secs clk) e') (Load (DB e')) \<and>
           pendingWarmup e' = [] \<and>
           (\<forall>k. val (Topology e') k =
              (if k \<in> Key ` set (pendingWarmup e) then Some StatusActive else val (Topology e) k))"
proof -
  let ?now = "now_secs clk"
  obtain r ix m where 0: "cgo_PurgeExpired w ?now (Registry e, Indexes e, Matrix e) = Inr (r, ix, m)"
    "cgo_inv w (set_store e (r, ix, m))" "Meta r = map (purge_meta ?now) (Meta (Registry e))"
    "ix = fold RemoveOrder (expired_ids ?now (Registry e)) (Indexes e)"
    "cNumPPS m = cNumPPS (Matrix e)"
    and c0: "\<forall>p < cNumPPS m. \<forall>oid. unat (oid :: u32) < NumOrders w \<longrightarrow> cell w (c_view m) p (unat oid) =
        next_score ?now (Registry e) None (cell w (c_view (Matrix e))) p oid"
    using cgo_purge_engine [OF inv] by blast
  let ?e0 = "set_store e (r, ix, m)"
  have "update_safe w (cgo_update_deltas rt update (Indexes ?e0))" using safe by (simp add: 0(4))
  from cgo_phase1_scores [OF 0(2) this] obtain m1 where
    1: "cgo_phase1Update rt w update ?e0 = Inr (?e0\<lparr>Matrix := m1\<rparr>)" "c_wf w m1" "cNumPPS m1 = cNumPPS m"
    "\<forall>p < cNumPPS m. \<forall>oid. unat (oid :: u32) < NumOrders w \<longrightarrow>
       cell w (c_view m1) p (unat oid) = updated (cgo_update_deltas rt update ix) oid (cell w (c_view m) p (unat oid))"
    by auto
  have c1: "\<forall>p < cNumPPS m. \<forall>oid. unat (oid :: u32) < NumOrders w \<longrightarrow> cell w (c_view m1) p (unat oid) =
      next_score ?now (Registry e) (cgo_update_deltas rt update ix) (cell w (c_view (Matrix e))) p oid"
    using 1(4) c0 by (simp add: updated_next_score)
  let ?e1 = "?e0\<lparr>Matrix := m1\<rparr>"
  have inv1: "cgo_inv w ?e1" using 0(2) 1(2,3) by (simp add: engine_inv_def store_inv_def)
  have rows1: "cgo_rows_ok ?e1" using cgo_rows_purged [OF inv rows, of ?e1 ?now "expired_ids ?now (Registry e)"] 0(3-5) 1(3) by simp
  obtain buf bank where 2: "cgo_phase2Rank rt w ?now ?e1 = Inr (buf, ?e1\<lparr>scratch := bank\<rparr>)"
    "ranked_buffer w (slen (Pairs e)) (cgo_pair_tables w ?now ?e1) buf"
    using cgo_phase2_ok [OF inv1 rt rows1, of ?now] by auto
  let ?e3 = "?e1\<lparr>scratch := bank, DB := Publish (DB e) buf\<rparr>"
  let ?e' = "cgo_promoteWarmingPairs ?e3"
  have run: "cgo_RunCycleWithDict rt w clk update e = Inr (cycle_result clk (p1_elapsed clk), ?e')"
    using 0(1) 1(1) 2(1) by (simp add: cgo_RunCycleWithDict_def Let_def)
  have "cgo_inv w ?e3" using inv1 2(2) by (simp add: engine_inv_def ranked_buffer_def)
  then have inv': "cgo_inv w ?e'" by (rule engine_inv_topology)
  have "cgo_pair_tables w ?now ?e' = cgo_pair_tables w ?now ?e1"
    by (simp add: fun_eq_iff cgo_pair_tables_def cgo_promoteWarmingPairs_def Let_def)
  then have ranked: "ranked_buffer w (slen (Pairs e)) (cgo_pair_tables w ?now ?e') (Load (DB ?e'))"
    using 2(2) by (simp only:) (simp add: cgo_promoteWarmingPairs_def)
  have store: "store_after_cycle w ?now (cgo_update_deltas rt update) (cNumPPS (Matrix e))
      (cell w (c_view (Matrix e))) (cell w (c_view (Matrix ?e'))) e ?e'"
    "cNumPPS (Matrix ?e') = cNumPPS (Matrix e)"
    using 0(3-5) 1(3) c1 by (simp_all add: store_after_cycle_def cgo_promoteWarmingPairs_def)
  have "pending_wf (pendingWarmup e)" using inv by (simp add: engine_inv_def)
  then have "\<forall>k. val (Topology ?e') k =
      (if k \<in> Key ` set (pendingWarmup e) then Some StatusActive else val (Topology e) k)"
    "pendingWarmup ?e' = []"
    using cgo_promote_val by (simp_all add: cgo_promoteWarmingPairs_def)
  with run inv' ranked store show ?thesis by blast
qed

section \<open>Who is published\<close>

lemma table_orders:
  "x \<in> set (tbl (table_entries now reg s oids) t) \<Longrightarrow>
     orderID x \<in> set oids \<and> Active (Meta reg ! unat (orderID x))"
  by (auto simp: tbl_def table_entries_def candidates_def Let_def split: if_splits)

lemma ranked_slot_orders:
  assumes "ranked_slot w (Some (table_entries now reg s oids)) t xs" and "v \<in> set xs"
  shows "v = -1 \<or> v \<in> set oids \<and> Active (Meta reg ! unat v)"
proof -
  obtain ys where ys: "top_k (TopK w) (tbl (table_entries now reg s oids) t) ys"
    "xs = map orderID ys @ replicate (TopK w - length ys) (-1)"
    using assms(1) by (auto simp: ranked_slot_def)
  with assms(2) consider "v \<in> orderID ` set ys" | "v = -1" by auto
  then show ?thesis
    using top_k_set [OF ys(1)] table_orders by cases blast+
qed

lemma ranked_buffer_slot:
  assumes "ranked_buffer w n tables buf" and "p < n" and "t < NumTables"
  shows "ranked_slot w (tables p) t (rb_list w buf p t)"
  using assms by (simp add: ranked_buffer_def)

text \<open>
  The state after a cycle: a published ID is an active order that has not expired and that is
  listed under the pair's bin tag, or no order is.
\<close>

lemma published_orders:
  assumes inv: "pure_inv w e" and rt: "sort_contract rt"
    and run: "RunCycleWithDict rt w clk update e = Inr (stats, e')"
    and p: "p < slen (Pairs e)" and t: "t < NumTables"
    and v: "v \<in> set (rb_list w (Load (DB e')) p t)" "v \<noteq> -1"
  shows "unat v < NumOrders w \<and> Active (Meta (Registry e') ! unat v) \<and>
         \<not> expired (now_secs clk) (Meta (Registry e') ! unat v) \<and>
         val (Topology e) (Key (elems (Pairs e) ! p)) \<noteq> Some StatusRemoved \<and>
         (v \<in> set (bintag_orders (Indexes e') (BinTagID (elems (Pairs e) ! p))) \<or>
          bintag_orders (Indexes e') (BinTagID (elems (Pairs e) ! p)) = [])"
proof -
  from cycle_ok [OF inv rt, of clk update] run have c: "pure_inv w e'"
    "store_after_cycle w (now_secs clk) (update_deltas rt update) (NumPPS (Matrix e))
       (cell w (Matrix e)) (cell w (Matrix e')) e e'"
    "ranked_buffer w (slen (Pairs e))
       (pair_tables w (now_secs clk) (e'\<lparr>Topology := Topology e\<rparr>)) (Load (DB e'))"
    by auto
  let ?pair = "elems (Pairs e') ! p"
  have pairs: "Pairs e' = Pairs e" using c(2) by (simp add: store_after_cycle_def)
  note slot = ranked_buffer_slot [OF c(3) p t]
  have status: "val (Topology e) (Key ?pair) \<noteq> Some StatusRemoved"
    using slot v by (auto simp: pair_tables_def ranked_slot_def Let_def)
  then have "ranked_slot w (Some (table_entries (now_secs clk) (Registry e')
      (\<lambda>oid. cell w (Matrix e') (pair_row (NumPPS (Matrix e')) ?pair) (unat oid))
      (pair_orders w (Registry e') (Indexes e') ?pair))) t (rb_list w (Load (DB e')) p t)"
    using slot by (simp add: pair_tables_def Let_def)
  from ranked_slot_orders [OF this v(1)] v(2)
  have o: "v \<in> set (pair_orders w (Registry e') (Indexes e') ?pair)"
    "Active (Meta (Registry e') ! unat v)" by blast+
  have i: "workload_ok w" "index_range w (Indexes e')" "length (Meta (Registry e')) = NumOrders w"
    using c(1) by (simp_all add: engine_inv_def store_inv_def registry_inv_def)
  have range: "unat v < NumOrders w" using pair_orders_range [OF i(2,1) o(1)] .
  moreover have "Meta (Registry e') = map (purge_meta (now_secs clk)) (Meta (Registry e))"
    using c(2) by (simp add: store_after_cycle_def)
  then have "\<not> expired (now_secs clk) (Meta (Registry e') ! unat v)"
    using range i(3) not_expired_purged by simp
  moreover have "v \<in> set (bintag_orders (Indexes e') (BinTagID ?pair)) \<or> bintag_orders (Indexes e') (BinTagID ?pair) = []"
    using o(1) by (auto simp: pair_orders_def split: if_splits)
  ultimately show ?thesis using o(2) status pairs by simp
qed

section \<open>Removing an order\<close>

lemma handle_removed_ok:
  assumes inv: "pure_inv w e"
  shows "\<exists>e'. HandleOrderRemoved w oid e = Inr e' \<and> pure_inv w e' \<and> Pairs e' = Pairs e \<and>
           Topology e' = Topology e \<and> DB e' = DB e \<and>
           (\<forall>j < NumOrders w. Meta (Registry e') ! j =
              (if j = unat oid \<and> Active (Meta (Registry e) ! j) then deactivated (Meta (Registry e) ! j)
               else Meta (Registry e) ! j))"
proof -
  from inv have i: "registry_inv w (Registry e)" "index_inv (Indexes e)" "index_range w (Indexes e)"
    "matrix_wf w (Matrix e)"
    by (simp_all add: engine_inv_def store_inv_def)
  show ?thesis
  proof (cases "unat oid < NumOrders w \<and> Active (Meta (Registry e) ! unat oid)")
    case False
    then have "EvictOrder w oid (Registry e, Indexes e, Matrix e) = Inr (Registry e, Indexes e, Matrix e)"
      using pstore.evict_inactive [of w oid] i(1) by (auto simp: EvictOrder_def)
    then show ?thesis using inv False
      by (auto simp: HandleOrderRemoved_def set_store_def)
  next
    case True
    let ?r = "(Registry e)\<lparr>Meta := (Meta (Registry e))[unat oid := deactivated (Meta (Registry e) ! unat oid)]\<rparr>"
    obtain m where m: "EvictOrder w oid (Registry e, Indexes e, Matrix e) = Inr (?r, RemoveOrder oid (Indexes e), m)"
      "matrix_wf w m" "NumPPS m = NumPPS (Matrix e)"
      using pstore.evict_active [OF i(1) _ _ i(4), of oid] True unfolding EvictOrder_def by blast
    have "pure_inv w (set_store e (?r, RemoveOrder oid (Indexes e), m))"
      using inv i m(2,3) registry_inv_deactivate [OF i(1)]
      by (simp add: engine_inv_def store_inv_def index_inv_RemoveOrder index_range_RemoveOrder)
    then show ?thesis using m(1) i(1) True
      by (auto simp: HandleOrderRemoved_def registry_inv_def nth_list_update)
  qed
qed

lemma cgo_handle_removed_ok:
  assumes inv: "cgo_inv w e"
  shows "\<exists>e'. cgo_HandleOrderRemoved w oid e = Inr e' \<and> cgo_inv w e' \<and> Pairs e' = Pairs e \<and>
           Topology e' = Topology e \<and> DB e' = DB e \<and>
           (\<forall>j < NumOrders w. Meta (Registry e') ! j =
              (if j = unat oid \<and> Active (Meta (Registry e) ! j) then deactivated (Meta (Registry e) ! j)
               else Meta (Registry e) ! j))"
proof -
  from inv have i: "registry_inv w (Registry e)" "index_inv (Indexes e)" "index_range w (Indexes e)"
    "c_wf w (Matrix e)"
    by (simp_all add: engine_inv_def store_inv_def)
  show ?thesis
  proof (cases "unat oid < NumOrders w \<and> Active (Meta (Registry e) ! unat oid)")
    case False
    then have "cgo_EvictOrder w oid (Registry e, Indexes e, Matrix e) = Inr (Registry e, Indexes e, Matrix e)"
      using cstore.evict_inactive [of w oid] i(1) by (auto simp: cgo_EvictOrder_def)
    then show ?thesis using inv False
      by (auto simp: cgo_HandleOrderRemoved_def set_store_def)
  next
    case True
    let ?r = "(Registry e)\<lparr>Meta := (Meta (Registry e))[unat oid := deactivated (Meta (Registry e) ! unat oid)]\<rparr>"
    obtain m where m: "cgo_EvictOrder w oid (Registry e, Indexes e, Matrix e) = Inr (?r, RemoveOrder oid (Indexes e), m)"
      "c_wf w m" "cNumPPS m = cNumPPS (Matrix e)"
      using cstore.evict_active [OF i(1) _ _ i(4), of oid] True
      unfolding cgo_EvictOrder_def cgo_RemoveOrder_eq by blast
    have "cgo_inv w (set_store e (?r, RemoveOrder oid (Indexes e), m))"
      using inv i m(2,3) registry_inv_deactivate [OF i(1)]
      by (simp add: engine_inv_def store_inv_def index_inv_RemoveOrder index_range_RemoveOrder)
    then show ?thesis using m(1) i(1) True
      by (auto simp: cgo_HandleOrderRemoved_def registry_inv_def nth_list_update)
  qed
qed

section \<open>Runs of the engine\<close>

text \<open>
  The events the engine handles, one at a time, as its single owner goroutine does.
\<close>

datatype engine_event =
    Ingest kafka_order_event i64
  | AddPair u32 u32
  | RemovePair u32 u32
  | OrderRemoved u32
  | Cycle cycle_clock "item_dict_update option"

fun engine_apply ::
  "go_runtime \<Rightarrow> workload \<Rightarrow> engine_event \<Rightarrow> pps_matrix compute_engine \<Rightarrow> pps_matrix compute_engine go"
where
  "engine_apply rt w (Ingest evt nowSecs) e =
     gbind (IngestOrder rt w evt nowSecs (Registry e, Indexes e, Matrix e)) (\<lambda>st. Inr (set_store e st))"
| "engine_apply rt w (AddPair p b) e = Inr (HandleAddPair p b e)"
| "engine_apply rt w (RemovePair p b) e = Inr (HandleRemovePair p b e)"
| "engine_apply rt w (OrderRemoved oid) e = HandleOrderRemoved w oid e"
| "engine_apply rt w (Cycle clk update) e =
     gbind (RunCycleWithDict rt w clk update e) (\<lambda>(stats, e'). Inr e')"

fun event_ok :: "workload \<Rightarrow> engine_event \<Rightarrow> bool" where
  "event_ok w (Ingest evt nowSecs) = (unat (evOrderID evt) < NumOrders w)"
| "event_ok w ev = True"

lemma engine_apply_ok:
  assumes inv: "pure_inv w e" and rt: "sort_contract rt" and ev: "event_ok w ev"
  shows "\<exists>e'. engine_apply rt w ev e = Inr e' \<and> pure_inv w e'"
proof (cases ev)
  case (Ingest evt nowSecs)
  have store: "store_inv w (matrix_wf w) (Registry e, Indexes e, Matrix e)"
    using inv by (simp add: engine_inv_def)
  obtain r ix m where "IngestOrder rt w evt nowSecs (Registry e, Indexes e, Matrix e) = Inr (r, ix, m)"
    "store_inv w (matrix_wf w) (r, ix, m)" "NumPPS m = NumPPS (Matrix e)"
    using IngestOrder_steps [OF store, of evt rt nowSecs] ev Ingest
    by (auto simp: ingested_def Let_def)
  then show ?thesis using Ingest inv by (simp add: engine_inv_def)
next
  case (OrderRemoved oid)
  then show ?thesis using handle_removed_ok [OF inv] by auto
next
  case (Cycle clk update)
  then show ?thesis using cycle_ok [OF inv rt, of clk update] by auto
qed (use engine_inv_topology [OF inv] in auto)

lemma engine_run_ok:
  assumes "pure_inv w e" and "sort_contract rt" and "\<forall>ev \<in> set evs. event_ok w ev"
  shows "\<exists>e'. gfold (engine_apply rt w) evs e = Inr e' \<and> pure_inv w e'"
  using assms(1,3)
proof (induction evs arbitrary: e)
  case (Cons ev evs)
  then obtain e1 where "engine_apply rt w ev e = Inr e1" "pure_inv w e1"
    using engine_apply_ok [OF _ assms(2), of w e ev] by auto
  with Cons show ?case by simp
qed simp

end
