(* ===== verification/Priority_Server.thy ===== *)
theory Priority_Server
  imports Compute_Cycle
begin

text \<open>
  \<^verbatim>\<open>PriorityServer\<close> (\<^verbatim>\<open>server.go\<close>): the lookup of a pair's ranked lists,
  guarded by the pair's state.  The server shares the topology and the double buffer with
  the engine, so they are arguments of a request; its own state is the index from pair keys
  to rows of the buffer.
\<close>

section \<open>Messages\<close>

text \<open>Decimal notation, as \<^verbatim>\<open>fmt.Sprintf("%d", n)\<close> writes an unsigned number.\<close>

definition digit :: "nat \<Rightarrow> char" where
  "digit d = char_of (48 + d mod 10)"

fun decimal :: "nat \<Rightarrow> string" where
  "decimal n = (if n < 10 then [digit n] else decimal (n div 10) @ [digit n])"

declare decimal.simps [simp del]

datatype api_error = ApiError (Code: u32) (Msg: string)

definition GRPCNotFound :: u32 where "GRPCNotFound = 5"
definition GRPCUnavailable :: u32 where "GRPCUnavailable = 14"

definition api_Error :: "api_error \<Rightarrow> string" where
  "api_Error e = ''gRPC status '' @ decimal (unat (Code e)) @ '': '' @ Msg e"

definition cgo_api_Error :: "api_error \<Rightarrow> string" where
  "cgo_api_Error e = ''ApiError(code='' @ decimal (unat (Code e)) @ ''): '' @ Msg e"

definition pair_message :: "u32 \<Rightarrow> u32 \<Rightarrow> string \<Rightarrow> string" where
  "pair_message ppsID bintagID what =
     ''pair (pps='' @ decimal (unat ppsID) @ '', bintag='' @ decimal (unat bintagID) @ '') '' @ what"

section \<open>The code\<close>

record get_topk_request =
  rPPSID :: u32
  rBinTagID :: u32
  K :: int

record get_topk_response =
  Heuristic :: "i32 list"
  Large :: "i32 list"
  PBT :: "i32 list"
  Critical :: "i32 list"

record priority_server =
  PairIndex :: "u64 \<rightharpoonup> nat"

text \<open>The rebuild loop: a later pair with the same key wins.\<close>

definition build_index :: "pair_info list \<Rightarrow> (u64 \<rightharpoonup> nat)" where
  "build_index ps = fold (\<lambda>(i, p) m. m(Key p \<mapsto> i)) (enumerate 0 ps) Map.empty"

definition RefreshPairIndex :: "pair_info list \<Rightarrow> priority_server \<Rightarrow> priority_server" where
  "RefreshPairIndex pairs s = s\<lparr>PairIndex := build_index pairs\<rparr>"

definition NewPriorityServer :: "pair_info list \<Rightarrow> priority_server" where
  "NewPriorityServer pairs = RefreshPairIndex pairs \<lparr>PairIndex = Map.empty\<rparr>"

definition cgo_NewPriorityServer :: "pair_info list \<Rightarrow> priority_server" where
  "cgo_NewPriorityServer pairs =
     \<lparr>PairIndex = fold (\<lambda>(i, p) m. m(Key p \<mapsto> i)) (enumerate 0 pairs) Map.empty\<rparr>"

definition cgo_RefreshPairIndex :: "pair_info list \<Rightarrow> priority_server \<Rightarrow> priority_server" where
  "cgo_RefreshPairIndex pairs s =
     s\<lparr>PairIndex := fold (\<lambda>(i, p) m. m(Key p \<mapsto> i)) (enumerate 0 pairs) Map.empty\<rparr>"

text \<open>\<^verbatim>\<open>copy(dst, src)\<close>\<close>

definition go_copy :: "'a list \<Rightarrow> 'a list \<Rightarrow> 'a list" where
  "go_copy dst src = take (length dst) src @ drop (length src) dst"

definition clip_k :: "workload \<Rightarrow> int \<Rightarrow> int" where
  "clip_k w k = (if k \<le> 0 \<or> int (TopK w) < k then int (TopK w) else k)"

definition GetTopK ::
  "workload \<Rightarrow> topology_state \<Rightarrow> double_buffer \<Rightarrow> get_topk_request \<Rightarrow> priority_server \<Rightarrow>
     (api_error + get_topk_response) go" where
  "GetTopK w topo db req s =
     (let key = MakePairKey (rPPSID req) (rBinTagID req)
      in case Get topo key of (status, ok) \<Rightarrow>
         if \<not> ok \<or> status = StatusRemoved
         then Inr (Inl (ApiError GRPCNotFound
                (pair_message (rPPSID req) (rBinTagID req) ''not found'')))
         else if status = StatusWarmingUp
         then Inr (Inl (ApiError GRPCUnavailable
                (pair_message (rPPSID req) (rBinTagID req) ''is warming up'')))
         else case PairIndex s key of
             None \<Rightarrow> Inr (Inl (ApiError GRPCNotFound
                (pair_message (rPPSID req) (rBinTagID req) ''not in pair index'')))
           | Some pairIdx \<Rightarrow>
               let k = clip_k w (K req); buf = Load db; zeros = replicate (nat k) 0
               in gbind (GetList w buf pairIdx TblHeuristic k) (\<lambda>h.
                  gbind (GetList w buf pairIdx TblLarge k) (\<lambda>l.
                  gbind (GetList w buf pairIdx TblPBT k) (\<lambda>d.
                  gbind (GetList w buf pairIdx TblCritical k) (\<lambda>c.
                    Inr (Inr \<lparr>Heuristic = go_copy zeros h, Large = go_copy zeros l,
                              PBT = go_copy zeros d, Critical = go_copy zeros c\<rparr>))))))"

definition cgo_GetTopK ::
  "workload \<Rightarrow> topology_state \<Rightarrow> double_buffer \<Rightarrow> get_topk_request \<Rightarrow> priority_server \<Rightarrow>
     (api_error + get_topk_response) go" where
  "cgo_GetTopK w topo db req s =
     (let key = MakePairKey (rPPSID req) (rBinTagID req)
      in case cgo_Get topo key of (status, found) \<Rightarrow>
         if \<not> found \<or> status = StatusRemoved
         then Inr (Inl (ApiError GRPCNotFound ''pair not found''))
         else if status = StatusWarmingUp
         then Inr (Inl (ApiError GRPCUnavailable ''pair warming up''))
         else case PairIndex s key of
             None \<Rightarrow> Inr (Inl (ApiError GRPCUnavailable ''pair index not refreshed yet''))
           | Some pairIdx \<Rightarrow>
               let buf = Load db; k = clip_k w (K req)
               in gbind (cgo_GetList w buf pairIdx TblHeuristic k) (\<lambda>h.
                  gbind (cgo_GetList w buf pairIdx TblLarge k) (\<lambda>l.
                  gbind (cgo_GetList w buf pairIdx TblPBT k) (\<lambda>d.
                  gbind (cgo_GetList w buf pairIdx TblCritical k) (\<lambda>c.
                    Inr (Inr \<lparr>Heuristic = h, Large = l, PBT = d, Critical = c\<rparr>))))))"

section \<open>The index\<close>

lemma build_index_loop:
  "fold (\<lambda>(i, p) m. m(Key p \<mapsto> i)) (enumerate n ps) m k =
     (if k \<in> Key ` set ps
      then Some (n + (GREATEST i. i < length ps \<and> Key (ps ! i) = k)) else m k)"
proof (induction ps arbitrary: m rule: rev_induct)
  case (snoc p ps)
  let ?P = "\<lambda>i. i < length (ps @ [p]) \<and> Key ((ps @ [p]) ! i) = k"
  show ?case
  proof (cases "Key p = k")
    case True
    then have "(GREATEST i. ?P i) = length ps"
      by (intro Greatest_equality) auto
    with True show ?thesis by (simp add: enumerate_append_eq)
  next
    case False
    then have "?P = (\<lambda>i. i < length ps \<and> Key (ps ! i) = k)"
      by (auto simp: fun_eq_iff nth_append less_Suc_eq)
    with False snoc show ?thesis by (auto simp: enumerate_append_eq)
  qed
qed simp

text \<open>With distinct keys the index is the position.\<close>

lemma build_index_distinct:
  assumes "distinct (map Key ps)" and "i < length ps"
  shows "build_index ps (Key (ps ! i)) = Some i"
proof -
  have "(GREATEST j. j < length ps \<and> Key (ps ! j) = Key (ps ! i)) = i"
    using assms by (intro Greatest_equality) (auto simp: distinct_conv_nth)
  then show ?thesis using assms by (simp add: build_index_def build_index_loop)
qed

lemma build_index_Some:
  assumes "build_index ps k = Some i"
  shows "i < length ps \<and> Key (ps ! i) = k"
proof -
  let ?P = "\<lambda>i. i < length ps \<and> Key (ps ! i) = k"
  have k: "k \<in> Key ` set ps" "i = (GREATEST i. ?P i)"
    using assms by (auto simp: build_index_def build_index_loop split: if_splits)
  from k(1) obtain j where "?P j" by (auto simp: in_set_conv_nth)
  then have "?P (GREATEST i. ?P i)"
    by (rule GreatestI_nat [where b = "length ps"]) simp
  with k(2) show ?thesis by simp
qed

lemma build_index_None: "build_index ps k = None \<longleftrightarrow> k \<notin> Key ` set ps"
  by (simp add: build_index_def build_index_loop)

lemma refresh_eq:
  "NewPriorityServer ps = \<lparr>PairIndex = build_index ps\<rparr>"
  "PairIndex (RefreshPairIndex ps s) = build_index ps"
  "cgo_NewPriorityServer ps = \<lparr>PairIndex = build_index ps\<rparr>"
  "PairIndex (cgo_RefreshPairIndex ps s) = build_index ps"
  by (simp_all add: NewPriorityServer_def RefreshPairIndex_def cgo_NewPriorityServer_def
      cgo_RefreshPairIndex_def build_index_def)

section \<open>The answers\<close>

lemma clip_k_range: "0 \<le> clip_k w k" "clip_k w k \<le> int (TopK w)"
  by (auto simp: clip_k_def)

lemma go_copy_full: "length src = length dst \<Longrightarrow> go_copy dst src = src"
  by (simp add: go_copy_def)

lemma GetTopK_lists:
  assumes "val topo (MakePairKey (rPPSID req) (rBinTagID req)) = Some StatusActive"
    and "PairIndex s (MakePairKey (rPPSID req) (rBinTagID req)) = Some p"
    and "rb_wf w (Load db)" and "p < NumPairs (Load db)"
  shows "GetTopK w topo db req s =
           (let l = (\<lambda>t. take (nat (clip_k w (K req))) (rb_list w (Load db) p t))
            in Inr (Inr \<lparr>Heuristic = l TblHeuristic, Large = l TblLarge, PBT = l TblPBT,
                         Critical = l TblCritical\<rparr>))"
proof -
  have "GetList w (Load db) p t (clip_k w (K req)) =
      Inr (take (nat (clip_k w (K req))) (rb_list w (Load db) p t))"
    and "length (take (nat (clip_k w (K req))) (rb_list w (Load db) p t)) = nat (clip_k w (K req))"
    if "t < NumTables" for t
    using GetList_ok [OF assms(3,4) that] length_rb_list [OF assms(3,4) that]
      clip_k_range [of w "K req"] by auto
  then show ?thesis
    using assms(1,2) by (simp add: GetTopK_def Get_def map_zero_def Let_def go_copy_full table_defs)
qed

lemma cgo_GetTopK_lists:
  assumes "val topo (MakePairKey (rPPSID req) (rBinTagID req)) = Some StatusActive"
    and "PairIndex s (MakePairKey (rPPSID req) (rBinTagID req)) = Some p"
    and "rb_wf w (Load db)" and "p < NumPairs (Load db)"
  shows "cgo_GetTopK w topo db req s =
           (let l = (\<lambda>t. takeWhile (\<lambda>v. v \<noteq> -1)
                       (take (nat (clip_k w (K req))) (rb_list w (Load db) p t)))
            in Inr (Inr \<lparr>Heuristic = l TblHeuristic, Large = l TblLarge, PBT = l TblPBT,
                         Critical = l TblCritical\<rparr>))"
  using assms(1,2) cgo_GetList_ok [OF assms(3,4)] clip_k_range [of w "K req"]
  by (simp add: cgo_GetTopK_def cgo_Get_eq Get_def map_zero_def Let_def table_defs)

text \<open>
  What a response's list is, for the entries \<open>xs\<close> of its table: the IDs of the best, cut at
  the requested length; the pure implementation keeps the empty slots, the cgo one drops
  them.
\<close>

definition best_of :: "workload \<Rightarrow> int \<Rightarrow> score_entry list \<Rightarrow> i32 list \<Rightarrow> bool" where
  "best_of w k xs ids \<longleftrightarrow>
     (\<exists>ys. top_k (TopK w) xs ys \<and>
        ids = take (nat (clip_k w k)) (map orderID ys @ replicate (TopK w - length ys) (-1)))"

definition cgo_best_of :: "workload \<Rightarrow> int \<Rightarrow> score_entry list \<Rightarrow> i32 list \<Rightarrow> bool" where
  "cgo_best_of w k xs ids \<longleftrightarrow>
     (\<exists>ys. top_k (TopK w) xs ys \<and> ids = take (nat (clip_k w k)) (map orderID ys))"

lemma best_of_slot:
  "ranked_slot w (Some tabs) t xs \<Longrightarrow> best_of w k (tbl tabs t) (take (nat (clip_k w k)) xs)"
  by (auto simp: ranked_slot_def best_of_def)

lemma take_valid:
  assumes "-1 \<notin> set xs"
  shows "takeWhile (\<lambda>v. v \<noteq> -1) (take n (xs @ replicate m (-1 :: i32))) = take n xs"
proof -
  have empty: "takeWhile (\<lambda>v. v \<noteq> -1) (replicate i (-1 :: i32)) = []" for i by (cases i) auto
  have "\<forall>v \<in> set (take n xs). v \<noteq> -1" using assms by (metis in_set_takeD)
  then have "takeWhile (\<lambda>v. v \<noteq> -1) (take n xs @ ys) = take n xs @ takeWhile (\<lambda>v. v \<noteq> -1) ys" for ys
    using takeWhile_append2 [of "take n xs" "\<lambda>v. v \<noteq> -1" ys] by blast
  then show ?thesis by (simp add: empty)
qed

lemma cgo_best_of_slot:
  assumes "ranked_slot w (Some tabs) t xs" and "\<forall>x \<in> set (tbl tabs t). orderID x \<noteq> -1"
  shows "cgo_best_of w k (tbl tabs t) (takeWhile (\<lambda>v. v \<noteq> -1) (take (nat (clip_k w k)) xs))"
proof -
  obtain ys where ys: "top_k (TopK w) (tbl tabs t) ys"
    "xs = map orderID ys @ replicate (TopK w - length ys) (-1)"
    using assms(1) by (auto simp: ranked_slot_def)
  have "-1 \<notin> set (map orderID ys)" using assms(2) top_k_set [OF ys(1)] by auto
  from take_valid [OF this] ys show ?thesis unfolding cgo_best_of_def by metis
qed

lemma order_not_minus_one:
  assumes "workload_ok w" and "unat v < NumOrders w"
  shows "v \<noteq> (-1 :: i32)"
proof
  assume "v = -1"
  moreover have "unat (-1 :: i32) = 2 ^ 32 - 1"
    by (simp add: unsigned_minus_1_eq_mask mask_eq_exp_minus_1)
  ultimately have "unat v = 2 ^ 32 - 1" by simp
  with assms show False by (simp add: workload_ok_def)
qed

section \<open>Serving what a cycle published\<close>

text \<open>The four lists of a response against the entries of the four tables.\<close>

definition response_is ::
  "(score_entry list \<Rightarrow> i32 list \<Rightarrow> bool) \<Rightarrow> worker_scratch \<Rightarrow> get_topk_response \<Rightarrow> bool" where
  "response_is best tabs r \<longleftrightarrow>
     best (heuristic tabs) (Heuristic r) \<and> best (large tabs) (Large r) \<and>
     best (pbt tabs) (PBT r) \<and> best (critical tabs) (Critical r)"

lemma tbl_simps [simp]:
  "tbl tabs TblHeuristic = heuristic tabs" "tbl tabs TblLarge = large tabs"
  "tbl tabs TblPBT = pbt tabs" "tbl tabs TblCritical = critical tabs"
  by (simp_all add: tbl_def table_defs)

lemma table_numbers:
  "TblHeuristic < NumTables" "TblLarge < NumTables" "TblPBT < NumTables" "TblCritical < NumTables"
  by (simp_all add: table_defs)

lemma GetTopK_ranked:
  assumes active: "val topo (MakePairKey (rPPSID req) (rBinTagID req)) = Some StatusActive"
    and idx: "PairIndex s (MakePairKey (rPPSID req) (rBinTagID req)) = Some p"
    and buf: "ranked_buffer w n tables (Load db)" "p < n" and tabs: "tables p = Some tabs"
  shows "\<exists>r. GetTopK w topo db req s = Inr (Inr r) \<and> response_is (best_of w (K req)) tabs r"
proof -
  have b: "rb_wf w (Load db)" "p < NumPairs (Load db)"
    using buf by (simp_all add: ranked_buffer_def)
  have slot: "best_of w (K req) (tbl tabs t) (take (nat (clip_k w (K req))) (rb_list w (Load db) p t))"
    if "t < NumTables" for t
    using ranked_buffer_slot [OF buf that] tabs by (simp add: best_of_slot)
  show ?thesis
    using GetTopK_lists [OF active idx b] slot [OF table_numbers(1)] slot [OF table_numbers(2)]
      slot [OF table_numbers(3)] slot [OF table_numbers(4)]
    by (simp add: Let_def response_is_def)
qed

lemma cgo_GetTopK_ranked:
  assumes active: "val topo (MakePairKey (rPPSID req) (rBinTagID req)) = Some StatusActive"
    and idx: "PairIndex s (MakePairKey (rPPSID req) (rBinTagID req)) = Some p"
    and buf: "ranked_buffer w n tables (Load db)" "p < n" and tabs: "tables p = Some tabs"
    and ids: "\<forall>t. \<forall>x \<in> set (tbl tabs t). orderID x \<noteq> -1"
  shows "\<exists>r. cgo_GetTopK w topo db req s = Inr (Inr r) \<and> response_is (cgo_best_of w (K req)) tabs r"
proof -
  have b: "rb_wf w (Load db)" "p < NumPairs (Load db)"
    using buf by (simp_all add: ranked_buffer_def)
  have slot: "cgo_best_of w (K req) (tbl tabs t)
      (takeWhile (\<lambda>v. v \<noteq> -1) (take (nat (clip_k w (K req))) (rb_list w (Load db) p t)))"
    if "t < NumTables" for t
    using ranked_buffer_slot [OF buf that] tabs ids by (simp add: cgo_best_of_slot)
  show ?thesis
    using cgo_GetTopK_lists [OF active idx b] slot [OF table_numbers(1)] slot [OF table_numbers(2)]
      slot [OF table_numbers(3)] slot [OF table_numbers(4)]
    by (simp add: Let_def response_is_def)
qed

text \<open>
  After a cycle: pair \<open>p\<close> of the engine is active, and the server's index has been built from
  the engine's pairs, whose keys are distinct.
\<close>

lemma served_ok:
  assumes inv: "pure_inv w e" and rt: "sort_contract rt"
    and run: "RunCycleWithDict rt w clk update e = Inr (stats, e')"
    and keys: "distinct (map Key (elems (Pairs e)))" and p: "p < slen (Pairs e)"
    and req: "Key (elems (Pairs e) ! p) = MakePairKey (rPPSID req) (rBinTagID req)"
    and active: "val (Topology e') (Key (elems (Pairs e) ! p)) = Some StatusActive"
  shows "\<exists>tabs r. pair_tables w (now_secs clk) (e'\<lparr>Topology := Topology e\<rparr>) p = Some tabs \<and>
           GetTopK w (Topology e') (DB e') req (NewPriorityServer (elems (Pairs e'))) = Inr (Inr r) \<and>
           response_is (best_of w (K req)) tabs r"
proof -
  from cycle_ok [OF inv rt, of clk update] run have c:
    "store_after_cycle w (now_secs clk) (update_deltas rt update) (NumPPS (Matrix e))
       (cell w (Matrix e)) (cell w (Matrix e')) e e'"
    "ranked_buffer w (slen (Pairs e))
       (pair_tables w (now_secs clk) (e'\<lparr>Topology := Topology e\<rparr>)) (Load (DB e'))"
    "promoted (pendingWarmup e) (Topology e) (Topology e')"
    by auto
  have pairs: "Pairs e' = Pairs e" using c(1) by (simp add: store_after_cycle_def)
  let ?k = "Key (elems (Pairs e) ! p)"
  have "val (Topology e) ?k \<noteq> Some StatusRemoved"
  proof
    assume removed: "val (Topology e) ?k = Some StatusRemoved"
    have "val (Topology e') ?k = (if val (Topology e) ?k = Some StatusWarmingUp \<and>
        ?k \<in> Key ` set (pendingWarmup e) then Some StatusActive else val (Topology e) ?k)"
      using c(3) unfolding promoted_def by (rule spec)
    with active removed show False by simp
  qed
  then obtain tabs where tabs: "pair_tables w (now_secs clk) (e'\<lparr>Topology := Topology e\<rparr>) p = Some tabs"
    by (auto simp: pair_tables_def Let_def pairs)
  have len: "p < length (elems (Pairs e))"
    using inv p by (simp add: engine_inv_def length_elems)
  have idx: "PairIndex (NewPriorityServer (elems (Pairs e'))) (MakePairKey (rPPSID req) (rBinTagID req)) = Some p"
    using build_index_distinct [OF keys len] req by (simp add: refresh_eq pairs)
  have act: "val (Topology e') (MakePairKey (rPPSID req) (rBinTagID req)) = Some StatusActive"
    using active req by simp
  from GetTopK_ranked [OF act idx c(2) p tabs] tabs show ?thesis by blast
qed

lemma cgo_served_ok:
  assumes inv: "cgo_inv w e" and rt: "sort_contract rt" and rows: "cgo_rows_ok e"
    and safe: "update_safe w (cgo_update_deltas rt update
        (fold RemoveOrder (expired_ids (now_secs clk) (Registry e)) (Indexes e)))"
    and run: "cgo_RunCycleWithDict rt w clk update e = Inr (stats, e')"
    and keys: "distinct (map Key (elems (Pairs e)))" and p: "p < slen (Pairs e)"
    and req: "Key (elems (Pairs e) ! p) = MakePairKey (rPPSID req) (rBinTagID req)"
    and active: "val (Topology e') (Key (elems (Pairs e) ! p)) = Some StatusActive"
  shows "\<exists>tabs r. cgo_pair_tables w (now_secs clk) e' p = Some tabs \<and>
           cgo_GetTopK w (Topology e') (DB e') req (cgo_NewPriorityServer (elems (Pairs e'))) =
             Inr (Inr r) \<and>
           response_is (cgo_best_of w (K req)) tabs r"
proof -
  from cgo_cycle_ok [OF inv rt rows safe] run have c: "cgo_inv w e'"
    "store_after_cycle w (now_secs clk) (cgo_update_deltas rt update) (cNumPPS (Matrix e))
       (cell w (c_view (Matrix e))) (cell w (c_view (Matrix e'))) e e'"
    "ranked_buffer w (slen (Pairs e)) (cgo_pair_tables w (now_secs clk) e') (Load (DB e'))"
    by auto
  have pairs: "Pairs e' = Pairs e" using c(2) by (simp add: store_after_cycle_def)
  let ?pair = "elems (Pairs e) ! p"
  let ?tabs = "table_entries (now_secs clk) (Registry e')
      (\<lambda>oid. cell w (c_view (Matrix e')) (unat (PPSID ?pair)) (unat oid))
      (bintag_orders (Indexes e') (BinTagID ?pair))"
  have tabs: "cgo_pair_tables w (now_secs clk) e' p = Some ?tabs"
    by (simp add: cgo_pair_tables_def Let_def pairs)
  have i: "workload_ok w" "index_range w (Indexes e')"
    using c(1) by (simp_all add: engine_inv_def store_inv_def)
  have ids: "\<forall>t. \<forall>x \<in> set (tbl ?tabs t). orderID x \<noteq> -1"
  proof (intro allI ballI)
    fix t x assume "x \<in> set (tbl ?tabs t)"
    then have "orderID x \<in> set (bintag_orders (Indexes e') (BinTagID ?pair))"
      using table_orders by blast
    then have "unat (orderID x) < NumOrders w" using i(2) unfolding index_range_def by blast
    with i(1) show "orderID x \<noteq> -1" by (rule order_not_minus_one)
  qed
  have len: "p < length (elems (Pairs e))"
    using inv p by (simp add: engine_inv_def length_elems)
  have idx: "PairIndex (cgo_NewPriorityServer (elems (Pairs e'))) (MakePairKey (rPPSID req) (rBinTagID req)) = Some p"
    using build_index_distinct [OF keys len] req by (simp add: refresh_eq pairs)
  have act: "val (Topology e') (MakePairKey (rPPSID req) (rBinTagID req)) = Some StatusActive"
    using active req by simp
  from cgo_GetTopK_ranked [OF act idx c(3) p tabs ids] tabs show ?thesis by blast
qed

section \<open>Errors, and stale rows\<close>

lemma GetTopK_not_found:
  assumes "val topo (MakePairKey (rPPSID req) (rBinTagID req)) \<in> {None, Some StatusRemoved}"
  shows "\<exists>msg. GetTopK w topo db req s = Inr (Inl (ApiError GRPCNotFound msg))"
  using assms by (auto simp: GetTopK_def Get_def map_zero_def Let_def)

lemma GetTopK_warming:
  assumes "val topo (MakePairKey (rPPSID req) (rBinTagID req)) = Some StatusWarmingUp"
  shows "\<exists>msg. GetTopK w topo db req s = Inr (Inl (ApiError GRPCUnavailable msg))"
  using assms by (auto simp: GetTopK_def Get_def map_zero_def Let_def)

text \<open>A row past the published buffer is a slice out of range.\<close>

lemma GetTopK_stale_row:
  assumes "val topo (MakePairKey (rPPSID req) (rBinTagID req)) = Some StatusActive"
    and "PairIndex s (MakePairKey (rPPSID req) (rBinTagID req)) = Some p"
    and "rb_wf w (Load db)" and "NumPairs (Load db) \<le> p" and "0 < TopK w"
  shows "GetTopK w topo db req s = Inl SliceOutOfRange"
proof -
  have "0 < clip_k w (K req)" using assms(5) by (auto simp: clip_k_def)
  from GetList_out_of_range [OF assms(3,4) this assms(5)] assms(1,2) show ?thesis
    by (simp add: GetTopK_def Get_def map_zero_def Let_def)
qed

end
