(* ===== verification/Service_Setup.thy ===== *)
theory Service_Setup
  imports Priority_Server
begin

text \<open>
  How a pod is configured and put together: \<^verbatim>\<open>config.go\<close> (the resource
  configuration from defaults and environment variables) and the set-up part of
  \<^verbatim>\<open>main.go\<close> (the pairs of the pod, their activation, the engine and the server).
\<close>

section \<open>Numbers from strings\<close>

text \<open>
  \<^verbatim>\<open>strconv.Atoi\<close> and \<^verbatim>\<open>strconv.ParseInt(v, 10, 64)\<close>: an optional sign and
  decimal digits, in the range of 64 bits; \<open>None\<close> is an error.
\<close>

definition is_digit :: "char \<Rightarrow> bool" where
  "is_digit c \<longleftrightarrow> 48 \<le> (of_char c :: nat) \<and> (of_char c :: nat) \<le> 57"

definition digits_value :: "string \<Rightarrow> int" where
  "digits_value s = fold (\<lambda>c n. 10 * n + (int (of_char c) - 48)) s 0"

definition parse_digits :: "string \<Rightarrow> int option" where
  "parse_digits s = (if s \<noteq> [] \<and> list_all is_digit s then Some (digits_value s) else None)"

definition Atoi :: "string \<Rightarrow> int option" where
  "Atoi s =
     (let (neg, body) = (case s of [] \<Rightarrow> (False, [])
                         | c # cs \<Rightarrow> if c = CHR ''-'' then (True, cs)
                                     else if c = CHR ''+'' then (False, cs) else (False, s))
      in case parse_digits body of None \<Rightarrow> None
         | Some n \<Rightarrow> let v = (if neg then - n else n)
                     in if - (2 ^ 63) \<le> v \<and> v < 2 ^ 63 then Some v else None)"

section \<open>Resource configuration\<close>

record resource_config =
  NumWorkersVal :: int
  GoMaxProcs :: int
  GCPercent :: int
  MemLimitMB :: int

definition defaultResourceConfig :: "workload \<Rightarrow> int \<Rightarrow> resource_config" where
  "defaultResourceConfig w cores =
     (let workers = min (int (PairsPerPod w)) cores;
          workers' = (if workers < 1 then 1 else workers)
      in \<lparr>NumWorkersVal = workers', GoMaxProcs = cores, GCPercent = 100, MemLimitMB = 0\<rparr>)"

text \<open>
  One override: the variable \<open>v\<close>, the test of its value, and the assignment.  An unset
  variable reads as the empty string.
\<close>

definition env_override ::
  "string \<Rightarrow> (int \<Rightarrow> bool) \<Rightarrow> (int \<Rightarrow> resource_config \<Rightarrow> resource_config) \<Rightarrow> resource_config \<Rightarrow>
     resource_config" where
  "env_override v good assign cfg =
     (if v \<noteq> [] then (case Atoi v of None \<Rightarrow> cfg | Some n \<Rightarrow> if good n then assign n cfg else cfg)
      else cfg)"

definition initFromEnv :: "workload \<Rightarrow> int \<Rightarrow> (string \<Rightarrow> string) \<Rightarrow> resource_config" where
  "initFromEnv w cores env =
     (let cfg0 = defaultResourceConfig w cores;
          cfg1 = env_override (env ''PS_NUM_WORKERS'') (\<lambda>n. 0 < n) (\<lambda>n c. c\<lparr>NumWorkersVal := n\<rparr>) cfg0;
          cfg2 = env_override (env ''PS_GOMAXPROCS'') (\<lambda>n. 0 < n) (\<lambda>n c. c\<lparr>GoMaxProcs := n\<rparr>) cfg1;
          cfg3 = env_override (env ''PS_GCPERCENT'') (\<lambda>n. True) (\<lambda>n c. c\<lparr>GCPercent := n\<rparr>) cfg2
      in env_override (env ''PS_MEM_LIMIT_MB'') (\<lambda>n. 0 < n) (\<lambda>n c. c\<lparr>MemLimitMB := n\<rparr>) cfg3)"

text \<open>
  \<^verbatim>\<open>applyRuntimeConfig\<close>: the settings of the Go run-time after it; the limit is an
  \<^verbatim>\<open>int64\<close> product.
\<close>

record go_settings =
  gomaxprocs :: int
  gcpercent :: int
  memlimit :: i64

definition applyRuntimeConfig :: "resource_config \<Rightarrow> go_settings \<Rightarrow> go_settings" where
  "applyRuntimeConfig cfg s =
     (let s1 = s\<lparr>gomaxprocs := GoMaxProcs cfg, gcpercent := GCPercent cfg\<rparr>
      in if 0 < MemLimitMB cfg then s1\<lparr>memlimit := word_of_int (MemLimitMB cfg) * 1024 * 1024\<rparr> else s1)"

text \<open>
  The report of \<^verbatim>\<open>printResourceConfig\<close>: what it prints, with the two estimates, which
  are constant expressions.
\<close>

record resource_report =
  printed :: resource_config
  logicalCPUs :: int
  limited :: bool
  ppsMatrixMB :: int
  btagIdxMB :: int

definition printResourceConfig :: "workload \<Rightarrow> int \<Rightarrow> resource_config \<Rightarrow> resource_report" where
  "printResourceConfig w cores cfg =
     \<lparr>printed = cfg, logicalCPUs = cores, limited = (0 < MemLimitMB cfg),
      ppsMatrixMB = int (numPPS w) * int (NumOrders w) * 2 div 1000000,
      btagIdxMB = int (numBinTags w) * int (NumOrders w) * 4 div 1000000\<rparr>"

text \<open>The cgo program's \<^verbatim>\<open>config.go\<close>.\<close>

definition cgo_defaultResourceConfig :: "workload \<Rightarrow> int \<Rightarrow> resource_config" where
  "cgo_defaultResourceConfig w cores =
     (let workers = min (int (PairsPerPod w)) cores;
          workers' = (if workers < 1 then 1 else workers)
      in \<lparr>NumWorkersVal = workers', GoMaxProcs = cores, GCPercent = 100, MemLimitMB = 0\<rparr>)"

definition cgo_initFromEnv :: "workload \<Rightarrow> int \<Rightarrow> (string \<Rightarrow> string) \<Rightarrow> resource_config" where
  "cgo_initFromEnv w cores env =
     (let cfg0 = cgo_defaultResourceConfig w cores;
          cfg1 = env_override (env ''PS_NUM_WORKERS'') (\<lambda>n. 0 < n) (\<lambda>n c. c\<lparr>NumWorkersVal := n\<rparr>) cfg0;
          cfg2 = env_override (env ''PS_GOMAXPROCS'') (\<lambda>n. 0 < n) (\<lambda>n c. c\<lparr>GoMaxProcs := n\<rparr>) cfg1;
          cfg3 = env_override (env ''PS_GCPERCENT'') (\<lambda>n. True) (\<lambda>n c. c\<lparr>GCPercent := n\<rparr>) cfg2
      in env_override (env ''PS_MEM_LIMIT_MB'') (\<lambda>n. 0 < n) (\<lambda>n c. c\<lparr>MemLimitMB := n\<rparr>) cfg3)"

definition cgo_applyRuntimeConfig :: "resource_config \<Rightarrow> go_settings \<Rightarrow> go_settings" where
  "cgo_applyRuntimeConfig cfg s =
     (let s1 = s\<lparr>gomaxprocs := GoMaxProcs cfg, gcpercent := GCPercent cfg\<rparr>
      in if 0 < MemLimitMB cfg then s1\<lparr>memlimit := word_of_int (MemLimitMB cfg) * 1024 * 1024\<rparr> else s1)"

definition cgo_printResourceConfig :: "workload \<Rightarrow> int \<Rightarrow> resource_config \<Rightarrow> resource_report" where
  "cgo_printResourceConfig w cores cfg =
     \<lparr>printed = cfg, logicalCPUs = cores, limited = (0 < MemLimitMB cfg),
      ppsMatrixMB = int (numPPS w) * int (NumOrders w) * 2 div 1000000,
      btagIdxMB = int (numBinTags w) * int (NumOrders w) * 4 div 1000000\<rparr>"

lemma cgo_config_eq: "cgo_initFromEnv = initFromEnv" "cgo_applyRuntimeConfig = applyRuntimeConfig"
  by (simp_all add: fun_eq_iff cgo_initFromEnv_def initFromEnv_def cgo_defaultResourceConfig_def
      defaultResourceConfig_def cgo_applyRuntimeConfig_def applyRuntimeConfig_def)

text \<open>The estimates for the two pods: 400 MB and 80 MB, 42 MB and 12 MB.\<close>

lemma pod_estimates:
  "ppsMatrixMB (printResourceConfig pure_workload cores cfg) = 400"
  "btagIdxMB (printResourceConfig pure_workload cores cfg) = 80"
  "ppsMatrixMB (cgo_printResourceConfig cgo_workload cores cfg) = 42"
  "btagIdxMB (cgo_printResourceConfig cgo_workload cores cfg) = 12"
  by (simp_all add: printResourceConfig_def cgo_printResourceConfig_def pure_workload_def cgo_workload_def)

section \<open>The pairs of a pod\<close>

text \<open>
  Both loop conditions test the length again, so a loop that has ended and one that skips
  the rest leave the same slice.
\<close>

definition buildPairs :: "workload \<Rightarrow> nat \<Rightarrow> pair_info list" where
  "buildPairs w numPairs =
     fold (\<lambda>pps ps.
         if length ps < numPairs
         then fold (\<lambda>bt qs. if length qs < numPairs then qs @ [pair_of (of_nat pps) (of_nat bt)] else qs)
                [1..<numBinTags w + 1] ps
         else ps)
       [1..<numPPS w + 1] []"

definition setup_topology :: "pair_info list \<Rightarrow> topology_state" where
  "setup_topology pairs =
     fold (\<lambda>p t. Activate (PPSID p) (BinTagID p) (AddWarmingUp (PPSID p) (BinTagID p) t)) pairs
       NewTopologyState"

text \<open>The set-up of \<^verbatim>\<open>main\<close>: the engine and the server share topology and buffer.\<close>

definition main_setup ::
  "workload \<Rightarrow> int \<Rightarrow> (string \<Rightarrow> string) \<Rightarrow> pps_matrix compute_engine \<times> priority_server" where
  "main_setup w cores env =
     (let cfg = initFromEnv w cores env;
          pairs = buildPairs w (PairsPerPod w);
          db = NewDoubleBuffer w (PairsPerPod w);
          topo = setup_topology pairs
      in (NewComputeEngine w (slice_of pairs) db topo (NumWorkersVal cfg), NewPriorityServer pairs))"

text \<open>The cgo program numbers PPS and bin tags from 0, and activates without warming up.\<close>

definition cgo_main_pairs :: "workload \<Rightarrow> topology_state \<times> pair_info list" where
  "cgo_main_pairs w =
     fold (\<lambda>pps. fold (\<lambda>bt (topo, ps).
         (cgo_Activate (of_nat pps) (of_nat bt) topo, ps @ [pair_of (of_nat pps) (of_nat bt)]))
       [0..<numBinTags w]) [0..<numPPS w] (NewTopologyState, [])"

definition cgo_main_setup ::
  "workload \<Rightarrow> bool \<Rightarrow> int \<Rightarrow> (string \<Rightarrow> string) \<Rightarrow> c_matrix compute_engine go" where
  "cgo_main_setup w enough_memory cores env =
     (let cfg = cgo_initFromEnv w cores env; (topo, pairs) = cgo_main_pairs w;
          db = NewDoubleBuffer w (length pairs)
      in cgo_NewComputeEngine w enough_memory (slice_of pairs) db topo (NumWorkersVal cfg))"

section \<open>What the set-up gives\<close>

definition pair_grid :: "nat list \<Rightarrow> nat list \<Rightarrow> pair_info list" where
  "pair_grid ps bs = concat (map (\<lambda>p. map (\<lambda>b. pair_of (of_nat p) (of_nat b)) bs) ps)"

lemma capped_row:
  "length ps \<le> n \<Longrightarrow>
     fold (\<lambda>x qs. if length qs < n then qs @ [f x] else qs) xs ps = ps @ take (n - length ps) (map f xs)"
proof (induction xs arbitrary: ps)
  case (Cons x xs)
  show ?case
  proof (cases "length ps < n")
    case True
    then have "n - length ps = Suc (n - Suc (length ps))" by simp
    with True Cons.IH [of "ps @ [f x]"] show ?thesis by simp
  qed (use Cons in simp)
qed simp

lemma capped_grid:
  "length ps \<le> n \<Longrightarrow>
     fold (\<lambda>p qs. if length qs < n
              then fold (\<lambda>b rs. if length rs < n then rs @ [f p b] else rs) bs qs else qs) xs ps =
     ps @ take (n - length ps) (concat (map (\<lambda>p. map (f p) bs) xs))"
proof (induction xs arbitrary: ps)
  case (Cons p xs)
  show ?case
  proof (cases "length ps < n")
    case True
    let ?row = "take (n - length ps) (map (f p) bs)"
    have "fold (\<lambda>b rs. if length rs < n then rs @ [f p b] else rs) bs ps = ps @ ?row"
      using Cons.prems by (rule capped_row)
    moreover have "length (ps @ ?row) \<le> n" using Cons.prems by auto
    moreover have "n - length (ps @ ?row) = n - length ps - length bs" by simp
    ultimately show ?thesis using True Cons.IH [of "ps @ ?row"] by (simp del: length_append)
  qed (use Cons in simp)
qed simp

lemma buildPairs_eq:
  "buildPairs w n = take n (pair_grid [1..<numPPS w + 1] [1..<numBinTags w + 1])"
  using capped_grid [of "[]" n "\<lambda>p b. pair_of (of_nat p) (of_nat b)" "[1..<numBinTags w + 1]"
      "[1..<numPPS w + 1]"]
  by (simp add: buildPairs_def pair_grid_def)

lemma length_pair_grid [simp]: "length (pair_grid ps bs) = length ps * length bs"
  by (induction ps) (simp_all add: pair_grid_def)

lemma buildPairs_pod:
  "buildPairs w (PairsPerPod w) = pair_grid [1..<numPPS w + 1] [1..<numBinTags w + 1]"
  by (simp add: buildPairs_eq PairsPerPod_def)

lemma keys_grid:
  "map Key (pair_grid ps bs) =
     map (\<lambda>(p, b). MakePairKey (of_nat p) (of_nat b)) (List.product ps bs)"
  by (induction ps) (simp_all add: pair_grid_def comp_def)

lemma of_nat_u32_inj:
  "(of_nat a :: u32) = of_nat b \<longleftrightarrow> a = b" if "a < 2 ^ 32" "b < 2 ^ 32"
  using that by (simp add: word_unat_eq_iff unat_of_nat take_bit_eq_mod)

lemma distinct_keys_grid:
  assumes "distinct ps" "distinct bs" "\<forall>p \<in> set ps. p < 2 ^ 32" "\<forall>b \<in> set bs. b < 2 ^ 32"
  shows "distinct (map Key (pair_grid ps bs))"
proof -
  have "inj_on (\<lambda>(p, b). MakePairKey (of_nat p) (of_nat b)) (set ps \<times> set bs)"
    using assms(3,4) of_nat_u32_inj by (auto simp: inj_on_def)
  then show ?thesis using assms(1,2) by (simp add: keys_grid distinct_map distinct_product)
qed

lemma pair_grid_wf: "pending_wf (pair_grid ps bs)"
  by (auto simp: pending_wf_def pair_grid_def)

lemma setup_topology_val:
  assumes "pending_wf ps"
  shows "val (setup_topology ps) k = (if k \<in> Key ` set ps then Some StatusActive else None)"
proof -
  have "val (fold (\<lambda>p t. Activate (PPSID p) (BinTagID p) (AddWarmingUp (PPSID p) (BinTagID p) t)) ps t) k =
      (if k \<in> Key ` set ps then Some StatusActive else val t k)" for t
    using assms by (induction ps arbitrary: t) (auto simp: topo_val)
  then show ?thesis by (simp add: setup_topology_def NewTopologyState_def)
qed

lemma env_override_cases:
  "env_override v good assign cfg = cfg \<or>
     (\<exists>n. Atoi v = Some n \<and> good n \<and> env_override v good assign cfg = assign n cfg)"
  by (auto simp: env_override_def split: option.split)

lemma keys_pod:
  "Key ` set (pair_grid [1..<m + 1] [1..<n + 1]) =
     {MakePairKey (of_nat p) (of_nat b) |p b. p \<in> {1..m} \<and> b \<in> {1..n}}"
proof -
  have "Key ` set (pair_grid [1..<m + 1] [1..<n + 1]) =
      set (map Key (pair_grid [1..<m + 1] [1..<n + 1]))" by simp
  also have "\<dots> = (\<lambda>(p, b). MakePairKey (of_nat p) (of_nat b)) ` ({1..m} \<times> {1..n})"
    unfolding keys_grid set_map set_product set_upt by (simp add: atLeastLessThanSuc_atLeastAtMost)
  also have "\<dots> = {MakePairKey (of_nat p) (of_nat b) |p b. p \<in> {1..m} \<and> b \<in> {1..n}}"
    by (fastforce simp del: MakePairKey_eq_iff)
  finally show ?thesis .
qed

lemma main_setup_parts:
  assumes "main_setup w cores env = (e, s)"
    and "ps = pair_grid [1..<numPPS w + 1] [1..<numBinTags w + 1]"
  shows "Pairs e = slice_of ps" "Topology e = setup_topology ps" "s = NewPriorityServer ps"
    "length ps = PairsPerPod w"
  using assms(1) unfolding main_setup_def Let_def buildPairs_pod assms(2) [symmetric] NewComputeEngine_def
  by (auto simp: assms(2) PairsPerPod_def)

lemma main_setup_inv:
  assumes "workload_ok w"
  shows "pure_inv w (fst (main_setup w cores env))"
  using assms by (simp add: main_setup_def Let_def engine_inv_New NewDoubleBuffer_def Load_def)

end
