(* ===== verification/Pair_Life_Cycle.thy ===== *)
theory Pair_Life_Cycle
  imports Priority_Server
begin

text \<open>
  What happens to a pair across the components: the handlers of the engine, the next cycle,
  the promotion, and the requests of a client whose server's index is fresh or stale.
\<close>

section \<open>After a cycle\<close>

lemma cycle_post:
  assumes "pure_inv w e" and "sort_contract rt"
    and run: "RunCycleWithDict rt w clk update e = Inr (stats, e')"
  shows "pure_inv w e' \<and> Pairs e' = Pairs e \<and>
         ranked_buffer w (slen (Pairs e))
           (pair_tables w (now_secs clk) (e'\<lparr>Topology := Topology e\<rparr>)) (Load (DB e')) \<and>
         Meta (Registry e') = map (purge_meta (now_secs clk)) (Meta (Registry e)) \<and>
         promoted (pendingWarmup e) (Topology e) (Topology e')"
  using cycle_ok [OF assms(1,2), of clk update] run by (auto simp: store_after_cycle_def)

lemma promoted_val:
  "promoted ps t t' \<Longrightarrow>
     val t' k = (if val t k = Some StatusWarmingUp \<and> k \<in> Key ` set ps then Some StatusActive else val t k)"
  by (simp add: promoted_def)

section \<open>Adding a pair\<close>

text \<open>
  The pure handler records the pair for promotion but does not rank it: after the next cycle
  the pair is active, and neither way of refreshing the index serves it.
\<close>

lemma added_pair_not_served:
  assumes inv: "pure_inv w e" and rt: "sort_contract rt" and K: "0 < TopK w"
    and new: "MakePairKey p b \<notin> Key ` set (elems (Pairs e))"
    and run: "RunCycleWithDict rt w clk update (HandleAddPair p b e) = Inr (stats, e')"
    and req: "rPPSID req = p" "rBinTagID req = b"
  shows "val (Topology e') (MakePairKey p b) = Some StatusActive \<and>
         (\<exists>msg. GetTopK w (Topology e') (DB e') req (RefreshPairIndex (elems (Pairs e')) s) =
            Inr (Inl (ApiError GRPCNotFound msg))) \<and>
         GetTopK w (Topology e') (DB e') req (RefreshPairIndex (elems (Pairs e') @ [pair_of p b]) s) =
           Inl SliceOutOfRange"
proof -
  let ?e1 = "HandleAddPair p b e" and ?k = "MakePairKey p b"
  have inv1: "pure_inv w ?e1" by (rule engine_inv_topology [OF inv])
  note post = cycle_post [OF inv1 rt run]
  have pairs: "Pairs e' = Pairs e" using post by (simp add: HandleAddPair_def Let_def)
  have "val (Topology ?e1) ?k = Some StatusWarmingUp" "?k \<in> Key ` set (pendingWarmup ?e1)"
    by (simp_all add: HandleAddPair_def Let_def topo_val)
  then have active: "val (Topology e') ?k = Some StatusActive"
    using post promoted_val by fastforce
  let ?ps = "elems (Pairs e')"
  have none: "build_index ?ps ?k = None" using new by (simp add: build_index_None pairs)
  then have "build_index (?ps @ [pair_of p b]) ?k = Some (length ?ps)"
    by (simp add: build_index_def enumerate_append_eq)
  moreover have "NumPairs (Load (DB e')) = length ?ps" "rb_wf w (Load (DB e'))"
    using post inv by (simp_all add: ranked_buffer_def pairs engine_inv_def length_elems
        HandleAddPair_def Let_def)
  ultimately have "GetTopK w (Topology e') (DB e') req (RefreshPairIndex (?ps @ [pair_of p b]) s) =
      Inl SliceOutOfRange"
    using GetTopK_stale_row [of "Topology e'" req _ "length ?ps" w "DB e'"] active K req
    by (simp add: refresh_eq)
  moreover have "\<exists>msg. GetTopK w (Topology e') (DB e') req (RefreshPairIndex ?ps s) =
      Inr (Inl (ApiError GRPCNotFound msg))"
    using active none req
    by (simp add: GetTopK_def Get_def map_zero_def Let_def refresh_eq)
  ultimately show ?thesis using active by blast
qed

text \<open>The cgo handler adds the pair to the ranked ones, so the next cycle ranks it.\<close>

lemma cgo_added_pair:
  assumes "slice_wf (Pairs e)"
  shows "\<exists>i < slen (Pairs (cgo_HandleAddPair p b e)).
           Key (elems (Pairs (cgo_HandleAddPair p b e)) ! i) = MakePairKey p b"
proof -
  let ?e1 = "cgo_HandleAddPair p b e"
  have "slice_wf (Pairs ?e1)"
    using assms append_pair_ok by (simp add: cgo_HandleAddPair_def Let_def)
  moreover have "MakePairKey p b \<in> Key ` set (elems (Pairs ?e1))"
    using append_pair_ok [OF assms, of "pair_of p b"]
    by (auto simp: cgo_HandleAddPair_def Let_def list_ex_iff intro: rev_image_eqI)
  ultimately show ?thesis by (auto simp: in_set_conv_nth length_elems image_iff)
qed

lemma cgo_added_keys:
  assumes "slice_wf (Pairs e)" and "distinct (map Key (elems (Pairs e)))"
  shows "distinct (map Key (elems (Pairs (cgo_HandleAddPair p b e))))"
  using assms append_pair_ok [OF assms(1), of "pair_of p b"]
  by (auto simp: cgo_HandleAddPair_def Let_def list_ex_iff)

lemma cgo_added_pair_served:
  assumes inv: "cgo_inv w e" and rt: "sort_contract rt" and rows: "cgo_rows_ok (cgo_HandleAddPair p b e)"
    and safe: "update_safe w (cgo_update_deltas rt update
        (fold RemoveOrder (expired_ids (now_secs clk) (Registry e)) (Indexes e)))"
    and keys: "distinct (map Key (elems (Pairs e)))"
    and run: "cgo_RunCycleWithDict rt w clk update (cgo_HandleAddPair p b e) = Inr (stats, e')"
    and req: "rPPSID req = p" "rBinTagID req = b"
  shows "val (Topology e') (MakePairKey p b) = Some StatusActive \<and>
         (\<exists>i tabs r. i < slen (Pairs e') \<and> cgo_pair_tables w (now_secs clk) e' i = Some tabs \<and>
            Key (elems (Pairs e') ! i) = MakePairKey p b \<and>
            cgo_GetTopK w (Topology e') (DB e') req (cgo_NewPriorityServer (elems (Pairs e'))) =
              Inr (Inr r) \<and>
            response_is (cgo_best_of w (K req)) tabs r)"
proof -
  let ?e1 = "cgo_HandleAddPair p b e" and ?k = "MakePairKey p b"
  have wf: "slice_wf (Pairs e)" using inv by (simp add: engine_inv_def)
  have inv1: "cgo_inv w ?e1" by (rule engine_inv_topology [OF inv])
  have store: "Registry ?e1 = Registry e" "Indexes ?e1 = Indexes e"
    by (simp_all add: cgo_HandleAddPair_def Let_def)
  have safe1: "update_safe w (cgo_update_deltas rt update
      (fold RemoveOrder (expired_ids (now_secs clk) (Registry ?e1)) (Indexes ?e1)))"
    using safe by (simp add: store)
  from cgo_cycle_ok [OF inv1 rt rows safe1] run
  have post: "store_after_cycle w (now_secs clk) (cgo_update_deltas rt update) (cNumPPS (Matrix ?e1))
      (cell w (c_view (Matrix ?e1))) (cell w (c_view (Matrix e'))) ?e1 e'"
    "\<forall>k. val (Topology e') k =
       (if k \<in> Key ` set (pendingWarmup ?e1) then Some StatusActive else val (Topology ?e1) k)"
    by auto
  have "?k \<in> Key ` set (pendingWarmup ?e1)" by (simp add: cgo_HandleAddPair_def Let_def)
  then have active: "val (Topology e') ?k = Some StatusActive" using post(2) by simp
  obtain i where i: "i < slen (Pairs ?e1)" "Key (elems (Pairs ?e1) ! i) = ?k"
    using cgo_added_pair [OF wf] by blast
  have "Pairs e' = Pairs ?e1" using post(1) by (simp add: store_after_cycle_def)
  with cgo_served_ok [OF inv1 rt rows safe1 run cgo_added_keys [OF wf keys] i(1), of req] i active req
  show ?thesis by auto
qed

section \<open>Removing a pair\<close>

lemma removed_pair_stays:
  assumes inv: "pure_inv w e" and rt: "sort_contract rt"
    and run: "RunCycleWithDict rt w clk update (HandleRemovePair p b e) = Inr (stats, e')"
    and req: "rPPSID req = p" "rBinTagID req = b"
  shows "elems (Pairs e') = filter (\<lambda>x. Key x \<noteq> MakePairKey p b) (elems (Pairs e)) \<and>
         val (Topology e') (MakePairKey p b) = Some StatusRemoved \<and>
         (\<exists>msg. GetTopK w (Topology e') (DB e') req s = Inr (Inl (ApiError GRPCNotFound msg)))"
proof -
  let ?e1 = "HandleRemovePair p b e" and ?k = "MakePairKey p b"
  have inv1: "pure_inv w ?e1" by (rule engine_inv_topology [OF inv])
  note post = cycle_post [OF inv1 rt run]
  have "slice_wf (Pairs e)" using inv by (simp add: engine_inv_def)
  then have "elems (Pairs e') = filter (\<lambda>x. Key x \<noteq> ?k) (elems (Pairs e))"
    using post filter_in_place_ok(1) by (simp add: HandleRemovePair_def Let_def)
  moreover have removed: "val (Topology e') ?k = Some StatusRemoved"
    using post promoted_val [of "pendingWarmup ?e1" "Topology ?e1" "Topology e'" ?k]
    by (simp add: HandleRemovePair_def Let_def topo_val)
  moreover have "\<exists>msg. GetTopK w (Topology e') (DB e') req s = Inr (Inl (ApiError GRPCNotFound msg))"
    using removed req by (intro GetTopK_not_found) simp
  ultimately show ?thesis by blast
qed

text \<open>
  In the cgo implementation a pair that is removed before it has been promoted comes back
  with the next cycle, though it is no longer ranked.
\<close>

lemma cgo_removed_pair_revived:
  assumes "pending_wf (pendingWarmup e)" and "slice_wf (Pairs e)"
  shows "let e' = cgo_promoteWarmingPairs (cgo_HandleRemovePair p b (cgo_HandleAddPair p b e))
         in val (Topology e') (MakePairKey p b) = Some StatusActive \<and>
            MakePairKey p b \<notin> Key ` set (elems (Pairs e'))"
proof -
  let ?e1 = "cgo_HandleAddPair p b e"
  have wf: "slice_wf (Pairs ?e1)"
    using assms(2) append_pair_ok by (simp add: cgo_HandleAddPair_def Let_def)
  have "pending_wf (pendingWarmup ?e1)" using assms(1) by (simp add: cgo_HandleAddPair_def Let_def)
  then show ?thesis
    using filter_in_place_ok(1) [OF wf]
    by (simp add: cgo_promoteWarmingPairs_def cgo_HandleRemovePair_def cgo_promote_val Let_def)
      (auto simp: cgo_HandleAddPair_def Let_def)
qed

lemma removed_pair_not_revived:
  assumes "pending_wf (pendingWarmup e)"
  shows "val (Topology (promoteWarmingPairs (HandleRemovePair p b (HandleAddPair p b e))))
           (MakePairKey p b) = Some StatusRemoved"
proof -
  let ?t = "Remove p b (AddWarmingUp p b (Topology e))" and ?ps = "pendingWarmup e @ [pair_of p b]"
  have "pending_wf ?ps" using assms by simp
  note promote_all_val [OF this, of ?t "[]" "MakePairKey p b"]
  then have "val (fst (fold promote_one ?ps (?t, []))) (MakePairKey p b) = Some StatusRemoved"
    by (simp only: topo_val) simp
  moreover have "Topology (HandleRemovePair p b (HandleAddPair p b e)) = ?t"
    "pendingWarmup (HandleRemovePair p b (HandleAddPair p b e)) = ?ps"
    by (simp_all add: HandleRemovePair_def HandleAddPair_def Let_def)
  ultimately show ?thesis by (simp only: promote_engine)
qed

section \<open>A stale index\<close>

lemma filter_one:
  assumes "distinct (map f xs)" and "i < length xs"
  shows "filter (\<lambda>x. f x \<noteq> f (xs ! i)) xs = take i xs @ drop (Suc i) xs"
proof -
  have xs: "xs = take i xs @ xs ! i # drop (Suc i) xs" using assms(2) by (simp add: id_take_nth_drop)
  have neq: "f x \<noteq> f (xs ! i)" if "x \<in> set (take i xs) \<union> set (drop (Suc i) xs)" for x
  proof -
    have "distinct (map f (take i xs @ xs ! i # drop (Suc i) xs))" using assms(1) xs by simp
    then have "f (xs ! i) \<notin> f ` (set (take i xs) \<union> set (drop (Suc i) xs))" by auto
    moreover have "f x \<in> f ` (set (take i xs) \<union> set (drop (Suc i) xs))" using that by (rule imageI)
    ultimately show ?thesis by metis
  qed
  have "filter (\<lambda>x. f x \<noteq> f (xs ! i)) (take i xs @ xs ! i # drop (Suc i) xs) =
      take i xs @ drop (Suc i) xs"
    using neq by (simp add: filter_id_conv)
  with xs show ?thesis by simp
qed

text \<open>
  After a removal the rows of the later pairs move down by one.  A server that has not
  refreshed its index reads another pair's row, and panics for the last pair.
\<close>

lemma stale_index:
  assumes inv: "pure_inv w e" and rt: "sort_contract rt" and K: "0 < TopK w"
    and keys: "distinct (map Key (elems (Pairs e)))"
    and i: "Suc i < slen (Pairs e)" "Key (elems (Pairs e) ! i) = MakePairKey p b"
    and last: "Key (last (elems (Pairs e))) = MakePairKey (rPPSID req) (rBinTagID req)"
    and active: "val (Topology e) (Key (last (elems (Pairs e)))) = Some StatusActive"
    and run: "RunCycleWithDict rt w clk update (HandleRemovePair p b e) = Inr (stats, e')"
  shows "GetTopK w (Topology e') (DB e') req (NewPriorityServer (elems (Pairs e))) = Inl SliceOutOfRange \<and>
         elems (Pairs e') = take i (elems (Pairs e)) @ drop (Suc i) (elems (Pairs e))"
proof -
  let ?ps = "elems (Pairs e)" and ?e1 = "HandleRemovePair p b e"
  have wf: "slice_wf (Pairs e)" using inv by (simp add: engine_inv_def)
  then have len: "length ?ps = slen (Pairs e)" by (rule length_elems)
  have inv1: "pure_inv w ?e1" by (rule engine_inv_topology [OF inv])
  note post = cycle_post [OF inv1 rt run]
  have "elems (Pairs e') = filter (\<lambda>x. Key x \<noteq> Key (?ps ! i)) ?ps"
    using post filter_in_place_ok(1) [OF wf] i(2) by (simp add: HandleRemovePair_def Let_def)
  then have pairs: "elems (Pairs e') = take i ?ps @ drop (Suc i) ?ps"
    using filter_one [OF keys] i(1) len by simp
  have lst: "last ?ps = ?ps ! (length ?ps - 1)" using i(1) len by (intro last_conv_nth) auto
  have neq: "Key (last ?ps) \<noteq> MakePairKey p b"
    using nth_eq_iff_index_eq [OF keys, of i "length ?ps - 1"] i len unfolding lst by fastforce
  have idx: "PairIndex (NewPriorityServer ?ps) (MakePairKey (rPPSID req) (rBinTagID req)) = Some (length ?ps - 1)"
    using build_index_distinct [OF keys, of "length ?ps - 1"] last i(1) len lst by (simp add: refresh_eq)
  have act: "val (Topology e') (MakePairKey (rPPSID req) (rBinTagID req)) = Some StatusActive"
    using post promoted_val [of "pendingWarmup ?e1" "Topology ?e1" "Topology e'"] active last neq
    by (simp add: HandleRemovePair_def Let_def topo_val)
  have "NumPairs (Load (DB e')) = slen (Pairs e')" "rb_wf w (Load (DB e'))" "slice_wf (Pairs e')"
    using post inv1 by (simp_all add: ranked_buffer_def engine_inv_def)
  then have "NumPairs (Load (DB e')) = length ?ps - 1" "rb_wf w (Load (DB e'))"
    using length_elems [of "Pairs e'"] pairs i(1) len by simp_all
  with GetTopK_stale_row [OF act idx] K pairs show ?thesis by simp
qed

section \<open>A removed order\<close>

definition unlisted :: "workload \<Rightarrow> nat \<Rightarrow> read_buffer \<Rightarrow> u32 \<Rightarrow> bool" where
  "unlisted w n buf oid \<longleftrightarrow> (\<forall>p < n. \<forall>t < NumTables. oid \<notin> set (rb_list w buf p t))"

lemma removed_order_unlisted:
  assumes inv: "pure_inv w e" and rt: "sort_contract rt" and oid: "unat oid < NumOrders w"
    and gone: "HandleOrderRemoved w oid e = Inr e1"
    and run: "RunCycleWithDict rt w clk update e1 = Inr (stats, e')"
  shows "unlisted w (slen (Pairs e')) (Load (DB e')) oid"
proof -
  from handle_removed_ok [OF inv, of oid] gone have 1: "pure_inv w e1"
    "\<forall>j < NumOrders w. Meta (Registry e1) ! j =
       (if j = unat oid \<and> Active (Meta (Registry e) ! j) then deactivated (Meta (Registry e) ! j)
        else Meta (Registry e) ! j)"
    by auto
  note post = cycle_post [OF 1(1) rt run]
  have len: "length (Meta (Registry e1)) = NumOrders w" and ok: "workload_ok w"
    using 1(1) by (simp_all add: engine_inv_def store_inv_def registry_inv_def)
  have "\<not> Active (Meta (Registry e1) ! unat oid)" using 1(2) oid by simp
  then have inactive: "\<not> Active (Meta (Registry e') ! unat oid)"
    using post oid len by (simp add: purge_meta_def)
  have "oid \<noteq> -1" using order_not_minus_one [OF ok oid] .
  then show ?thesis
    using published_orders [OF 1(1) rt run, of _ _ oid] inactive post
    unfolding unlisted_def by auto
qed

section \<open>A bin tag without orders\<close>

text \<open>
  Where no order is listed under the bin tag of a pair, the pure ranking falls back to all
  active orders, so that some order is published for the pair though none is eligible.
\<close>

lemma fallback_orders:
  assumes inv: "pure_inv w e" and rt: "sort_contract rt"
    and run: "RunCycleWithDict rt w clk update e = Inr (stats, e')"
    and p: "p < slen (Pairs e)" and topk: "0 < TopK w"
    and status: "val (Topology e) (Key (elems (Pairs e) ! p)) \<noteq> Some StatusRemoved"
    and unlisted: "bintag_orders (Indexes e') (BinTagID (elems (Pairs e) ! p)) = []"
    and oid: "unat (oid :: u32) < NumOrders w" "Active (Meta (Registry e') ! unat oid)"
  shows "\<exists>v \<in> set (rb_list w (Load (DB e')) p TblHeuristic). v \<noteq> -1"
proof -
  from cycle_ok [OF inv rt, of clk update] run have c: "pure_inv w e'" "Pairs e' = Pairs e"
    "ranked_buffer w (slen (Pairs e))
       (pair_tables w (now_secs clk) (e'\<lparr>Topology := Topology e\<rparr>)) (Load (DB e'))"
    by (auto simp: store_after_cycle_def)
  let ?oids = "map of_nat [0..<NumOrders w] :: u32 list"
  let ?score = "\<lambda>oid. cell w (Matrix e') (pair_row (NumPPS (Matrix e')) (elems (Pairs e) ! p)) (unat oid)"
  let ?xs = "map (\<lambda>oid. entry (scast (?score oid)) oid) (candidates (Registry e') ?oids)"
  have "ranked_slot w (Some (table_entries (now_secs clk) (Registry e') ?score ?oids)) TblHeuristic
      (rb_list w (Load (DB e')) p TblHeuristic)"
    using ranked_buffer_slot [OF c(3) p, of TblHeuristic] status unlisted
    by (simp add: pair_tables_def pair_orders_def Let_def c(2) table_defs)
  then obtain ys where ys: "top_k (TopK w) ?xs ys"
    "rb_list w (Load (DB e')) p TblHeuristic = map orderID ys @ replicate (TopK w - length ys) (-1)"
    by (auto simp: ranked_slot_def tbl_def table_entries_def Let_def)
  have ok: "workload_ok w" using c(1) by (simp add: engine_inv_def)
  have "oid = of_nat (unat oid)" by simp
  then have "oid \<in> set ?oids" using oid(1) by force
  then have "oid \<in> set (candidates (Registry e') ?oids)" using oid(2) by (simp add: candidates_def)
  then have "0 < length (candidates (Registry e') ?oids)" by (rule length_pos_if_in_set)
  then have "0 < length ys" using top_k_length [OF ys(1)] topk by (simp only: length_map min_less_iff_conj)
  then have "ys \<noteq> []" by simp
  then have y: "hd ys \<in> set ys" by simp
  then have "hd ys \<in> set ?xs" using top_k_set [OF ys(1)] by blast
  then have "orderID (hd ys) \<in> set ?oids" by (auto simp: candidates_def)
  then have "unat (orderID (hd ys)) < NumOrders w" using order_at [OF ok] by auto
  then have "orderID (hd ys) \<noteq> -1" by (rule order_not_minus_one [OF ok])
  then show ?thesis using y ys(2) by (intro bexI [of _ "orderID (hd ys)"]) auto
qed

section \<open>A PPS without a row\<close>

text \<open>
  The cgo matrix is not indexed but addressed: a ranked pair whose PPS ID is not a row reads
  past the block at its first active order.
\<close>

lemma cgo_row_unsafe:
  assumes inv: "cgo_inv w e" and p: "p < slen (Pairs e)"
    and pps: "cNumPPS (Matrix e) \<le> unat (PPSID (elems (Pairs e) ! p))"
    and oid: "oid \<in> set (bintag_orders (Indexes e) (BinTagID (elems (Pairs e) ! p)))"
      "Active (Meta (Registry e) ! unat oid)"
  shows "cgo_fill_scratch w now e p sc = Inl UnsafeAccess"
proof -
  let ?pair = "elems (Pairs e) ! p" and ?reg = "Registry e"
  from inv have i: "length (Meta ?reg) = NumOrders w" "index_range w (Indexes e)" "c_wf w (Matrix e)"
    "slice_wf (Pairs e)"
    by (simp_all add: engine_inv_def store_inv_def registry_inv_def)
  obtain c where c: "ptr (Matrix e) = Some c" "length c = cNumPPS (Matrix e) * NumOrders w"
    using i(3) by (auto simp: c_wf_def matrix_wf_def c_view_def)
  have "cNumPPS (Matrix e) * NumOrders w \<le> cgo_Row w (unat (PPSID ?pair))"
    unfolding cgo_Row_def using pps by (rule mult_le_mono1)
  with c have read: "row_read w (Matrix e) (cgo_Row w (unat (PPSID ?pair))) j = Inl UnsafeAccess"
    if "j < NumOrders w" for j
    using that by (simp add: row_read_def mem_read_def)
  have "gfold (cgo_scan_order w now crit ?reg (Matrix e) (cgo_Row w (unat (PPSID ?pair)))) oids s =
      Inl UnsafeAccess"
    if "\<forall>x \<in> set oids. unat x < NumOrders w" "\<exists>x \<in> set oids. Active (Meta ?reg ! unat x)" for oids crit s
    using that
  proof (induction oids arbitrary: s)
    case (Cons x oids)
    then show ?case
      using i(1) read [of "unat x"] by (auto simp: cgo_scan_order_def go_simps)
  qed simp
  moreover have "\<forall>x \<in> set (bintag_orders (Indexes e) (BinTagID ?pair)). unat x < NumOrders w"
    using i(2) by (simp add: index_range_def)
  ultimately have "gfold (cgo_scan_order w now (now + CriticalCutoff) ?reg (Matrix e)
      (cgo_Row w (unat (PPSID ?pair)))) (bintag_orders (Indexes e) (BinTagID ?pair)) empty_scratch =
      Inl UnsafeAccess"
    using oid by blast
  then show ?thesis
    using p length_elems [OF i(4)]
    by (simp add: cgo_fill_scratch_def go_simps Let_def bintag_orders_def)
qed

end
