(* ===== verification/Service_Examples.thy ===== *)
theory Service_Examples
  imports Service_Setup Pair_Life_Cycle
begin

text \<open>
  Small concrete pods, at which the properties of the root theory are applied: four order
  slots of which three are active, two PPS rows, three pairs, and lists of two.
\<close>

definition tiny :: workload where
  "tiny = \<lparr>NumOrders = 4, numPPS = 2, numBinTags = 2, TopK = 2\<rparr>"

definition tiny_pairs :: "pair_info list" where
  "tiny_pairs = [pair_of 1 1, pair_of 2 1, pair_of 1 2]"

definition tiny_meta :: "u32 \<Rightarrow> int \<Rightarrow> i64 \<Rightarrow> i64 \<Rightarrow> order_meta" where
  "tiny_meta oid qty deadline inserted =
     \<lparr>OrderID = oid, RequiredQty = F32 qty 0, PBTDeadline = deadline, Active = True,
      InsertedAtSecs = inserted\<rparr>"

text \<open>Order 1 is too old at time 10000; orders 0 and 3 are not.\<close>

definition tiny_registry :: order_registry where
  "tiny_registry =
     \<lparr>Meta = [tiny_meta 0 20 9900 9000, tiny_meta 1 2 0 1000, zero_meta, tiny_meta 3 11 15000 9000]\<rparr>"

definition tiny_indexes :: inverted_indexes where
  "tiny_indexes = AddOrder 3 [7] [1] (AddOrder 1 [7, 8] [1] (AddOrder 0 [8] [1, 2] NewInvertedIndexes))"

definition tiny_matrix :: pps_matrix where
  "tiny_matrix = \<lparr>Data = [50, 75, 0, 25, 50, 75, 0, 25], NumPPS = 2\<rparr>"

definition tiny_c_matrix :: c_matrix where
  "tiny_c_matrix = \<lparr>ptr = Some [50, 75, 0, 25, 50, 75, 0, 25], cNumPPS = 2\<rparr>"

definition tiny_with :: "'m \<Rightarrow> pair_info list \<Rightarrow> 'm compute_engine" where
  "tiny_with m ps =
     \<lparr>Matrix = m, Registry = tiny_registry, Indexes = tiny_indexes, Pairs = slice_of ps,
      DB = NewDoubleBuffer tiny 3, Topology = setup_topology tiny_pairs, numWorkers = 2,
      scratch = [], pendingWarmup = []\<rparr>"

definition tiny_engine :: "pps_matrix compute_engine" where
  "tiny_engine = tiny_with tiny_matrix tiny_pairs"

text \<open>The cgo rows are numbered from 0, so its pairs are of PPS 0 and 1.\<close>

definition tiny_c_pairs :: "pair_info list" where
  "tiny_c_pairs = [pair_of 0 1, pair_of 1 1, pair_of 0 2]"

definition tiny_c_engine :: "c_matrix compute_engine" where
  "tiny_c_engine = tiny_with tiny_c_matrix tiny_c_pairs"

definition tiny_clock :: cycle_clock where
  "tiny_clock = \<lparr>now_secs = 10000, p1_elapsed = 1, p2_elapsed = 2, total_elapsed = 3\<rparr>"

definition tiny_update :: item_dict_update where
  "tiny_update = \<lparr>TPIDDeltas = [\<lparr>TPID = 7, ScoreDelta = F32 1 (-1)\<rparr>], Timestamp = 0\<rparr>"

definition tiny_c_update :: cgo_item_dict_update where
  "tiny_c_update = \<lparr>Updates = [\<lparr>uTPID = 7, OldContrib = F32 0 0, NewContrib = F32 1 (-1)\<rparr>]\<rparr>"

definition tiny_event :: "u32 \<Rightarrow> kafka_order_event" where
  "tiny_event oid = \<lparr>evOrderID = oid, evRequiredQty = F32 20 0, evPBTDeadline = 9950,
     evBaseScore = F32 1 (-1), TPIDs = [7], EligibleBinTags = [1], evActive = True\<rparr>"

definition tiny_c_event :: "u32 \<Rightarrow> cgo_kafka_order_event" where
  "tiny_c_event oid = \<lparr>cevOrderID = oid, cevRequiredQty = F32 20 0, cevPBTDeadline = 9950,
     cevTPIDs = [7], cevEligibleBinTags = [1], cevBaseScore = F32 1 (-1)\<rparr>"

definition tiny_request :: "u32 \<Rightarrow> u32 \<Rightarrow> get_topk_request" where
  "tiny_request p b = \<lparr>rPPSID = p, rBinTagID = b, K = 1\<rparr>"

section \<open>They are well-formed\<close>

lemma tiny_ok: "workload_ok tiny"
  by (simp add: workload_ok_def tiny_def)

lemma tiny_simps [simp]:
  "NumOrders tiny = 4" "numPPS tiny = 2" "numBinTags tiny = 2" "TopK tiny = 2"
  by (simp_all add: tiny_def)

lemma less_four: "i < (4 :: nat) \<longleftrightarrow> i = 0 \<or> i = 1 \<or> i = 2 \<or> i = 3"
  by auto

lemma tiny_registry_inv: "registry_inv tiny tiny_registry"
  by (auto simp: registry_inv_def tiny_registry_def tiny_meta_def zero_meta_def less_four)

lemma tiny_indexes_inv: "index_inv tiny_indexes" "index_range tiny tiny_indexes"
  by (simp_all add: tiny_indexes_def index_inv_AddOrder index_inv_New index_range_AddOrder
      index_range_New)

lemma tiny_matrix_wf: "matrix_wf tiny tiny_matrix" "NumPPS tiny_matrix = 2"
  by (simp_all add: matrix_wf_def tiny_matrix_def)

lemma tiny_c_matrix_wf: "c_wf tiny tiny_c_matrix" "cNumPPS tiny_c_matrix = 2"
  by (simp_all add: c_wf_def c_view_def matrix_wf_def tiny_c_matrix_def c_fits_def tiny_def)

lemma tiny_buffer_wf: "rb_wf tiny (Load (NewDoubleBuffer tiny 3))"
  by (simp add: NewDoubleBuffer_def Load_def)

lemma tiny_store_inv:
  "store_inv tiny (matrix_wf tiny) (tiny_registry, tiny_indexes, tiny_matrix)"
  "store_inv tiny (c_wf tiny) (tiny_registry, tiny_indexes, tiny_c_matrix)"
  by (simp_all add: store_inv_def tiny_registry_inv tiny_indexes_inv tiny_matrix_wf tiny_c_matrix_wf)

lemma tiny_inv: "pure_inv tiny tiny_engine"
  by (simp add: engine_inv_def tiny_engine_def tiny_with_def tiny_ok tiny_store_inv tiny_matrix_wf
      tiny_buffer_wf)

lemma tiny_c_inv: "cgo_inv tiny tiny_c_engine"
  by (simp add: engine_inv_def tiny_c_engine_def tiny_with_def tiny_ok tiny_store_inv
      tiny_c_matrix_wf tiny_buffer_wf)

lemma tiny_c_rows: "cgo_rows_ok tiny_c_engine"
  by (simp add: cgo_rows_ok_def tiny_c_engine_def tiny_with_def tiny_c_pairs_def tiny_c_matrix_wf)

lemma tiny_engine_simps [simp]:
  "elems (Pairs tiny_engine) = tiny_pairs" "slen (Pairs tiny_engine) = 3"
  "Registry tiny_engine = tiny_registry" "Indexes tiny_engine = tiny_indexes"
  "Matrix tiny_engine = tiny_matrix" "Topology tiny_engine = setup_topology tiny_pairs"
  "pendingWarmup tiny_engine = []"
  by (simp_all add: tiny_engine_def tiny_with_def tiny_pairs_def)

lemma tiny_c_engine_simps [simp]:
  "elems (Pairs tiny_c_engine) = tiny_c_pairs" "slen (Pairs tiny_c_engine) = 3"
  "Registry tiny_c_engine = tiny_registry" "Indexes tiny_c_engine = tiny_indexes"
  "Matrix tiny_c_engine = tiny_c_matrix" "Topology tiny_c_engine = setup_topology tiny_pairs"
  "pendingWarmup tiny_c_engine = []"
  by (simp_all add: tiny_c_engine_def tiny_with_def tiny_c_pairs_def)

lemma tiny_topology [simp]:
  "val (setup_topology tiny_pairs) k = (if k \<in> Key ` set tiny_pairs then Some StatusActive else None)"
  by (rule setup_topology_val) (simp add: tiny_pairs_def)

lemma tiny_keys: "distinct (map Key tiny_pairs)" "Key ` set tiny_pairs =
    {MakePairKey 1 1, MakePairKey 2 1, MakePairKey 1 2}"
  by (simp_all add: tiny_pairs_def)

lemma tiny_expired: "expired_ids 10000 tiny_registry = [1]"
  by (simp add: expired_ids_def tiny_registry_def tiny_meta_def zero_meta_def expired_def
      OrderTTLSecs_def)

text \<open>What the examples compute.\<close>

lemma tiny_tpid_orders: "tpid_orders tiny_indexes t =
    (if t = 7 then [1, 3] else if t = 8 then [0, 1] else [])"
  by (simp add: tiny_indexes_def tpid_orders_AddOrder index_inv_AddOrder index_inv_New)
    (simp add: NewInvertedIndexes_def tpid_orders_def)

lemma tiny_bintag_orders: "bintag_orders tiny_indexes b =
    (if b = 1 then [0, 1, 3] else if b = 2 then [0] else [])"
  by (simp add: tiny_indexes_def bintag_orders_AddOrder index_inv_AddOrder index_inv_New)
    (simp add: NewInvertedIndexes_def bintag_orders_def)

lemma tiny_scaled: "scale_score rt (F32 1 (-1)) = 50"
  by (simp add: scale_score_def ScoreScale_def f32_mul_half int32_of_fifty
      del: f32_mul.simps)

lemma tiny_diff: "f32_sub (F32 1 (-1)) (F32 0 0) = F32 1 (-1)"
  by code_simp

lemma tiny_c_safe:
  "update_safe tiny (cgo_update_deltas rt (Some tiny_c_update)
     (fold RemoveOrder (expired_ids 10000 tiny_registry) tiny_indexes))"
proof -
  have "order_delta (cgo_contributions rt (Updates tiny_c_update)) (RemoveOrder 1 tiny_indexes) oid =
      (if oid = 3 then 50 else 0)" for oid
    by (simp add: order_delta_def cgo_contributions_def tiny_c_update_def tiny_diff tiny_scaled
        tpid_orders_RemoveOrder tiny_indexes_inv tiny_tpid_orders del: f32_sub.simps)
  then show ?thesis
    by (simp add: update_safe_def cgo_update_deltas_def tiny_expired safe_deltas_def tiny_c_update_def)
qed

text \<open>Cycles of the examples, with the topology they end in.\<close>

lemma tiny_cycle:
  obtains stats e' where
    "RunCycleWithDict amd64_runtime tiny tiny_clock update tiny_engine = Inr (stats, e')"
    "val (Topology e') (MakePairKey 1 1) = Some StatusActive"
proof -
  from cycle_ok [OF tiny_inv sort_contract_amd64, of tiny_clock update] obtain stats e' where
    "RunCycleWithDict amd64_runtime tiny tiny_clock update tiny_engine = Inr (stats, e')"
    "promoted [] (setup_topology tiny_pairs) (Topology e')" by auto
  then show ?thesis using that by (simp add: promoted_def tiny_keys)
qed

lemma tiny_run:
  assumes "pure_inv tiny e"
  obtains stats e' where "RunCycleWithDict amd64_runtime tiny tiny_clock update e = Inr (stats, e')"
  using cycle_ok [OF assms sort_contract_amd64, of tiny_clock update] by blast

text \<open>
  What the cycle publishes for the first pair: order 1 has the best score but has expired, so
  orders 0 and 3 are listed.
\<close>

lemma tiny_published:
  obtains stats e' where
    "RunCycleWithDict amd64_runtime tiny tiny_clock None tiny_engine = Inr (stats, e')"
    "rb_list tiny (Load (DB e')) 0 TblHeuristic = [0, 3]" "bintag_orders (Indexes e') 1 = [0, 3]"
proof -
  from cycle_ok [OF tiny_inv sort_contract_amd64, of tiny_clock None] obtain stats e' where
    run: "RunCycleWithDict amd64_runtime tiny tiny_clock None tiny_engine = Inr (stats, e')"
    and n: "NumPPS (Matrix e') = 2"
    and store: "store_after_cycle tiny 10000 (update_deltas amd64_runtime None) 2 (cell tiny tiny_matrix)
        (cell tiny (Matrix e')) tiny_engine e'"
    and buf: "ranked_buffer tiny 3 (pair_tables tiny 10000 (e'\<lparr>Topology := setup_topology tiny_pairs\<rparr>)) (Load (DB e'))"
    by (auto simp: tiny_clock_def tiny_matrix_wf)
  have parts: "Pairs e' = Pairs tiny_engine" "Indexes e' = RemoveOrder 1 tiny_indexes"
    "Meta (Registry e') = map (purge_meta 10000) (Meta tiny_registry)"
    "\<forall>p < 2. \<forall>oid :: u32. unat oid < 4 \<longrightarrow> cell tiny (Matrix e') p (unat oid) =
       next_score 10000 tiny_registry None (cell tiny tiny_matrix) p oid"
    using store by (simp_all add: store_after_cycle_def tiny_expired update_deltas_def)
  have oids: "bintag_orders (Indexes e') 1 = [0, 3]"
    by (simp add: parts(2) bintag_orders_RemoveOrder tiny_indexes_inv tiny_bintag_orders)
  have cells: "cell tiny (Matrix e') 0 0 = 50" "cell tiny (Matrix e') 0 3 = 25"
    using parts(4) [rule_format, of 0 0] parts(4) [rule_format, of 0 3]
    by (simp_all add: next_score_def expired_def tiny_registry_def tiny_meta_def OrderTTLSecs_def cell_def tiny_matrix_def)
  have active: "Active (Meta (Registry e') ! 0)" "Active (Meta (Registry e') ! 3)"
    by (simp_all add: parts(3) purge_meta_def expired_def tiny_registry_def tiny_meta_def OrderTTLSecs_def)
  let ?xs = "[entry 50 0, entry 25 3]"
  have "pair_row (NumPPS (Matrix e')) (pair_of 1 1) = 0" by (simp add: pair_row_def n)
  then obtain tabs where tabs: "pair_tables tiny 10000 (e'\<lparr>Topology := setup_topology tiny_pairs\<rparr>) 0 = Some tabs"
      "tbl tabs TblHeuristic = ?xs"
    using oids cells active
    by (simp add: pair_tables_def Let_def parts(1) tbl_def table_defs tiny_keys)
      (simp add: tiny_pairs_def table_entries_def pair_orders_def candidates_def Let_def)
  then obtain ys where ys: "top_k 2 ?xs ys" "rb_list tiny (Load (DB e')) 0 TblHeuristic =
      map orderID ys @ replicate (2 - length ys) (-1)"
    using ranked_buffer_slot [OF buf, of 0 TblHeuristic] by (auto simp: ranked_slot_def table_defs)
  have "top_k 2 ?xs ?xs" by (simp add: top_k_def)
  with ys(1) have "ys = ?xs" by (intro top_k_unique [of ?xs 2]) simp_all
  with that [OF run _ oids] ys(2) show ?thesis by simp
qed

lemma tiny_removed_inv: "pure_inv tiny (HandleRemovePair p b tiny_engine)"
  by (rule engine_inv_topology [OF tiny_inv])

lemma tiny_added_inv: "pure_inv tiny (HandleAddPair p b tiny_engine)"
  by (rule engine_inv_topology [OF tiny_inv])

lemma tiny_c_cycle:
  assumes "cgo_inv tiny e" and "cgo_rows_ok e" and "Registry e = tiny_registry" and "Indexes e = tiny_indexes"
  obtains stats e' where
    "cgo_RunCycleWithDict amd64_runtime tiny tiny_clock (Some tiny_c_update) e = Inr (stats, e')"
    "\<forall>k. val (Topology e') k =
       (if k \<in> Key ` set (pendingWarmup e) then Some StatusActive else val (Topology e) k)"
proof -
  have "update_safe tiny (cgo_update_deltas amd64_runtime (Some tiny_c_update)
      (fold RemoveOrder (expired_ids (now_secs tiny_clock) (Registry e)) (Indexes e)))"
    using tiny_c_safe assms by (simp add: tiny_clock_def)
  from cgo_cycle_ok [OF assms(1) sort_contract_amd64 assms(2) this] that show ?thesis by blast
qed

definition tiny_entries :: "score_entry list" where
  "tiny_entries = [entry 5 0, entry (-3) 1, entry 9 2, entry 5 3, entry 7 4]"

lemma tiny_pool: "pool_size tiny_engine 3 = 2" "pool_size tiny_engine 2 = 2"
  by (simp_all add: pool_size_def tiny_engine_def tiny_with_def)

end
