(* ===== verification/Go_Random.thy ===== *)
theory Go_Random
  imports Service_Types
begin

text \<open>
  The source of random numbers of the mock clients, \<^verbatim>\<open>*rand.Rand\<close> of
  \<^verbatim>\<open>math/rand\<close>.  Its algorithm is a parameter: a type of generator states and the draws
  from them.  What the library documents is \<open>rand_contract\<close>: a draw of
  \<^verbatim>\<open>Intn(n)\<close> or \<^verbatim>\<open>Int63n(n)\<close> is in \<open>[0, n)\<close> and panics for \<open>n \<le> 0\<close>; a draw of a
  float is in \<open>[0, 1)\<close>.
\<close>

record 'g go_rand =
  NewSource :: "i64 \<Rightarrow> 'g"
  draw_int :: "int \<Rightarrow> 'g \<Rightarrow> int \<times> 'g"
  draw_int63 :: "int \<Rightarrow> 'g \<Rightarrow> int \<times> 'g"
  draw_float32 :: "'g \<Rightarrow> float32 \<times> 'g"
  draw_float64 :: "'g \<Rightarrow> float64 \<times> 'g"

definition unit_float :: "float32 \<Rightarrow> bool" where
  "unit_float f \<longleftrightarrow> (\<exists>m e. f = F32 m e) \<and> 0 \<le> f32_val f \<and> f32_val f < 1"

definition rand_contract :: "'g go_rand \<Rightarrow> bool" where
  "rand_contract R \<longleftrightarrow>
     (\<forall>n g. 0 < n \<longrightarrow> 0 \<le> fst (draw_int R n g) \<and> fst (draw_int R n g) < n) \<and>
     (\<forall>n g. 0 < n \<longrightarrow> 0 \<le> fst (draw_int63 R n g) \<and> fst (draw_int63 R n g) < n) \<and>
     (\<forall>g. unit_float (fst (draw_float32 R g)))"

definition Intn :: "'g go_rand \<Rightarrow> int \<Rightarrow> 'g \<Rightarrow> (int \<times> 'g) go" where
  "Intn R n g = (if n \<le> 0 then Inl InvalidArgument else Inr (draw_int R n g))"

definition Int63n :: "'g go_rand \<Rightarrow> int \<Rightarrow> 'g \<Rightarrow> (int \<times> 'g) go" where
  "Int63n R n g = (if n \<le> 0 then Inl InvalidArgument else Inr (draw_int63 R n g))"

text \<open>A loop that fills a slice with \<open>n\<close> draws.\<close>

fun draw_list :: "('s \<Rightarrow> ('a \<times> 's) go) \<Rightarrow> nat \<Rightarrow> 's \<Rightarrow> ('a list \<times> 's) go" where
  "draw_list d 0 s = Inr ([], s)"
| "draw_list d (Suc n) s =
     gbind (d s) (\<lambda>(x, s1). gbind (draw_list d n s1) (\<lambda>(xs, s2). Inr (x # xs, s2)))"

section \<open>Draws within their range\<close>

lemma Intn_ok:
  assumes "rand_contract R" and "0 < n"
  obtains r g' where "Intn R n g = Inr (r, g')" "0 \<le> r" "r < n"
  using assms by (cases "draw_int R n g") (auto simp: Intn_def rand_contract_def, metis fst_conv)

lemma Int63n_ok:
  assumes "rand_contract R" and "0 < n"
  obtains r g' where "Int63n R n g = Inr (r, g')" "0 \<le> r" "r < n"
  using assms by (cases "draw_int63 R n g") (auto simp: Int63n_def rand_contract_def, metis fst_conv)

lemma float32_ok:
  assumes "rand_contract R"
  obtains f g' where "draw_float32 R g = (f, g')" "unit_float f"
  using assms by (cases "draw_float32 R g") (auto simp: rand_contract_def, metis fst_conv)

text \<open>
  The loop, for a draw that keeps an invariant of the state and gives elements with a
  property.
\<close>

lemma draw_list_ok:
  assumes step: "\<And>s. I s \<Longrightarrow> \<exists>x s'. d s = Inr (x, s') \<and> P x \<and> I s'" and "I s"
  shows "\<exists>xs s'. draw_list d n s = Inr (xs, s') \<and> length xs = n \<and> (\<forall>x \<in> set xs. P x) \<and> I s'"
  using assms(2)
proof (induction n arbitrary: s)
  case (Suc n)
  from step [OF Suc.prems] obtain x s1 where 1: "d s = Inr (x, s1)" "P x" "I s1" by blast
  from Suc.IH [OF 1(3)] obtain xs s2 where "draw_list d n s1 = Inr (xs, s2)" "length xs = n"
    "\<forall>x \<in> set xs. P x" "I s2" by blast
  with 1 show ?case by simp
qed simp

section \<open>A generator\<close>

text \<open>A generator that meets the contract: it counts.\<close>

definition counting_rand :: "nat go_rand" where
  "counting_rand =
     \<lparr>NewSource = unat, draw_int = (\<lambda>n g. (int g mod n, Suc g)), draw_int63 = (\<lambda>n g. (int g mod n, Suc g)),
      draw_float32 = (\<lambda>g. (F32 (int g mod 2 ^ 24) (-24), Suc g)),
      draw_float64 = (\<lambda>g. (F64 (int g mod 2 ^ 53) (-53), Suc g))\<rparr>"

lemma rand_contract_counting: "rand_contract counting_rand"
proof -
  have "unit_float (F32 (int g mod 2 ^ 24) (-24))" for g
  proof -
    have "int g mod 2 ^ 24 < 2 ^ 24" by simp
    then have "real_of_int (int g mod 2 ^ 24) < real_of_int (2 ^ 24)" by (simp only: of_int_less_iff)
    then show ?thesis by (simp add: unit_float_def power_int_minus divide_simps)
  qed
  then show ?thesis by (simp add: rand_contract_def counting_rand_def)
qed

text \<open>And one that always draws the least value.\<close>

definition still_rand :: "unit go_rand" where
  "still_rand =
     \<lparr>NewSource = (\<lambda>seed. ()), draw_int = (\<lambda>n g. (0, g)), draw_int63 = (\<lambda>n g. (0, g)),
      draw_float32 = (\<lambda>g. (F32 0 0, g)), draw_float64 = (\<lambda>g. (F64 0 0, g))\<rparr>"

lemma rand_contract_still: "rand_contract still_rand"
  by (simp add: rand_contract_def still_rand_def unit_float_def)

end
