(* ===== verification/Mock_Streams.thy ===== *)
theory Mock_Streams
  imports Go_Random Phase1_Update
begin

text \<open>
  The mock clients of \<^verbatim>\<open>mock.go\<close>, which feed both programs: the item dictionary that
  produces score updates, the stream of order events, the stream of pair events, and the
  synthetic delta vector of the benchmarks (\<^verbatim>\<open>compute.go\<close>).  A client is a record with
  the state of its random generator; an operation returns its result and the client after
  it.  The clock readings are arguments; a sleep is part of the result, as its duration.
\<close>

section \<open>The pure mock\<close>

text \<open>Durations are \<^verbatim>\<open>int64\<close> nanoseconds.\<close>

definition Millisecond :: i64 where "Millisecond = 1000000"

record 'g mock_item_dict_client =
  dict_rng :: 'g
  minLatency :: i64
  maxLatency :: i64
  numTPIDs :: int

definition NewMockItemDictClient :: "'g go_rand \<Rightarrow> i64 \<Rightarrow> 'g mock_item_dict_client" where
  "NewMockItemDictClient R unixNano =
     \<lparr>dict_rng = NewSource R unixNano, minLatency = 10 * Millisecond, maxLatency = 80 * Millisecond,
      numTPIDs = 100000\<rparr>"

text \<open>\<^verbatim>\<open>rng.Float32()*0.2 - 0.1\<close>, with the two constants as \<^verbatim>\<open>float32\<close>.\<close>

definition delta_of :: "go_runtime \<Rightarrow> float32 \<Rightarrow> float32" where
  "delta_of rt f = f32_mul_add (fuses rt) f (F32 13421773 (-26)) (F32 (-13421773) (-27))"

definition random_delta :: "'g go_rand \<Rightarrow> go_runtime \<Rightarrow> 'g \<Rightarrow> (tpid_delta \<times> 'g) go" where
  "random_delta R rt g =
     gbind (Intn R 100000 g) (\<lambda>(t, g1).
     case draw_float32 R g1 of (f, g2) \<Rightarrow>
       Inr (\<lparr>TPID = word_of_int t, ScoreDelta = delta_of rt f\<rparr>, g2))"

definition FetchUpdate ::
  "'g go_rand \<Rightarrow> go_runtime \<Rightarrow> i64 \<Rightarrow> 'g mock_item_dict_client \<Rightarrow>
     (i64 \<times> item_dict_update \<times> 'g mock_item_dict_client) go" where
  "FetchUpdate R rt now c =
     (let spread = maxLatency c - minLatency c
      in gbind (Int63n R (sint (spread + 1)) (dict_rng c)) (\<lambda>(r, g1).
         let lat = minLatency c + word_of_int r
         in if numTPIDs c < 0 then Inl MakeOutOfRange
            else gbind (draw_list (random_delta R rt) (nat (numTPIDs c)) g1) (\<lambda>(deltas, g2).
                 Inr (lat, \<lparr>TPIDDeltas = deltas, Timestamp = now\<rparr>, c\<lparr>dict_rng := g2\<rparr>))))"

definition SetLatency :: "i64 \<Rightarrow> i64 \<Rightarrow> 'g mock_item_dict_client \<Rightarrow> 'g mock_item_dict_client" where
  "SetLatency mn mx c = c\<lparr>minLatency := mn, maxLatency := mx\<rparr>"

record 'g mock_order_stream =
  stream_rng :: 'g
  stream_pairs :: int

definition NewMockKafkaOrderStream :: "'g go_rand \<Rightarrow> int \<Rightarrow> 'g mock_order_stream" where
  "NewMockKafkaOrderStream R n = \<lparr>stream_rng = NewSource R 12345, stream_pairs = n\<rparr>"

definition random_tpid :: "'g go_rand \<Rightarrow> 'g \<Rightarrow> (u64 \<times> 'g) go" where
  "random_tpid R g = gbind (Intn R 100000 g) (\<lambda>(t, g1). Inr (word_of_int t, g1))"

definition Next ::
  "'g go_rand \<Rightarrow> workload \<Rightarrow> i64 \<Rightarrow> u32 \<Rightarrow> 'g mock_order_stream \<Rightarrow>
     (kafka_order_event \<times> 'g mock_order_stream) go" where
  "Next R w now oid s =
     (let binTags = map (\<lambda>i. of_nat i + 1) [0..<numBinTags w]
      in gbind (Intn R 10 (stream_rng s)) (\<lambda>(k, g1).
         gbind (draw_list (random_tpid R) (nat (1 + k)) g1) (\<lambda>(tpids, g2).
         case draw_float32 R g2 of (q, g3) \<Rightarrow>
         gbind (Intn R 7200 g3) (\<lambda>(d, g4).
         case draw_float32 R g4 of (b, g5) \<Rightarrow>
           Inr (\<lparr>evOrderID = oid, evRequiredQty = f32_mul q (F32 50 0),
                 evPBTDeadline = now + word_of_int d, evBaseScore = b, TPIDs = tpids,
                 EligibleBinTags = binTags, evActive = True\<rparr>,
                s\<lparr>stream_rng := g5\<rparr>)))))"

datatype topology_event_kind = TopologyAdd | TopologyRemove

record topology_event =
  teKind :: topology_event_kind
  tePPSID :: u32
  teBinTagID :: u32

text \<open>Neither method of the stream uses its generator.\<close>

record 'g mock_topology_stream =
  topo_rng :: 'g

definition NewMockKafkaTopologyStream :: "'g go_rand \<Rightarrow> 'g mock_topology_stream" where
  "NewMockKafkaTopologyStream R = \<lparr>topo_rng = NewSource R 99\<rparr>"

definition NextAdd :: "u32 \<Rightarrow> u32 \<Rightarrow> 'g mock_topology_stream \<Rightarrow> topology_event" where
  "NextAdd ppsID bintagID s = \<lparr>teKind = TopologyAdd, tePPSID = ppsID, teBinTagID = bintagID\<rparr>"

definition NextRemove :: "u32 \<Rightarrow> u32 \<Rightarrow> 'g mock_topology_stream \<Rightarrow> topology_event" where
  "NextRemove ppsID bintagID s = \<lparr>teKind = TopologyRemove, tePPSID = ppsID, teBinTagID = bintagID\<rparr>"

text \<open>\<^verbatim>\<open>int32((rng.Float32()*2 - 1) * ScoreScale)\<close>\<close>

definition random_score :: "'g go_rand \<Rightarrow> go_runtime \<Rightarrow> 'g \<Rightarrow> (i32 \<times> 'g) go" where
  "random_score R rt g =
     (case draw_float32 R g of (f, g1) \<Rightarrow>
        Inr (scale_score rt (f32_mul_add (fuses rt) f (F32 2 0) (F32 (-1) 0)), g1))"

definition buildSyntheticDelta :: "'g go_rand \<Rightarrow> go_runtime \<Rightarrow> int \<Rightarrow> i32 list go" where
  "buildSyntheticDelta R rt n =
     (if n < 0 then Inl MakeOutOfRange
      else gbind (draw_list (random_score R rt) (nat n) (NewSource R 42)) (\<lambda>(delta, g). Inr delta))"

section \<open>The cgo mock\<close>

instantiation float32 :: default
begin

definition default_float32 :: float32 where
  "default_float32 = F32 0 0"

instance ..

end

text \<open>This dictionary remembers the current contribution of each TPID.\<close>

record 'g cgo_item_dict_client =
  cdict_rng :: 'g
  tpidScores :: "u64 \<rightharpoonup> float32"
  cNumTPIDs :: u64
  UpdateFrac :: float64

definition random_contrib ::
  "'g go_rand \<Rightarrow> nat \<Rightarrow> 'g \<times> (u64 \<rightharpoonup> float32) \<Rightarrow> 'g \<times> (u64 \<rightharpoonup> float32)" where
  "random_contrib R i s =
     (case s of (g, scores) \<Rightarrow> case draw_float32 R g of (f, g') \<Rightarrow> (g', scores(of_nat i \<mapsto> f)))"

definition cgo_NewMockItemDictClient :: "'g go_rand \<Rightarrow> i64 \<Rightarrow> u64 \<Rightarrow> 'g cgo_item_dict_client" where
  "cgo_NewMockItemDictClient R seed n =
     (case fold (random_contrib R) [0..<unat n] (NewSource R seed, Map.empty) of
        (g, scores) \<Rightarrow> \<lparr>cdict_rng = g, tpidScores = scores, cNumTPIDs = n, UpdateFrac = F64 1 0\<rparr>)"

definition random_update ::
  "'g go_rand \<Rightarrow> 'g cgo_item_dict_client \<Rightarrow> (tpid_update \<times> 'g cgo_item_dict_client) go" where
  "random_update R c =
     gbind (Int63n R (sint (cNumTPIDs c)) (cdict_rng c)) (\<lambda>(t, g1).
     let tpid = word_of_int t; oldVal = map_zero (tpidScores c) tpid
     in case draw_float32 R g1 of (newVal, g2) \<Rightarrow>
          Inr (\<lparr>uTPID = tpid, OldContrib = oldVal, NewContrib = newVal\<rparr>,
               c\<lparr>cdict_rng := g2, tpidScores := (tpidScores c)(tpid \<mapsto> newVal)\<rparr>))"

definition num_update :: "go_runtime \<Rightarrow> 'g cgo_item_dict_client \<Rightarrow> int" where
  "num_update rt c =
     (let n = int_of_f64 (float64_overflow rt) (f64_mul (f64_round (int (unat (cNumTPIDs c))) 0) (UpdateFrac c))
      in if n < 1 then 1 else n)"

definition cgo_Fetch ::
  "'g go_rand \<Rightarrow> go_runtime \<Rightarrow> 'g cgo_item_dict_client \<Rightarrow>
     (int \<times> cgo_item_dict_update \<times> 'g cgo_item_dict_client) go" where
  "cgo_Fetch R rt c =
     gbind (Intn R 101 (cdict_rng c)) (\<lambda>(d, g1).
     let delayMs = 100 + d; c1 = c\<lparr>cdict_rng := g1\<rparr>
     in gbind (draw_list (random_update R) (nat (num_update rt c1)) c1) (\<lambda>(us, c2).
        Inr (delayMs, \<lparr>Updates = us\<rparr>, c2)))"

record 'g cgo_order_stream =
  cstream_rng :: 'g
  sNumOrders :: u32
  sNumTPIDs :: u64
  sNumBinTags :: u32

definition cgo_NewMockKafkaOrderStream ::
  "'g go_rand \<Rightarrow> i64 \<Rightarrow> u32 \<Rightarrow> u64 \<Rightarrow> u32 \<Rightarrow> 'g cgo_order_stream" where
  "cgo_NewMockKafkaOrderStream R seed numOrders ntpids nbt =
     \<lparr>cstream_rng = NewSource R seed, sNumOrders = numOrders, sNumTPIDs = ntpids, sNumBinTags = nbt\<rparr>"

text \<open>The pieces of an event that \<^verbatim>\<open>GenerateBatch\<close> and \<^verbatim>\<open>Next\<close> draw alike.\<close>

definition random_qty :: "'g go_rand \<Rightarrow> go_runtime \<Rightarrow> 'g \<Rightarrow> float32 \<times> 'g" where
  "random_qty R rt g =
     (case draw_float32 R g of (f, g1) \<Rightarrow> (f32_mul_add (fuses rt) f (F32 29 0) (F32 1 0), g1))"

definition random_deadline :: "'g go_rand \<Rightarrow> i64 \<Rightarrow> 'g \<Rightarrow> (i64 \<times> 'g) go" where
  "random_deadline R now g =
     (case draw_float64 R g of (x, g1) \<Rightarrow>
        if f64_lt x (F64 1 (-1))
        then gbind (Int63n R 6601 g1) (\<lambda>(r, g2). Inr (now + 600 + word_of_int r, g2))
        else Inr (-1, g1))"

definition below_u64 :: "'g go_rand \<Rightarrow> u64 \<Rightarrow> 'g \<Rightarrow> (u64 \<times> 'g) go" where
  "below_u64 R n g = gbind (Int63n R (sint n) g) (\<lambda>(t, g1). Inr (word_of_int t, g1))"

definition below_u32 :: "'g go_rand \<Rightarrow> u32 \<Rightarrow> 'g \<Rightarrow> (u32 \<times> 'g) go" where
  "below_u32 R n g = gbind (Int63n R (int (unat n)) g) (\<lambda>(t, g1). Inr (word_of_int t, g1))"

definition batch_event ::
  "'g go_rand \<Rightarrow> go_runtime \<Rightarrow> i64 \<Rightarrow> 'g cgo_order_stream \<Rightarrow>
     (cgo_kafka_order_event \<times> 'g cgo_order_stream) go" where
  "batch_event R rt now s =
     gbind (below_u32 R (sNumOrders s) (cstream_rng s)) (\<lambda>(oid, g1).
     case random_qty R rt g1 of (qty, g2) \<Rightarrow>
     gbind (random_deadline R now g2) (\<lambda>(deadline, g3).
     gbind (Intn R 5 g3) (\<lambda>(k, g4).
     gbind (draw_list (below_u64 R (sNumTPIDs s)) (nat (1 + k)) g4) (\<lambda>(tpids, g5).
     gbind (Intn R 4 g5) (\<lambda>(l, g6).
     gbind (draw_list (below_u32 R (sNumBinTags s)) (nat (1 + l)) g6) (\<lambda>(binTags, g7).
     case draw_float32 R g7 of (b, g8) \<Rightarrow>
       Inr (\<lparr>cevOrderID = oid, cevRequiredQty = qty, cevPBTDeadline = deadline, cevTPIDs = tpids,
             cevEligibleBinTags = binTags, cevBaseScore = b\<rparr>, s\<lparr>cstream_rng := g8\<rparr>)))))))"

definition GenerateBatch ::
  "'g go_rand \<Rightarrow> go_runtime \<Rightarrow> i64 \<Rightarrow> int \<Rightarrow> 'g cgo_order_stream \<Rightarrow>
     (cgo_kafka_order_event list \<times> 'g cgo_order_stream) go" where
  "GenerateBatch R rt now n s =
     (if n < 0 then Inl MakeOutOfRange else draw_list (batch_event R rt now) (nat n) s)"

definition cgo_Next ::
  "'g go_rand \<Rightarrow> go_runtime \<Rightarrow> i64 \<Rightarrow> u32 \<Rightarrow> 'g cgo_order_stream \<Rightarrow>
     (cgo_kafka_order_event \<times> 'g cgo_order_stream) go" where
  "cgo_Next R rt now oid s =
     (case random_qty R rt (cstream_rng s) of (qty, g1) \<Rightarrow>
      gbind (random_deadline R now g1) (\<lambda>(deadline, g2).
      gbind (Intn R 5 g2) (\<lambda>(k, g3).
      gbind (draw_list (below_u64 R (sNumTPIDs s)) (nat (1 + k)) g3) (\<lambda>(tpids, g4).
      let binTags = map of_nat [0..<unat (sNumBinTags s)]
      in case draw_float32 R g4 of (b, g5) \<Rightarrow>
           Inr (\<lparr>cevOrderID = oid, cevRequiredQty = qty, cevPBTDeadline = deadline, cevTPIDs = tpids,
                 cevEligibleBinTags = binTags, cevBaseScore = b\<rparr>, s\<lparr>cstream_rng := g5\<rparr>)))))"

datatype cgo_topology_event_kind = EvtAddPPS | EvtRemovePPS

record cgo_topology_event =
  cteKind :: cgo_topology_event_kind
  ctePPSID :: u32
  cteBinTagIDs :: "u32 list"

record 'g cgo_topology_stream =
  ctopo_rng :: 'g

definition cgo_NewMockKafkaTopologyStream :: "'g go_rand \<Rightarrow> i64 \<Rightarrow> 'g cgo_topology_stream" where
  "cgo_NewMockKafkaTopologyStream R seed = \<lparr>ctopo_rng = NewSource R seed\<rparr>"

definition AddPPSEvent ::
  "'g go_rand \<Rightarrow> u32 \<Rightarrow> int \<Rightarrow> 'g cgo_topology_stream \<Rightarrow> (cgo_topology_event \<times> 'g cgo_topology_stream) go" where
  "AddPPSEvent R ppsID nbt s =
     gbind (Int63n R 1000 (ctopo_rng s)) (\<lambda>(t, g1).
     let start = word_of_int t
     in if nbt < 0 then Inl MakeOutOfRange
        else Inr (\<lparr>cteKind = EvtAddPPS, ctePPSID = ppsID,
                   cteBinTagIDs = map (\<lambda>i. start + of_nat i) [0..<nat nbt]\<rparr>, s\<lparr>ctopo_rng := g1\<rparr>))"

definition RemovePPSEvent :: "u32 \<Rightarrow> 'g cgo_topology_stream \<Rightarrow> cgo_topology_event" where
  "RemovePPSEvent ppsID s = \<lparr>cteKind = EvtRemovePPS, ctePPSID = ppsID, cteBinTagIDs = []\<rparr>"

section \<open>What the mocks produce\<close>

lemma unit_float_within: "unit_float f \<Longrightarrow> f32_within 0 f"
  by (auto simp: unit_float_def f32_within_def)

lemma unit_float_cases:
  assumes "unit_float f"
  obtains m e where "f = F32 m e" "0 \<le> f32_val (F32 m e)" "f32_val (F32 m e) < 1"
  using assms by (auto simp: unit_float_def)

lemma delta_of_within:
  assumes "unit_float f"
  shows "f32_within (-1) (delta_of rt f)"
proof -
  obtain m e where f: "f = F32 m e" "0 \<le> f32_val (F32 m e)" "f32_val (F32 m e) < 1"
    using assms by (rule unit_float_cases)
  have c: "f32_val (F32 13421773 (-26)) \<le> 1 / 4" "0 \<le> f32_val (F32 13421773 (-26))"
    "\<bar>f32_val (F32 (-13421773) (-27))\<bar> \<le> 2 powi (-2)"
    by (simp_all add: power_int_minus)
  have "\<bar>f32_val (F32 m e) * f32_val (F32 13421773 (-26))\<bar> \<le> 1 * (1 / 4)"
    unfolding abs_mult using f(2,3) c(1,2) by (intro mult_mono) simp_all
  then have "\<bar>f32_val (F32 m e) * f32_val (F32 13421773 (-26))\<bar> \<le> 2 powi (-2)"
    by (simp add: power_int_minus)
  from f32_mul_add_within [OF this c(3)] show ?thesis
    using f(1) by (simp add: delta_of_def)
qed

lemma random_qty_within:
  assumes "unit_float f"
  shows "f32_within 6 (f32_mul_add fused f (F32 29 0) (F32 1 0))"
proof -
  obtain m e where f: "f = F32 m e" "0 \<le> f32_val (F32 m e)" "f32_val (F32 m e) < 1"
    using assms by (rule unit_float_cases)
  have "\<bar>f32_val (F32 m e) * f32_val (F32 29 0)\<bar> \<le> 1 * 32"
    unfolding abs_mult using f(2,3) by (intro mult_mono) simp_all
  then have "\<bar>f32_val (F32 m e) * f32_val (F32 29 0)\<bar> \<le> 2 powi 5" by simp
  from f32_mul_add_within [OF this, of 1 0] show ?thesis using f(1) by simp
qed

text \<open>The item dictionary of the pure program.\<close>

lemma random_delta_ok:
  assumes "rand_contract R"
  shows "\<exists>d g'. random_delta R rt g = Inr (d, g') \<and> unat (TPID d) < 100000 \<and>
           f32_within (-1) (ScoreDelta d)"
proof -
  obtain t g1 where t: "Intn R 100000 g = Inr (t, g1)" "0 \<le> t" "t < 100000"
    using Intn_ok [OF assms, of 100000 g] by auto
  obtain f g2 where f: "draw_float32 R g1 = (f, g2)" "unit_float f"
    using float32_ok [OF assms] .
  have "unat (word_of_int t :: u64) = nat t"
    using t(2,3) by (simp add: unsigned_of_int take_bit_int_eq_self)
  with t f delta_of_within [OF f(2)] show ?thesis by (simp add: random_delta_def)
qed

lemma FetchUpdate_ok:
  assumes R: "rand_contract R"
    and lat: "0 \<le> sint (minLatency c)" "sint (minLatency c) \<le> sint (maxLatency c)"
      "sint (maxLatency c) < 2 ^ 63 - 1"
    and n: "0 \<le> numTPIDs c"
  shows "\<exists>lat u g'. FetchUpdate R rt now c = Inr (lat, u, c\<lparr>dict_rng := g'\<rparr>) \<and>
           sint (minLatency c) \<le> sint lat \<and> sint lat \<le> sint (maxLatency c) \<and>
           length (TPIDDeltas u) = nat (numTPIDs c) \<and>
           (\<forall>d \<in> set (TPIDDeltas u). unat (TPID d) < 100000 \<and> f32_within (-1) (ScoreDelta d))"
proof -
  let ?mn = "minLatency c" and ?mx = "maxLatency c"
  have spread: "sint (?mx - ?mn + 1) = sint ?mx - sint ?mn + 1"
    using lat by (simp add: sint_word_add sint_word_diff signed_take_bit_int_eq_self)
  obtain r g1 where r: "Int63n R (sint (?mx - ?mn + 1)) (dict_rng c) = Inr (r, g1)"
    "0 \<le> r" "r < sint ?mx - sint ?mn + 1"
    using Int63n_ok [OF R, of "sint (?mx - ?mn + 1)" "dict_rng c"] lat(2) unfolding spread by auto
  then have "sint (?mn + word_of_int r) = sint ?mn + r"
    using lat by (simp add: sint_word_add signed_of_int signed_take_bit_int_eq_self)
  moreover obtain ds g2 where "draw_list (random_delta R rt) (nat (numTPIDs c)) g1 = Inr (ds, g2)"
    "length ds = nat (numTPIDs c)" "\<forall>d \<in> set ds. unat (TPID d) < 100000 \<and> f32_within (-1) (ScoreDelta d)"
    using draw_list_ok [of "\<lambda>_. True" "random_delta R rt"
        "\<lambda>d. unat (TPID d) < 100000 \<and> f32_within (-1) (ScoreDelta d)" g1 "nat (numTPIDs c)"]
      random_delta_ok [OF R, of rt] by blast
  ultimately show ?thesis using r n by (auto simp: FetchUpdate_def Let_def)
qed

text \<open>With the bounds the wrong way round the library panics.\<close>

lemma FetchUpdate_bad_latency:
  assumes "0 \<le> sint (maxLatency c)" and "sint (maxLatency c) < sint (minLatency c)"
  shows "FetchUpdate R rt now c = Inl InvalidArgument"
proof -
  have "sint (minLatency c) < 2 ^ 63" using sint_lt [of "minLatency c"] by simp
  with assms have "sint (maxLatency c - minLatency c + 1) = sint (maxLatency c) - sint (minLatency c) + 1"
    by (simp add: sint_word_add sint_word_diff signed_take_bit_int_eq_self)
  with assms show ?thesis by (simp add: FetchUpdate_def Let_def Int63n_def)
qed

text \<open>
  An event of the pure stream: the order asked for, active, eligible for every bin tag, with
  one to ten TPIDs.
\<close>

definition stream_event :: "workload \<Rightarrow> i64 \<Rightarrow> u32 \<Rightarrow> kafka_order_event \<Rightarrow> bool" where
  "stream_event w now oid evt \<longleftrightarrow>
     evOrderID evt = oid \<and> evActive evt \<and>
     EligibleBinTags evt = map (\<lambda>i. of_nat i + 1) [0..<numBinTags w] \<and>
     unit_float (evBaseScore evt) \<and> f32_within 6 (evRequiredQty evt) \<and>
     1 \<le> length (TPIDs evt) \<and> length (TPIDs evt) \<le> 10 \<and> (\<forall>t \<in> set (TPIDs evt). unat t < 100000) \<and>
     (\<exists>d. 0 \<le> d \<and> d < 7200 \<and> evPBTDeadline evt = now + word_of_int d)"

lemma random_tpid_ok:
  assumes "rand_contract R"
  shows "\<exists>t g'. random_tpid R g = Inr (t, g') \<and> unat t < 100000"
proof -
  obtain t g1 where t: "Intn R 100000 g = Inr (t, g1)" "0 \<le> t" "t < 100000"
    using Intn_ok [OF assms, of 100000 g] by auto
  then have "unat (word_of_int t :: u64) = nat t"
    by (simp add: unsigned_of_int take_bit_int_eq_self)
  with t show ?thesis by (simp add: random_tpid_def)
qed

lemma unit_mul_within:
  assumes "unit_float f" and "0 \<le> n" and "real_of_int n \<le> 2 powi k" and "-149 \<le> k" and "k \<le> 127"
  shows "f32_within k (f32_mul f (F32 n 0))"
proof -
  obtain m e where f: "f = F32 m e" "0 \<le> f32_val (F32 m e)" "f32_val (F32 m e) < 1"
    using assms(1) by (rule unit_float_cases)
  have "\<bar>f32_val (F32 m e)\<bar> * \<bar>f32_val (F32 n 0)\<bar> \<le> 1 * 2 powi k"
    using f(2,3) assms(2,3) by (intro mult_mono) simp_all
  then have "\<bar>f32_val (F32 m e) * f32_val (F32 n 0)\<bar> \<le> 2 powi k" by (simp only: abs_mult mult_1)
  from f32_mul_within [OF this assms(4,5)] show ?thesis by (simp add: f(1) del: f32_mul.simps)
qed

lemma Next_ok:
  assumes R: "rand_contract R"
  shows "\<exists>evt g'. Next R w now oid s = Inr (evt, s\<lparr>stream_rng := g'\<rparr>) \<and> stream_event w now oid evt"
proof -
  obtain k g1 where k: "Intn R 10 (stream_rng s) = Inr (k, g1)" "0 \<le> k" "k < 10"
    using Intn_ok [OF R, of 10 "stream_rng s"] by auto
  obtain ts g2 where ts: "draw_list (random_tpid R) (nat (1 + k)) g1 = Inr (ts, g2)"
    "length ts = nat (1 + k)" "\<forall>t \<in> set ts. unat t < 100000"
    using draw_list_ok [of "\<lambda>_. True" "random_tpid R" "\<lambda>t. unat t < 100000" g1 "nat (1 + k)"]
      random_tpid_ok [OF R] by blast
  obtain q g3 where q: "draw_float32 R g2 = (q, g3)" "unit_float q" using float32_ok [OF R] .
  obtain d g4 where d: "Intn R 7200 g3 = Inr (d, g4)" "0 \<le> d" "d < 7200"
    using Intn_ok [OF R, of 7200 g3] by auto
  obtain b g5 where b: "draw_float32 R g4 = (b, g5)" "unit_float b" using float32_ok [OF R] .
  have "f32_within 6 (f32_mul q (F32 50 0))" by (rule unit_mul_within [OF q(2)]) simp_all
  with k ts q(1) d b show ?thesis
    by (auto simp: Next_def stream_event_def simp del: f32_mul.simps)
qed

text \<open>The events of the cgo streams.\<close>

definition cgo_event_drawn :: "'g cgo_order_stream \<Rightarrow> i64 \<Rightarrow> cgo_kafka_order_event \<Rightarrow> bool" where
  "cgo_event_drawn s now evt \<longleftrightarrow>
     unit_float (cevBaseScore evt) \<and> f32_within 6 (cevRequiredQty evt) \<and>
     1 \<le> length (cevTPIDs evt) \<and> length (cevTPIDs evt) \<le> 5 \<and>
     (\<forall>t \<in> set (cevTPIDs evt). unat t < unat (sNumTPIDs s)) \<and>
     (cevPBTDeadline evt = -1 \<or>
      (\<exists>d. 600 \<le> d \<and> d \<le> 7200 \<and> cevPBTDeadline evt = now + word_of_int d))"

lemma below_u64_ok:
  assumes "rand_contract R" and "0 < sint n"
  shows "\<exists>t g'. below_u64 R n g = Inr (t, g') \<and> unat t < unat n"
proof -
  obtain t g1 where t: "Int63n R (sint n) g = Inr (t, g1)" "0 \<le> t" "t < sint n"
    using Int63n_ok [OF assms, of g] by auto
  have "uint n = sint n" using assms(2) sint_lt [of n] by (simp add: uint_sint take_bit_int_eq_self)
  then have n: "int (unat n) = sint n" by (simp only: uint_nat)
  have "t < 2 ^ 64" using t(3) sint_lt [of n] by simp
  then have "unat (word_of_int t :: u64) = nat t"
    using t(2) by (simp add: unsigned_of_int take_bit_int_eq_self)
  moreover have "nat t < unat n" using t(2,3) n by linarith
  ultimately show ?thesis using t(1) by (simp add: below_u64_def)
qed

lemma below_u32_ok:
  assumes "rand_contract R" and "0 < unat n"
  shows "\<exists>t g'. below_u32 R n g = Inr (t, g') \<and> unat t < unat n"
proof -
  have "0 < int (unat n)" using assms(2) by (simp only: of_nat_0_less_iff)
  with assms(1) obtain t g1 where t: "Int63n R (int (unat n)) g = Inr (t, g1)" "0 \<le> t" "t < int (unat n)"
    by (rule Int63n_ok)
  have "t < 2 ^ 32" using t(3) uint_bounded [of n] by simp
  then have "unat (word_of_int t :: u32) = nat t"
    using t(2) by (simp add: unsigned_of_int take_bit_int_eq_self)
  moreover have "nat t < unat n" using t(2,3) by linarith
  ultimately show ?thesis using t(1) by (simp add: below_u32_def)
qed

lemma random_qty_ok:
  assumes "rand_contract R"
  obtains q g' where "random_qty R rt g = (q, g')" "f32_within 6 q"
proof -
  obtain f g1 where "draw_float32 R g = (f, g1)" "unit_float f" using float32_ok [OF assms] .
  then show ?thesis using that random_qty_within by (simp add: random_qty_def)
qed

lemma random_deadline_ok:
  assumes "rand_contract R"
  obtains d g' where "random_deadline R now g = Inr (d, g')"
    "d = -1 \<or> (\<exists>n. 600 \<le> n \<and> n \<le> 7200 \<and> d = now + word_of_int n)"
proof -
  obtain x g1 where x: "draw_float64 R g = (x, g1)" by fastforce
  obtain r g2 where r: "Int63n R 6601 g1 = Inr (r, g2)" "0 \<le> r" "r < 6601"
    using Int63n_ok [OF assms, of 6601 g1] by auto
  show ?thesis
  proof (cases "f64_lt x (F64 1 (-1))")
    case True
    have "random_deadline R now g = Inr (now + 600 + word_of_int r, g2)"
      using x r(1) True by (simp add: random_deadline_def)
    moreover have "now + 600 + word_of_int r = now + word_of_int (600 + r)"
      by (simp add: wi_hom_add [symmetric])
    ultimately have d: "random_deadline R now g = Inr (now + word_of_int (600 + r), g2)" by (simp only:)
    have "600 \<le> 600 + r" "600 + r \<le> 7200" using r by auto
    with d show ?thesis using that by blast
  next
    case False
    then show ?thesis using that [of "-1" g1] x by (simp add: random_deadline_def)
  qed
qed

text \<open>An event of \<^verbatim>\<open>Next\<close> carries the order asked for and every bin tag.\<close>

lemma cgo_Next_ok:
  assumes R: "rand_contract R" and n: "0 < sint (sNumTPIDs s)"
  shows "\<exists>evt g'. cgo_Next R rt now oid s = Inr (evt, s\<lparr>cstream_rng := g'\<rparr>) \<and>
           cgo_event_drawn s now evt \<and> cevOrderID evt = oid \<and>
           cevEligibleBinTags evt = map of_nat [0..<unat (sNumBinTags s)]"
proof -
  obtain q g1 where q: "random_qty R rt (cstream_rng s) = (q, g1)" "f32_within 6 q"
    using random_qty_ok [OF R] .
  obtain dl g2 where dl: "random_deadline R now g1 = Inr (dl, g2)"
    "dl = -1 \<or> (\<exists>n. 600 \<le> n \<and> n \<le> 7200 \<and> dl = now + word_of_int n)"
    using random_deadline_ok [OF R] .
  obtain k g3 where k: "Intn R 5 g2 = Inr (k, g3)" "0 \<le> k" "k < 5"
    using Intn_ok [OF R, of 5 g2] by auto
  obtain ts g4 where ts: "draw_list (below_u64 R (sNumTPIDs s)) (nat (1 + k)) g3 = Inr (ts, g4)"
    "length ts = nat (1 + k)" "\<forall>t \<in> set ts. unat t < unat (sNumTPIDs s)"
    using draw_list_ok [of "\<lambda>_. True" "below_u64 R (sNumTPIDs s)" "\<lambda>t. unat t < unat (sNumTPIDs s)" g3
        "nat (1 + k)"] below_u64_ok [OF R n] by blast
  obtain b g5 where b: "draw_float32 R g4 = (b, g5)" "unit_float b" using float32_ok [OF R] .
  show ?thesis using q dl k ts b by (auto simp: cgo_Next_def cgo_event_drawn_def)
qed

text \<open>An event of a batch has a random order and one to four random bin tags.\<close>

definition batch_event_drawn :: "'g cgo_order_stream \<Rightarrow> i64 \<Rightarrow> cgo_kafka_order_event \<Rightarrow> bool" where
  "batch_event_drawn s now evt \<longleftrightarrow>
     cgo_event_drawn s now evt \<and> unat (cevOrderID evt) < unat (sNumOrders s) \<and>
     1 \<le> length (cevEligibleBinTags evt) \<and> length (cevEligibleBinTags evt) \<le> 4 \<and>
     (\<forall>t \<in> set (cevEligibleBinTags evt). unat t < unat (sNumBinTags s))"

lemma batch_event_ok:
  assumes R: "rand_contract R"
    and n: "0 < unat (sNumOrders s)" "0 < sint (sNumTPIDs s)" "0 < unat (sNumBinTags s)"
  shows "\<exists>evt g'. batch_event R rt now s = Inr (evt, s\<lparr>cstream_rng := g'\<rparr>) \<and> batch_event_drawn s now evt"
proof -
  obtain oid g0 where oid: "below_u32 R (sNumOrders s) (cstream_rng s) = Inr (oid, g0)"
    "unat oid < unat (sNumOrders s)"
    using below_u32_ok [OF R n(1)] by blast
  obtain q g1 where q: "random_qty R rt g0 = (q, g1)" "f32_within 6 q"
    using random_qty_ok [OF R] .
  obtain dl g2 where dl: "random_deadline R now g1 = Inr (dl, g2)"
    "dl = -1 \<or> (\<exists>n. 600 \<le> n \<and> n \<le> 7200 \<and> dl = now + word_of_int n)"
    using random_deadline_ok [OF R] .
  obtain k g3 where k: "Intn R 5 g2 = Inr (k, g3)" "0 \<le> k" "k < 5"
    using Intn_ok [OF R, of 5 g2] by auto
  obtain ts g4 where ts: "draw_list (below_u64 R (sNumTPIDs s)) (nat (1 + k)) g3 = Inr (ts, g4)"
    "length ts = nat (1 + k)" "\<forall>t \<in> set ts. unat t < unat (sNumTPIDs s)"
    using draw_list_ok [of "\<lambda>_. True" "below_u64 R (sNumTPIDs s)" "\<lambda>t. unat t < unat (sNumTPIDs s)" g3
        "nat (1 + k)"] below_u64_ok [OF R n(2)] by blast
  obtain l g5 where l: "Intn R 4 g4 = Inr (l, g5)" "0 \<le> l" "l < 4"
    using Intn_ok [OF R, of 4 g4] by auto
  obtain bs g6 where bs: "draw_list (below_u32 R (sNumBinTags s)) (nat (1 + l)) g5 = Inr (bs, g6)"
    "length bs = nat (1 + l)" "\<forall>t \<in> set bs. unat t < unat (sNumBinTags s)"
    using draw_list_ok [of "\<lambda>_. True" "below_u32 R (sNumBinTags s)" "\<lambda>t. unat t < unat (sNumBinTags s)" g5
        "nat (1 + l)"] below_u32_ok [OF R n(3)] by blast
  obtain b g7 where b: "draw_float32 R g6 = (b, g7)" "unit_float b" using float32_ok [OF R] .
  show ?thesis using oid q dl k ts l bs b
    by (auto simp: batch_event_def batch_event_drawn_def cgo_event_drawn_def)
qed

lemma GenerateBatch_ok:
  assumes R: "rand_contract R"
    and n: "0 < unat (sNumOrders s)" "0 < sint (sNumTPIDs s)" "0 < unat (sNumBinTags s)"
    and m: "0 \<le> m"
  shows "\<exists>evts g'. GenerateBatch R rt now m s = Inr (evts, s\<lparr>cstream_rng := g'\<rparr>) \<and>
           length evts = nat m \<and> (\<forall>evt \<in> set evts. batch_event_drawn s now evt)"
proof -
  define I where "I s' \<longleftrightarrow> (\<exists>g'. s' = s\<lparr>cstream_rng := g'\<rparr>)" for s'
  have same: "batch_event_drawn (s\<lparr>cstream_rng := g'\<rparr>) now evt = batch_event_drawn s now evt" for g' evt
    by (simp add: batch_event_drawn_def cgo_event_drawn_def)
  have "\<exists>x s''. batch_event R rt now s' = Inr (x, s'') \<and> batch_event_drawn s now x \<and> I s''" if "I s'" for s'
  proof -
    from that obtain g where s': "s' = s\<lparr>cstream_rng := g\<rparr>" by (auto simp: I_def)
    with n have "0 < unat (sNumOrders s')" "0 < sint (sNumTPIDs s')" "0 < unat (sNumBinTags s')"
      by simp_all
    from batch_event_ok [OF R this, of rt now] show ?thesis
      unfolding s' same by (auto simp: I_def)
  qed
  moreover have "I s" unfolding I_def by (rule exI [of _ "cstream_rng s"]) simp
  ultimately show ?thesis
    using draw_list_ok [of I "batch_event R rt now" "batch_event_drawn s now" s "nat m"] m
    by (auto simp: GenerateBatch_def I_def)
qed

text \<open>
  The item dictionary of the cgo program remembers the contributions it has handed out, so
  an update's old value is what the updates before it have left.
\<close>

definition set_score :: "tpid_update \<Rightarrow> (u64 \<rightharpoonup> float32) \<Rightarrow> (u64 \<rightharpoonup> float32)" where
  "set_score u scores = scores(uTPID u \<mapsto> NewContrib u)"

fun chained :: "(u64 \<rightharpoonup> float32) \<Rightarrow> tpid_update list \<Rightarrow> bool" where
  "chained scores [] = True"
| "chained scores (u # us) = (OldContrib u = map_zero scores (uTPID u) \<and> chained (set_score u scores) us)"

definition unit_scores :: "(u64 \<rightharpoonup> float32) \<Rightarrow> bool" where
  "unit_scores scores \<longleftrightarrow> (\<forall>t f. scores t = Some f \<longrightarrow> unit_float f)"

definition unit_update :: "u64 \<Rightarrow> tpid_update \<Rightarrow> bool" where
  "unit_update n u \<longleftrightarrow> unat (uTPID u) < unat n \<and> unit_float (OldContrib u) \<and> unit_float (NewContrib u)"

lemma unit_scores_zero: "unit_scores scores \<Longrightarrow> unit_float (map_zero scores t)"
  by (auto simp: unit_scores_def map_zero_def unit_float_def default_float32_def split: option.split)

lemma unit_scores_upd: "unit_scores scores \<Longrightarrow> unit_float f \<Longrightarrow> unit_scores (scores(t \<mapsto> f))"
  by (simp add: unit_scores_def)

lemma below_u64_draw:
  assumes "rand_contract R" and "0 < sint (n :: u64)"
  obtains t g' where "Int63n R (sint n) g = Inr (t, g')" "unat (word_of_int t :: u64) < unat n"
proof -
  obtain t g' where "Int63n R (sint n) g = Inr (t, g')" "0 \<le> t" "t < sint n"
    using Int63n_ok [OF assms, of g] by auto
  with below_u64_ok [OF assms, of g] that show ?thesis by (auto simp: below_u64_def)
qed

lemma random_update_ok:
  assumes R: "rand_contract R" and n: "0 < sint (cNumTPIDs c)" and u: "unit_scores (tpidScores c)"
  shows "\<exists>u c'. random_update R c = Inr (u, c') \<and> OldContrib u = map_zero (tpidScores c) (uTPID u) \<and>
           unit_update (cNumTPIDs c) u \<and> tpidScores c' = set_score u (tpidScores c) \<and>
           unit_scores (tpidScores c') \<and> cNumTPIDs c' = cNumTPIDs c \<and> UpdateFrac c' = UpdateFrac c"
proof -
  obtain t g1 where t: "Int63n R (sint (cNumTPIDs c)) (cdict_rng c) = Inr (t, g1)"
    "unat (word_of_int t :: u64) < unat (cNumTPIDs c)"
    using below_u64_draw [OF R n] .
  obtain f g2 where f: "draw_float32 R g1 = (f, g2)" "unit_float f" using float32_ok [OF R] .
  show ?thesis using t f u
    by (simp add: random_update_def Let_def unit_update_def set_score_def unit_scores_zero unit_scores_upd)
qed

lemma random_updates_ok:
  assumes R: "rand_contract R" and "0 < sint (cNumTPIDs c)" and "unit_scores (tpidScores c)"
  shows "\<exists>us c'. draw_list (random_update R) n c = Inr (us, c') \<and> length us = n \<and>
           chained (tpidScores c) us \<and> (\<forall>u \<in> set us. unit_update (cNumTPIDs c) u) \<and>
           tpidScores c' = fold set_score us (tpidScores c) \<and>
           unit_scores (tpidScores c') \<and> cNumTPIDs c' = cNumTPIDs c \<and> UpdateFrac c' = UpdateFrac c"
  using assms(2,3)
proof (induction n arbitrary: c)
  case (Suc n)
  from random_update_ok [OF R Suc.prems] obtain u c1 where 1: "random_update R c = Inr (u, c1)"
    "OldContrib u = map_zero (tpidScores c) (uTPID u)" "unit_update (cNumTPIDs c) u"
    "tpidScores c1 = set_score u (tpidScores c)" "unit_scores (tpidScores c1)"
    "cNumTPIDs c1 = cNumTPIDs c" "UpdateFrac c1 = UpdateFrac c" by blast
  from Suc.IH [of c1] Suc.prems(1) 1(5,6) obtain us c2 where
    "draw_list (random_update R) n c1 = Inr (us, c2)" "length us = n" "chained (tpidScores c1) us"
    "\<forall>u \<in> set us. unit_update (cNumTPIDs c1) u"
    "tpidScores c2 = fold set_score us (tpidScores c1)" "unit_scores (tpidScores c2)"
    "cNumTPIDs c2 = cNumTPIDs c1" "UpdateFrac c2 = UpdateFrac c1" by auto
  with 1 show ?case by simp
qed simp

lemma cgo_Fetch_ok:
  assumes R: "rand_contract R" and "0 < sint (cNumTPIDs c)" and "unit_scores (tpidScores c)"
  shows "\<exists>delay u c'. cgo_Fetch R rt c = Inr (delay, u, c') \<and> 100 \<le> delay \<and> delay \<le> 200 \<and>
           length (Updates u) = nat (num_update rt c) \<and> chained (tpidScores c) (Updates u) \<and>
           (\<forall>x \<in> set (Updates u). unit_update (cNumTPIDs c) x) \<and>
           tpidScores c' = fold set_score (Updates u) (tpidScores c) \<and>
           unit_scores (tpidScores c') \<and> cNumTPIDs c' = cNumTPIDs c \<and> UpdateFrac c' = UpdateFrac c"
proof -
  obtain d g1 where d: "Intn R 101 (cdict_rng c) = Inr (d, g1)" "0 \<le> d" "d < 101"
    using Intn_ok [OF R, of 101 "cdict_rng c"] by auto
  have "num_update rt (c\<lparr>cdict_rng := g1\<rparr>) = num_update rt c" by (simp add: num_update_def)
  with d random_updates_ok [OF R, of "c\<lparr>cdict_rng := g1\<rparr>" "nat (num_update rt c)"] assms(2,3)
  show ?thesis by (auto simp: cgo_Fetch_def Let_def)
qed

text \<open>So over the updates of a TPID the differences telescope.\<close>

definition contrib_sum :: "u64 \<Rightarrow> tpid_update list \<Rightarrow> real" where
  "contrib_sum t us =
     sum_list (map (\<lambda>u. f32_val (NewContrib u) - f32_val (OldContrib u)) (filter (\<lambda>u. uTPID u = t) us))"

lemma map_zero_set_score:
  "map_zero (set_score u scores) t = (if t = uTPID u then NewContrib u else map_zero scores t)"
  by (simp add: set_score_def map_zero_def)

lemma chained_telescopes:
  "chained scores us \<Longrightarrow>
     contrib_sum t us = f32_val (map_zero (fold set_score us scores) t) - f32_val (map_zero scores t)"
proof (induction us arbitrary: scores)
  case (Cons u us)
  from Cons.IH [of "set_score u scores"] Cons.prems show ?case
    by (auto simp: contrib_sum_def map_zero_set_score)
qed (simp add: contrib_sum_def)

lemma cgo_dict_New:
  assumes R: "rand_contract R"
  shows "unit_scores (tpidScores (cgo_NewMockItemDictClient R seed n))"
    "cNumTPIDs (cgo_NewMockItemDictClient R seed n) = n"
    "UpdateFrac (cgo_NewMockItemDictClient R seed n) = F64 1 0"
proof -
  have step: "unit_scores (snd (random_contrib R i s))" if "unit_scores (snd s)" for i s
  proof -
    obtain f g' where "draw_float32 R (fst s) = (f, g')" "unit_float f" using float32_ok [OF R] .
    with that show ?thesis by (cases s) (simp add: random_contrib_def unit_scores_upd)
  qed
  have "unit_scores (snd (fold (random_contrib R) is s))" if "unit_scores (snd s)" for "is" s
    using that step by (induction "is" arbitrary: s) simp_all
  from this [of "(NewSource R seed, Map.empty)" "[0..<unat n]"]
  show "unit_scores (tpidScores (cgo_NewMockItemDictClient R seed n))"
    "cNumTPIDs (cgo_NewMockItemDictClient R seed n) = n"
    "UpdateFrac (cgo_NewMockItemDictClient R seed n) = F64 1 0"
    by (simp_all add: cgo_NewMockItemDictClient_def unit_scores_def split: prod.split)
qed

text \<open>A fetch with the whole fraction updates as many times as there are TPIDs.\<close>

lemma num_update_all:
  assumes "UpdateFrac c = F64 1 0" and "uint (cNumTPIDs c) < 2 ^ 53"
  shows "num_update rt c = max 1 (uint (cNumTPIDs c))"
proof -
  let ?n = "uint (cNumTPIDs c)"
  have round: "f64_round ?n 0 = F64 ?n 0" using assms(2) by (intro f64_round_small) simp_all
  then have "f64_mul (F64 ?n 0) (F64 1 0) = F64 ?n 0" by simp
  moreover have "- (2 ^ 63) \<le> ?n" by (rule order_trans [of _ 0]) simp_all
  ultimately show ?thesis
    using assms round by (simp add: num_update_def int_of_f64_def trunc_exp_def Let_def)
qed

text \<open>The bin tags of an added PPS are consecutive and, where there are not too many, distinct.\<close>

lemma AddPPSEvent_ok:
  assumes R: "rand_contract R" and n: "0 \<le> n" "n \<le> 2 ^ 32 - 1000"
  shows "\<exists>evt s'. AddPPSEvent R p n s = Inr (evt, s') \<and> cteKind evt = EvtAddPPS \<and> ctePPSID evt = p \<and>
           distinct (cteBinTagIDs evt) \<and>
           (\<exists>k < 1000. map unat (cteBinTagIDs evt) = [k..<k + nat n])"
proof -
  obtain t g' where t: "Int63n R 1000 (ctopo_rng s) = Inr (t, g')" "0 \<le> t" "t < 1000"
    by (rule Int63n_ok [OF R, of 1000 "ctopo_rng s"]) auto
  let ?bts = "map (\<lambda>i. word_of_int t + of_nat i :: u32) [0..<nat n]"
  have u: "unat (word_of_int t + of_nat i :: u32) = nat t + i" if "i < nat n" for i
  proof -
    have sum: "word_of_int t + of_nat i = (of_nat (nat t + i) :: u32)" using t(2) by simp
    have "nat t < 1000" "nat n \<le> 4294966296" using n t(2,3) by (simp_all add: nat_less_iff nat_le_iff)
    then have "nat t + i < 2 ^ 32" using that by simp
    then have "(nat t + i) mod 2 ^ 32 = nat t + i" by simp
    then show ?thesis unfolding sum by (simp only: unat_of_nat take_bit_eq_mod) simp
  qed
  have unats: "map unat ?bts = [nat t..<nat t + nat n]"
    by (rule nth_equalityI) (simp_all add: u)
  then have "distinct (map unat ?bts)" by (simp only: distinct_upt)
  then have "distinct ?bts" by (metis distinct_map)
  moreover have "AddPPSEvent R p n s = Inr (\<lparr>cteKind = EvtAddPPS, ctePPSID = p, cteBinTagIDs = ?bts\<rparr>, s\<lparr>ctopo_rng := g'\<rparr>)"
    using t(1) n(1) by (simp add: AddPPSEvent_def Let_def)
  moreover have "nat t < 1000" using t(3) by simp
  ultimately show ?thesis using unats by (intro exI conjI) (assumption | simp)+
qed

text \<open>The synthetic deltas of the benchmarks stay within twice the score scale.\<close>

lemma random_score_ok:
  assumes "rand_contract R"
  shows "\<exists>d g'. random_score R rt g = Inr (d, g') \<and> \<bar>sint d\<bar> \<le> 2 ^ 9"
proof -
  obtain f g1 where f: "draw_float32 R g = (f, g1)" "unit_float f" using float32_ok [OF assms] .
  obtain m e where m: "f = F32 m e" "0 \<le> f32_val (F32 m e)" "f32_val (F32 m e) < 1"
    using f(2) by (rule unit_float_cases)
  have "\<bar>f32_val (F32 m e) * f32_val (F32 2 0)\<bar> \<le> 2 powi 1" using m(2,3) by (simp add: abs_mult)
  from f32_mul_add_within [OF this, of "-1" 0] have
    "f32_within 2 (f32_mul_add (fuses rt) f (F32 2 0) (F32 (-1) 0))" by (simp add: m(1))
  from scale_score_within [OF this, of 9] show ?thesis using f(1) by (simp add: random_score_def)
qed

lemma buildSyntheticDelta_ok:
  assumes "rand_contract R" and "0 \<le> n"
  shows "\<exists>delta. buildSyntheticDelta R rt n = Inr delta \<and> length delta = nat n \<and>
           (\<forall>d \<in> set delta. \<bar>sint d\<bar> \<le> 2 ^ 9)"
  using draw_list_ok [of "\<lambda>_. True" "random_score R rt" "\<lambda>d. \<bar>sint d\<bar> \<le> 2 ^ 9" "NewSource R 42" "nat n"]
    random_score_ok [OF assms(1), of rt] assms(2)
  by (auto simp: buildSyntheticDelta_def)

end
