(* ===== verification/Order_Seeding.thy ===== *)
theory Order_Seeding
  imports Mock_Streams Service_Setup Pair_Life_Cycle
begin

text \<open>
  The part of both \<^verbatim>\<open>main.go\<close> that fills a new pod: one event per order slot from the
  mock stream, ingested in turn, and the count that reports whether every order is active
  and listed under every bin tag.  The lemmas show that it is.
\<close>

section \<open>The code\<close>

definition seed_order ::
  "'g go_rand \<Rightarrow> go_runtime \<Rightarrow> workload \<Rightarrow> (nat \<Rightarrow> i64) \<Rightarrow> i64 \<Rightarrow> nat \<Rightarrow>
     'g mock_order_stream \<times> pps_matrix compute_engine \<Rightarrow>
     ('g mock_order_stream \<times> pps_matrix compute_engine) go" where
  "seed_order R rt w now_at nowSecs i s =
     (case s of (stream, e) \<Rightarrow>
        gbind (Next R w (now_at i) (of_nat i) stream) (\<lambda>(evt, stream').
        gbind (IngestOrder rt w evt nowSecs (Registry e, Indexes e, Matrix e)) (\<lambda>st.
        Inr (stream', set_store e st))))"

definition seed_orders ::
  "'g go_rand \<Rightarrow> go_runtime \<Rightarrow> workload \<Rightarrow> (nat \<Rightarrow> i64) \<Rightarrow> i64 \<Rightarrow>
     'g mock_order_stream \<times> pps_matrix compute_engine \<Rightarrow>
     ('g mock_order_stream \<times> pps_matrix compute_engine) go" where
  "seed_orders R rt w now_at nowSecs = gfold (seed_order R rt w now_at nowSecs) [0..<NumOrders w]"

record worst_case =
  activeCount :: nat
  binTagIDs :: nat
  btMin :: nat
  btMax :: nat
  tpidIDs :: nat

definition count_active :: "workload \<Rightarrow> order_registry \<Rightarrow> nat go" where
  "count_active w r =
     gfold (\<lambda>i n. gbind (go_index (Meta r) i) (\<lambda>m. Inr (if Active m then n + 1 else n))) [0..<NumOrders w] 0"

definition bintag_range :: "inverted_indexes \<Rightarrow> u32 list \<Rightarrow> nat \<times> nat \<Rightarrow> nat \<times> nat" where
  "bintag_range ix =
     fold (\<lambda>bt (mn, mx). let n = length (map_list (BinTagToOrders ix) bt)
                         in (if n < mn then n else mn, if mx < n then n else mx))"

definition worst_case_check :: "workload \<Rightarrow> 'm compute_engine \<Rightarrow> worst_case go" where
  "worst_case_check w e =
     gbind (count_active w (Registry e)) (\<lambda>n.
     case bintag_range (Indexes e) (map of_nat [1..<numBinTags w + 1]) (NumOrders w, 0) of
       (mn, mx) \<Rightarrow>
         Inr \<lparr>activeCount = n, binTagIDs = card (dom (BinTagToOrders (Indexes e))), btMin = mn, btMax = mx,
              tpidIDs = card (dom (TPIDToOrders (Indexes e)))\<rparr>)"

text \<open>The cgo program's bin tags start at 0.\<close>

definition cgo_seed_order ::
  "'g go_rand \<Rightarrow> go_runtime \<Rightarrow> workload \<Rightarrow> (nat \<Rightarrow> i64) \<Rightarrow> i64 \<Rightarrow> nat \<Rightarrow>
     'g cgo_order_stream \<times> c_matrix compute_engine \<Rightarrow>
     ('g cgo_order_stream \<times> c_matrix compute_engine) go" where
  "cgo_seed_order R rt w now_at nowSecs i s =
     (case s of (stream, e) \<Rightarrow>
        gbind (cgo_Next R rt (now_at i) (of_nat i) stream) (\<lambda>(evt, stream').
        gbind (cgo_IngestOrder rt w evt nowSecs (Registry e, Indexes e, Some (Matrix e)))
          (\<lambda>(r, ix, m). case m of
             None \<Rightarrow> Inr (stream', e\<lparr>Registry := r, Indexes := ix\<rparr>)
           | Some m' \<Rightarrow> Inr (stream', set_store e (r, ix, m')))))"

definition cgo_seed_orders ::
  "'g go_rand \<Rightarrow> go_runtime \<Rightarrow> workload \<Rightarrow> (nat \<Rightarrow> i64) \<Rightarrow> i64 \<Rightarrow>
     'g cgo_order_stream \<times> c_matrix compute_engine \<Rightarrow>
     ('g cgo_order_stream \<times> c_matrix compute_engine) go" where
  "cgo_seed_orders R rt w now_at nowSecs =
     gfold (cgo_seed_order R rt w now_at nowSecs) [0..<NumOrders w]"

definition cgo_worst_case_check :: "workload \<Rightarrow> c_matrix compute_engine \<Rightarrow> worst_case go" where
  "cgo_worst_case_check w e =
     gbind (count_active w (Registry e)) (\<lambda>n.
     case bintag_range (Indexes e) (map of_nat [0..<numBinTags w]) (NumOrders w, 0) of
       (mn, mx) \<Rightarrow>
         Inr \<lparr>activeCount = n, binTagIDs = card (dom (BinTagToOrders (Indexes e))), btMin = mn, btMax = mx,
              tpidIDs = card (dom (TPIDToOrders (Indexes e)))\<rparr>)"

section \<open>What seeding leaves\<close>

text \<open>
  The first \<open>n\<close> orders are active since \<open>now\<close>; they are listed, in order, under each of the
  bin tags \<open>bts\<close>, and nothing is listed under any other.
\<close>

definition seeded ::
  "i64 \<Rightarrow> u32 list \<Rightarrow> nat \<Rightarrow> order_registry \<Rightarrow> inverted_indexes \<Rightarrow> bool" where
  "seeded now bts n r ix \<longleftrightarrow>
     (\<forall>j < n. Active (Meta r ! j) \<and> InsertedAtSecs (Meta r ! j) = now) \<and>
     (\<forall>b. bintag_orders ix b = (if b \<in> set bts then map of_nat [0..<n] else []))"

text \<open>No order is listed more than \<open>n\<close> times under one TPID.\<close>

definition tpid_bound :: "nat \<Rightarrow> inverted_indexes \<Rightarrow> bool" where
  "tpid_bound n ix \<longleftrightarrow> (\<forall>t oid. count_list (tpid_orders ix t) oid \<le> n)"

lemma seeded_New: "seeded now bts 0 r NewInvertedIndexes"
  by (simp add: seeded_def NewInvertedIndexes_def bintag_orders_def)

lemma tpid_bound_New: "tpid_bound n NewInvertedIndexes"
  by (simp add: tpid_bound_def NewInvertedIndexes_def tpid_orders_def)

lemma distinct_count: "distinct xs \<Longrightarrow> count_list xs x = (if x \<in> set xs then 1 else 0)"
  by (induction xs) auto

lemma of_nat_notin_seeded:
  assumes "i < 2 ^ 32"
  shows "removeAll (of_nat i :: u32) (map of_nat [0..<i]) = map of_nat [0..<i]"
proof (rule removeAll_id)
  show "(of_nat i :: u32) \<notin> set (map of_nat [0..<i])"
    using assms by (auto simp: of_nat_u32_inj)
qed

lemma seeded_step:
  assumes "seeded now bts i r ix"
    and ing: "ingested w meta ts bts base rows sc (r, ix, m) (r', ix', m')"
    and meta: "OrderID meta = of_nat i" "Active meta" "InsertedAtSecs meta = now"
    and i: "i < NumOrders w" "NumOrders w \<le> 2 ^ 31" "length (Meta r) = NumOrders w" and bts: "distinct bts"
  shows "seeded now bts (Suc i) r' ix'"
proof -
  have u: "unat (of_nat i :: u32) = i" "i < 2 ^ 32" using i by (simp_all add: unat_of_nat take_bit_eq_mod)
  have M: "Meta r' = (Meta r)[i := meta]"
    and B: "bintag_orders ix' b = removeAll (of_nat i) (bintag_orders ix b) @ replicate (count_list bts b) (of_nat i)" for b
    using ing by (simp_all add: ingested_def Let_def meta(1) u(1))
  have "count_list bts b = (if b \<in> set bts then 1 else 0)" for b
    using bts by (rule distinct_count)
  then have "bintag_orders ix' b = (if b \<in> set bts then map of_nat [0..<Suc i] else [])" for b
    using assms(1) u(2) by (simp add: seeded_def B of_nat_notin_seeded)
  then show ?thesis
    using assms(1) meta(2,3) i by (auto simp: seeded_def M nth_list_update less_Suc_eq)
qed

lemma tpid_bound_step:
  assumes "tpid_bound n ix" and ing: "ingested w meta ts bts base rows sc (r, ix, m) (r', ix', m')"
    and "length ts \<le> n"
  shows "tpid_bound n ix'"
proof -
  have "tpid_orders ix' t = removeAll (OrderID meta) (tpid_orders ix t) @
      replicate (count_list ts t) (OrderID meta)" for t
    using ing by (simp add: ingested_def Let_def)
  moreover have "count_list ts t \<le> n" for t using count_le_length [of ts t] assms(3) by simp
  ultimately show ?thesis using assms(1)
    by (auto simp: tpid_bound_def count_list_append count_list_removeAll count_list_replicate_eq)
qed

lemma tpid_bound_removes:
  assumes "index_inv ix" and "tpid_bound n ix"
  shows "tpid_bound n (fold RemoveOrder oids ix)"
proof -
  have "count_list (filter P xs) x \<le> count_list xs x" for P xs and x :: u32
    by (induction xs) auto
  then show ?thesis
    using idx.removes_absent [OF assms(1), of oids] assms(2) order_trans by (simp add: tpid_bound_def) blast
qed

text \<open>The bin tags of the two pods.\<close>

lemma pod_bintags:
  assumes "n < 2 ^ 32"
  shows "distinct (map (\<lambda>i. of_nat i + 1 :: u32) [0..<n])" "distinct (map of_nat [0..<n] :: u32 list)"
    "map of_nat [1..<n + 1] = map (\<lambda>i. of_nat i + 1 :: u32) [0..<n]"
proof -
  show "distinct (map of_nat [0..<n] :: u32 list)"
    using assms by (auto simp: distinct_map inj_on_def of_nat_u32_inj)
  then show "distinct (map (\<lambda>i. of_nat i + 1 :: u32) [0..<n])"
    by (auto simp: distinct_map inj_on_def)
  have "[1..<n + 1] = map Suc [0..<n]" by (simp add: map_Suc_upt)
  then show "map of_nat [1..<n + 1] = map (\<lambda>i. of_nat i + 1 :: u32) [0..<n]"
    by (simp add: comp_def add.commute)
qed

abbreviation pure_bintags :: "workload \<Rightarrow> u32 list" where
  "pure_bintags w \<equiv> map (\<lambda>i. of_nat i + 1) [0..<numBinTags w]"

abbreviation cgo_bintags :: "workload \<Rightarrow> u32 list" where
  "cgo_bintags w \<equiv> map of_nat [0..<numBinTags w]"

text \<open>An engine that differs from another in its store only.\<close>

definition same_pod :: "'m compute_engine \<Rightarrow> 'm compute_engine \<Rightarrow> bool" where
  "same_pod e e' \<longleftrightarrow>
     Pairs e' = Pairs e \<and> Topology e' = Topology e \<and> DB e' = DB e \<and> pendingWarmup e' = pendingWarmup e"

lemma seed_orders_ok:
  assumes R: "rand_contract R" and inv: "pure_inv w e" and new: "Indexes e = NewInvertedIndexes"
    and bts: "numBinTags w < 2 ^ 32"
  shows "\<exists>stream' e'. seed_orders R rt w now_at now (stream, e) = Inr (stream', e') \<and> pure_inv w e' \<and>
           NumPPS (Matrix e') = NumPPS (Matrix e) \<and> same_pod e e' \<and>
           seeded now (pure_bintags w) (NumOrders w) (Registry e') (Indexes e')"
proof -
  let ?P = "\<lambda>i (stream :: 'a mock_order_stream, e'). pure_inv w e' \<and> NumPPS (Matrix e') = NumPPS (Matrix e) \<and>
      same_pod e e' \<and> seeded now (pure_bintags w) i (Registry e') (Indexes e')"
  have "\<exists>s'. gfold (seed_order R rt w now_at now) [0..<NumOrders w] (stream, e) = Inr s' \<and> ?P (NumOrders w) s'"
  proof (rule gfold_upt_inv)
    show "?P 0 (stream, e)" using inv seeded_New by (simp add: new same_pod_def)
  next
    fix i s assume i: "i < NumOrders w" and P: "?P i s"
    obtain stream1 e1 where s: "s = (stream1, e1)" by (cases s)
    with P have e1: "pure_inv w e1" "NumPPS (Matrix e1) = NumPPS (Matrix e)" "same_pod e e1"
      "seeded now (pure_bintags w) i (Registry e1) (Indexes e1)" by auto
    then have w: "NumOrders w \<le> 2 ^ 31" "length (Meta (Registry e1)) = NumOrders w"
      "store_inv w (matrix_wf w) (Registry e1, Indexes e1, Matrix e1)"
      by (simp_all add: engine_inv_def workload_ok_def store_inv_def registry_inv_def)
    obtain evt g where evt: "Next R w (now_at i) (of_nat i) stream1 = Inr (evt, stream1\<lparr>stream_rng := g\<rparr>)"
      "stream_event w (now_at i) (of_nat i) evt" using Next_ok [OF R] by blast
    have oid: "unat (evOrderID evt) = i" "evOrderID evt = of_nat i" "evActive evt"
      "EligibleBinTags evt = pure_bintags w"
      using evt(2) i w(1) by (simp_all add: stream_event_def unat_of_nat take_bit_eq_mod)
    then have "unat (evOrderID evt) < NumOrders w" using i by simp
    from IngestOrder_steps [OF w(3) this, of rt now] obtain r ix m where st:
      "IngestOrder rt w evt now (Registry e1, Indexes e1, Matrix e1) = Inr (r, ix, m)"
      "store_inv w (matrix_wf w) (r, ix, m)"
      "ingested w (event_meta evt now) (TPIDs evt) (EligibleBinTags evt)
         (clampInt16 (scale_score rt (evBaseScore evt))) NumPPS (cell w)
         (Registry e1, Indexes e1, Matrix e1) (r, ix, m)"
      by auto
    have rows: "NumPPS m = NumPPS (Matrix e1)" using st(3) by (simp add: ingested_def Let_def)
    have "seeded now (pure_bintags w) (Suc i) r ix"
      using seeded_step [OF e1(4) st(3) [unfolded oid(4)]] i w(1,2) pod_bintags(1) [OF bts] oid
      by (simp add: event_meta_def)
    then have "?P (Suc i) (stream1\<lparr>stream_rng := g\<rparr>, set_store e1 (r, ix, m))"
      using e1 st(2) rows by (simp add: engine_inv_def same_pod_def)
    then show "\<exists>s'. seed_order R rt w now_at now i s = Inr s' \<and> ?P (Suc i) s'"
      using evt(1) st(1) by (intro exI [of _ "(stream1\<lparr>stream_rng := g\<rparr>, set_store e1 (r, ix, m))"])
        (simp add: s seed_order_def)
  qed simp
  then show ?thesis by (auto simp: seed_orders_def)
qed

lemma cgo_seed_orders_ok:
  assumes R: "rand_contract R" and inv: "cgo_inv w e" and new: "Indexes e = NewInvertedIndexes"
    and n: "0 < sint (sNumTPIDs stream)" "unat (sNumBinTags stream) = numBinTags w"
  shows "\<exists>stream' e'. cgo_seed_orders R rt w now_at now (stream, e) = Inr (stream', e') \<and> cgo_inv w e' \<and>
           cNumPPS (Matrix e') = cNumPPS (Matrix e) \<and> same_pod e e' \<and>
           seeded now (cgo_bintags w) (NumOrders w) (Registry e') (Indexes e') \<and> tpid_bound 5 (Indexes e')"
proof -
  let ?P = "\<lambda>i (s :: 'a cgo_order_stream, e'). cgo_inv w e' \<and> cNumPPS (Matrix e') = cNumPPS (Matrix e) \<and>
      same_pod e e' \<and> seeded now (cgo_bintags w) i (Registry e') (Indexes e') \<and>
      tpid_bound 5 (Indexes e') \<and> sNumTPIDs s = sNumTPIDs stream \<and> sNumBinTags s = sNumBinTags stream"
  have bts: "numBinTags w < 2 ^ 32"
    unfolding n(2) [symmetric] using unsigned_less [where 'a = nat and w = "sNumBinTags stream"] by simp
  have "\<exists>s'. gfold (cgo_seed_order R rt w now_at now) [0..<NumOrders w] (stream, e) = Inr s' \<and> ?P (NumOrders w) s'"
  proof (rule gfold_upt_inv)
    show "?P 0 (stream, e)" using inv seeded_New tpid_bound_New by (simp add: new same_pod_def)
  next
    fix i s assume i: "i < NumOrders w" and P: "?P i s"
    obtain stream1 e1 where s: "s = (stream1, e1)" by (cases s)
    with P have e1: "cgo_inv w e1" "cNumPPS (Matrix e1) = cNumPPS (Matrix e)" "same_pod e e1"
      "seeded now (cgo_bintags w) i (Registry e1) (Indexes e1)" "tpid_bound 5 (Indexes e1)"
      and s1: "sNumTPIDs stream1 = sNumTPIDs stream" "sNumBinTags stream1 = sNumBinTags stream" by auto
    then have w: "NumOrders w \<le> 2 ^ 31" "length (Meta (Registry e1)) = NumOrders w"
      "store_inv w (c_wf w) (Registry e1, Indexes e1, Matrix e1)"
      by (simp_all add: engine_inv_def workload_ok_def store_inv_def registry_inv_def)
    have "0 < sint (sNumTPIDs stream1)" using n(1) s1(1) by simp
    from cgo_Next_ok [OF R this] obtain evt g where evt:
      "cgo_Next R rt (now_at i) (of_nat i) stream1 = Inr (evt, stream1\<lparr>cstream_rng := g\<rparr>)"
      "cgo_event_drawn stream1 (now_at i) evt" "cevOrderID evt = of_nat i"
      "cevEligibleBinTags evt = cgo_bintags w" using s1(2) n(2) by metis
    have oid: "unat (cevOrderID evt) = i" and len: "length (cevTPIDs evt) \<le> 5"
      using evt(2,3) i w(1) by (simp_all add: cgo_event_drawn_def unat_of_nat take_bit_eq_mod)
    then have "unat (cevOrderID evt) < NumOrders w" using i by simp
    from cgo_IngestOrder_steps [OF w(3) this, of rt now] obtain r ix m where st:
      "cgo_IngestOrder rt w evt now (Registry e1, Indexes e1, Some (Matrix e1)) = Inr (r, ix, Some m)"
      "store_inv w (c_wf w) (r, ix, m)"
      "ingested w (cgo_event_meta evt now) (cevTPIDs evt) (cevEligibleBinTags evt)
         (clampInt16 (scale_score rt (cevBaseScore evt))) cNumPPS (\<lambda>cm. cell w (c_view cm))
         (Registry e1, Indexes e1, Matrix e1) (r, ix, m)"
      by auto
    have rows: "cNumPPS m = cNumPPS (Matrix e1)" using st(3) by (simp add: ingested_def Let_def)
    have "seeded now (cgo_bintags w) (Suc i) r ix"
      using seeded_step [OF e1(4) st(3) [unfolded evt(4)]] i w(1,2) pod_bintags(2) [OF bts] evt(3)
      by (simp add: cgo_event_meta_def)
    moreover have "tpid_bound 5 ix" using tpid_bound_step [OF e1(5) st(3) len] .
    ultimately have "?P (Suc i) (stream1\<lparr>cstream_rng := g\<rparr>, set_store e1 (r, ix, m))"
      using e1 s1 st(2) rows by (simp add: engine_inv_def same_pod_def)
    then show "\<exists>s'. cgo_seed_order R rt w now_at now i s = Inr s' \<and> ?P (Suc i) s'"
      using evt(1) st(1) by (intro exI [of _ "(stream1\<lparr>cstream_rng := g\<rparr>, set_store e1 (r, ix, m))"])
        (simp add: s cgo_seed_order_def)
  qed simp
  then show ?thesis by (auto simp: cgo_seed_orders_def)
qed

section \<open>The report\<close>

lemma count_active_all:
  assumes "\<forall>j < NumOrders w. Active (Meta r ! j)" and "length (Meta r) = NumOrders w"
  shows "count_active w r = Inr (NumOrders w)"
proof -
  let ?g = "\<lambda>i n. gbind (go_index (Meta r) i) (\<lambda>m. Inr (if Active m then n + 1 else n))"
  have "\<exists>n. gfold ?g [0..<NumOrders w] 0 = Inr n \<and> n = NumOrders w"
    by (rule gfold_upt_inv) (use assms in \<open>auto simp: go_simps\<close>)
  then show ?thesis by (simp add: count_active_def)
qed

lemma bintag_range_all:
  assumes "\<forall>b \<in> set bts. length (map_list (BinTagToOrders ix) b) = n" and "bts \<noteq> []"
  shows "bintag_range ix bts (n, 0) = (n, n)"
proof -
  have "bintag_range ix bs (n, x) = (n, if bs = [] then x else n)"
    if "set bs \<subseteq> set bts" "x \<le> n" for bs x
    using that
  proof (induction bs arbitrary: x)
    case (Cons b bs)
    then have "length (map_list (BinTagToOrders ix) b) = n" using assms(1) by simp
    with Cons.IH [of n] Cons.IH [of x] Cons.prems show ?case
      by (auto simp: bintag_range_def Let_def)
  qed (simp add: bintag_range_def)
  with assms(2) show ?thesis by simp
qed

lemma dom_bintags:
  assumes "index_inv ix"
  shows "dom (BinTagToOrders ix) = {b. bintag_orders ix b \<noteq> []}"
  using assms by (auto simp: index_inv_def no_empty_def bintag_orders_def map_list_def split: option.splits)

lemma worst_case_seeded:
  assumes inv: "store_inv w minv (Registry e, Indexes e, Matrix e)"
    and s: "seeded now bts (NumOrders w) (Registry e) (Indexes e)" and "distinct bts" "bts \<noteq> []" "0 < NumOrders w"
  shows "count_active w (Registry e) = Inr (NumOrders w)"
    "bintag_range (Indexes e) bts (NumOrders w, 0) = (NumOrders w, NumOrders w)"
    "card (dom (BinTagToOrders (Indexes e))) = length bts"
proof -
  have i: "length (Meta (Registry e)) = NumOrders w" "index_inv (Indexes e)"
    using inv by (simp_all add: store_inv_def registry_inv_def)
  have "\<forall>j < NumOrders w. Active (Meta (Registry e) ! j)" using s by (simp add: seeded_def)
  then show "count_active w (Registry e) = Inr (NumOrders w)" using i(1) by (rule count_active_all)
  have lists: "bintag_orders (Indexes e) b = (if b \<in> set bts then map of_nat [0..<NumOrders w] else [])" for b
    using s by (simp add: seeded_def)
  then show "bintag_range (Indexes e) bts (NumOrders w, 0) = (NumOrders w, NumOrders w)"
    using assms(4) unfolding bintag_orders_def by (intro bintag_range_all) auto
  have "dom (BinTagToOrders (Indexes e)) = set bts" using assms(5) by (simp add: dom_bintags [OF i(2)] lists)
  then show "card (dom (BinTagToOrders (Indexes e))) = length bts"
    using assms(3) by (simp add: distinct_card)
qed

end
