(* ===== verification/Engine_Agreement.thy ===== *)
theory Engine_Agreement
  imports Order_Seeding
begin

text \<open>
  The two programs against each other: from corresponding states and corresponding updates,
  a cycle of the pure and a cycle of the cgo engine lead to corresponding states, and the
  lists they publish are best lists of the same entries.
\<close>

section \<open>Corresponding states\<close>

text \<open>
  Every score has been clamped: \<open>-32768\<close>, which the clamping never gives, is nowhere.  (An
  empty update would change such a score in the pure program only.)
\<close>

definition clamped_cells :: "workload \<Rightarrow> pps_matrix compute_engine \<Rightarrow> bool" where
  "clamped_cells w e \<longleftrightarrow> (\<forall>p < NumPPS (Matrix e). \<forall>j < NumOrders w. - 32767 \<le> sint (cell w (Matrix e) p j))"

definition same_store :: "workload \<Rightarrow> pps_matrix compute_engine \<Rightarrow> c_matrix compute_engine \<Rightarrow> bool" where
  "same_store w e ce \<longleftrightarrow>
     Meta (Registry ce) = Meta (Registry e) \<and> Indexes ce = Indexes e \<and>
     cNumPPS (Matrix ce) = NumPPS (Matrix e) \<and>
     (\<forall>p < NumPPS (Matrix e). \<forall>j < NumOrders w. cell w (c_view (Matrix ce)) p j = cell w (Matrix e) p j) \<and>
     clamped_cells w e"

text \<open>
  The pure program numbers the PPS of its rows from 1, the cgo program from 0: pairs
  correspond when they have the same bin tag and the same row.  A pair that has been removed
  is left out, since only the pure ranking skips it.
\<close>

definition same_pair :: "nat \<Rightarrow> pair_info \<Rightarrow> pair_info \<Rightarrow> bool" where
  "same_pair n pair cpair \<longleftrightarrow>
     BinTagID cpair = BinTagID pair \<and> unat (PPSID cpair) = pair_row n pair \<and> unat (PPSID cpair) < n"

definition same_pairs :: "pps_matrix compute_engine \<Rightarrow> c_matrix compute_engine \<Rightarrow> bool" where
  "same_pairs e ce \<longleftrightarrow>
     list_all2 (same_pair (NumPPS (Matrix e))) (elems (Pairs e)) (elems (Pairs ce)) \<and>
     (\<forall>pair \<in> set (elems (Pairs e)). val (Topology e) (Key pair) \<noteq> Some StatusRemoved)"

definition same_updates :: "item_dict_update option \<Rightarrow> cgo_item_dict_update option \<Rightarrow> bool" where
  "same_updates update cupdate \<longleftrightarrow>
     (case (update, cupdate) of
        (None, None) \<Rightarrow> True
      | (Some u, Some cu) \<Rightarrow>
          map (\<lambda>d. (TPID d, ScoreDelta d)) (TPIDDeltas u) =
          map (\<lambda>x. (uTPID x, f32_sub (NewContrib x) (OldContrib x))) (Updates cu)
      | _ \<Rightarrow> False)"

section \<open>The same deltas\<close>

lemma scale_zero:
  assumes "f32_is_zero f"
  shows "scale_score rt f = 0"
proof -
  obtain e where "f = F32 0 e" using assms by (cases f) auto
  moreover have "f32_round 0 e' = F32 0 (f32_round_exp 0 e')" for e'
    by (simp add: f32_round_def rne_def Let_def)
  ultimately show ?thesis
    by (simp add: scale_score_def ScoreScale_def int32_of_f32_def trunc_exp_def)
qed

lemma order_delta_Cons:
  "order_delta ((t, d) # cs) ix oid = of_nat (count_list (tpid_orders ix t) oid) * d + order_delta cs ix oid"
  by (simp add: order_delta_def)

lemma order_delta_cgo:
  "order_delta (map (\<lambda>x. (uTPID x, scale_score rt (f32_sub (NewContrib x) (OldContrib x)))) us) ix oid =
     order_delta (cgo_contributions rt us) ix oid"
proof (induction us)
  case (Cons u us)
  then show ?case
    by (cases "f32_is_zero (f32_sub (NewContrib u) (OldContrib u))")
      (simp_all add: cgo_contributions_def order_delta_Cons scale_zero)
qed (simp add: cgo_contributions_def)

lemma same_contributions:
  assumes "map (\<lambda>d. (TPID d, ScoreDelta d)) ds =
           map (\<lambda>x. (uTPID x, f32_sub (NewContrib x) (OldContrib x))) us"
  shows "order_delta (contributions rt ds) ix oid = order_delta (cgo_contributions rt us) ix oid"
proof -
  let ?f = "\<lambda>(t, f). (t, scale_score rt f)"
  have "contributions rt ds = map ?f (map (\<lambda>d. (TPID d, ScoreDelta d)) ds)"
    by (simp add: contributions_def)
  also have "\<dots> = map (\<lambda>x. (uTPID x, scale_score rt (f32_sub (NewContrib x) (OldContrib x)))) us"
    unfolding assms by simp
  finally show ?thesis by (simp only: order_delta_cgo)
qed

lemma add_clamped_zero:
  assumes "- 32767 \<le> sint x"
  shows "add_clamped x 0 = x"
proof (rule signed_word_eqI)
  have "sint (add_clamped x 0) = clamp_int (sint x)"
    using add_clamped_exact [of x 0] sint_16_range [of x] by simp
  then show "sint (add_clamped x 0) = sint x"
    using assms sint_16_range [of x] by (simp add: clamp_int_def)
qed

lemma add_clamped_low: "- 32767 \<le> sint (add_clamped x d)"
  by (simp add: add_clamped_def sint_clampInt16 clamp_int_def)

lemma next_score_low: "- 32767 \<le> sint (c p (unat oid)) \<Longrightarrow> - 32767 \<le> sint (next_score now r d c p oid)"
  by (auto simp: next_score_def add_clamped_low split: option.split)

lemma same_deltas:
  assumes "same_updates update cupdate" and low: "- 32767 \<le> sint (c p (unat oid))"
  shows "next_score now r (cgo_update_deltas rt cupdate ix) c p oid =
         next_score now r (update_deltas rt update ix) c p oid"
proof (cases update)
  case None
  then show ?thesis using assms(1)
    by (simp add: same_updates_def update_deltas_def cgo_update_deltas_def split: option.splits)
next
  case (Some u)
  then obtain cu where cu: "cupdate = Some cu"
    "map (\<lambda>d. (TPID d, ScoreDelta d)) (TPIDDeltas u) =
     map (\<lambda>x. (uTPID x, f32_sub (NewContrib x) (OldContrib x))) (Updates cu)"
    using assms by (auto simp: same_updates_def split: option.splits)
  have "order_delta (contributions rt (TPIDDeltas u)) ix = order_delta (cgo_contributions rt (Updates cu)) ix"
    using same_contributions [OF cu(2)] by (simp add: fun_eq_iff)
  moreover have "order_delta (cgo_contributions rt []) ix oid = 0"
    by (simp add: order_delta_def cgo_contributions_def)
  ultimately show ?thesis using low
    by (auto simp: Some cu(1) update_deltas_def cgo_update_deltas_def next_score_def add_clamped_zero)
qed

section \<open>The same cycle\<close>

lemma same_pairs_row:
  assumes "same_pairs e ce" and "p < length (elems (Pairs e))"
  shows "same_pair (NumPPS (Matrix e)) (elems (Pairs e) ! p) (elems (Pairs ce) ! p)"
    "val (Topology e) (Key (elems (Pairs e) ! p)) \<noteq> Some StatusRemoved"
    "length (elems (Pairs ce)) = length (elems (Pairs e))"
  using assms by (auto simp: same_pairs_def list_all2_conv_all_nth)

text \<open>
  Where the bin tag of a pair has orders at all, both rank the same entries: without orders
  the pure program falls back to all active ones.
\<close>

lemma same_tables:
  assumes store: "same_store w e ce" and pairs: "same_pairs e ce" and p: "p < length (elems (Pairs e))"
    and listed: "bintag_orders (Indexes e) (BinTagID (elems (Pairs e) ! p)) \<noteq> []"
    and range: "index_range w (Indexes e)"
  shows "pair_tables w now e p = cgo_pair_tables w now ce p"
proof -
  let ?pair = "elems (Pairs e) ! p" and ?cpair = "elems (Pairs ce) ! p"
  let ?oids = "bintag_orders (Indexes e) (BinTagID ?pair)"
  note row = same_pairs_row(1,2) [OF pairs p]
  have sc: "cell w (c_view (Matrix ce)) (unat (PPSID ?cpair)) (unat oid) =
      cell w (Matrix e) (pair_row (NumPPS (Matrix e)) ?pair) (unat oid)" if "oid \<in> set ?oids" for oid
    using store row(1) range that by (simp add: same_store_def same_pair_def index_range_def)
  have "table_entries now (Registry e) f ?oids = table_entries now (Registry e) g ?oids"
    if "\<forall>oid \<in> set ?oids. f oid = g oid" for f g
    using that by (auto simp: table_entries_def candidates_def Let_def)
  moreover have "table_entries now (Registry ce) f oids = table_entries now (Registry e) f oids" for f oids
    using store by (simp add: table_entries_def candidates_def same_store_def Let_def)
  ultimately show ?thesis
    using row listed sc store
    by (simp add: pair_tables_def cgo_pair_tables_def pair_orders_def Let_def same_store_def same_pair_def)
qed

text \<open>Two lists that are best lists of the same entries, padded.\<close>

definition same_ranking :: "workload \<Rightarrow> score_entry list \<Rightarrow> i32 list \<Rightarrow> i32 list \<Rightarrow> bool" where
  "same_ranking w xs l l' \<longleftrightarrow>
     (\<exists>ys zs. top_k (TopK w) xs ys \<and> top_k (TopK w) xs zs \<and> map key ys = map key zs \<and>
        l = map orderID ys @ replicate (TopK w - length ys) (-1) \<and>
        l' = map orderID zs @ replicate (TopK w - length zs) (-1)) \<and>
     (distinct (map key xs) \<longrightarrow> l = l')"

lemma same_rankingI:
  assumes "ranked_slot w (Some tabs) t l" and "ranked_slot w (Some tabs) t l'"
  shows "same_ranking w (tbl tabs t) l l'"
proof -
  obtain ys zs where yz: "top_k (TopK w) (tbl tabs t) ys" "top_k (TopK w) (tbl tabs t) zs"
    "l = map orderID ys @ replicate (TopK w - length ys) (-1)"
    "l' = map orderID zs @ replicate (TopK w - length zs) (-1)"
    using assms by (auto simp: ranked_slot_def)
  show ?thesis
    unfolding same_ranking_def
    using yz top_k_scores [OF yz(1,2)] top_k_unique [OF _ yz(1,2)] by blast
qed

lemma next_score_cong:
  "c p (unat oid) = c' p (unat oid) \<Longrightarrow> next_score now r d c p oid = next_score now r d c' p oid"
  by (simp add: next_score_def)

lemma same_store_cycle:
  assumes same: "same_store w e ce" "same_updates update cupdate" and ok: "workload_ok w"
    and p: "NumPPS (Matrix e') = NumPPS (Matrix e)"
      "store_after_cycle w now (update_deltas rt update) (NumPPS (Matrix e)) (cell w (Matrix e)) (cell w (Matrix e')) e e'"
    and c: "cNumPPS (Matrix ce') = cNumPPS (Matrix ce)"
      "store_after_cycle w now (cgo_update_deltas rt cupdate) (cNumPPS (Matrix ce))
         (cell w (c_view (Matrix ce))) (cell w (c_view (Matrix ce'))) ce ce'"
  shows "same_store w e' ce'"
proof -
  have s: "Meta (Registry ce) = Meta (Registry e)" "Registry ce = Registry e" "Indexes ce = Indexes e"
    "cNumPPS (Matrix ce) = NumPPS (Matrix e)"
    using same(1) by (simp_all add: same_store_def)
  let ?ix = "fold RemoveOrder (expired_ids now (Registry e)) (Indexes e)"
  have after: "\<forall>i < NumPPS (Matrix e). \<forall>oid. unat oid < NumOrders w \<longrightarrow> cell w (Matrix e') i (unat oid) =
      next_score now (Registry e) (update_deltas rt update ?ix) (cell w (Matrix e)) i oid"
    "\<forall>i < NumPPS (Matrix e). \<forall>oid. unat oid < NumOrders w \<longrightarrow> cell w (c_view (Matrix ce')) i (unat oid) =
      next_score now (Registry e) (cgo_update_deltas rt cupdate ?ix) (cell w (c_view (Matrix ce))) i oid"
    using p(2) c(2) by (simp_all add: store_after_cycle_def s(2-4))
  have cells: "cell w (c_view (Matrix ce')) i j = cell w (Matrix e') i j \<and> - 32767 \<le> sint (cell w (Matrix e') i j)"
    if ij: "i < NumPPS (Matrix e)" "j < NumOrders w" for i j
  proof -
    let ?oid = "of_nat j :: u32"
    have u: "unat ?oid = j" using order_at [OF ok ij(2)] .
    have eq: "cell w (c_view (Matrix ce)) i (unat ?oid) = cell w (Matrix e) i (unat ?oid)"
      and low: "- 32767 \<le> sint (cell w (Matrix e) i (unat ?oid))"
      using same(1) ij by (simp_all add: same_store_def clamped_cells_def u)
    have "cell w (Matrix e') i (unat ?oid) = next_score now (Registry e) (update_deltas rt update ?ix) (cell w (Matrix e)) i ?oid"
      "cell w (c_view (Matrix ce')) i (unat ?oid) =
         next_score now (Registry e) (cgo_update_deltas rt cupdate ?ix) (cell w (c_view (Matrix ce))) i ?oid"
      using after(1) [rule_format, OF ij(1), of ?oid] after(2) [rule_format, OF ij(1), of ?oid] ij(2) u
      by simp_all
    moreover have "next_score now (Registry e) d (cell w (c_view (Matrix ce))) i ?oid =
        next_score now (Registry e) d (cell w (Matrix e)) i ?oid" for d
      using eq by (rule next_score_cong)
    moreover have "next_score now (Registry e) (cgo_update_deltas rt cupdate ?ix) (cell w (Matrix e)) i ?oid =
        next_score now (Registry e) (update_deltas rt update ?ix) (cell w (Matrix e)) i ?oid"
      using same(2) low by (rule same_deltas)
    moreover have "- 32767 \<le> sint (next_score now (Registry e) (update_deltas rt update ?ix) (cell w (Matrix e)) i ?oid)"
      using low by (rule next_score_low)
    ultimately show ?thesis by (simp add: u)
  qed
  then show ?thesis using p c s
    by (simp add: same_store_def clamped_cells_def store_after_cycle_def)
qed

lemma ranked_alike:
  assumes "ranked_buffer w n T rb" "ranked_buffer w n' (cgo_pair_tables w now ce) crb" "n' = n"
    and "T i = cgo_pair_tables w now ce i" "i < n" "t < NumTables"
  shows "\<exists>tabs. T i = Some tabs \<and> cgo_pair_tables w now ce i = Some tabs \<and>
           same_ranking w (tbl tabs t) (rb_list w rb i t) (rb_list w crb i t)"
proof -
  obtain tabs where tabs: "cgo_pair_tables w now ce i = Some tabs" by (simp add: cgo_pair_tables_def Let_def)
  then have "ranked_slot w (Some tabs) t (rb_list w rb i t)" "ranked_slot w (Some tabs) t (rb_list w crb i t)"
    using ranked_buffer_slot [OF assms(1,5,6)] ranked_buffer_slot [OF assms(2), of i t] assms(3-6) by simp_all
  then show ?thesis using same_rankingI assms(4) tabs by auto
qed

lemma unlisted_ranks_nothing:
  assumes buf: "ranked_buffer w n (cgo_pair_tables w now ce) crb" and i: "i < n" and t: "t < NumTables"
    and none: "bintag_orders (Indexes ce) (BinTagID (elems (Pairs ce) ! i)) = []"
  shows "rb_list w crb i t = replicate (TopK w) (-1)"
proof -
  obtain tabs where tabs: "cgo_pair_tables w now ce i = Some tabs" "tbl tabs t = []"
    using none by (simp add: cgo_pair_tables_def table_entries_def candidates_def tbl_def Let_def)
  then show ?thesis
    using ranked_buffer_slot [OF buf i t] by (auto simp: ranked_slot_def top_k_def)
qed

lemma same_cycle:
  assumes inv: "pure_inv w e" "cgo_inv w ce" and rt: "sort_contract rt"
    and same: "same_store w e ce" "same_pairs e ce" "same_updates update cupdate"
    and safe: "update_safe w (cgo_update_deltas rt cupdate
        (fold RemoveOrder (expired_ids (now_secs clk) (Registry ce)) (Indexes ce)))"
  shows "\<exists>stats e' cstats ce'. RunCycleWithDict rt w clk update e = Inr (stats, e') \<and>
           cgo_RunCycleWithDict rt w clk cupdate ce = Inr (cstats, ce') \<and>
           pure_inv w e' \<and> cgo_inv w ce' \<and> same_store w e' ce' \<and> same_pairs e' ce' \<and>
           Indexes e' = fold RemoveOrder (expired_ids (now_secs clk) (Registry e)) (Indexes e) \<and>
           (\<forall>p < slen (Pairs e). \<forall>t < NumTables.
              bintag_orders (Indexes e') (BinTagID (elems (Pairs e') ! p)) \<noteq> [] \<longrightarrow>
              (\<exists>tabs. pair_tables w (now_secs clk) (e'\<lparr>Topology := Topology e\<rparr>) p = Some tabs \<and>
                 cgo_pair_tables w (now_secs clk) ce' p = Some tabs \<and>
                 same_ranking w (tbl tabs t) (rb_list w (Load (DB e')) p t) (rb_list w (Load (DB ce')) p t))) \<and>
           (\<forall>p < slen (Pairs e). \<forall>t < NumTables.
              bintag_orders (Indexes e') (BinTagID (elems (Pairs e') ! p)) = [] \<longrightarrow>
              rb_list w (Load (DB ce')) p t = replicate (TopK w) (-1))"
proof -
  let ?now = "now_secs clk"
  from cycle_ok [OF inv(1) rt, of clk update] obtain stats e' where
    p: "RunCycleWithDict rt w clk update e = Inr (stats, e')" "pure_inv w e'" "NumPPS (Matrix e') = NumPPS (Matrix e)"
    "store_after_cycle w ?now (update_deltas rt update) (NumPPS (Matrix e)) (cell w (Matrix e)) (cell w (Matrix e')) e e'"
    "ranked_buffer w (slen (Pairs e)) (pair_tables w ?now (e'\<lparr>Topology := Topology e\<rparr>)) (Load (DB e'))"
    "promoted (pendingWarmup e) (Topology e) (Topology e')" by blast
  have s: "Meta (Registry ce) = Meta (Registry e)" "Registry ce = Registry e" "Indexes ce = Indexes e"
    "cNumPPS (Matrix ce) = NumPPS (Matrix e)" "clamped_cells w e"
    using same(1) by (simp_all add: same_store_def)
  have wf: "slice_wf (Pairs e)" "slice_wf (Pairs ce)" using inv by (simp_all add: engine_inv_def)
  have len: "length (elems (Pairs e)) = slen (Pairs e)" "slen (Pairs ce) = slen (Pairs e)"
    using length_elems [OF wf(1)] length_elems [OF wf(2)] same(2)
    by (auto simp: same_pairs_def dest: list_all2_lengthD)
  have "cgo_rows_ok ce"
    using same(2) s(4) by (auto simp: cgo_rows_ok_def same_pairs_def same_pair_def list_all2_conv_all_nth in_set_conv_nth)
  from cgo_cycle_ok [OF inv(2) rt this safe] obtain cstats ce' where
    ci: "cgo_inv w ce'" and c: "cgo_RunCycleWithDict rt w clk cupdate ce = Inr (cstats, ce')"
    "cNumPPS (Matrix ce') = cNumPPS (Matrix ce)"
    "store_after_cycle w ?now (cgo_update_deltas rt cupdate) (cNumPPS (Matrix ce))
       (cell w (c_view (Matrix ce))) (cell w (c_view (Matrix ce'))) ce ce'"
    "ranked_buffer w (slen (Pairs ce)) (cgo_pair_tables w ?now ce') (Load (DB ce'))" by blast
  note store = same_store_cycle [OF same(1,3) _ p(3,4) c(2,3)]
  let ?e1 = "e'\<lparr>Topology := Topology e\<rparr>"
  have ok: "workload_ok w" using inv(1) by (simp add: engine_inv_def)
  have pairs: "Pairs e' = Pairs e" "Pairs ce' = Pairs ce"
    using p(4) c(3) by (simp_all add: store_after_cycle_def)
  have same1: "same_store w e' ce'" "same_store w ?e1 ce'" "same_pairs ?e1 ce'"
    using store [OF ok] same(2) by (simp_all add: same_store_def clamped_cells_def same_pairs_def p(3) pairs)
  have "val (Topology e') k \<noteq> Some StatusRemoved" if "val (Topology e) k \<noteq> Some StatusRemoved" for k
    using promoted_val [OF p(6), of k] that by simp
  then have same2: "same_pairs e' ce'" using same(2) by (simp add: same_pairs_def p(3) pairs)
  have "index_range w (Indexes ?e1)" using p(2) by (simp add: engine_inv_def store_inv_def)
  then have tables: "pair_tables w ?now ?e1 i = cgo_pair_tables w ?now ce' i"
    if "i < slen (Pairs e)" "bintag_orders (Indexes e') (BinTagID (elems (Pairs e') ! i)) \<noteq> []" for i
    using same_tables [OF same1(2,3)] that by (simp add: pairs len(1))
  have "\<exists>tabs. pair_tables w ?now ?e1 i = Some tabs \<and> cgo_pair_tables w ?now ce' i = Some tabs \<and>
      same_ranking w (tbl tabs t) (rb_list w (Load (DB e')) i t) (rb_list w (Load (DB ce')) i t)"
    if "i < slen (Pairs e)" "t < NumTables" "bintag_orders (Indexes e') (BinTagID (elems (Pairs e') ! i)) \<noteq> []" for i t
    using ranked_alike [OF p(5) c(4) len(2) tables [OF that(1,3)]] that(1,2) .
  moreover have "rb_list w (Load (DB ce')) i t = replicate (TopK w) (-1)"
    if "i < slen (Pairs e)" "t < NumTables" "bintag_orders (Indexes e') (BinTagID (elems (Pairs e') ! i)) = []" for i t
  proof (rule unlisted_ranks_nothing [OF c(4)])
    have "BinTagID (elems (Pairs ce') ! i) = BinTagID (elems (Pairs e') ! i)"
      using same2 that(1) len(1) by (simp add: same_pairs_def same_pair_def list_all2_conv_all_nth pairs)
    then show "bintag_orders (Indexes ce') (BinTagID (elems (Pairs ce') ! i)) = []"
      using that(3) same1(1) by (simp add: same_store_def)
  qed (use that len(2) in simp_all)
  moreover have "Indexes e' = fold RemoveOrder (expired_ids ?now (Registry e)) (Indexes e)"
    using p(4) by (simp add: store_after_cycle_def)
  ultimately show ?thesis using p(1,2) c(1) ci same1(1) same2 by blast
qed

section \<open>The same events\<close>

text \<open>The events of the cgo engine, as those of the pure one.\<close>

datatype cgo_engine_event =
    CgoIngest cgo_kafka_order_event i64
  | CgoAddPair u32 u32
  | CgoRemovePair u32 u32
  | CgoOrderRemoved u32
  | CgoCycle cycle_clock "cgo_item_dict_update option"

fun cgo_engine_apply ::
  "go_runtime \<Rightarrow> workload \<Rightarrow> cgo_engine_event \<Rightarrow> c_matrix compute_engine \<Rightarrow> c_matrix compute_engine go"
where
  "cgo_engine_apply rt w (CgoIngest evt nowSecs) e =
     gbind (cgo_IngestOrder rt w evt nowSecs (Registry e, Indexes e, Some (Matrix e)))
       (\<lambda>(r, ix, m). Inr (case m of None \<Rightarrow> e\<lparr>Registry := r, Indexes := ix\<rparr>
                          | Some m' \<Rightarrow> set_store e (r, ix, m')))"
| "cgo_engine_apply rt w (CgoAddPair p b) e = Inr (cgo_HandleAddPair p b e)"
| "cgo_engine_apply rt w (CgoRemovePair p b) e = Inr (cgo_HandleRemovePair p b e)"
| "cgo_engine_apply rt w (CgoOrderRemoved oid) e = cgo_HandleOrderRemoved w oid e"
| "cgo_engine_apply rt w (CgoCycle clk update) e =
     gbind (cgo_RunCycleWithDict rt w clk update e) (\<lambda>(stats, e'). Inr e')"

text \<open>Events that mean the same; pair events are left out, because the engines differ there.\<close>

fun same_event :: "engine_event \<Rightarrow> cgo_engine_event \<Rightarrow> bool" where
  "same_event (Ingest evt now) (CgoIngest cevt cnow) =
     (cnow = now \<and> cevOrderID cevt = evOrderID evt \<and> cevRequiredQty cevt = evRequiredQty evt \<and>
      cevPBTDeadline cevt = evPBTDeadline evt \<and> cevBaseScore cevt = evBaseScore evt \<and>
      cevTPIDs cevt = TPIDs evt \<and> cevEligibleBinTags cevt = EligibleBinTags evt \<and> evActive evt)"
| "same_event (OrderRemoved oid) (CgoOrderRemoved coid) = (coid = oid)"
| "same_event (Cycle clk update) (CgoCycle cclk cupdate) = (cclk = clk \<and> same_updates update cupdate)"
| "same_event ev cev = False"

text \<open>
  The conditions on an event: a slot of the registry, at most \<open>n\<close> TPIDs, and an update that is
  safe for every index in which no order is listed more than \<open>n\<close> times under a TPID.
\<close>

fun safe_event :: "go_runtime \<Rightarrow> workload \<Rightarrow> nat \<Rightarrow> cgo_engine_event \<Rightarrow> bool" where
  "safe_event rt w n (CgoIngest evt now) =
     (unat (cevOrderID evt) < NumOrders w \<and> length (cevTPIDs evt) \<le> n)"
| "safe_event rt w n (CgoCycle clk update) =
     (\<forall>ix. tpid_bound n ix \<longrightarrow> update_safe w (cgo_update_deltas rt update ix))"
| "safe_event rt w n ev = True"

lemma RemoveOrder_twice: "RemoveOrder oid (RemoveOrder oid ix) = RemoveOrder oid ix"
proof -
  have "map_list (reverseTPID (RemoveOrder oid ix)) oid = []" "map_list (reverseBinTag (RemoveOrder oid ix)) oid = []"
    by simp_all
  moreover have "(reverseTPID (RemoveOrder oid ix))(oid := None) = reverseTPID (RemoveOrder oid ix)"
    "(reverseBinTag (RemoveOrder oid ix))(oid := None) = reverseBinTag (RemoveOrder oid ix)"
    by (simp_all add: fun_eq_iff reverse_RemoveOrder)
  ultimately show ?thesis
    unfolding RemoveOrder_def [of oid "RemoveOrder oid ix"] Let_def by simp
qed

lemma AddOrder_removed: "AddOrder oid ts bs (RemoveOrder oid ix) = AddOrder oid ts bs ix"
  by (simp add: AddOrder_def RemoveOrder_twice)

lemma same_ingest:
  assumes inv: "pure_inv w e" "cgo_inv w ce" and same: "same_store w e ce"
    and ev: "same_event (Ingest evt now) (CgoIngest cevt cnow)" and oid: "unat (evOrderID evt) < NumOrders w"
  shows "\<exists>st cst. IngestOrder rt w evt now (Registry e, Indexes e, Matrix e) = Inr st \<and>
           cgo_engine_apply rt w (CgoIngest cevt cnow) ce = Inr (set_store ce cst) \<and>
           pure_inv w (set_store e st) \<and> cgo_inv w (set_store ce cst) \<and>
           same_store w (set_store e st) (set_store ce cst) \<and>
           NumPPS (Matrix (set_store e st)) = NumPPS (Matrix e) \<and>
           (\<forall>n. tpid_bound n (Indexes e) \<longrightarrow> length (TPIDs evt) \<le> n \<longrightarrow> tpid_bound n (Indexes (set_store e st)))"
proof -
  have s: "Registry ce = Registry e" "Indexes ce = Indexes e" "cNumPPS (Matrix ce) = NumPPS (Matrix e)"
    using same by (simp_all add: same_store_def)
  have store: "store_inv w (matrix_wf w) (Registry e, Indexes e, Matrix e)"
    "store_inv w (c_wf w) (Registry e, Indexes e, Matrix ce)"
    using inv by (simp_all add: engine_inv_def s)
  have coid: "unat (cevOrderID cevt) < NumOrders w" using oid ev by simp
  obtain r ix m where p: "IngestOrder rt w evt now (Registry e, Indexes e, Matrix e) = Inr (r, ix, m)"
    "store_inv w (matrix_wf w) (r, ix, m)"
    "ingested w (event_meta evt now) (TPIDs evt) (EligibleBinTags evt)
       (clampInt16 (scale_score rt (evBaseScore evt))) NumPPS (cell w) (Registry e, Indexes e, Matrix e) (r, ix, m)"
    using IngestOrder_steps [OF store(1) oid, of rt now] by auto
  obtain cr cix cm where c: "cgo_IngestOrder rt w cevt now (Registry e, Indexes e, Some (Matrix ce)) = Inr (cr, cix, Some cm)"
    "store_inv w (c_wf w) (cr, cix, cm)"
    "ingested w (cgo_event_meta cevt now) (cevTPIDs cevt) (cevEligibleBinTags cevt)
       (clampInt16 (scale_score rt (cevBaseScore cevt))) cNumPPS (\<lambda>cm. cell w (c_view cm))
       (Registry e, Indexes e, Matrix ce) (cr, cix, cm)"
    using cgo_IngestOrder_steps [OF store(2) coid, of rt now] by auto
  have "cgo_event_meta cevt now = event_meta evt now" using ev by (simp add: cgo_event_meta_def event_meta_def)
  then have reg: "Meta cr = Meta r" using p(3) c(3) by (simp add: ingested_def Let_def)
  have "ix = AddOrder (evOrderID evt) (TPIDs evt) (EligibleBinTags evt) (Indexes e)"
    using p(1) by (auto simp: IngestOrder_def Let_def go_elims)
  moreover have "cix = AddOrder (evOrderID evt) (TPIDs evt) (EligibleBinTags evt) (Indexes e)"
    using c(1) ev by (auto simp: cgo_IngestOrder_def Let_def go_elims cgo_AddOrder_eq cgo_RemoveOrder_eq
        AddOrder_removed split: if_splits)
  ultimately have ix: "cix = ix" by simp
  let ?base = "clampInt16 (scale_score rt (evBaseScore evt))"
  have pm: "NumPPS m = NumPPS (Matrix e)" "\<forall>p < NumPPS (Matrix e). \<forall>j < NumOrders w.
      cell w m p j = (if j = unat (evOrderID evt) then ?base else cell w (Matrix e) p j)"
    using p(3) by (simp_all add: ingested_def Let_def event_meta_def)
  have cm: "cNumPPS cm = NumPPS (Matrix e)" "\<forall>p < NumPPS (Matrix e). \<forall>j < NumOrders w.
      cell w (c_view cm) p j = (if j = unat (evOrderID evt) then ?base else cell w (c_view (Matrix ce)) p j)"
    using c(3) ev by (simp_all add: ingested_def Let_def cgo_event_meta_def s(3))
  have "- 32767 \<le> sint ?base" by (simp add: sint_clampInt16 clamp_int_def)
  then have "same_store w (set_store e (r, ix, m)) (set_store ce (cr, cix, cm))"
    using same reg ix pm cm by (simp add: same_store_def clamped_cells_def)
  moreover have "pure_inv w (set_store e (r, ix, m))" "cgo_inv w (set_store ce (cr, cix, cm))"
    using inv p(2) c(2) pm(1) cm(1) s(3) by (simp_all add: engine_inv_def)
  moreover have "cgo_engine_apply rt w (CgoIngest cevt cnow) ce = Inr (set_store ce (cr, cix, cm))"
    using c(1) ev by (simp add: s(1,2))
  moreover have "tpid_bound n ix" if "tpid_bound n (Indexes e)" "length (TPIDs evt) \<le> n" for n
    using tpid_bound_step [OF that(1) p(3) that(2)] .
  ultimately show ?thesis using p(1) pm(1)
    by (intro exI [of _ "(r, ix, m)"] exI [of _ "(cr, cix, cm)"]) simp
qed

lemma same_removed:
  assumes inv: "pure_inv w e" "cgo_inv w ce" and same: "same_store w e ce"
  shows "\<exists>st cst. HandleOrderRemoved w oid e = Inr (set_store e st) \<and>
           cgo_HandleOrderRemoved w oid ce = Inr (set_store ce cst) \<and>
           pure_inv w (set_store e st) \<and> cgo_inv w (set_store ce cst) \<and>
           same_store w (set_store e st) (set_store ce cst) \<and>
           NumPPS (Matrix (set_store e st)) = NumPPS (Matrix e) \<and>
           (Indexes (set_store e st) = Indexes e \<or> Indexes (set_store e st) = RemoveOrder oid (Indexes e))"
proof -
  have s: "Registry ce = Registry e" "Indexes ce = Indexes e" "cNumPPS (Matrix ce) = NumPPS (Matrix e)"
    using same by (simp_all add: same_store_def)
  from inv have i: "registry_inv w (Registry e)" "index_inv (Indexes e)" "index_range w (Indexes e)"
    "matrix_wf w (Matrix e)" "c_wf w (Matrix ce)"
    by (simp_all add: engine_inv_def store_inv_def)
  show ?thesis
  proof (cases "unat oid < NumOrders w \<and> Active (Meta (Registry e) ! unat oid)")
    case False
    then have "EvictOrder w oid (Registry e, Indexes e, Matrix e) = Inr (Registry e, Indexes e, Matrix e)"
      "cgo_EvictOrder w oid (Registry e, Indexes e, Matrix ce) = Inr (Registry e, Indexes e, Matrix ce)"
      using pstore.evict_inactive [of w oid] cstore.evict_inactive [of w oid] i(1)
      by (auto simp: EvictOrder_def cgo_EvictOrder_def)
    moreover have "set_store e (Registry e, Indexes e, Matrix e) = e"
      "set_store ce (Registry e, Indexes e, Matrix ce) = ce" using s by (simp_all add: set_store_def)
    ultimately show ?thesis using inv same s
      by (intro exI [of _ "(Registry e, Indexes e, Matrix e)"] exI [of _ "(Registry e, Indexes e, Matrix ce)"])
        (simp add: HandleOrderRemoved_def cgo_HandleOrderRemoved_def)
  next
    case True
    let ?r = "(Registry e)\<lparr>Meta := (Meta (Registry e))[unat oid := deactivated (Meta (Registry e) ! unat oid)]\<rparr>"
    let ?ix = "RemoveOrder oid (Indexes e)"
    obtain m where m: "EvictOrder w oid (Registry e, Indexes e, Matrix e) = Inr (?r, ?ix, m)"
      "matrix_wf w m" "NumPPS m = NumPPS (Matrix e)"
      "\<forall>p < NumPPS (Matrix e). \<forall>j < NumOrders w. cell w m p j = (if j = unat oid then 0 else cell w (Matrix e) p j)"
      using pstore.evict_active [OF i(1) _ _ i(4), of oid] True unfolding EvictOrder_def by blast
    obtain cm where cm: "cgo_EvictOrder w oid (Registry e, Indexes e, Matrix ce) = Inr (?r, ?ix, cm)"
      "c_wf w cm" "cNumPPS cm = cNumPPS (Matrix ce)"
      "\<forall>p < cNumPPS (Matrix ce). \<forall>j < NumOrders w.
         cell w (c_view cm) p j = (if j = unat oid then 0 else cell w (c_view (Matrix ce)) p j)"
      using cstore.evict_active [OF i(1) _ _ i(5), of oid] True
      unfolding cgo_EvictOrder_def cgo_RemoveOrder_eq by blast
    have "pure_inv w (set_store e (?r, ?ix, m))" "cgo_inv w (set_store ce (?r, ?ix, cm))"
      using inv i m(2,3) cm(2,3) registry_inv_deactivate [OF i(1)]
      by (simp_all add: engine_inv_def store_inv_def index_inv_RemoveOrder index_range_RemoveOrder)
    moreover have "same_store w (set_store e (?r, ?ix, m)) (set_store ce (?r, ?ix, cm))"
      using same m(3,4) cm(3,4) by (simp add: same_store_def clamped_cells_def)
    ultimately show ?thesis using m(1,3) cm(1)
      by (intro exI [of _ "(?r, ?ix, m)"] exI [of _ "(?r, ?ix, cm)"])
        (simp add: HandleOrderRemoved_def cgo_HandleOrderRemoved_def s)
  qed
qed

section \<open>Runs\<close>

definition in_step :: "workload \<Rightarrow> nat \<Rightarrow> pps_matrix compute_engine \<Rightarrow> c_matrix compute_engine \<Rightarrow> bool" where
  "in_step w n e ce \<longleftrightarrow>
     pure_inv w e \<and> cgo_inv w ce \<and> same_store w e ce \<and> same_pairs e ce \<and> tpid_bound n (Indexes e)"

lemma same_pairs_store:
  assumes "same_pairs e ce" and "NumPPS (Matrix (set_store e st)) = NumPPS (Matrix e)"
  shows "same_pairs (set_store e st) (set_store ce cst)"
  using assms by (simp add: same_pairs_def)

lemma in_step_ingest:
  assumes st: "in_step w n e ce" and ev: "same_event (Ingest evt now) cev" "safe_event rt w n cev"
  shows "\<exists>e' ce'. engine_apply rt w (Ingest evt now) e = Inr e' \<and> cgo_engine_apply rt w cev ce = Inr ce' \<and>
    in_step w n e' ce'"
proof -
  from st have i: "pure_inv w e" "cgo_inv w ce" "same_store w e ce" "same_pairs e ce" "tpid_bound n (Indexes e)"
    by (simp_all add: in_step_def)
  from ev(1) obtain cevt cnow where cev: "cev = CgoIngest cevt cnow" by (cases cev) auto
  have oid: "unat (evOrderID evt) < NumOrders w" "length (TPIDs evt) \<le> n" using ev by (simp_all add: cev)
  from same_ingest [OF i(1-3) ev(1) [unfolded cev] oid(1), of rt] obtain st cst where
    g: "IngestOrder rt w evt now (Registry e, Indexes e, Matrix e) = Inr st"
    "cgo_engine_apply rt w (CgoIngest cevt cnow) ce = Inr (set_store ce cst)"
    "pure_inv w (set_store e st)" "cgo_inv w (set_store ce cst)"
    "same_store w (set_store e st) (set_store ce cst)"
    "NumPPS (Matrix (set_store e st)) = NumPPS (Matrix e)"
    "tpid_bound n (Indexes (set_store e st))" using i(5) oid(2) by blast
  moreover have "same_pairs (set_store e st) (set_store ce cst)" using i(4) g(6) by (rule same_pairs_store)
  ultimately show ?thesis using cev by (simp add: in_step_def)
qed

lemma in_step_removed:
  assumes st: "in_step w n e ce"
  shows "\<exists>e' ce'. HandleOrderRemoved w oid e = Inr e' \<and> cgo_HandleOrderRemoved w oid ce = Inr ce' \<and>
    in_step w n e' ce'"
proof -
  from st have i: "pure_inv w e" "cgo_inv w ce" "same_store w e ce" "same_pairs e ce" "tpid_bound n (Indexes e)"
    "index_inv (Indexes e)"
    by (simp_all add: in_step_def engine_inv_def store_inv_def)
  from same_removed [OF i(1-3), of oid] obtain st cst where
    g: "HandleOrderRemoved w oid e = Inr (set_store e st)" "cgo_HandleOrderRemoved w oid ce = Inr (set_store ce cst)"
    "pure_inv w (set_store e st)" "cgo_inv w (set_store ce cst)"
    "same_store w (set_store e st) (set_store ce cst)"
    "NumPPS (Matrix (set_store e st)) = NumPPS (Matrix e)"
    "Indexes (set_store e st) = Indexes e \<or> Indexes (set_store e st) = RemoveOrder oid (Indexes e)" by blast
  moreover have "same_pairs (set_store e st) (set_store ce cst)" using i(4) g(6) by (rule same_pairs_store)
  moreover have "tpid_bound n (Indexes (set_store e st))"
    using g(7) i(5) tpid_bound_removes [OF i(6,5), of "[oid]"] by auto
  ultimately show ?thesis by (simp add: in_step_def)
qed

lemma in_step_cycle:
  assumes st: "in_step w n e ce" and rt: "sort_contract rt"
    and ev: "same_event (Cycle clk update) cev" "safe_event rt w n cev"
  shows "\<exists>e' ce'. engine_apply rt w (Cycle clk update) e = Inr e' \<and> cgo_engine_apply rt w cev ce = Inr ce' \<and>
    in_step w n e' ce'"
proof -
  from st have i: "pure_inv w e" "cgo_inv w ce" "same_store w e ce" "same_pairs e ce" "tpid_bound n (Indexes e)"
    "index_inv (Indexes e)"
    by (simp_all add: in_step_def engine_inv_def store_inv_def)
  from ev(1) obtain cupdate where cev: "cev = CgoCycle clk cupdate" "same_updates update cupdate"
    by (cases cev) auto
  have "index_inv (Indexes ce)" "tpid_bound n (Indexes ce)" using i(3,5,6) by (simp_all add: same_store_def)
  then have "tpid_bound n (fold RemoveOrder (expired_ids (now_secs clk) (Registry ce)) (Indexes ce))"
    by (rule tpid_bound_removes)
  then have "update_safe w (cgo_update_deltas rt cupdate
      (fold RemoveOrder (expired_ids (now_secs clk) (Registry ce)) (Indexes ce)))"
    using ev(2) by (simp add: cev(1))
  from same_cycle [OF i(1,2) rt i(3,4) cev(2) this] obtain stats e' cstats ce' where
    "RunCycleWithDict rt w clk update e = Inr (stats, e')" "cgo_RunCycleWithDict rt w clk cupdate ce = Inr (cstats, ce')"
    "pure_inv w e'" "cgo_inv w ce'" "same_store w e' ce'" "same_pairs e' ce'"
    "Indexes e' = fold RemoveOrder (expired_ids (now_secs clk) (Registry e)) (Indexes e)" by blast
  then show ?thesis using tpid_bound_removes [OF i(6,5)] by (simp add: cev(1) in_step_def)
qed

lemma in_step_event:
  assumes "in_step w n e ce" "sort_contract rt" "same_event ev cev" "safe_event rt w n cev"
  shows "\<exists>e' ce'. engine_apply rt w ev e = Inr e' \<and> cgo_engine_apply rt w cev ce = Inr ce' \<and> in_step w n e' ce'"
proof (cases ev)
  case (Ingest evt now)
  then show ?thesis using in_step_ingest assms(1,3,4) by blast
next
  case (OrderRemoved oid)
  with assms(3) have "cev = CgoOrderRemoved oid" by (cases cev) auto
  then show ?thesis using in_step_removed [OF assms(1)] OrderRemoved by simp
next
  case (Cycle clk update)
  then show ?thesis using in_step_cycle assms by blast
qed (use assms(3) in \<open>cases cev; simp\<close>)+

lemma in_step_run:
  assumes "list_all2 same_event evs cevs" and "\<forall>cev \<in> set cevs. safe_event rt w n cev"
    and "in_step w n e ce" and rt: "sort_contract rt"
  shows "\<exists>e' ce'. gfold (engine_apply rt w) evs e = Inr e' \<and> gfold (cgo_engine_apply rt w) cevs ce = Inr ce' \<and>
           in_step w n e' ce'"
  using assms(1-3)
proof (induction evs arbitrary: cevs e ce)
  case (Cons ev evs)
  from Cons.prems(1) obtain cev cevs' where c: "cevs = cev # cevs'" "same_event ev cev" "list_all2 same_event evs cevs'"
    by (auto simp: list_all2_Cons1)
  with Cons.prems(2,3) in_step_event [OF _ rt c(2), of w n e ce] obtain e1 ce1 where
    "engine_apply rt w ev e = Inr e1" "cgo_engine_apply rt w cev ce = Inr ce1" "in_step w n e1 ce1" by auto
  with Cons.IH [OF c(3) _ this(3)] Cons.prems(2) c(1) show ?case by auto
qed (simp_all add: list_all2_Nil)

end
