(* ===== verification/Order_Book.thy ===== *)
theory Order_Book
  imports Engine_Agreement
begin

text \<open>
  What the service is for, without how it does it.  The specification keeps one entry per
  order (the order book), the pairs that are ranked, their states, and the board: the book as
  it stood at the last cycle.  Registry slots, inverted indexes, score matrix, read buffer and
  the slice of pairs are gone.  The lemmas show that both engines follow the specification
  through any run of events, and that the servers answer from the board.
\<close>

section \<open>The order book\<close>

record book_entry =
  details :: order_meta
  entry_tpids :: "u64 list"
  entry_tags :: "u32 list"
  entry_score :: i16

type_synonym order_book = "u32 \<rightharpoonup> book_entry"

definition book_ingest :: "order_meta \<Rightarrow> u64 list \<Rightarrow> u32 list \<Rightarrow> i16 \<Rightarrow> order_book \<Rightarrow> order_book" where
  "book_ingest meta tpids tags base B =
     B(OrderID meta \<mapsto> \<lparr>details = meta, entry_tpids = tpids, entry_tags = tags, entry_score = base\<rparr>)"

definition book_drop :: "(u32 \<Rightarrow> order_meta \<Rightarrow> bool) \<Rightarrow> order_book \<Rightarrow> order_book" where
  "book_drop gone B oid =
     (case B oid of None \<Rightarrow> None | Some x \<Rightarrow> if gone oid (details x) then None else Some x)"

abbreviation book_remove :: "u32 \<Rightarrow> order_book \<Rightarrow> order_book" where
  "book_remove oid \<equiv> book_drop (\<lambda>o' m. o' = oid \<and> Active m)"

abbreviation book_expire :: "i64 \<Rightarrow> order_book \<Rightarrow> order_book" where
  "book_expire now \<equiv> book_drop (\<lambda>_. expired now)"

text \<open>
  An update adds to an order the deltas of its TPIDs, once per mention, and the sum is clamped.
\<close>

definition entry_delta :: "(u64 \<times> i32) list \<Rightarrow> u64 list \<Rightarrow> i32" where
  "entry_delta cs tpids = sum_list (map (\<lambda>(t, d). of_nat (count_list tpids t) * d) cs)"

definition book_shift :: "(u64 \<times> i32) list option \<Rightarrow> order_book \<Rightarrow> order_book" where
  "book_shift changes B oid =
     (case changes of None \<Rightarrow> B oid
      | Some cs \<Rightarrow> map_option (\<lambda>x. x\<lparr>entry_score := add_clamped (entry_score x)
                                          (entry_delta cs (entry_tpids x))\<rparr>) (B oid))"

section \<open>A store that keeps the book\<close>

definition listed_as :: "('k \<Rightarrow> u32 list) \<Rightarrow> (book_entry \<Rightarrow> 'k list) \<Rightarrow> order_book \<Rightarrow> bool" where
  "listed_as f g B \<longleftrightarrow>
     (\<forall>k oid. count_list (f k) oid = (case B oid of None \<Rightarrow> 0 | Some x \<Rightarrow> count_list (g x) k))"

definition slot_keeps :: "order_meta \<Rightarrow> (i16 \<Rightarrow> bool) \<Rightarrow> book_entry option \<Rightarrow> bool" where
  "slot_keeps m cells bx \<longleftrightarrow>
     (case bx of None \<Rightarrow> \<not> Active m | Some x \<Rightarrow> m = details x \<and> cells (entry_score x))"

definition keeps_book ::
  "workload \<Rightarrow> ('m \<Rightarrow> nat) \<Rightarrow> ('m \<Rightarrow> nat \<Rightarrow> nat \<Rightarrow> i16) \<Rightarrow>
     order_registry \<times> inverted_indexes \<times> 'm \<Rightarrow> order_book \<Rightarrow> bool" where
  "keeps_book w rows score_at st B \<longleftrightarrow>
     (case st of (r, ix, m) \<Rightarrow>
        (\<forall>oid. NumOrders w \<le> unat oid \<longrightarrow> B oid = None) \<and>
        (\<forall>oid. unat oid < NumOrders w \<longrightarrow>
           slot_keeps (Meta r ! unat oid) (\<lambda>v. \<forall>p < rows m. score_at m p (unat oid) = v) (B oid)) \<and>
        listed_as (tpid_orders ix) entry_tpids B \<and> listed_as (bintag_orders ix) entry_tags B)"

lemma listed_as_upd:
  assumes "listed_as f g B" and "\<And>k. f' k = removeAll oid (f k) @ replicate (count_list (g x) k) oid"
  shows "listed_as f' g (B(oid \<mapsto> x))"
  using assms by (auto simp: listed_as_def count_list_removeAll count_list_replicate_eq)

lemma count_list_filter: "count_list (filter P xs) x = (if P x then count_list xs x else 0)"
  by (induction xs) auto

lemma listed_as_drop:
  assumes "listed_as f g B" and "\<And>k. f' k = filter (\<lambda>oid. oid \<notin> S) (f k)"
    and "\<And>oid x. B oid = Some x \<Longrightarrow> oid \<in> S \<longleftrightarrow> gone oid (details x)"
  shows "listed_as f' g (book_drop gone B)"
  unfolding listed_as_def
proof (intro allI)
  fix k oid
  have "count_list (f k) oid = (case B oid of None \<Rightarrow> 0 | Some x \<Rightarrow> count_list (g x) k)"
    using assms(1) by (simp add: listed_as_def)
  then show "count_list (f' k) oid = (case book_drop gone B oid of None \<Rightarrow> 0 | Some x \<Rightarrow> count_list (g x) k)"
    using assms(2) assms(3) [of oid] by (cases "B oid") (simp_all add: book_drop_def count_list_filter)
qed

lemma listed_as_shift:
  assumes "listed_as f g B" and "\<And>x v. g (x\<lparr>entry_score := v\<rparr>) = g x"
  shows "listed_as f g (book_shift changes B)"
  using assms by (auto simp: listed_as_def book_shift_def split: option.splits)

lemma keeps_book_New:
  "keeps_book w rows score_at (NewOrderRegistry w, NewInvertedIndexes, m) Map.empty"
  by (simp add: keeps_book_def slot_keeps_def listed_as_def NewOrderRegistry_def zero_meta_def
      NewInvertedIndexes_def tpid_orders_def bintag_orders_def)

lemma keeps_book_ingest:
  assumes keeps: "keeps_book w rows score_at (r, ix, m) B"
    and step: "ingested w meta tpids tags base rows score_at (r, ix, m) (r', ix', m')"
    and oid: "unat (OrderID meta) < NumOrders w" "length (Meta r) = NumOrders w"
  shows "keeps_book w rows score_at (r', ix', m') (book_ingest meta tpids tags base B)"
proof -
  let ?x = "\<lparr>details = meta, entry_tpids = tpids, entry_tags = tags, entry_score = base\<rparr>"
  have "listed_as (tpid_orders ix') entry_tpids (B(OrderID meta \<mapsto> ?x))"
    using keeps step by (intro listed_as_upd [of "tpid_orders ix"]) (simp_all add: keeps_book_def ingested_def Let_def)
  moreover have "listed_as (bintag_orders ix') entry_tags (B(OrderID meta \<mapsto> ?x))"
    using keeps step by (intro listed_as_upd [of "bintag_orders ix"]) (simp_all add: keeps_book_def ingested_def Let_def)
  moreover have "slot_keeps (Meta r' ! unat j) (\<lambda>v. \<forall>p < rows m'. score_at m' p (unat j) = v) ((B(OrderID meta \<mapsto> ?x)) j)"
    if j: "unat j < NumOrders w" for j
  proof (cases "j = OrderID meta")
    case True
    then show ?thesis using step oid by (simp add: ingested_def Let_def slot_keeps_def)
  next
    case False
    then have "unat j \<noteq> unat (OrderID meta)" by (simp add: word_unat_eq_iff)
    with False show ?thesis using keeps step j
      by (simp add: keeps_book_def ingested_def Let_def slot_keeps_def split: option.splits)
  qed
  moreover have "(B(OrderID meta \<mapsto> ?x)) j = None" if "NumOrders w \<le> unat j" for j
    using keeps oid(1) that by (auto simp: keeps_book_def)
  ultimately show ?thesis by (simp add: keeps_book_def book_ingest_def)
qed

lemma keeps_book_drop:
  assumes keeps: "keeps_book w rows score_at (r, ix, m) B"
    and lists: "\<And>t. tpid_orders ix' t = filter (\<lambda>oid. oid \<notin> S) (tpid_orders ix t)"
      "\<And>b. bintag_orders ix' b = filter (\<lambda>oid. oid \<notin> S) (bintag_orders ix b)"
    and gone: "\<And>oid x. B oid = Some x \<Longrightarrow> oid \<in> S \<longleftrightarrow> gone oid (details x)"
    and meta: "\<And>oid. unat oid < NumOrders w \<Longrightarrow>
      Meta r' ! unat oid = (if oid \<in> S then deactivated (Meta r ! unat oid) else Meta r ! unat oid)"
    and cells: "rows m' = rows m" "\<And>p oid. p < rows m \<Longrightarrow> unat oid < NumOrders w \<Longrightarrow> oid \<notin> S \<Longrightarrow>
      score_at m' p (unat oid) = score_at m p (unat oid)"
  shows "keeps_book w rows score_at (r', ix', m') (book_drop gone B)"
proof -
  have "listed_as (tpid_orders ix') entry_tpids (book_drop gone B)"
    using keeps lists(1) gone by (intro listed_as_drop [of "tpid_orders ix"]) (simp_all add: keeps_book_def)
  moreover have "listed_as (bintag_orders ix') entry_tags (book_drop gone B)"
    using keeps lists(2) gone by (intro listed_as_drop [of "bintag_orders ix"]) (simp_all add: keeps_book_def)
  moreover have "slot_keeps (Meta r' ! unat oid) (\<lambda>v. \<forall>p < rows m'. score_at m' p (unat oid) = v) (book_drop gone B oid)"
    if oid: "unat oid < NumOrders w" for oid
  proof -
    have "slot_keeps (Meta r ! unat oid) (\<lambda>v. \<forall>p < rows m. score_at m p (unat oid) = v) (B oid)"
      using keeps oid by (simp add: keeps_book_def)
    then show ?thesis using gone [of oid] meta [OF oid] cells oid
      by (cases "B oid") (simp_all add: book_drop_def slot_keeps_def)
  qed
  moreover have "book_drop gone B oid = None" if "NumOrders w \<le> unat oid" for oid
    using keeps that by (simp add: keeps_book_def book_drop_def)
  ultimately show ?thesis by (simp add: keeps_book_def)
qed

lemma keeps_book_entry:
  assumes "keeps_book w rows score_at (r, ix, m) B" and "B oid = Some x"
  shows "unat oid < NumOrders w" "Meta r ! unat oid = details x"
    "p < rows m \<Longrightarrow> score_at m p (unat oid) = entry_score x"
proof -
  show oid: "unat oid < NumOrders w" using assms by (force simp: keeps_book_def not_less [symmetric])
  then have "slot_keeps (Meta r ! unat oid) (\<lambda>v. \<forall>p < rows m. score_at m p (unat oid) = v) (B oid)"
    using assms(1) by (simp add: keeps_book_def)
  then show "Meta r ! unat oid = details x" "p < rows m \<Longrightarrow> score_at m p (unat oid) = entry_score x"
    by (simp_all add: slot_keeps_def assms(2))
qed

lemma keeps_book_evict:
  assumes keeps: "keeps_book w rows score_at (r, ix, m) B"
    and inv: "index_inv ix" "length (Meta r) = NumOrders w" and m: "rows m' = rows m"
    and cases: "if unat oid < NumOrders w \<and> Active (Meta r ! unat oid)
      then r' = r\<lparr>Meta := (Meta r)[unat oid := deactivated (Meta r ! unat oid)]\<rparr> \<and> ix' = RemoveOrder oid ix \<and>
        (\<forall>p < rows m. \<forall>j < NumOrders w. score_at m' p j = (if j = unat oid then 0 else score_at m p j))
      else (r', ix', m') = (r, ix, m)"
  shows "keeps_book w rows score_at (r', ix', m') (book_remove oid B)"
proof -
  let ?S = "if unat oid < NumOrders w \<and> Active (Meta r ! unat oid) then {oid} else {}"
  have "oid' \<in> ?S \<longleftrightarrow> oid' = oid \<and> Active (details x)" if "B oid' = Some x" for oid' x
    using keeps_book_entry(1,2) [OF keeps that] by auto
  then show ?thesis
    by (rule keeps_book_drop [OF keeps, where S = ?S, rotated 2])
      (use cases m inv in \<open>auto simp: idx.tpid_remove idx.bintag_remove removeAll_filter_not_eq
         nth_list_update eq_commute [of oid] word_unat_eq_iff [symmetric] split: if_splits\<close>)
qed

text \<open>An update shifts the scores by what the indexes, and so the entries, say.\<close>

lemma order_delta_entry:
  assumes "keeps_book w rows score_at (r, ix, m) B" and "B oid = Some x"
  shows "order_delta cs ix oid = entry_delta cs (entry_tpids x)"
  using assms by (simp add: keeps_book_def listed_as_def order_delta_def entry_delta_def)

lemma keeps_book_shift:
  assumes keeps: "keeps_book w rows score_at (r, ix, m) B" and rows: "rows m' = rows m"
    and cells: "\<And>p oid. p < rows m \<Longrightarrow> unat oid < NumOrders w \<Longrightarrow> score_at m' p (unat oid) =
      updated (map_option (\<lambda>cs. order_delta cs ix) changes) oid (score_at m p (unat oid))"
  shows "keeps_book w rows score_at (r, ix, m') (book_shift changes B)"
proof -
  have "slot_keeps (Meta r ! unat oid) (\<lambda>v. \<forall>p < rows m'. score_at m' p (unat oid) = v) (book_shift changes B oid)"
    if oid: "unat oid < NumOrders w" for oid
  proof (cases "B oid")
    case None
    then show ?thesis using keeps oid
      by (auto simp: keeps_book_def slot_keeps_def book_shift_def split: option.splits)
  next
    case (Some x)
    note x = keeps_book_entry [OF keeps Some] order_delta_entry [OF keeps Some]
    show ?thesis using x cells oid
      by (cases changes) (simp_all add: slot_keeps_def book_shift_def Some updated_def rows)
  qed
  moreover have "book_shift changes B oid = None" if "NumOrders w \<le> unat oid" for oid
    using keeps that by (simp add: keeps_book_def book_shift_def split: option.splits)
  moreover have "listed_as (tpid_orders ix) entry_tpids (book_shift changes B)"
    "listed_as (bintag_orders ix) entry_tags (book_shift changes B)"
    using keeps by (simp_all add: keeps_book_def listed_as_shift)
  ultimately show ?thesis by (simp add: keeps_book_def)
qed

lemma expired_listed:
  assumes "registry_inv w r" and "unat oid < NumOrders w"
  shows "oid \<in> set (expired_ids now r) \<longleftrightarrow> expired now (Meta r ! unat oid)"
proof
  assume "oid \<in> set (expired_ids now r)"
  then obtain i where i: "i < length (Meta r)" "expired now (Meta r ! i)" "OrderID (Meta r ! i) = oid"
    by (auto simp: expired_ids_def in_set_conv_nth)
  with assms(1) have "unat oid = i" by (auto simp: registry_inv_def expired_def)
  with i show "expired now (Meta r ! unat oid)" by simp
next
  assume e: "expired now (Meta r ! unat oid)"
  then have "unat (OrderID (Meta r ! unat oid)) = unat oid"
    using assms by (simp add: registry_inv_def expired_def)
  then have "OrderID (Meta r ! unat oid) = oid" by (simp add: word_unat_eq_iff)
  moreover have "Meta r ! unat oid \<in> set (Meta r)" using assms by (simp add: registry_inv_def)
  ultimately show "oid \<in> set (expired_ids now r)" using e by (force simp: expired_ids_def)
qed

text \<open>The whole cycle, on the store.\<close>

lemma keeps_book_cycle:
  assumes keeps: "keeps_book w rows score_at (Registry e, Indexes e, Matrix e) B"
    and inv: "registry_inv w (Registry e)" "index_inv (Indexes e)"
    and after: "store_after_cycle w now (\<lambda>ix. map_option (\<lambda>cs. order_delta cs ix) changes) (rows (Matrix e))
      (score_at (Matrix e)) (score_at (Matrix e')) e e'" "rows (Matrix e') = rows (Matrix e)"
  shows "keeps_book w rows score_at (Registry e', Indexes e', Matrix e') (book_shift changes (book_expire now B))"
proof -
  let ?S = "set (expired_ids now (Registry e))" and ?r = "Registry e'" and ?ix = "Indexes e'"
  have a: "Meta ?r = map (purge_meta now) (Meta (Registry e))"
    "?ix = fold RemoveOrder (expired_ids now (Registry e)) (Indexes e)"
    "\<And>p oid. p < rows (Matrix e) \<Longrightarrow> unat oid < NumOrders w \<Longrightarrow> score_at (Matrix e') p (unat oid) =
       next_score now (Registry e) (map_option (\<lambda>cs. order_delta cs ?ix) changes) (score_at (Matrix e)) p oid"
    using after(1) by (simp_all add: store_after_cycle_def)
  have len: "length (Meta (Registry e)) = NumOrders w" using inv(1) by (simp add: registry_inv_def)
  note listed = expired_listed [OF inv(1)]
  have gone: "oid \<in> ?S \<longleftrightarrow> expired now (details x)" if "B oid = Some x" for oid x
    using listed keeps_book_entry(1,2) [OF keeps that] by simp
  have meta: "Meta ?r ! unat oid = (if oid \<in> ?S then deactivated (Meta (Registry e) ! unat oid) else Meta (Registry e) ! unat oid)"
    if "unat oid < NumOrders w" for oid
    using that listed [OF that] by (simp add: a(1) len purge_meta_def)
  define score1 where "score1 = (\<lambda>p j. if expired now (Meta (Registry e) ! j) then 0 else score_at (Matrix e) p j)"
  have "keeps_book w fst snd (Registry e, Indexes e, (rows (Matrix e), score_at (Matrix e))) B"
    using keeps by (simp add: keeps_book_def)
  then have "keeps_book w fst snd (?r, ?ix, (rows (Matrix e), score1)) (book_expire now B)"
    by (rule keeps_book_drop [where S = ?S])
      (use idx.removes_absent [OF inv(2)] gone meta listed in \<open>auto simp: a(2) score1_def\<close>)
  then have "keeps_book w fst snd (?r, ?ix, (rows (Matrix e), score_at (Matrix e'))) (book_shift changes (book_expire now B))"
    by (rule keeps_book_shift)
      (use a(3) in \<open>auto simp: score1_def next_score_def updated_def split: option.splits\<close>)
  then show ?thesis using after(2) by (simp add: keeps_book_def)
qed

section \<open>The standings\<close>

text \<open>
  The orders eligible for a bin tag: one mention per mention in the order's event, whether the
  order is active or not.  The pure program lets every order compete for a bin tag that no
  event mentions; the cgo program does not.
\<close>

definition tagged :: "workload \<Rightarrow> order_book \<Rightarrow> u32 \<Rightarrow> u32 list" where
  "tagged w B b =
     concat (map (\<lambda>j. case B (of_nat j) of None \<Rightarrow> []
                      | Some x \<Rightarrow> replicate (count_list (entry_tags x) b) (of_nat j)) [0..<NumOrders w])"

definition contenders :: "workload \<Rightarrow> order_book \<Rightarrow> u32 \<Rightarrow> u32 list" where
  "contenders w B b = (if tagged w B b = [] then map of_nat [0..<NumOrders w] else tagged w B b)"

definition live_entries :: "order_book \<Rightarrow> u32 list \<Rightarrow> (u32 \<times> book_entry) list" where
  "live_entries B oids =
     concat (map (\<lambda>oid. case B oid of None \<Rightarrow> []
                        | Some x \<Rightarrow> if Active (details x) then [(oid, x)] else []) oids)"

definition standings :: "i64 \<Rightarrow> order_book \<Rightarrow> u32 list \<Rightarrow> worker_scratch" where
  "standings now B oids =
     (let live = live_entries B oids;
          by_score = map (\<lambda>(oid, x). entry (scast (entry_score x)) oid);
          by_date = map (\<lambda>(oid, x). entry (lateness now (details x)) oid)
      in \<lparr>heuristic = by_score live,
          large = by_score (filter (\<lambda>(oid, x). is_large (details x)) live),
          pbt = by_date (filter (\<lambda>(oid, x). has_deadline (details x)) live),
          critical = by_date (filter (\<lambda>(oid, x). is_critical now (details x)) live)\<rparr>)"

lemma count_list_append: "count_list (xs @ ys) x = count_list xs x + count_list ys x"
  by (induction xs) auto

lemma count_tagged_upto:
  assumes "n \<le> 2 ^ 32"
  shows "count_list (concat (map (\<lambda>j. case B (of_nat j :: u32) of None \<Rightarrow> []
             | Some x \<Rightarrow> replicate (count_list (entry_tags x) b) (of_nat j)) [0..<n])) oid =
           (if unat oid < n then (case B oid of None \<Rightarrow> 0 | Some x \<Rightarrow> count_list (entry_tags x) b) else 0)"
  using assms
proof (induction n)
  case (Suc n)
  have n: "unat (of_nat n :: u32) = n"
    using Suc.prems by (simp add: unat_of_nat take_bit_eq_mod)
  then have eq: "of_nat n = oid \<longleftrightarrow> unat oid = n" by (auto simp: word_unat_eq_iff)
  show ?case
  proof (cases "unat oid = n")
    case True
    then have "of_nat n = oid" using eq by simp
    with Suc True show ?thesis by (simp add: count_list_append count_list_replicate_eq split: option.split)
  next
    case False
    then have "of_nat n \<noteq> oid" using eq by simp
    with Suc False show ?thesis
      by (auto simp: count_list_append count_list_replicate_eq split: option.split)
  qed
qed simp

lemma count_tagged:
  assumes "keeps_book w rows score_at (r, ix, m) B" and "workload_ok w"
  shows "count_list (tagged w B b) oid = count_list (bintag_orders ix b) oid"
proof -
  have "NumOrders w \<le> 2 ^ 32" using assms(2) by (simp add: workload_ok_def)
  from count_tagged_upto [OF this, where B = B and b = b and oid = oid] assms(1) show ?thesis
    by (auto simp: tagged_def keeps_book_def listed_as_def split: option.splits)
qed

lemma mset_tagged:
  assumes "keeps_book w rows score_at (r, ix, m) B" and "workload_ok w"
  shows "mset (bintag_orders ix b) = mset (tagged w B b)"
  using count_tagged [OF assms] by (intro multiset_eqI) (simp add: count_mset)

lemma tagged_range: "workload_ok w \<Longrightarrow> oid \<in> set (tagged w B b) \<Longrightarrow> unat oid < NumOrders w"
  by (auto simp: tagged_def order_at split: option.splits)

text \<open>The tables of a phase are the standings of the book, on any list of orders.\<close>

lemma live_candidates:
  assumes keeps: "keeps_book w rows score_at (r, ix, m) B" and oids: "\<forall>oid \<in> set oids. unat oid < NumOrders w"
  shows "live_entries B oids = map (\<lambda>oid. (oid, the (B oid))) (candidates r oids) \<and>
         (\<forall>oid \<in> set (candidates r oids). B oid = Some (the (B oid)))"
  using oids
proof (induction oids)
  case (Cons oid oids)
  have "slot_keeps (Meta r ! unat oid) (\<lambda>v. \<forall>p < rows m. score_at m p (unat oid) = v) (B oid)"
    using keeps Cons.prems by (simp add: keeps_book_def)
  with Cons show ?case
    by (cases "B oid") (auto simp: live_entries_def candidates_def slot_keeps_def)
qed (simp add: live_entries_def candidates_def)

lemma table_entries_standings:
  assumes keeps: "keeps_book w rows score_at (r, ix, m) B" and oids: "\<forall>oid \<in> set oids. unat oid < NumOrders w"
    and p: "p < rows m"
  shows "table_entries now r (\<lambda>oid. score_at m p (unat oid)) oids = standings now B oids"
proof -
  let ?cs = "candidates r oids"
  have meta: "details (the (B oid)) = Meta r ! unat oid" and sc: "entry_score (the (B oid)) = score_at m p (unat oid)"
    if "oid \<in> set ?cs" for oid
    using keeps_book_entry(2,3) [OF keeps, of oid "the (B oid)"] live_candidates [OF keeps oids] that p by auto
  have filtered: "map (\<lambda>(oid, x). entry (g x) oid) (filter (\<lambda>(oid, x). P (details x)) (live_entries B oids)) =
      map (\<lambda>oid. entry (h oid) oid) (filter (P \<circ> (\<lambda>oid. Meta r ! unat oid)) ?cs)"
    if same: "\<And>oid. oid \<in> set ?cs \<Longrightarrow> g (the (B oid)) = h oid" for g h P
  proof -
    have "filter (\<lambda>oid. P (details (the (B oid)))) ?cs = filter (P \<circ> (\<lambda>oid. Meta r ! unat oid)) ?cs"
      using meta by (intro filter_cong) simp_all
    then show ?thesis
      using live_candidates [OF keeps oids] same by (simp add: filter_map comp_def)
  qed
  have "map (\<lambda>(oid, x). entry (scast (entry_score x)) oid) (live_entries B oids) =
      map (\<lambda>oid. entry (scast (score_at m p (unat oid))) oid) ?cs"
    using filtered [of "\<lambda>x. scast (entry_score x)" "\<lambda>oid. scast (score_at m p (unat oid))" "\<lambda>_. True"] sc
    by (simp add: comp_def)
  moreover note filtered [of "\<lambda>x. scast (entry_score x)" "\<lambda>oid. scast (score_at m p (unat oid))" is_large]
    filtered [of "\<lambda>x. lateness now (details x)" "\<lambda>oid. lateness now (Meta r ! unat oid)" has_deadline]
    filtered [of "\<lambda>x. lateness now (details x)" "\<lambda>oid. lateness now (Meta r ! unat oid)" "is_critical now"]
  ultimately show ?thesis using sc meta by (simp add: table_entries_def standings_def Let_def)
qed

text \<open>The best of a list do not depend on its order.\<close>

lemma top_k_mset:
  assumes "mset xs = mset ys"
  shows "top_k k xs = top_k k ys"
proof -
  have "mset (map key xs) = mset (map key ys)" using assms by simp
  then have "sort (map key xs) = sort (map key ys)"
    by (metis properties_for_sort mset_sort sorted_sort)
  then show ?thesis using assms by (simp add: top_k_def fun_eq_iff)
qed

lemma standings_mset:
  assumes "mset oids = mset oids'"
  shows "mset (tbl (standings now B oids) t) = mset (tbl (standings now B oids') t)"
proof -
  have "mset (live_entries B oids) = mset (live_entries B oids')"
  proof -
    have "mset (live_entries B oids) =
        (\<Sum>oid \<in># mset oids. mset (case B oid of None \<Rightarrow> [] | Some x \<Rightarrow> if Active (details x) then [(oid, x)] else []))"
      for oids by (induction oids) (simp_all add: live_entries_def)
    with assms show ?thesis by simp
  qed
  then show ?thesis by (simp add: standings_def tbl_def Let_def)
qed

lemma ranked_slot_mset:
  "mset (tbl tabs t) = mset (tbl tabs' t) \<Longrightarrow> ranked_slot w (Some tabs) t xs = ranked_slot w (Some tabs') t xs"
  by (simp add: ranked_slot_def top_k_mset [of "tbl tabs t" "tbl tabs' t"])

end
