(* ===== verification/Request_Steps.thy ===== *)
theory Request_Steps
  imports Pair_Life_Cycle
begin

text \<open>
  Requests run concurrently with the cycle.  A request makes three reads of shared state, in
  this order: the pair's status, its row, the published buffer (which it then only reads).  A
  cycle makes its visible writes in this order: the new buffer, then one activation per
  pending pair.  The steps of the two may interleave in any way; the lemmas show that a
  request is nevertheless answered as if it had run at one moment, because the buffer is
  published before any pair is activated.
\<close>

section \<open>The code, step by step\<close>

datatype shared_write =
    PublishBuffer read_buffer
  | ActivatePair u32 u32
  | WarmPair u32 u32
  | DropPair u32 u32

definition cycle_writes :: "read_buffer \<Rightarrow> pair_info list \<Rightarrow> shared_write list" where
  "cycle_writes buf pending = PublishBuffer buf # map (\<lambda>p. ActivatePair (PPSID p) (BinTagID p)) pending"

type_synonym shared = "topology_state \<times> double_buffer"

fun pure_write :: "shared_write \<Rightarrow> shared \<Rightarrow> shared" where
  "pure_write (PublishBuffer buf) (t, d) = (t, Publish d buf)"
| "pure_write (ActivatePair p b) (t, d) = (Activate p b t, d)"
| "pure_write (WarmPair p b) (t, d) = (AddWarmingUp p b t, d)"
| "pure_write (DropPair p b) (t, d) = (Remove p b t, d)"

fun cgo_write :: "shared_write \<Rightarrow> shared \<Rightarrow> shared" where
  "cgo_write (PublishBuffer buf) (t, d) = (t, Publish d buf)"
| "cgo_write (ActivatePair p b) (t, d) = (cgo_Activate p b t, d)"
| "cgo_write (WarmPair p b) (t, d) = (cgo_AddWarmingUp p b t, d)"
| "cgo_write (DropPair p b) (t, d) = (cgo_Remove p b t, d)"

type_synonym answer = "(api_error + get_topk_response) go"

datatype request_state = Arrived | Admitted | Located nat | Answered answer

definition read_status :: "get_topk_request \<Rightarrow> topology_state \<Rightarrow> request_state" where
  "read_status req topo =
     (case Get topo (MakePairKey (rPPSID req) (rBinTagID req)) of (status, ok) \<Rightarrow>
        if \<not> ok \<or> status = StatusRemoved
        then Answered (Inr (Inl (ApiError GRPCNotFound
               (pair_message (rPPSID req) (rBinTagID req) ''not found''))))
        else if status = StatusWarmingUp
        then Answered (Inr (Inl (ApiError GRPCUnavailable
               (pair_message (rPPSID req) (rBinTagID req) ''is warming up''))))
        else Admitted)"

definition read_row :: "get_topk_request \<Rightarrow> priority_server \<Rightarrow> request_state" where
  "read_row req s =
     (case PairIndex s (MakePairKey (rPPSID req) (rBinTagID req)) of
        None \<Rightarrow> Answered (Inr (Inl (ApiError GRPCNotFound
               (pair_message (rPPSID req) (rBinTagID req) ''not in pair index''))))
      | Some pairIdx \<Rightarrow> Located pairIdx)"

definition read_lists :: "workload \<Rightarrow> get_topk_request \<Rightarrow> double_buffer \<Rightarrow> nat \<Rightarrow> answer" where
  "read_lists w req db pairIdx =
     (let k = clip_k w (K req); buf = Load db; zeros = replicate (nat k) 0
      in gbind (GetList w buf pairIdx TblHeuristic k) (\<lambda>h.
         gbind (GetList w buf pairIdx TblLarge k) (\<lambda>l.
         gbind (GetList w buf pairIdx TblPBT k) (\<lambda>d.
         gbind (GetList w buf pairIdx TblCritical k) (\<lambda>c.
           Inr (Inr \<lparr>Heuristic = go_copy zeros h, Large = go_copy zeros l,
                     PBT = go_copy zeros d, Critical = go_copy zeros c\<rparr>))))))"

definition cgo_read_status :: "get_topk_request \<Rightarrow> topology_state \<Rightarrow> request_state" where
  "cgo_read_status req topo =
     (case cgo_Get topo (MakePairKey (rPPSID req) (rBinTagID req)) of (status, found) \<Rightarrow>
        if \<not> found \<or> status = StatusRemoved
        then Answered (Inr (Inl (ApiError GRPCNotFound ''pair not found'')))
        else if status = StatusWarmingUp
        then Answered (Inr (Inl (ApiError GRPCUnavailable ''pair warming up'')))
        else Admitted)"

definition cgo_read_row :: "get_topk_request \<Rightarrow> priority_server \<Rightarrow> request_state" where
  "cgo_read_row req s =
     (case PairIndex s (MakePairKey (rPPSID req) (rBinTagID req)) of
        None \<Rightarrow> Answered (Inr (Inl (ApiError GRPCUnavailable ''pair index not refreshed yet'')))
      | Some pairIdx \<Rightarrow> Located pairIdx)"

definition cgo_read_lists :: "workload \<Rightarrow> get_topk_request \<Rightarrow> double_buffer \<Rightarrow> nat \<Rightarrow> answer" where
  "cgo_read_lists w req db pairIdx =
     (let buf = Load db; k = clip_k w (K req)
      in gbind (cgo_GetList w buf pairIdx TblHeuristic k) (\<lambda>h.
         gbind (cgo_GetList w buf pairIdx TblLarge k) (\<lambda>l.
         gbind (cgo_GetList w buf pairIdx TblPBT k) (\<lambda>d.
         gbind (cgo_GetList w buf pairIdx TblCritical k) (\<lambda>c.
           Inr (Inr \<lparr>Heuristic = h, Large = l, PBT = d, Critical = c\<rparr>))))))"

text \<open>
  A configuration: the shared state, the writes that are still to be made, and how far the
  request is.  The steps of the request are parameters, so both servers have the relation; so
  is the effect \<open>upd\<close> of a write.
\<close>

type_synonym serving = "shared \<times> shared_write list \<times> request_state"

inductive serve_step ::
  "(shared_write \<Rightarrow> shared \<Rightarrow> shared) \<Rightarrow> (topology_state \<Rightarrow> request_state) \<Rightarrow>
   request_state \<Rightarrow> (double_buffer \<Rightarrow> nat \<Rightarrow> answer) \<Rightarrow> serving \<Rightarrow> serving \<Rightarrow> bool"
  for upd status row fetch where
  engine_writes: "serve_step upd status row fetch (sh, wr # ws, r) (upd wr sh, ws, r)"
| status_is_read: "serve_step upd status row fetch ((t, d), ws, Arrived) ((t, d), ws, status t)"
| row_is_read: "serve_step upd status row fetch (sh, ws, Admitted) (sh, ws, row)"
| buffer_is_read: "serve_step upd status row fetch ((t, d), ws, Located i) ((t, d), ws, Answered (fetch d i))"

inductive_cases serve_stepE: "serve_step upd status row fetch c c'"

abbreviation pure_serve ::
  "workload \<Rightarrow> get_topk_request \<Rightarrow> priority_server \<Rightarrow> serving \<Rightarrow> serving \<Rightarrow> bool" where
  "pure_serve w req s \<equiv> (serve_step pure_write (read_status req) (read_row req s) (read_lists w req))\<^sup>*\<^sup>*"

abbreviation cgo_serve ::
  "workload \<Rightarrow> get_topk_request \<Rightarrow> priority_server \<Rightarrow> serving \<Rightarrow> serving \<Rightarrow> bool" where
  "cgo_serve w req s \<equiv>
     (serve_step cgo_write (cgo_read_status req) (cgo_read_row req s) (cgo_read_lists w req))\<^sup>*\<^sup>*"

text \<open>The states the shared variables go through, the first included.\<close>

fun moments :: "(shared_write \<Rightarrow> shared \<Rightarrow> shared) \<Rightarrow> shared_write list \<Rightarrow> shared \<Rightarrow> shared list" where
  "moments upd [] sh = [sh]"
| "moments upd (wr # ws) sh = sh # moments upd ws (upd wr sh)"

definition after_writes :: "(shared_write \<Rightarrow> shared \<Rightarrow> shared) \<Rightarrow> shared_write list \<Rightarrow> shared \<Rightarrow> shared" where
  "after_writes upd ws sh = fold upd ws sh"

lemma after_writes_simps [simp]:
  "after_writes upd [] sh = sh"
  "after_writes upd (wr # ws) sh = after_writes upd ws (upd wr sh)"
  "after_writes upd (ws @ ws') sh = after_writes upd ws' (after_writes upd ws sh)"
  by (simp_all add: after_writes_def)

lemma after_writes_moment: "after_writes upd pre sh \<in> set (moments upd (pre @ post) sh)"
proof (induction pre arbitrary: sh)
  case Nil
  then show ?case by (cases post) simp_all
qed simp

section \<open>Requests are atomic\<close>

text \<open>
  What a server's steps must be: a status or a row that is an answer ends the request, the
  whole request is the three steps, and a write that leaves the pair alone does not take its
  admission back.
\<close>

locale request_path =
  fixes upd :: "shared_write \<Rightarrow> shared \<Rightarrow> shared"
    and apart :: "shared_write \<Rightarrow> bool"
    and status :: "topology_state \<Rightarrow> request_state"
    and row :: request_state
    and fetch :: "double_buffer \<Rightarrow> nat \<Rightarrow> answer"
    and whole :: "topology_state \<Rightarrow> double_buffer \<Rightarrow> answer"
  assumes status_cases: "status t = Admitted \<or> (\<exists>a. status t = Answered a)"
    and row_cases: "(\<exists>i. row = Located i) \<or> (\<exists>a. row = Answered a)"
    and whole_status: "status t = Answered a \<Longrightarrow> whole t d = a"
    and whole_row: "status t = Admitted \<Longrightarrow> row = Answered a \<Longrightarrow> whole t d = a"
    and whole_lists: "status t = Admitted \<Longrightarrow> row = Located i \<Longrightarrow> whole t d = fetch d i"
    and stays_admitted: "status t = Admitted \<Longrightarrow> apart wr \<Longrightarrow> status (fst (upd wr (t, d))) = Admitted"
begin

abbreviation serve_path :: "serving \<Rightarrow> serving \<Rightarrow> bool" where
  "serve_path \<equiv> serve_step upd status row fetch"

text \<open>
  \<open>answered_in sh0 past a\<close>: at some moment of \<open>past\<close> the whole request would have been answered
  with \<open>a\<close>.  What the request knows is that it is still admitted, or that it has been so answered.
\<close>

definition answered_in :: "shared \<Rightarrow> shared_write list \<Rightarrow> answer \<Rightarrow> bool" where
  "answered_in sh0 past a \<longleftrightarrow>
     (\<exists>pre post t d. past = pre @ post \<and> after_writes upd pre sh0 = (t, d) \<and> whole t d = a)"

definition knows :: "shared \<Rightarrow> shared_write list \<Rightarrow> request_state \<Rightarrow> bool" where
  "knows sh0 past r \<longleftrightarrow>
     (case r of
        Arrived \<Rightarrow> True
      | Admitted \<Rightarrow> status (fst (after_writes upd past sh0)) = Admitted
      | Located i \<Rightarrow> row = Located i \<and> status (fst (after_writes upd past sh0)) = Admitted
      | Answered a \<Rightarrow> answered_in sh0 past a)"

lemma answered_snoc: "answered_in sh0 past a \<Longrightarrow> answered_in sh0 (past @ [wr]) a"
  unfolding answered_in_def by (metis append.assoc)

lemma answered_now: "after_writes upd past sh0 = (t, d) \<Longrightarrow> whole t d = a \<Longrightarrow> answered_in sh0 past a"
  unfolding answered_in_def by (intro exI [of _ past] exI [of _ "[]"]) auto

lemma knows_step:
  assumes step: "serve_path (sh, ws, r) (sh', ws', r')" and sh: "sh = after_writes upd past sh0"
    and k: "knows sh0 past r" and apart: "\<forall>wr \<in> set ws. apart wr"
  shows "\<exists>new. ws = new @ ws' \<and> sh' = after_writes upd (past @ new) sh0 \<and> knows sh0 (past @ new) r'"
  using step
proof (cases rule: serve_step.cases)
  case (engine_writes wr)
  have "status (fst (upd wr sh)) = Admitted" if "status (fst sh) = Admitted"
    using stays_admitted [of "fst sh" wr "snd sh"] that apart engine_writes(1,2) by simp
  then have "knows sh0 (past @ [wr]) r'"
    using k answered_snoc by (auto simp: knows_def engine_writes sh split: request_state.splits)
  then show ?thesis using engine_writes by (intro exI [of _ "[wr]"]) (simp add: sh)
next
  case (status_is_read t d)
  have now: "after_writes upd past sh0 = (t, d)" using status_is_read sh by simp
  have "knows sh0 past (status t)"
    using status_cases [of t] whole_status answered_now [OF now] by (auto simp: knows_def now)
  then show ?thesis using status_is_read now by (intro exI [of _ "[]"]) simp
next
  case row_is_read
  obtain t d where now: "after_writes upd past sh0 = (t, d)" by fastforce
  have "knows sh0 past row"
    using row_cases whole_row answered_now [OF now] k by (auto simp: knows_def now row_is_read)
  then show ?thesis using row_is_read sh by (intro exI [of _ "[]"]) simp
next
  case (buffer_is_read t d i)
  have now: "after_writes upd past sh0 = (t, d)" using buffer_is_read sh by simp
  have "row = Located i" "status t = Admitted" using k by (simp_all add: knows_def now buffer_is_read(2))
  then have "answered_in sh0 past (fetch d i)" by (intro answered_now [OF now] whole_lists)
  then have "knows sh0 past (Answered (fetch d i))" unfolding knows_def request_state.case .
  then show ?thesis using buffer_is_read now by (intro exI [of _ "[]"]) simp
qed

lemma requests_atomic:
  assumes run: "serve_path\<^sup>*\<^sup>* (sh0, ws0, Arrived) (sh, ws, Answered a)" and apart: "\<forall>wr \<in> set ws0. apart wr"
  shows "\<exists>pre post t d. ws0 = pre @ post @ ws \<and> after_writes upd pre sh0 = (t, d) \<and> a = whole t d"
proof -
  have "\<exists>past. ws0 = past @ ws' \<and> sh' = after_writes upd past sh0 \<and> knows sh0 past r'"
    if "serve_path\<^sup>*\<^sup>* (sh0, ws0, Arrived) (sh', ws', r')" for sh' ws' r'
    using that
  proof (induction "(sh', ws', r')" arbitrary: sh' ws' r' rule: rtranclp_induct)
    case base
    show ?case by (simp add: knows_def)
  next
    case (step c)
    obtain sh1 ws1 r1 where c: "c = (sh1, ws1, r1)" by (cases c)
    from step(3) [OF c] obtain past where past: "ws0 = past @ ws1" "sh1 = after_writes upd past sh0" "knows sh0 past r1"
      by blast
    have "\<forall>wr \<in> set ws1. apart wr" using apart past(1) by simp
    from knows_step [OF step(2) [unfolded c] past(2,3) this] past(1) show ?case by (metis append.assoc)
  qed
  from this [OF run] obtain past where "ws0 = past @ ws" "answered_in sh0 past a" by (auto simp: knows_def)
  then show ?thesis by (auto simp: answered_in_def)
qed

text \<open>A request waits for nothing: from wherever it is, its own steps end it.\<close>

lemma requests_finish: "\<exists>a. serve_path\<^sup>*\<^sup>* (sh, ws, r) (sh, ws, Answered a)"
proof -
  have step: "\<exists>a. serve_path\<^sup>*\<^sup>* (sh, ws, r1) (sh, ws, Answered a)"
    if "serve_path (sh, ws, r1) (sh, ws, r2)" "\<exists>a. serve_path\<^sup>*\<^sup>* (sh, ws, r2) (sh, ws, Answered a)" for r1 r2
    using that by (blast intro: converse_rtranclp_into_rtranclp)
  have over: "\<exists>a. serve_path\<^sup>*\<^sup>* (sh, ws, Answered b) (sh, ws, Answered a)" for b by blast
  obtain t d where sh: "sh = (t, d)" by (cases sh)
  have located: "\<exists>a. serve_path\<^sup>*\<^sup>* (sh, ws, Located i) (sh, ws, Answered a)" for i
    unfolding sh by (rule step [unfolded sh, OF buffer_is_read over [unfolded sh]])
  have admitted: "\<exists>a. serve_path\<^sup>*\<^sup>* (sh, ws, Admitted) (sh, ws, Answered a)"
  proof (rule step [OF row_is_read])
    show "\<exists>a. serve_path\<^sup>*\<^sup>* (sh, ws, row) (sh, ws, Answered a)" using row_cases
    proof (elim disjE exE)
      fix b assume "row = Answered b"
      then show ?thesis using over by metis
    next
      fix i assume "row = Located i"
      then show ?thesis using located by metis
    qed
  qed
  have "\<exists>a. serve_path\<^sup>*\<^sup>* (sh, ws, status t) (sh, ws, Answered a)"
    using status_cases [of t] admitted over by metis
  then have "\<exists>a. serve_path\<^sup>*\<^sup>* (sh, ws, Arrived) (sh, ws, Answered a)"
    using step [OF status_is_read [of upd status row fetch t d ws, folded sh]] by blast
  with located admitted over show ?thesis by (cases r) auto
qed

lemma requests_in_moments:
  assumes run: "serve_path\<^sup>*\<^sup>* (sh0, ws0, Arrived) (sh, ws, Answered a)" and apart: "\<forall>wr \<in> set ws0. apart wr"
  shows "\<exists>(t, d) \<in> set (moments upd ws0 sh0). a = whole t d"
proof -
  from requests_atomic [OF assms] obtain pre post t d where
    "ws0 = pre @ post @ ws" "after_writes upd pre sh0 = (t, d)" "a = whole t d" by blast
  with after_writes_moment [of upd pre sh0 "post @ ws"] show ?thesis by auto
qed

end

text \<open>The writes that leave a pair alone: all but those that add or remove it.\<close>

definition leaves_pair :: "u32 \<Rightarrow> u32 \<Rightarrow> shared_write \<Rightarrow> bool" where
  "leaves_pair p b wr \<longleftrightarrow>
     (case wr of WarmPair p' b' \<Rightarrow> MakePairKey p' b' \<noteq> MakePairKey p b
      | DropPair p' b' \<Rightarrow> MakePairKey p' b' \<noteq> MakePairKey p b | _ \<Rightarrow> True)"

lemma cycle_writes_leave: "\<forall>wr \<in> set (cycle_writes buf ps). leaves_pair p b wr"
  by (auto simp: cycle_writes_def leaves_pair_def)

lemma status_of: "val t k \<in> {None, Some StatusActive, Some StatusWarmingUp, Some StatusRemoved}"
proof (cases "val t k")
  case (Some x)
  then show ?thesis by (cases x) auto
qed simp

lemma read_status_admitted:
  "read_status req t = Admitted \<longleftrightarrow> val t (MakePairKey (rPPSID req) (rBinTagID req)) = Some StatusActive"
  "cgo_read_status req t = Admitted \<longleftrightarrow> val t (MakePairKey (rPPSID req) (rBinTagID req)) = Some StatusActive"
  using status_of [of t "MakePairKey (rPPSID req) (rBinTagID req)"]
  by (auto simp: read_status_def Get_def cgo_read_status_def cgo_Get_def map_zero_def)

interpretation pure_path: request_path pure_write "leaves_pair (rPPSID req) (rBinTagID req)"
  "read_status req" "read_row req s" "read_lists w req" "\<lambda>t d. GetTopK w t d req s" for w req s
proof unfold_locales
  fix t wr d
  assume "read_status req t = Admitted" and "leaves_pair (rPPSID req) (rBinTagID req) wr"
  then show "read_status req (fst (pure_write wr (t, d))) = Admitted"
    by (cases wr) (auto simp: read_status_admitted leaves_pair_def topo_val)
qed (auto simp: read_status_def read_row_def read_lists_def GetTopK_def Let_def split: prod.splits option.splits if_splits)

interpretation cgo_path: request_path cgo_write "leaves_pair (rPPSID req) (rBinTagID req)"
  "cgo_read_status req" "cgo_read_row req s" "cgo_read_lists w req" "\<lambda>t d. cgo_GetTopK w t d req s" for w req s
proof unfold_locales
  fix t wr d
  assume "cgo_read_status req t = Admitted" and "leaves_pair (rPPSID req) (rBinTagID req) wr"
  then show "cgo_read_status req (fst (cgo_write wr (t, d))) = Admitted"
    by (cases wr) (auto simp: read_status_admitted leaves_pair_def cgo_Activate_def cgo_AddWarmingUp_def cgo_Remove_def)
qed (auto simp: cgo_read_status_def cgo_read_row_def cgo_read_lists_def cgo_GetTopK_def Let_def
      split: prod.splits option.splits if_splits)

section \<open>The writes of a cycle\<close>

text \<open>The writes, in their order, are what the cycle does to topology and buffer.\<close>

lemma after_activations:
  "after_writes pure_write (map (\<lambda>p. ActivatePair (PPSID p) (BinTagID p)) ps) (t, d) =
     (fold (\<lambda>p. Activate (PPSID p) (BinTagID p)) ps t, d)"
  "after_writes cgo_write (map (\<lambda>p. ActivatePair (PPSID p) (BinTagID p)) ps) (t, d) =
     (fold (\<lambda>p. cgo_Activate (PPSID p) (BinTagID p)) ps t, d)"
  by (induction ps arbitrary: t) simp_all

lemma promote_activates:
  assumes "pending_wf ps"
  shows "fst (fold promote_one ps (t, rem)) = fold (\<lambda>p. Activate (PPSID p) (BinTagID p)) ps t"
  using assms
proof (induction ps arbitrary: t rem)
  case (Cons p ps)
  have "fst (promote_one p (t, rem)) = Activate (PPSID p) (BinTagID p) t"
    using Cons.prems
    by (auto simp: promote_one_def Get_def Activate_def map_zero_def Let_def split: prod.splits option.splits)
  then obtain rem' where "promote_one p (t, rem) = (Activate (PPSID p) (BinTagID p) t, rem')"
    by (metis prod.collapse)
  with Cons show ?case by simp
qed simp

lemma publish_loaded: "d' = Publish d (Load d')"
  by (simp add: Publish_def Load_def)

lemma cycle_is_writes:
  assumes inv: "pure_inv w e" and rt: "sort_contract rt"
    and run: "RunCycleWithDict rt w clk update e = Inr (stats, e')"
  shows "(Topology e', DB e') =
    after_writes pure_write (cycle_writes (Load (DB e')) (pendingWarmup e)) (Topology e, DB e)"
proof -
  have wf: "pending_wf (pendingWarmup e)" using inv by (simp add: engine_inv_def)
  have "promoted (pendingWarmup e) (Topology e) (Topology e')"
    using cycle_ok [OF inv rt, of clk update] run by auto
  then have "val (Topology e') = val (fold (\<lambda>p. Activate (PPSID p) (BinTagID p)) (pendingWarmup e) (Topology e))"
    unfolding promote_activates [OF wf, of _ "[]", symmetric] fun_eq_iff promoted_def
    using promote_all_val [OF wf] by simp
  then show ?thesis
    using publish_loaded [of "DB e'" "DB e"] by (simp add: cycle_writes_def after_activations)
qed

lemma cgo_cycle_is_writes:
  assumes inv: "cgo_inv w e" and rt: "sort_contract rt" and rows: "cgo_rows_ok e"
    and safe: "update_safe w (cgo_update_deltas rt update
        (fold RemoveOrder (expired_ids (now_secs clk) (Registry e)) (Indexes e)))"
    and run: "cgo_RunCycleWithDict rt w clk update e = Inr (stats, e')"
  shows "(Topology e', DB e') =
    after_writes cgo_write (cycle_writes (Load (DB e')) (pendingWarmup e)) (Topology e, DB e)"
proof -
  have wf: "pending_wf (pendingWarmup e)" using inv by (simp add: engine_inv_def)
  have "val (Topology e') k = (if k \<in> Key ` set (pendingWarmup e) then Some StatusActive else val (Topology e) k)" for k
    using cgo_cycle_ok [OF inv rt rows safe] run by auto
  then have "val (Topology e') = val (fold (\<lambda>p. cgo_Activate (PPSID p) (BinTagID p)) (pendingWarmup e) (Topology e))"
    using cgo_promote_val [OF wf] by (simp add: fun_eq_iff)
  then show ?thesis
    using publish_loaded [of "DB e'" "DB e"] by (simp add: cycle_writes_def after_activations)
qed

section \<open>No request faults during a cycle\<close>

text \<open>
  The row of the request's pair: inside the new buffer, and inside the old one if the pair is
  active from the start.
\<close>

definition row_fits ::
  "workload \<Rightarrow> get_topk_request \<Rightarrow> priority_server \<Rightarrow> topology_state \<Rightarrow> double_buffer \<Rightarrow> bool" where
  "row_fits w req s topo db \<longleftrightarrow>
     (let k = MakePairKey (rPPSID req) (rBinTagID req)
      in val topo k = Some StatusActive \<longrightarrow> (\<forall>p. PairIndex s k = Some p \<longrightarrow> p < NumPairs (Load db)))"

lemma GetTopK_total:
  assumes "rb_wf w (Load db)" and "row_fits w req s topo db"
  shows "\<exists>x. GetTopK w topo db req s = Inr x" and "\<exists>x. cgo_GetTopK w topo db req s = Inr x"
proof -
  let ?k = "MakePairKey (rPPSID req) (rBinTagID req)"
  consider "val topo ?k = Some StatusActive" "\<exists>p. PairIndex s ?k = Some p"
    | "val topo ?k = Some StatusActive" "PairIndex s ?k = None"
    | "val topo ?k = None" | "val topo ?k = Some StatusWarmingUp" | "val topo ?k = Some StatusRemoved"
    using status_of [of topo ?k] by (cases "PairIndex s ?k") auto
  then have "(\<exists>x. GetTopK w topo db req s = Inr x) \<and> (\<exists>x. cgo_GetTopK w topo db req s = Inr x)"
  proof cases
    case 1
    then obtain p where p: "PairIndex s ?k = Some p" "p < NumPairs (Load db)"
      using assms(2) by (auto simp: row_fits_def)
    show ?thesis
      using GetTopK_lists [OF 1(1) p(1) assms(1) p(2)] cgo_GetTopK_lists [OF 1(1) p(1) assms(1) p(2)]
      by (simp add: Let_def)
  qed (simp_all add: GetTopK_def cgo_GetTopK_def Get_def cgo_Get_def map_zero_def Let_def)
  then show "\<exists>x. GetTopK w topo db req s = Inr x" and "\<exists>x. cgo_GetTopK w topo db req s = Inr x" by blast+
qed

lemma activations_keep_buffer:
  "x \<in> set (moments pure_write (map (\<lambda>p. ActivatePair (PPSID p) (BinTagID p)) ps) (t, d)) \<Longrightarrow> snd x = d"
  "x \<in> set (moments cgo_write (map (\<lambda>p. ActivatePair (PPSID p) (BinTagID p)) ps) (t, d)) \<Longrightarrow> snd x = d"
  by (induction ps arbitrary: t) auto

lemma moments_row_fits:
  assumes "rb_wf w (Load d0)" "rb_wf w buf" "row_fits w req s t0 d0"
    and new: "\<forall>p. PairIndex s (MakePairKey (rPPSID req) (rBinTagID req)) = Some p \<longrightarrow> p < NumPairs buf"
    and m: "(t, d) \<in> set (moments pure_write (cycle_writes buf ps) (t0, d0)) \<union>
      set (moments cgo_write (cycle_writes buf ps) (t0, d0))"
  shows "rb_wf w (Load d) \<and> row_fits w req s t d"
proof -
  consider "(t, d) = (t0, d0)" | "d = Publish d0 buf"
    using m activations_keep_buffer [of "(t, d)" ps t0 "Publish d0 buf"] by (auto simp: cycle_writes_def)
  then show ?thesis
    using assms(1-3) new by cases (auto simp: row_fits_def Let_def Load_def Publish_def)
qed

end
