(* ===== verification/Service_Spec.thy ===== *)
theory Service_Spec
  imports Order_Book Request_Steps
begin

text \<open>
  The specification of a whole pod, on top of the order book, and the pure program as a
  refinement of it: a run of events on the pod that \<^verbatim>\<open>main\<close> sets up keeps the state of the
  specification, and a request is answered as the specification says.
\<close>

section \<open>The specification\<close>

text \<open>
  The board is what requests are answered from: the pairs that were ranked by the last cycle,
  the book after its update, and its time.
\<close>

record notice_board =
  posted_at :: i64
  posted_book :: order_book
  posted_pairs :: "pair_info list"

record pod =
  book :: order_book
  ranked_pairs :: "pair_info list"
  states :: "u64 \<rightharpoonup> pair_status"
  board :: notice_board

definition pod_start :: "pair_info list \<Rightarrow> pod" where
  "pod_start pairs =
     \<lparr>book = Map.empty, ranked_pairs = pairs,
      states = (\<lambda>k. if k \<in> Key ` set pairs then Some StatusActive else None),
      board = \<lparr>posted_at = 0, posted_book = Map.empty, posted_pairs = pairs\<rparr>\<rparr>"

definition changes_of :: "go_runtime \<Rightarrow> item_dict_update option \<Rightarrow> (u64 \<times> i32) list option" where
  "changes_of rt update = map_option (\<lambda>u. contributions rt (TPIDDeltas u)) update"

definition promote_states :: "(u64 \<rightharpoonup> pair_status) \<Rightarrow> (u64 \<rightharpoonup> pair_status)" where
  "promote_states st k = (if st k = Some StatusWarmingUp then Some StatusActive else st k)"

fun pod_step :: "go_runtime \<Rightarrow> engine_event \<Rightarrow> pod \<Rightarrow> pod" where
  "pod_step rt (Ingest evt now) s =
     s\<lparr>book := book_ingest (event_meta evt now) (TPIDs evt) (EligibleBinTags evt)
                 (clampInt16 (scale_score rt (evBaseScore evt))) (book s)\<rparr>"
| "pod_step rt (AddPair p b) s = s\<lparr>states := (states s)(MakePairKey p b \<mapsto> StatusWarmingUp)\<rparr>"
| "pod_step rt (RemovePair p b) s =
     s\<lparr>states := (states s)(MakePairKey p b \<mapsto> StatusRemoved),
       ranked_pairs := filter (\<lambda>pair. Key pair \<noteq> MakePairKey p b) (ranked_pairs s)\<rparr>"
| "pod_step rt (OrderRemoved oid) s = s\<lparr>book := book_remove oid (book s)\<rparr>"
| "pod_step rt (Cycle clk update) s =
     (let B = book_shift (changes_of rt update) (book_expire (now_secs clk) (book s))
      in s\<lparr>book := B, states := promote_states (states s),
           board := \<lparr>posted_at = now_secs clk, posted_book = B, posted_pairs = ranked_pairs s\<rparr>\<rparr>)"

text \<open>What a server whose index is that of the ranked pairs may reply.\<close>

definition reply_ok ::
  "workload \<Rightarrow> pod \<Rightarrow> get_topk_request \<Rightarrow> api_error + get_topk_response \<Rightarrow> bool" where
  "reply_ok w s req reply \<longleftrightarrow>
     (let k = MakePairKey (rPPSID req) (rBinTagID req);
          bd = board s;
          refusal = (\<lambda>code what. reply = Inl (ApiError code (pair_message (rPPSID req) (rBinTagID req) what)))
      in case states s k of
           Some StatusWarmingUp \<Rightarrow> refusal GRPCUnavailable ''is warming up''
         | Some StatusActive \<Rightarrow>
             if k \<in> Key ` set (ranked_pairs s)
             then \<exists>r. reply = Inr r \<and>
                    response_is (best_of w (K req))
                      (standings (posted_at bd) (posted_book bd) (contenders w (posted_book bd) (rBinTagID req))) r
             else refusal GRPCNotFound ''not in pair index''
         | _ \<Rightarrow> refusal GRPCNotFound ''not found'')"

section \<open>The pure pod keeps it\<close>

definition board_shows :: "workload \<Rightarrow> (order_book \<Rightarrow> u32 \<Rightarrow> u32 list) \<Rightarrow> notice_board \<Rightarrow> read_buffer \<Rightarrow> bool" where
  "board_shows w oids bd buf \<longleftrightarrow>
     ranked_buffer w (length (posted_pairs bd))
       (\<lambda>i. Some (standings (posted_at bd) (posted_book bd)
                    (oids (posted_book bd) (BinTagID (posted_pairs bd ! i))))) buf"

definition pairs_ok :: "pair_info list \<Rightarrow> bool" where
  "pairs_ok ps \<longleftrightarrow> pending_wf ps \<and> distinct (map Key ps)"

definition pod_rel :: "workload \<Rightarrow> pod \<Rightarrow> pps_matrix compute_engine \<Rightarrow> bool" where
  "pod_rel w s e \<longleftrightarrow>
     pure_inv w e \<and>
     keeps_book w NumPPS (cell w) (Registry e, Indexes e, Matrix e) (book s) \<and>
     elems (Pairs e) = ranked_pairs s \<and> pairs_ok (ranked_pairs s) \<and> val (Topology e) = states s \<and>
     (\<forall>pair \<in> set (ranked_pairs s). states s (Key pair) \<noteq> Some StatusRemoved) \<and>
     (\<forall>k. states s k = Some StatusWarmingUp \<longrightarrow> k \<in> Key ` set (pendingWarmup e)) \<and>
     board_shows w (contenders w) (board s) (Load (DB e))"

lemma pairs_ok_filter: "pairs_ok ps \<Longrightarrow> pairs_ok (filter P ps)"
  by (auto simp: pairs_ok_def pending_wf_def distinct_map_filter)

lemma standings_empty: "standings now Map.empty oids = empty_scratch"
  by (simp add: standings_def live_entries_def empty_scratch_def Let_def)

lemma board_shows_New:
  "board_shows w oids \<lparr>posted_at = now, posted_book = Map.empty, posted_pairs = ps\<rparr>
     (Load (NewDoubleBuffer w (length ps)))"
proof -
  have "top_k k (tbl empty_scratch t) []" for k t
    by (simp add: tbl_def empty_scratch_def top_k_def)
  then have "ranked_slot w (Some empty_scratch) t (replicate (TopK w) (-1))" for t
    unfolding ranked_slot_def option.case by (intro exI [of _ "[]"]) simp
  then show ?thesis
    by (simp add: board_shows_def ranked_buffer_def standings_empty NewDoubleBuffer_def Load_def rb_list_New)
qed

lemma pod_rel_start:
  assumes "workload_ok w" and "numBinTags w < 2 ^ 32"
  shows "pod_rel w (pod_start (buildPairs w (PairsPerPod w))) (fst (main_setup w cores env))"
proof -
  define ps where "ps = pair_grid [1..<numPPS w + 1] [1..<numBinTags w + 1]"
  obtain e srv where e: "main_setup w cores env = (e, srv)" by (cases "main_setup w cores env")
  note parts = main_setup_parts [OF e ps_def]
  have store: "Registry e = NewOrderRegistry w" "Indexes e = NewInvertedIndexes" "pendingWarmup e = []"
    "DB e = NewDoubleBuffer w (length ps)"
    using e unfolding parts(4) by (auto simp: main_setup_def NewComputeEngine_def Let_def)
  have "distinct (map Key ps)"
    unfolding ps_def using assms by (intro distinct_keys_grid) (auto simp: workload_ok_def)
  moreover have "pending_wf ps" unfolding ps_def by (rule pair_grid_wf)
  moreover have "pure_inv w e" using main_setup_inv [OF assms(1), of cores env] by (simp add: e)
  moreover have "keeps_book w NumPPS (cell w) (Registry e, Indexes e, Matrix e) Map.empty"
    unfolding store by (rule keeps_book_New)
  ultimately show ?thesis
    unfolding buildPairs_pod ps_def [symmetric]
    by (simp add: pod_rel_def pod_start_def pairs_ok_def e parts(1,2) store board_shows_New
        setup_topology_val fun_eq_iff)
qed

section \<open>Every event is followed\<close>

lemma pod_rel_parts:
  assumes "pod_rel w s e"
  shows "pure_inv w e" "registry_inv w (Registry e)" "index_inv (Indexes e)" "matrix_wf w (Matrix e)"
    "workload_ok w" "slice_wf (Pairs e)" "length (Meta (Registry e)) = NumOrders w"
    "keeps_book w NumPPS (cell w) (Registry e, Indexes e, Matrix e) (book s)"
  using assms by (simp_all add: pod_rel_def engine_inv_def store_inv_def registry_inv_def)

lemma pod_rel_store:
  assumes "pod_rel w s e" and "pure_inv w (set_store e (r, ix, m))"
    and "keeps_book w NumPPS (cell w) (r, ix, m) B"
  shows "pod_rel w (s\<lparr>book := B\<rparr>) (set_store e (r, ix, m))"
  using assms by (simp add: pod_rel_def)

lemma pod_ingest:
  assumes rel: "pod_rel w s e" and oid: "unat (evOrderID evt) < NumOrders w"
  shows "\<exists>e'. engine_apply rt w (Ingest evt now) e = Inr e' \<and> pod_rel w (pod_step rt (Ingest evt now) s) e'"
proof -
  note i = pod_rel_parts [OF rel]
  have "store_inv w (matrix_wf w) (Registry e, Indexes e, Matrix e)" using i(1) by (simp add: engine_inv_def)
  from IngestOrder_steps [OF this oid, of rt now] obtain r ix m where
    g: "IngestOrder rt w evt now (Registry e, Indexes e, Matrix e) = Inr (r, ix, m)"
    "store_inv w (matrix_wf w) (r, ix, m)"
    "ingested w (event_meta evt now) (TPIDs evt) (EligibleBinTags evt)
       (clampInt16 (scale_score rt (evBaseScore evt))) NumPPS (cell w) (Registry e, Indexes e, Matrix e) (r, ix, m)"
    by (metis prod_cases3)
  have "unat (OrderID (event_meta evt now)) < NumOrders w" using oid by (simp add: event_meta_def)
  note keeps = keeps_book_ingest [OF i(8) g(3) this i(7)]
  have "pure_inv w (set_store e (r, ix, m))"
    using i(1) g(2,3) by (simp add: engine_inv_def ingested_def Let_def)
  from pod_rel_store [OF rel this keeps] show ?thesis using g(1) by simp
qed

lemma pod_removed:
  assumes rel: "pod_rel w s e"
  shows "\<exists>e'. engine_apply rt w (OrderRemoved oid) e = Inr e' \<and> pod_rel w (pod_step rt (OrderRemoved oid) s) e'"
proof -
  note i = pod_rel_parts [OF rel]
  obtain r ix m where ev: "EvictOrder w oid (Registry e, Indexes e, Matrix e) = Inr (r, ix, m)"
    and m: "NumPPS m = NumPPS (Matrix e)"
    and cases: "if unat oid < NumOrders w \<and> Active (Meta (Registry e) ! unat oid)
      then r = (Registry e)\<lparr>Meta := (Meta (Registry e))[unat oid := deactivated (Meta (Registry e) ! unat oid)]\<rparr> \<and>
        ix = RemoveOrder oid (Indexes e) \<and>
        (\<forall>p < NumPPS (Matrix e). \<forall>j < NumOrders w. cell w m p j = (if j = unat oid then 0 else cell w (Matrix e) p j))
      else (r, ix, m) = (Registry e, Indexes e, Matrix e)"
    using pstore.evict_total [OF i(2,4), of oid "Indexes e"] unfolding EvictOrder_def by blast
  note keeps_book_evict [OF i(8,3,7) m cases]
  moreover have "pure_inv w (set_store e (r, ix, m))"
    using handle_removed_ok [OF i(1), of oid] ev by (simp add: HandleOrderRemoved_def)
  ultimately show ?thesis using pod_rel_store [OF rel] ev by (simp add: HandleOrderRemoved_def)
qed

lemma pod_add_pair:
  assumes rel: "pod_rel w s e"
  shows "pod_rel w (pod_step rt (AddPair p b) s) (HandleAddPair p b e)"
proof -
  have "pure_inv w (HandleAddPair p b e)" by (rule engine_inv_topology(1) [OF pod_rel_parts(1) [OF rel]])
  with rel show ?thesis by (auto simp: pod_rel_def HandleAddPair_def Let_def topo_val)
qed

lemma pod_remove_pair:
  assumes rel: "pod_rel w s e"
  shows "pod_rel w (pod_step rt (RemovePair p b) s) (HandleRemovePair p b e)"
proof -
  have "pure_inv w (HandleRemovePair p b e)" by (rule engine_inv_topology(2) [OF pod_rel_parts(1) [OF rel]])
  moreover have "elems (filter_in_place P (Pairs e)) = filter P (ranked_pairs s)" for P
    using filter_in_place_ok(1) [OF pod_rel_parts(6) [OF rel]] rel by (simp add: pod_rel_def)
  ultimately show ?thesis using rel
    by (auto simp: pod_rel_def HandleRemovePair_def Let_def topo_val pairs_ok_filter)
qed

text \<open>The lists a cycle publishes are the standings of the book after it.\<close>

lemma pair_orders_contenders:
  assumes "keeps_book w rows score_at (r, ix, m) B" and "workload_ok w"
  shows "mset (pair_orders w r ix pair) = mset (contenders w B (BinTagID pair))"
    "\<forall>oid \<in> set (pair_orders w r ix pair). unat oid < NumOrders w"
proof -
  have eq: "mset (bintag_orders ix b) = mset (tagged w B b)" for b using mset_tagged [OF assms] .
  then have "bintag_orders ix b = [] \<longleftrightarrow> tagged w B b = []" for b
    using mset_zero_iff by metis
  then show "mset (pair_orders w r ix pair) = mset (contenders w B (BinTagID pair))"
    using eq by (simp add: pair_orders_def contenders_def)
  have "set (bintag_orders ix b) = set (tagged w B b)" for b using mset_eq_setD [OF eq] .
  then show "\<forall>oid \<in> set (pair_orders w r ix pair). unat oid < NumOrders w"
    using tagged_range [OF assms(2)] order_at [OF assms(2)] by (auto simp: pair_orders_def)
qed

lemma board_shows_published:
  assumes buf: "ranked_buffer w (length ps) tables buf"
    and tables: "\<And>p. p < length ps \<Longrightarrow>
      \<exists>os. tables p = Some (standings now B os) \<and> mset os = mset (oids B (BinTagID (ps ! p)))"
  shows "board_shows w oids \<lparr>posted_at = now, posted_book = B, posted_pairs = ps\<rparr> buf"
proof -
  have "ranked_slot w (Some (standings now B (oids B (BinTagID (ps ! p))))) t (rb_list w buf p t)"
    if p: "p < length ps" and t: "t < NumTables" for p t
  proof -
    obtain os where os: "tables p = Some (standings now B os)" "mset os = mset (oids B (BinTagID (ps ! p)))"
      using tables [OF p] by blast
    then have "ranked_slot w (Some (standings now B os)) t (rb_list w buf p t)"
      using ranked_buffer_slot [OF buf p t] by simp
    then show ?thesis using ranked_slot_mset [OF standings_mset [OF os(2)]] by blast
  qed
  then show ?thesis using buf by (simp add: board_shows_def ranked_buffer_def)
qed

lemma pod_cycle:
  assumes rel: "pod_rel w s e" and rt: "sort_contract rt"
  shows "\<exists>e'. engine_apply rt w (Cycle clk update) e = Inr e' \<and> pod_rel w (pod_step rt (Cycle clk update) s) e'"
proof -
  note i = pod_rel_parts [OF rel]
  let ?now = "now_secs clk" and ?B = "book_shift (changes_of rt update) (book_expire (now_secs clk) (book s))"
  from cycle_ok [OF i(1) rt, of clk update] obtain stats e' where
    c: "RunCycleWithDict rt w clk update e = Inr (stats, e')" "pure_inv w e'"
    "NumPPS (Matrix e') = NumPPS (Matrix e)"
    "store_after_cycle w ?now (update_deltas rt update) (NumPPS (Matrix e)) (cell w (Matrix e)) (cell w (Matrix e')) e e'"
    "ranked_buffer w (slen (Pairs e)) (pair_tables w ?now (e'\<lparr>Topology := Topology e\<rparr>)) (Load (DB e'))"
    "promoted (pendingWarmup e) (Topology e) (Topology e')" by blast
  have pairs: "elems (Pairs e') = ranked_pairs s" "slen (Pairs e) = length (ranked_pairs s)"
    using c(4) rel length_elems [OF i(6)] by (simp_all add: store_after_cycle_def pod_rel_def)
  have deltas: "update_deltas rt update = (\<lambda>ix. map_option (\<lambda>cs. order_delta cs ix) (changes_of rt update))"
    by (simp add: fun_eq_iff update_deltas_def changes_of_def split: option.split)
  have keeps: "keeps_book w NumPPS (cell w) (Registry e', Indexes e', Matrix e') ?B"
    using keeps_book_cycle [OF i(8,2,3) c(4) [unfolded deltas] c(3)] .
  have rows: "0 < NumPPS (Matrix e')" using c(2) by (simp add: engine_inv_def)
  have "board_shows w (contenders w) \<lparr>posted_at = ?now, posted_book = ?B, posted_pairs = ranked_pairs s\<rparr> (Load (DB e'))"
  proof (rule board_shows_published [OF c(5) [unfolded pairs(2)]])
    fix p assume p: "p < length (ranked_pairs s)"
    let ?pair = "ranked_pairs s ! p"
    note oids = pair_orders_contenders [OF keeps i(5), of ?pair]
    have "states s (Key ?pair) \<noteq> Some StatusRemoved" using rel p by (simp add: pod_rel_def)
    then have "pair_tables w ?now (e'\<lparr>Topology := Topology e\<rparr>) p =
        Some (standings ?now ?B (pair_orders w (Registry e') (Indexes e') ?pair))"
      using rel table_entries_standings [OF keeps oids(2), of "pair_row (NumPPS (Matrix e')) ?pair" ?now]
        ppsRowIdx_ok [OF rows, of ?pair] by (simp add: pair_tables_def Let_def pairs(1) pod_rel_def)
    with oids(1) show "\<exists>os. pair_tables w ?now (e'\<lparr>Topology := Topology e\<rparr>) p = Some (standings ?now ?B os) \<and>
        mset os = mset (contenders w ?B (BinTagID ?pair))" by blast
  qed
  moreover have "val (Topology e') = promote_states (states s)"
    using c(6) rel by (auto simp: fun_eq_iff promoted_def promote_states_def pod_rel_def)
  ultimately have "pod_rel w (pod_step rt (Cycle clk update) s) e'"
    using c(2) rel keeps pairs by (auto simp: pod_rel_def Let_def promote_states_def split: if_splits)
  then show ?thesis using c(1) by simp
qed

lemma pod_follows:
  assumes "pod_rel w s e" and "sort_contract rt" and "event_ok w ev"
  shows "\<exists>e'. engine_apply rt w ev e = Inr e' \<and> pod_rel w (pod_step rt ev s) e'"
  using assms(3) pod_ingest [OF assms(1)] pod_removed [OF assms(1)] pod_cycle [OF assms(1,2)]
    pod_add_pair [OF assms(1)] pod_remove_pair [OF assms(1)]
  by (cases ev) simp_all

text \<open>
  A forward simulation: every allowed event takes related states to related states.  Both
  programs are instances, and their runs follow from it.
\<close>

locale simulation =
  fixes step :: "'ev \<Rightarrow> 'e \<Rightarrow> 'e go"
    and spec :: "'ev \<Rightarrow> 's \<Rightarrow> 's"
    and rel :: "'s \<Rightarrow> 'e \<Rightarrow> bool"
    and allowed :: "'ev \<Rightarrow> bool"
  assumes follows: "rel s e \<Longrightarrow> allowed ev \<Longrightarrow> \<exists>e'. step ev e = Inr e' \<and> rel (spec ev s) e'"
begin

lemma run_follows:
  assumes "rel s e" and "\<forall>ev \<in> set evs. allowed ev"
  shows "\<exists>e'. gfold step evs e = Inr e' \<and> rel (fold spec evs s) e'"
  using assms
proof (induction evs arbitrary: s e)
  case (Cons ev evs)
  from follows [OF Cons.prems(1)] Cons.prems(2) obtain e1 where
    "step ev e = Inr e1" "rel (spec ev s) e1" by auto
  with Cons.IH [OF this(2)] Cons.prems(2) show ?case by simp
qed simp

end

interpretation pure_sim: simulation "engine_apply rt w" "pod_step rt" "pod_rel w"
  "\<lambda>ev. sort_contract rt \<and> event_ok w ev" for rt w
  by unfold_locales (rule pod_follows; blast)

section \<open>Every request is answered from the board\<close>

text \<open>
  The row of a ranked pair in a fresh index, when the pairs have not changed since the last
  cycle, and the reply.
\<close>

lemma ranked_row:
  assumes "pairs_ok ps" and "MakePairKey p b \<in> Key ` set ps"
  shows "\<exists>i < length ps. build_index ps (MakePairKey p b) = Some i \<and> BinTagID (ps ! i) = b"
proof -
  from assms(2) obtain i where i: "i < length ps" "Key (ps ! i) = MakePairKey p b"
    by (metis imageE in_set_conv_nth)
  have "Key (ps ! i) = MakePairKey (PPSID (ps ! i)) (BinTagID (ps ! i))"
    using assms(1) i(1) by (simp add: pairs_ok_def pending_wf_def)
  with i build_index_distinct [OF _ i(1)] assms(1) show ?thesis by (auto simp: pairs_ok_def)
qed

lemma pod_reply:
  assumes rel: "pod_rel w s e" and posted: "posted_pairs (board s) = ranked_pairs s"
  shows "\<exists>reply. GetTopK w (Topology e) (DB e) req (RefreshPairIndex (elems (Pairs e)) srv) = Inr reply \<and>
           reply_ok w s req reply"
proof -
  let ?k = "MakePairKey (rPPSID req) (rBinTagID req)" and ?srv = "RefreshPairIndex (elems (Pairs e)) srv"
  let ?bd = "board s"
  have t: "val (Topology e) ?k = states s ?k" and ps: "elems (Pairs e) = ranked_pairs s" "pairs_ok (ranked_pairs s)"
    using rel by (simp_all add: pod_rel_def)
  consider "states s ?k = Some StatusActive" "?k \<in> Key ` set (ranked_pairs s)"
    | "states s ?k = Some StatusActive" "?k \<notin> Key ` set (ranked_pairs s)"
    | "states s ?k \<in> {None, Some StatusWarmingUp, Some StatusRemoved}"
    using status_of [of "Topology e" ?k] t by auto
  then show ?thesis
  proof cases
    case 1
    from ranked_row [OF ps(2) 1(2)] obtain i where i: "i < length (ranked_pairs s)"
      "build_index (ranked_pairs s) ?k = Some i" "BinTagID (ranked_pairs s ! i) = rBinTagID req" by blast
    have "\<exists>r. GetTopK w (Topology e) (DB e) req ?srv = Inr (Inr r) \<and> response_is (best_of w (K req))
        (standings (posted_at ?bd) (posted_book ?bd) (contenders w (posted_book ?bd) (rBinTagID req))) r"
    proof (rule GetTopK_ranked)
      show "val (Topology e) ?k = Some StatusActive" using 1(1) t by simp
      show "PairIndex ?srv ?k = Some i" using i(2) by (simp add: refresh_eq ps(1))
      show "ranked_buffer w (length (posted_pairs ?bd)) (\<lambda>j. Some (standings (posted_at ?bd) (posted_book ?bd)
          (contenders w (posted_book ?bd) (BinTagID (posted_pairs ?bd ! j))))) (Load (DB e))"
        using rel by (simp add: pod_rel_def board_shows_def)
    qed (use i posted in simp_all)
    then show ?thesis using 1 by (auto simp: reply_ok_def Let_def)
  next
    case 2
    then have "build_index (ranked_pairs s) ?k = None" by (simp add: build_index_None)
    with 2 t show ?thesis
      by (simp add: GetTopK_def Get_def map_zero_def Let_def refresh_eq ps(1) reply_ok_def)
  next
    case 3
    with t show ?thesis by (auto simp: GetTopK_def Get_def map_zero_def Let_def reply_ok_def)
  qed
qed

lemma pod_serves:
  assumes "workload_ok w" and "numBinTags w < 2 ^ 32" and "sort_contract rt" and "\<forall>ev \<in> set evs. event_ok w ev"
    and "s = fold (pod_step rt) evs (pod_start (buildPairs w (PairsPerPod w)))"
  shows "\<exists>e. gfold (engine_apply rt w) evs (fst (main_setup w cores env)) = Inr e \<and> pod_rel w s e \<and>
           (posted_pairs (board s) = ranked_pairs s \<longrightarrow>
              (\<forall>req srv. \<exists>reply. GetTopK w (Topology e) (DB e) req (RefreshPairIndex (elems (Pairs e)) srv) = Inr reply \<and>
                 reply_ok w s req reply))"
proof -
  from pure_sim.run_follows [OF pod_rel_start [OF assms(1,2)], of evs rt] assms(3,4) obtain e where
    "gfold (engine_apply rt w) evs (fst (main_setup w cores env)) = Inr e" "pod_rel w s e"
    using assms(5) by blast
  with pod_reply show ?thesis by blast
qed

end
