(* ===== verification/Pure_Main.thy ===== *)
theory Pure_Main
  imports Order_Seeding
begin

text \<open>
  \<^verbatim>\<open>main\<close> of the pure program, from the set-up to the last line: seeding, the
  worst-case report, three cycles with updates of the mock dictionary, the circuit-breaker
  demo and the eviction demo.  What it prints is the result, as a record.  The caller's slice
  \<^verbatim>\<open>pairs\<close> shares its array with the engine's, so it is read from there.
\<close>

section \<open>The code\<close>

text \<open>The readings of the clock, in the order of the program.\<close>

record main_clock =
  seed_now :: i64
  event_now :: "nat \<Rightarrow> i64"
  dict_seed :: i64
  fetch_now :: "nat \<Rightarrow> i64"
  cycle_at :: "nat \<Rightarrow> cycle_clock"

definition main_cycle ::
  "'g go_rand \<Rightarrow> go_runtime \<Rightarrow> workload \<Rightarrow> main_clock \<Rightarrow> nat \<Rightarrow>
     'g mock_item_dict_client \<times> pps_matrix compute_engine \<times> (nat \<times> cycle_stats) list \<Rightarrow>
     ('g mock_item_dict_client \<times> pps_matrix compute_engine \<times> (nat \<times> cycle_stats) list) go" where
  "main_cycle R rt w clk i s =
     (case s of (dict, e, report) \<Rightarrow>
        gbind (FetchUpdate R rt (fetch_now clk i) dict) (\<lambda>(latency, update, dict').
        gbind (RunCycleWithDict rt w (cycle_at clk i) (Some update) e) (\<lambda>(stats, e').
        Inr (dict', e', report @ [(length (TPIDDeltas update), stats)]))))"

record breaker_report =
  warming_answer :: "api_error + get_topk_response"
  removed_answer :: "api_error + get_topk_response"
  active_answer :: "api_error + get_topk_response"

text \<open>\<open>n\<close> is the length of the caller's slice.\<close>

definition callers_pairs :: "nat \<Rightarrow> 'm compute_engine \<Rightarrow> pair_info list" where
  "callers_pairs n e = take n (arr (Pairs e))"

definition breaker_demo ::
  "workload \<Rightarrow> nat \<Rightarrow> priority_server \<Rightarrow> pps_matrix compute_engine \<Rightarrow>
     (breaker_report \<times> pps_matrix compute_engine) go" where
  "breaker_demo w n srv e =
     (let newPPS = 999; newBinTag = 888;
          e1 = HandleAddPair newPPS newBinTag e;
          srv1 = RefreshPairIndex (callers_pairs n e1 @ [pair_of newPPS newBinTag]) srv;
          request = (\<lambda>e p k. GetTopK w (Topology e) (DB e)
                       \<lparr>rPPSID = PPSID p, rBinTagID = BinTagID p, K = k\<rparr> srv1)
      in gbind (request e1 (pair_of newPPS newBinTag) 10) (\<lambda>warming.
         gbind (go_index (callers_pairs n e1) 0) (\<lambda>removedPair.
         let e2 = HandleRemovePair (PPSID removedPair) (BinTagID removedPair) e1
         in gbind (request e2 removedPair 10) (\<lambda>removed.
            gbind (go_index (callers_pairs n e2) 1) (\<lambda>activePair.
            gbind (request e2 activePair 5) (\<lambda>active.
            Inr (\<lparr>warming_answer = warming, removed_answer = removed, active_answer = active\<rparr>, e2)))))))"

text \<open>The number that is printed for the active pair.\<close>

definition non_empty_slots :: "get_topk_response \<Rightarrow> nat" where
  "non_empty_slots resp = length (filter (\<lambda>id. 0 \<le> sint id) (Heuristic resp))"

definition eviction_demo ::
  "workload \<Rightarrow> u32 \<Rightarrow> pps_matrix compute_engine \<Rightarrow> (bool \<times> pps_matrix compute_engine) go" where
  "eviction_demo w sampleOrderID e =
     gbind (HandleOrderRemoved w sampleOrderID e) (\<lambda>e'.
     gbind (go_index (Meta (Registry e')) (unat sampleOrderID)) (\<lambda>m. Inr (Active m, e')))"

record main_report =
  worst :: worst_case
  cycles :: "(nat \<times> cycle_stats) list"
  breaker :: breaker_report
  still_active :: bool

definition pure_main ::
  "'g go_rand \<Rightarrow> go_runtime \<Rightarrow> workload \<Rightarrow> int \<Rightarrow> (string \<Rightarrow> string) \<Rightarrow> main_clock \<Rightarrow>
     (main_report \<times> pps_matrix compute_engine) go" where
  "pure_main R rt w cores env clk =
     (case main_setup w cores env of (e0, srv) \<Rightarrow>
        gbind (seed_orders R rt w (event_now clk) (seed_now clk)
                 (NewMockKafkaOrderStream R (int (PairsPerPod w)), e0)) (\<lambda>(stream, e1).
        gbind (worst_case_check w e1) (\<lambda>check.
        gbind (gfold (main_cycle R rt w clk) [1..<4] (NewMockItemDictClient R (dict_seed clk), e1, []))
          (\<lambda>(dict, e2, report).
        gbind (breaker_demo w (PairsPerPod w) srv e2) (\<lambda>(answers, e3).
        gbind (eviction_demo w 42 e3) (\<lambda>(active, e4).
        Inr (\<lparr>worst = check, cycles = report, breaker = answers, still_active = active\<rparr>, e4)))))))"

section \<open>The cycles\<close>

text \<open>
  What the cycles keep: the invariant, the pairs, the status of every pair; and the buffer
  is ranked as of the last cycle.
\<close>

definition ranked_at :: "workload \<Rightarrow> i64 \<Rightarrow> pps_matrix compute_engine \<Rightarrow> bool" where
  "ranked_at w now e \<longleftrightarrow> ranked_buffer w (slen (Pairs e)) (pair_tables w now e) (Load (DB e))"

definition all_active_pairs :: "'m compute_engine \<Rightarrow> bool" where
  "all_active_pairs e \<longleftrightarrow>
     (\<forall>k. val (Topology e) k = (if k \<in> Key ` set (elems (Pairs e)) then Some StatusActive else None))"

lemma pair_tables_topology:
  "val t = val (Topology e) \<Longrightarrow> pair_tables w now (e\<lparr>Topology := t\<rparr>) = pair_tables w now e"
  by (simp add: fun_eq_iff pair_tables_def Let_def)

lemma active_cycle:
  assumes inv: "pure_inv w e" and rt: "sort_contract rt" and act: "all_active_pairs e"
  shows "\<exists>stats e'. RunCycleWithDict rt w clk update e = Inr (stats, e') \<and> pure_inv w e' \<and>
           Pairs e' = Pairs e \<and> NumPPS (Matrix e') = NumPPS (Matrix e) \<and> all_active_pairs e' \<and>
           ranked_at w (now_secs clk) e' \<and>
           Meta (Registry e') = map (purge_meta (now_secs clk)) (Meta (Registry e)) \<and>
           Indexes e' = fold RemoveOrder (expired_ids (now_secs clk) (Registry e)) (Indexes e)"
proof -
  from cycle_ok [OF inv rt, of clk update] obtain stats e' where
    c: "RunCycleWithDict rt w clk update e = Inr (stats, e')" "pure_inv w e'"
    "NumPPS (Matrix e') = NumPPS (Matrix e)"
    "store_after_cycle w (now_secs clk) (update_deltas rt update) (NumPPS (Matrix e))
       (cell w (Matrix e)) (cell w (Matrix e')) e e'"
    "ranked_buffer w (slen (Pairs e)) (pair_tables w (now_secs clk) (e'\<lparr>Topology := Topology e\<rparr>)) (Load (DB e'))"
    "promoted (pendingWarmup e) (Topology e) (Topology e')" by blast
  from c(4) have s: "Pairs e' = Pairs e" "Meta (Registry e') = map (purge_meta (now_secs clk)) (Meta (Registry e))"
    "Indexes e' = fold RemoveOrder (expired_ids (now_secs clk) (Registry e)) (Indexes e)"
    by (simp_all add: store_after_cycle_def)
  have "val (Topology e) k \<noteq> Some StatusWarmingUp" for k using act by (simp add: all_active_pairs_def)
  then have t: "val (Topology e) = val (Topology e')" using promoted_val [OF c(6)] by (simp add: fun_eq_iff)
  then have "ranked_at w (now_secs clk) e'"
    using c(5) pair_tables_topology [OF t] by (simp add: ranked_at_def s(1))
  moreover have "all_active_pairs e'" using act t by (simp add: all_active_pairs_def s(1))
  ultimately show ?thesis using c(1-3) s by blast
qed

text \<open>While no order has outlived its TTL, a cycle purges nothing.\<close>

definition fresh_at :: "i64 \<Rightarrow> i64 \<Rightarrow> bool" where
  "fresh_at inserted now \<longleftrightarrow> sint inserted \<le> 0 \<or> sint (now - inserted) \<le> sint OrderTTLSecs"

lemma purge_fresh:
  assumes "seeded now bts (NumOrders w) r ix" and "length (Meta r) = NumOrders w" and "fresh_at now later"
  shows "map (purge_meta later) (Meta r) = Meta r" "expired_ids later r = []"
proof -
  have "\<not> expired later m" if "m \<in> set (Meta r)" for m
    using assms that by (auto simp: expired_def seeded_def fresh_at_def in_set_conv_nth)
  then show "map (purge_meta later) (Meta r) = Meta r" "expired_ids later r = []"
    by (simp_all add: purge_meta_def expired_ids_def map_idI)
qed

lemma seeded_meta: "Meta r' = Meta r \<Longrightarrow> seeded now bts n r' ix = seeded now bts n r ix"
  by (simp add: seeded_def)

definition fresh_cycles :: "main_clock \<Rightarrow> bool" where
  "fresh_cycles clk \<longleftrightarrow> (\<forall>i \<in> {1, 2, 3}. fresh_at (seed_now clk) (now_secs (cycle_at clk i)))"

text \<open>Orders that a purge finds fresh stay seeded.\<close>

lemma still_seeded:
  assumes "seeded t bts (NumOrders w) r ix" and "length (Meta r) = NumOrders w" and "fresh_at t now"
    and "Meta r' = map (purge_meta now) (Meta r)" and "ix' = fold RemoveOrder (expired_ids now r) ix"
  shows "seeded t bts (NumOrders w) r' ix'"
  using purge_fresh [OF assms(1-3)] assms(1,4,5) by (simp add: seeded_def)

definition made_dict :: "'g mock_item_dict_client \<Rightarrow> bool" where
  "made_dict dict \<longleftrightarrow>
     minLatency dict = 10 * Millisecond \<and> maxLatency dict = 80 * Millisecond \<and> numTPIDs dict = 100000"

lemma main_cycle_ok:
  assumes R: "rand_contract R" and rt: "sort_contract rt" and d: "made_dict dict"
    and inv: "pure_inv w e" and act: "all_active_pairs e"
  shows "\<exists>dict' e' stats. main_cycle R rt w clk i (dict, e, report) = Inr (dict', e', report @ [(100000, stats)]) \<and>
           made_dict dict' \<and> pure_inv w e' \<and> Pairs e' = Pairs e \<and> NumPPS (Matrix e') = NumPPS (Matrix e) \<and>
           all_active_pairs e' \<and> ranked_at w (now_secs (cycle_at clk i)) e' \<and>
           (fresh_at t (now_secs (cycle_at clk i)) \<longrightarrow> seeded t bts (NumOrders w) (Registry e) (Indexes e) \<longrightarrow>
              seeded t bts (NumOrders w) (Registry e') (Indexes e'))"
proof -
  have "0 \<le> sint (minLatency dict)" "sint (minLatency dict) \<le> sint (maxLatency dict)"
    "sint (maxLatency dict) < 2 ^ 63 - 1" "0 \<le> numTPIDs dict"
    using d by (simp_all add: made_dict_def Millisecond_def)
  from FetchUpdate_ok [OF R this, of rt "fetch_now clk i"] obtain lat u g where f:
    "FetchUpdate R rt (fetch_now clk i) dict = Inr (lat, u, dict\<lparr>dict_rng := g\<rparr>)"
    "length (TPIDDeltas u) = 100000" using d by (auto simp: made_dict_def)
  let ?now = "now_secs (cycle_at clk i)"
  from active_cycle [OF inv rt act, of "cycle_at clk i" "Some u"] obtain stats e' where
    c: "RunCycleWithDict rt w (cycle_at clk i) (Some u) e = Inr (stats, e')" "pure_inv w e'"
    "Pairs e' = Pairs e" "NumPPS (Matrix e') = NumPPS (Matrix e)" "all_active_pairs e'"
    "ranked_at w ?now e'" "Meta (Registry e') = map (purge_meta ?now) (Meta (Registry e))"
    "Indexes e' = fold RemoveOrder (expired_ids ?now (Registry e)) (Indexes e)" by blast
  have "length (Meta (Registry e)) = NumOrders w"
    using inv by (simp add: engine_inv_def store_inv_def registry_inv_def)
  then have "fresh_at t ?now \<longrightarrow> seeded t bts (NumOrders w) (Registry e) (Indexes e) \<longrightarrow>
      seeded t bts (NumOrders w) (Registry e') (Indexes e')"
    using still_seeded [OF _ _ _ c(7,8)] by blast
  moreover have "main_cycle R rt w clk i (dict, e, report) = Inr (dict\<lparr>dict_rng := g\<rparr>, e', report @ [(100000, stats)])"
    using f c(1) by (simp add: main_cycle_def)
  moreover have "made_dict (dict\<lparr>dict_rng := g\<rparr>)" using d by (simp add: made_dict_def)
  ultimately show ?thesis using c(2-6) by blast
qed

lemma replicate_snoc: "1 \<le> i \<Longrightarrow> replicate (i - 1) x @ [x] = replicate i x"
  by (cases i) (simp_all add: replicate_append_same)

lemma main_cycles_ok:
  fixes R :: "'g go_rand"
  assumes R: "rand_contract R" and inv: "pure_inv w e" and rt: "sort_contract rt" and act: "all_active_pairs e"
    and s: "seeded (seed_now clk) bts (NumOrders w) (Registry e) (Indexes e)"
  shows "\<exists>dict' e' report. gfold (main_cycle R rt w clk) [1..<4] (NewMockItemDictClient R sd, e, []) =
             Inr (dict', e', report) \<and> pure_inv w e' \<and> Pairs e' = Pairs e \<and>
           NumPPS (Matrix e') = NumPPS (Matrix e) \<and> all_active_pairs e' \<and>
           map fst report = [100000, 100000, 100000] \<and> ranked_at w (now_secs (cycle_at clk 3)) e' \<and>
           (fresh_cycles clk \<longrightarrow> seeded (seed_now clk) bts (NumOrders w) (Registry e') (Indexes e'))"
proof -
  let ?S = "\<lambda>e'. seeded (seed_now clk) bts (NumOrders w) (Registry e') (Indexes e')"
  let ?fresh = "\<lambda>j. fresh_at (seed_now clk) (now_secs (cycle_at clk j))"
  let ?P = "\<lambda>i (dict :: 'g mock_item_dict_client, e', report :: (nat \<times> cycle_stats) list). made_dict dict \<and>
      pure_inv w e' \<and> Pairs e' = Pairs e \<and> NumPPS (Matrix e') = NumPPS (Matrix e) \<and> all_active_pairs e' \<and>
      map fst report = replicate (i - 1) 100000 \<and>
      (1 < i \<longrightarrow> ranked_at w (now_secs (cycle_at clk (i - 1))) e') \<and> ((\<forall>j \<in> {1..<i}. ?fresh j) \<longrightarrow> ?S e')"
  have "\<exists>s'. gfold (main_cycle R rt w clk) [1..<4] (NewMockItemDictClient R sd, e, []) = Inr s' \<and> ?P 4 s'"
  proof (rule gfold_upt_inv)
    show "?P 1 (NewMockItemDictClient R sd, e, [])"
      using inv act s by (simp add: NewMockItemDictClient_def made_dict_def)
  next
    fix i s' assume i: "1 \<le> i" "i < (4 :: nat)" and P: "?P i s'"
    obtain dict e1 report where s': "s' = (dict, e1, report)" by (cases s') auto
    with P have 1: "made_dict dict" "pure_inv w e1" "all_active_pairs e1" by simp_all
    obtain dict' e2 stats where 2:
      "main_cycle R rt w clk i (dict, e1, report) = Inr (dict', e2, report @ [(100000, stats)])"
      "made_dict dict'" "pure_inv w e2" "Pairs e2 = Pairs e1" "NumPPS (Matrix e2) = NumPPS (Matrix e1)"
      "all_active_pairs e2" "ranked_at w (now_secs (cycle_at clk i)) e2" "?fresh i \<longrightarrow> ?S e1 \<longrightarrow> ?S e2"
      using main_cycle_ok [OF R rt 1, where clk = clk and i = i and report = report
          and t = "seed_now clk" and bts = bts] by blast
    have "?P (Suc i) (dict', e2, report @ [(100000, stats)])"
      using P 2(2-8) i(1) replicate_snoc [OF i(1)] by (simp add: s')
    then show "\<exists>s''. main_cycle R rt w clk i s' = Inr s'' \<and> ?P (Suc i) s''" unfolding s' using 2(1) by blast
  qed simp
  moreover have "{1..<4} = {1, 2, 3 :: nat}" by auto
  ultimately show ?thesis by (auto simp: numeral_3_eq_3 fresh_cycles_def)
qed

section \<open>The demos\<close>

text \<open>
  The third element of the caller's slice has moved to its second place by the time it is
  read; with only two pairs the second one is still there.
\<close>

lemma overwritten_second:
  assumes "2 \<le> length ps" and "distinct (map Key ps)" and "keep = (\<lambda>p. Key p \<noteq> Key (ps ! 0))"
  shows "take (length ps) (arr (filter_in_place keep (slice_of ps))) ! 1 = ps ! min 2 (length ps - 1)"
proof -
  obtain a b xs where ps: "ps = a # b # xs"
    using assms(1) by (cases ps; cases "tl ps") auto
  have "filter keep ps = b # xs"
    using filter_one [OF assms(2), of 0] ps assms(3) by simp
  then have "arr (filter_in_place keep (slice_of ps)) = (b # xs) @ drop (Suc (length xs)) ps"
    using filter_in_place_ok(3) [of "slice_of ps" keep] by simp
  then show ?thesis by (cases xs) (simp_all add: ps)
qed

lemma overwritten_read:
  assumes "2 \<le> length ps" and "distinct (map Key ps)"
  shows "go_index (take (length ps) (arr (filter_in_place (\<lambda>p. Key p \<noteq> Key (ps ! 0)) (slice_of ps)))) 1 =
           Inr (ps ! min 2 (length ps - 1))"
proof -
  let ?keep = "\<lambda>p. Key p \<noteq> Key (ps ! 0)"
  have "1 < length (take (length ps) (arr (filter_in_place ?keep (slice_of ps))))"
    using filter_in_place_ok(3) [of "slice_of ps" ?keep] length_filter_le [of ?keep ps] assms(1) by simp
  then show ?thesis using overwritten_second [OF assms refl] by (simp only: go_index_ok)
qed

text \<open>The two refusals of the demo.\<close>

lemma demo_warming:
  "GetTopK w (Topology (HandleAddPair 999 888 e)) db \<lparr>rPPSID = 999, rBinTagID = 888, K = 10\<rparr> srv =
     Inr (Inl (ApiError GRPCUnavailable (pair_message 999 888 ''is warming up'')))"
  by (simp add: GetTopK_def Get_def map_zero_def Let_def HandleAddPair_def topo_val)

lemma demo_removed:
  "GetTopK w (Topology (HandleRemovePair p b e)) db \<lparr>rPPSID = p, rBinTagID = b, K = 10\<rparr> srv =
     Inr (Inl (ApiError GRPCNotFound (pair_message p b ''not found'')))"
  by (simp add: GetTopK_def Get_def map_zero_def Let_def HandleRemovePair_def topo_val)

text \<open>
  What the demo's two events leave: the removed pair is refused, the next one in the
  overwritten list of the caller is still served.
\<close>

lemma breaker_demo_state:
  assumes inv: "pure_inv w e" and ps: "Pairs e = slice_of ps" "pending_wf ps" "distinct (map Key ps)" "2 \<le> length ps"
    and new: "MakePairKey 999 888 \<notin> Key ` set ps" and act: "all_active_pairs e"
    and q: "q = min 2 (length ps - 1)"
    and e2: "e2 = HandleRemovePair (PPSID (ps ! 0)) (BinTagID (ps ! 0)) (HandleAddPair 999 888 e)"
  shows "go_index (callers_pairs (length ps) e2) 1 = Inr (ps ! q)"
    "val (Topology e) (Key (ps ! q)) = Some StatusActive"
    "val (Topology e2) (MakePairKey (PPSID (ps ! q)) (BinTagID (ps ! q))) = Some StatusActive"
    "DB e2 = DB e" "Registry e2 = Registry e" "pure_inv w e2"
proof -
  let ?a = "ps ! 0" and ?b = "ps ! q" and ?e1 = "HandleAddPair 999 888 e"
  have q': "q < length ps" "q \<noteq> 0" "0 < length ps" using ps(4) by (auto simp: q)
  have mem: "?a \<in> set ps" "?b \<in> set ps" using q'(1,3) nth_mem by blast+
  have key: "Key p = MakePairKey (PPSID p) (BinTagID p)" if "p \<in> set ps" for p
    using ps(2) that by (simp add: pending_wf_def)
  have e1: "Pairs ?e1 = slice_of ps" by (simp add: HandleAddPair_def Let_def ps(1))
  have t1: "val (Topology ?e1) k = (if k = MakePairKey 999 888 then Some StatusWarmingUp else val (Topology e) k)" for k
    by (simp add: HandleAddPair_def Let_def topo_val)
  have t2: "val (Topology e2) k = (if k = Key ?a then Some StatusRemoved else val (Topology ?e1) k)" for k
    unfolding key [OF mem(1)] by (simp add: e2 HandleRemovePair_def Let_def topo_val)
  have "Pairs e2 = filter_in_place (\<lambda>p. Key p \<noteq> Key ?a) (slice_of ps)"
    unfolding key [OF mem(1)] by (simp add: e2 HandleRemovePair_def Let_def e1)
  then show "go_index (callers_pairs (length ps) e2) 1 = Inr ?b"
    using overwritten_read [OF ps(4,3), folded q] by (simp add: callers_pairs_def)
  show active: "val (Topology e) (Key ?b) = Some StatusActive" using act mem(2) by (simp add: all_active_pairs_def ps(1))
  have "Key ?b \<noteq> Key ?a" using nth_eq_iff_index_eq [OF ps(3), of q 0] q' by simp
  moreover have "Key ?b \<noteq> MakePairKey 999 888" using imageI [OF mem(2), of Key] new by metis
  ultimately show "val (Topology e2) (MakePairKey (PPSID ?b) (BinTagID ?b)) = Some StatusActive"
    unfolding key [OF mem(2), symmetric] using active by (simp add: t1 t2)
  show "DB e2 = DB e" "Registry e2 = Registry e"
    by (simp_all add: e2 HandleRemovePair_def HandleAddPair_def Let_def)
  show "pure_inv w e2" unfolding e2 by (rule engine_inv_topology(2) [OF engine_inv_topology(1) [OF inv]])
qed

lemma breaker_demo_ok:
  assumes inv: "pure_inv w e" and ps: "Pairs e = slice_of ps" "pending_wf ps" "distinct (map Key ps)" "2 \<le> length ps"
    and new: "MakePairKey 999 888 \<notin> Key ` set ps" and act: "all_active_pairs e" and buf: "ranked_at w now e"
  shows "\<exists>e' r tabs. breaker_demo w (length ps) srv e =
             Inr (\<lparr>warming_answer = Inl (ApiError GRPCUnavailable (pair_message 999 888 ''is warming up'')),
                   removed_answer = Inl (ApiError GRPCNotFound
                     (pair_message (PPSID (ps ! 0)) (BinTagID (ps ! 0)) ''not found'')),
                   active_answer = Inr r\<rparr>, e') \<and>
           pure_inv w e' \<and> Registry e' = Registry e \<and>
           pair_tables w now e (min 2 (length ps - 1)) = Some tabs \<and> response_is (best_of w 5) tabs r"
proof -
  define q where "q = min 2 (length ps - 1)"
  let ?a = "ps ! 0" and ?b = "ps ! q"
  define e2 where "e2 = HandleRemovePair (PPSID ?a) (BinTagID ?a) (HandleAddPair 999 888 e)"
  let ?srv = "RefreshPairIndex (ps @ [pair_of 999 888]) srv"
  note d = breaker_demo_state [OF inv ps new act q_def e2_def]
  have q: "q < length ps" using ps(4) by (auto simp: q_def)
  have key: "Key ?b = MakePairKey (PPSID ?b) (BinTagID ?b)" using ps(2) nth_mem [OF q] by (simp add: pending_wf_def)
  have "distinct (map Key (ps @ [pair_of 999 888]))" using ps(3) new by auto
  from build_index_distinct [OF this, of q] q key
  have idx: "PairIndex ?srv (MakePairKey (PPSID ?b) (BinTagID ?b)) = Some q"
    by (simp add: refresh_eq nth_append)
  obtain tabs where tabs: "pair_tables w now e q = Some tabs"
    using d(2) by (simp add: pair_tables_def Let_def ps(1))
  have "ranked_buffer w (length ps) (pair_tables w now e) (Load (DB e2))"
    using buf by (simp add: ranked_at_def ps(1) d(4))
  from GetTopK_ranked [of _ "\<lparr>rPPSID = PPSID ?b, rBinTagID = BinTagID ?b, K = 5\<rparr>", simplified, OF d(3) idx this q tabs]
  obtain r where r: "GetTopK w (Topology e2) (DB e2) \<lparr>rPPSID = PPSID ?b, rBinTagID = BinTagID ?b, K = 5\<rparr> ?srv =
      Inr (Inr r)" "response_is (best_of w 5) tabs r" by auto
  have callers: "callers_pairs (length ps) (HandleAddPair 999 888 e) = ps"
    by (simp add: callers_pairs_def HandleAddPair_def Let_def ps(1))
  have "0 < length ps" using q by linarith
  then have reads: "go_index ps 0 = Inr ?a" by (simp only: go_index_ok)
  have "breaker_demo w (length ps) srv e =
      Inr (\<lparr>warming_answer = Inl (ApiError GRPCUnavailable (pair_message 999 888 ''is warming up'')),
            removed_answer = Inl (ApiError GRPCNotFound (pair_message (PPSID ?a) (BinTagID ?a) ''not found'')),
            active_answer = Inr r\<rparr>, e2)"
    unfolding breaker_demo_def Let_def callers
    by (simp add: demo_warming reads demo_removed d(1) [unfolded One_nat_def] r(1) flip: e2_def)
  then show ?thesis using d(5,6) tabs r(2) unfolding q_def by blast
qed

lemma eviction_demo_ok:
  assumes inv: "pure_inv w e" and oid: "unat oid < NumOrders w"
  shows "\<exists>e'. eviction_demo w oid e = Inr (False, e') \<and> pure_inv w e'"
proof -
  from handle_removed_ok [OF inv, of oid] obtain e' where e': "HandleOrderRemoved w oid e = Inr e'" "pure_inv w e'"
    "\<forall>j < NumOrders w. Meta (Registry e') ! j =
       (if j = unat oid \<and> Active (Meta (Registry e) ! j) then deactivated (Meta (Registry e) ! j)
        else Meta (Registry e) ! j)" by blast
  have "length (Meta (Registry e')) = NumOrders w"
    using e'(2) by (simp add: engine_inv_def store_inv_def registry_inv_def)
  then show ?thesis using e' oid by (auto simp: eviction_demo_def go_simps)
qed

section \<open>The whole program\<close>

text \<open>
  How many of the slots printed for an active pair are filled, when every order is active
  and listed: as many as asked for, as are ranked, and as there are.
\<close>

lemma sint_nonneg:
  assumes "unat (x :: i32) < 2 ^ 31"
  shows "0 \<le> sint x"
proof -
  have "int (unat x) < int (2 ^ 31)" using assms by (simp only: of_nat_less_iff)
  then have "uint x < 2 ^ 31" by simp
  moreover have "- (2 ^ 31) \<le> uint x" by (rule order_trans [of _ 0]) simp_all
  ultimately have "sint x = uint x" unfolding sint_uint by (simp add: signed_take_bit_int_eq_self)
  then show ?thesis by simp
qed

lemma non_empty_slots_full:
  assumes ok: "workload_ok w" and best: "best_of w k xs (Heuristic r)"
    and ids: "\<forall>x \<in> set xs. unat (orderID x) < NumOrders w"
  shows "non_empty_slots r = min (nat (clip_k w k)) (min (TopK w) (length xs))"
proof -
  obtain ys where ys: "top_k (TopK w) xs ys"
    "Heuristic r = take (nat (clip_k w k)) (map orderID ys @ replicate (TopK w - length ys) (-1))"
    using best by (auto simp: best_of_def)
  have len: "length ys = min (TopK w) (length xs)" using ys(1) by (rule top_k_length)
  have "0 \<le> sint (orderID x)" if "x \<in> set ys" for x
  proof -
    have "unat (orderID x) < 2 ^ 31" using ids top_k_set [OF ys(1)] that ok by (fastforce simp: workload_ok_def)
    then show ?thesis by (rule sint_nonneg)
  qed
  then have "filter (\<lambda>id. 0 \<le> sint id) (take n (map orderID ys)) = take n (map orderID ys)" for n
    by (auto simp: filter_id_conv dest!: in_set_takeD)
  moreover have "filter (\<lambda>id. 0 \<le> sint id) (replicate i (-1 :: i32)) = []" for i by simp
  ultimately have "non_empty_slots r = length (take (nat (clip_k w k)) (map orderID ys))"
    by (simp add: non_empty_slots_def ys(2))
  then show ?thesis using len by (simp add: min.commute)
qed

lemma full_heuristic:
  assumes inv: "pure_inv w e" and s: "seeded t bts (NumOrders w) (Registry e) (Indexes e)"
    and b: "BinTagID (elems (Pairs e) ! p) \<in> set bts" and tabs: "pair_tables w now e p = Some tabs"
  shows "length (heuristic tabs) = NumOrders w"
    "\<forall>x \<in> set (heuristic tabs). unat (orderID x) < NumOrders w"
proof -
  let ?pair = "elems (Pairs e) ! p" and ?reg = "Registry e"
  from inv have ok: "workload_ok w" by (simp add: engine_inv_def)
  have u: "unat (of_nat j :: u32) = j" if "j < NumOrders w" for j
    using that ok by (simp add: workload_ok_def unat_of_nat take_bit_eq_mod)
  have "pair_orders w ?reg (Indexes e) ?pair = map of_nat [0..<NumOrders w]"
    using s b by (auto simp: pair_orders_def seeded_def)
  moreover have "candidates ?reg (map of_nat [0..<NumOrders w]) = map of_nat [0..<NumOrders w]"
    using s u by (auto simp: candidates_def filter_id_conv seeded_def)
  moreover obtain sc where "tabs = table_entries now ?reg sc (pair_orders w ?reg (Indexes e) ?pair)"
    using tabs by (auto simp: pair_tables_def Let_def split: if_splits)
  ultimately show "length (heuristic tabs) = NumOrders w"
    "\<forall>x \<in> set (heuristic tabs). unat (orderID x) < NumOrders w"
    using u by (auto simp: table_entries_def Let_def)
qed

lemma full_answer:
  assumes inv: "pure_inv w e" and s: "seeded t bts (NumOrders w) (Registry e) (Indexes e)"
    and b: "BinTagID (elems (Pairs e) ! p) \<in> set bts" and tabs: "pair_tables w now e p = Some tabs"
    and r: "response_is (best_of w k) tabs r"
  shows "non_empty_slots r = min (nat (clip_k w k)) (min (TopK w) (NumOrders w))"
proof -
  have "workload_ok w" "best_of w k (heuristic tabs) (Heuristic r)"
    using inv r by (simp_all add: engine_inv_def response_is_def)
  from non_empty_slots_full [OF this full_heuristic(2) [OF inv s b tabs]] show ?thesis
    by (simp add: full_heuristic(1) [OF inv s b tabs])
qed

text \<open>From the set-up to the first cycle.\<close>

lemma pure_pod_seeded:
  assumes R: "rand_contract R" and ok: "workload_ok w"
    and size: "2 \<le> PairsPerPod w" "numPPS w < 2 ^ 32" "numBinTags w < 2 ^ 32"
    and ps: "ps = pair_grid [1..<numPPS w + 1] [1..<numBinTags w + 1]"
  shows "\<exists>e0 srv stream e1 tpids. main_setup w cores env = (e0, srv) \<and> length ps = PairsPerPod w \<and>
           seed_orders R rt w now_at now (NewMockKafkaOrderStream R (int (PairsPerPod w)), e0) = Inr (stream, e1) \<and>
           pure_inv w e1 \<and> Pairs e1 = slice_of ps \<and> all_active_pairs e1 \<and>
           seeded now (pure_bintags w) (NumOrders w) (Registry e1) (Indexes e1) \<and>
           worst_case_check w e1 =
             Inr \<lparr>activeCount = NumOrders w, binTagIDs = numBinTags w, btMin = NumOrders w,
                  btMax = NumOrders w, tpidIDs = tpids\<rparr>"
proof -
  obtain e0 srv where su: "main_setup w cores env = (e0, srv)" by fastforce
  note e0 = main_setup_parts [OF su ps]
  have nb: "0 < numBinTags w" using size(1) by (auto simp: PairsPerPod_def intro: Nat.gr0I)
  have inv0: "pure_inv w e0" using main_setup_inv [OF ok, of cores env] su by simp
  have new: "Indexes e0 = NewInvertedIndexes"
    using su by (auto simp: main_setup_def Let_def NewComputeEngine_def)
  have "all_active_pairs e0"
    using setup_topology_val [OF pair_grid_wf] by (simp add: all_active_pairs_def e0(1,2) ps)
  moreover obtain stream e1 where seed: "seed_orders R rt w now_at now
      (NewMockKafkaOrderStream R (int (PairsPerPod w)), e0) = Inr (stream, e1)" "pure_inv w e1"
    "same_pod e0 e1" "seeded now (pure_bintags w) (NumOrders w) (Registry e1) (Indexes e1)"
    using seed_orders_ok [OF R inv0 new size(3)] by blast
  ultimately have e1: "Pairs e1 = slice_of ps" "all_active_pairs e1"
    using e0(1) by (simp_all add: same_pod_def all_active_pairs_def)
  have "store_inv w (matrix_wf w) (Registry e1, Indexes e1, Matrix e1)" using seed(2) by (simp add: engine_inv_def)
  note wc = worst_case_seeded [OF this seed(4) pod_bintags(1) [OF size(3)]]
  have "worst_case_check w e1 = Inr \<lparr>activeCount = NumOrders w, binTagIDs = numBinTags w, btMin = NumOrders w,
      btMax = NumOrders w, tpidIDs = card (dom (TPIDToOrders (Indexes e1)))\<rparr>"
    using wc nb ok unfolding worst_case_check_def pod_bintags(3) [OF size(3)] by (simp add: workload_ok_def)
  with su e0(4) seed(1,2,4) e1 show ?thesis by blast
qed

lemma other_pair:
  assumes "numPPS w < 999" "ps = pair_grid [1..<numPPS w + 1] [1..<numBinTags w + 1]"
  shows "MakePairKey 999 888 \<notin> Key ` set ps"
proof
  assume "MakePairKey 999 888 \<in> Key ` set ps"
  then obtain p where p: "(999 :: u32) = of_nat p" "p \<le> numPPS w" unfolding assms(2) keys_pod by auto
  then have "p = 999" using assms(1) of_nat_u32_inj [of 999 p] by simp
  then show False using p(2) assms(1) by simp
qed

lemma first_pair:
  assumes "0 < numBinTags w" "0 < numPPS w" "ps = pair_grid [1..<numPPS w + 1] [1..<numBinTags w + 1]"
  shows "ps ! 0 = pair_of 1 1"
proof -
  have up: "[1..<n + 1] = 1 # [Suc 1..<n + 1]" if "0 < n" for n :: nat
    using that by (intro upt_conv_Cons) simp
  show ?thesis unfolding assms(3) pair_grid_def up [OF assms(1)] up [OF assms(2)] by simp
qed

lemma pure_main_ok:
  assumes R: "rand_contract R" and rt: "sort_contract rt" and ok: "workload_ok w"
    and size: "42 < NumOrders w" "2 \<le> PairsPerPod w" "numPPS w < 999" "numBinTags w < 2 ^ 32"
  shows "\<exists>rep e r tpids. pure_main R rt w cores env clk = Inr (rep, e) \<and> pure_inv w e \<and>
           worst rep = \<lparr>activeCount = NumOrders w, binTagIDs = numBinTags w, btMin = NumOrders w,
                        btMax = NumOrders w, tpidIDs = tpids\<rparr> \<and>
           map fst (cycles rep) = [100000, 100000, 100000] \<and>
           breaker rep =
             \<lparr>warming_answer = Inl (ApiError GRPCUnavailable (pair_message 999 888 ''is warming up'')),
              removed_answer = Inl (ApiError GRPCNotFound (pair_message 1 1 ''not found'')),
              active_answer = Inr r\<rparr> \<and>
           (fresh_cycles clk \<longrightarrow>
              non_empty_slots r = min (nat (clip_k w 5)) (min (TopK w) (NumOrders w))) \<and>
           \<not> still_active rep"
proof -
  define ps where "ps = pair_grid [1..<numPPS w + 1] [1..<numBinTags w + 1]"
  have pps: "numPPS w < 2 ^ 32" using size(3) by simp
  have nb: "0 < numBinTags w" "0 < numPPS w" using size(2) ok by (auto simp: PairsPerPod_def workload_ok_def intro: Nat.gr0I)
  have keys: "distinct (map Key ps)" unfolding ps_def using size(3,4) by (intro distinct_keys_grid) auto
  have wf: "pending_wf ps" unfolding ps_def by (rule pair_grid_wf)
  from pure_pod_seeded [OF R ok size(2) pps size(4) ps_def, where cores = cores and env = env and rt = rt
      and now_at = "event_now clk" and now = "seed_now clk"] obtain e0 srv stream e1 tpids where
    su: "main_setup w cores env = (e0, srv)" and len: "length ps = PairsPerPod w"
    and seed: "seed_orders R rt w (event_now clk) (seed_now clk)
      (NewMockKafkaOrderStream R (int (PairsPerPod w)), e0) = Inr (stream, e1)" "pure_inv w e1"
    and e1: "Pairs e1 = slice_of ps" "all_active_pairs e1"
    and s: "seeded (seed_now clk) (pure_bintags w) (NumOrders w) (Registry e1) (Indexes e1)"
    and wc: "worst_case_check w e1 = Inr \<lparr>activeCount = NumOrders w, binTagIDs = numBinTags w,
      btMin = NumOrders w, btMax = NumOrders w, tpidIDs = tpids\<rparr>" by (elim exE conjE) (erule (7) that)
  from main_cycles_ok [OF R seed(2) rt e1(2) s, of "dict_seed clk"] obtain dict e2 report where
    cyc: "gfold (main_cycle R rt w clk) [1..<4] (NewMockItemDictClient R (dict_seed clk), e1, []) =
      Inr (dict, e2, report)" "pure_inv w e2" "Pairs e2 = Pairs e1" "all_active_pairs e2"
    "map fst report = [100000, 100000, 100000]" "ranked_at w (now_secs (cycle_at clk 3)) e2"
    "fresh_cycles clk \<longrightarrow> seeded (seed_now clk) (pure_bintags w) (NumOrders w) (Registry e2) (Indexes e2)"
    by (elim exE conjE) (erule (6) that)
  note new = other_pair [OF size(3) ps_def]
  obtain e3 r tabs where brk: "breaker_demo w (length ps) srv e2 =
      Inr (\<lparr>warming_answer = Inl (ApiError GRPCUnavailable (pair_message 999 888 ''is warming up'')),
            removed_answer = Inl (ApiError GRPCNotFound (pair_message (PPSID (ps ! 0)) (BinTagID (ps ! 0)) ''not found'')),
            active_answer = Inr r\<rparr>, e3)" "pure_inv w e3"
    "pair_tables w (now_secs (cycle_at clk 3)) e2 (min 2 (length ps - 1)) = Some tabs" "response_is (best_of w 5) tabs r"
    using breaker_demo_ok [OF cyc(2) _ wf keys _ _ cyc(4,6), of srv] new size(2) len e1(1) cyc(3) by auto
  obtain e4 where "eviction_demo w 42 e3 = Inr (False, e4)" "pure_inv w e4"
    using eviction_demo_ok [OF brk(2), of 42] size(1) by auto
  moreover note first_pair [OF nb ps_def]
  moreover have "ps ! min 2 (length ps - 1) \<in> set ps" using size(2) len by (intro nth_mem) auto
  then have "BinTagID (elems (Pairs e2) ! min 2 (length ps - 1)) \<in> set (pure_bintags w)"
    unfolding cyc(3) e1(1) pod_bintags(3) [OF size(4), symmetric] by (auto simp: ps_def pair_grid_def)
  from full_answer [OF cyc(2) _ this brk(3,4)] cyc(7)
  have "fresh_cycles clk \<longrightarrow> non_empty_slots r = min (nat (clip_k w 5)) (min (TopK w) (NumOrders w))" by blast
  ultimately show ?thesis
    by (simp add: pure_main_def su seed(1) len wc cyc(1,5) [unfolded One_nat_def] brk(1) [unfolded len])
qed

end
