(* ===== verification/Cgo_Main.thy ===== *)
theory Cgo_Main
  imports Pure_Main
begin

text \<open>
  \<^verbatim>\<open>main\<close> of the cgo program: set-up, seeding, a hundred cycles with updates of its item
  dictionary, the request demo, the circuit-breaker demo and the eviction demo, with the
  matrix freed at the end.  What is specific here is memory and integer safety: no update
  the dictionary hands out can make a sum of the C kernel overflow, and the demo's new pair,
  whose PPS has no row, is ranked without touching the matrix because no order has its bin
  tag.
\<close>

section \<open>The code\<close>

definition cgo_main_cycle ::
  "'g go_rand \<Rightarrow> go_runtime \<Rightarrow> workload \<Rightarrow> main_clock \<Rightarrow> nat \<Rightarrow>
     'g cgo_item_dict_client \<times> c_matrix compute_engine \<times> (nat \<times> cycle_stats) list \<Rightarrow>
     ('g cgo_item_dict_client \<times> c_matrix compute_engine \<times> (nat \<times> cycle_stats) list) go" where
  "cgo_main_cycle R rt w clk i s =
     (case s of (dict, e, report) \<Rightarrow>
        gbind (cgo_Fetch R rt dict) (\<lambda>(delayMs, update, dict').
        gbind (cgo_RunCycleWithDict rt w (cycle_at clk i) (Some update) e) (\<lambda>(stats, e').
        Inr (dict', e', report @ [(length (Updates update), stats)]))))"

record cgo_breaker_report =
  warming_status :: pair_status
  warming_reply :: "api_error + get_topk_response"
  promote_cycle :: cycle_stats
  promoted_status :: pair_status
  promoted_reply :: "api_error + get_topk_response"

text \<open>The cycle of this demo is number 101, without an update.\<close>

definition cgo_breaker_demo ::
  "go_runtime \<Rightarrow> workload \<Rightarrow> main_clock \<Rightarrow> priority_server \<Rightarrow> c_matrix compute_engine \<Rightarrow>
     (cgo_breaker_report \<times> c_matrix compute_engine) go" where
  "cgo_breaker_demo rt w clk srv e =
     (let newPPS = 99; newBT = 88;
          warmReq = \<lparr>rPPSID = newPPS, rBinTagID = newBT, K = 5\<rparr>;
          e1 = cgo_HandleAddPair newPPS newBT e;
          srv1 = cgo_RefreshPairIndex (elems (Pairs e1)) srv;
          status = fst (cgo_Get (Topology e1) (MakePairKey newPPS newBT))
      in gbind (cgo_GetTopK w (Topology e1) (DB e1) warmReq srv1) (\<lambda>warm.
         gbind (cgo_RunCycleWithDict rt w (cycle_at clk 101) None e1) (\<lambda>(stats, e2).
         let srv2 = cgo_RefreshPairIndex (elems (Pairs e2)) srv1;
             status2 = fst (cgo_Get (Topology e2) (MakePairKey newPPS newBT))
         in gbind (cgo_GetTopK w (Topology e2) (DB e2) warmReq srv2) (\<lambda>served.
            Inr (\<lparr>warming_status = status, warming_reply = warm, promote_cycle = stats,
                  promoted_status = status2, promoted_reply = served\<rparr>, e2)))))"

definition cgo_eviction_demo ::
  "workload \<Rightarrow> u32 \<Rightarrow> c_matrix compute_engine \<Rightarrow> (bool \<times> c_matrix compute_engine) go" where
  "cgo_eviction_demo w sampleOrderID e =
     gbind (cgo_HandleOrderRemoved w sampleOrderID e) (\<lambda>e'.
     gbind (go_index (Meta (Registry e')) (unat sampleOrderID)) (\<lambda>m. Inr (Active m, e')))"

record cgo_main_report =
  cgo_worst :: worst_case
  cgo_cycles :: "(nat \<times> cycle_stats) list"
  first_reply :: "api_error + get_topk_response"
  cgo_breaker :: cgo_breaker_report
  cgo_still_active :: bool

definition cgo_main ::
  "'g go_rand \<Rightarrow> go_runtime \<Rightarrow> workload \<Rightarrow> bool \<Rightarrow> int \<Rightarrow> (string \<Rightarrow> string) \<Rightarrow> main_clock \<Rightarrow>
     (cgo_main_report \<times> c_matrix compute_engine) go" where
  "cgo_main R rt w enough_memory cores env clk =
     gbind (cgo_main_setup w enough_memory cores env) (\<lambda>e0.
     let n = slen (Pairs e0);
         stream0 = cgo_NewMockKafkaOrderStream R 42 (of_nat (NumOrders w)) 100000 (of_nat (numBinTags w))
     in gbind (cgo_seed_orders R rt w (event_now clk) (seed_now clk) (stream0, e0)) (\<lambda>(stream, e1).
        gbind (cgo_worst_case_check w e1) (\<lambda>check.
        gbind (gfold (cgo_main_cycle R rt w clk) [1..<101] (cgo_NewMockItemDictClient R 7 100000, e1, []))
          (\<lambda>(dict, e2, report).
        let srv = cgo_NewPriorityServer (callers_pairs n e2)
        in gbind (cgo_GetTopK w (Topology e2) (DB e2) \<lparr>rPPSID = 0, rBinTagID = 0, K = 5\<rparr> srv) (\<lambda>reply.
           gbind (cgo_breaker_demo rt w clk srv e2) (\<lambda>(answers, e3).
           gbind (cgo_eviction_demo w 42 e3) (\<lambda>(active, e4).
           Inr (\<lparr>cgo_worst = check, cgo_cycles = report, first_reply = reply, cgo_breaker = answers,
                 cgo_still_active = active\<rparr>, e4\<lparr>Matrix := cgo_Free (Matrix e4)\<rparr>))))))))"

section \<open>Fetched updates are safe\<close>

lemma order_delta_bound:
  assumes "\<forall>(t, d) \<in> set cs. \<bar>sint d\<bar> \<le> D" and "tpid_bound n ix"
    and small: "int (length cs) * (int n * D) < 2 ^ 31" and D: "0 \<le> D"
  shows "\<bar>sint (order_delta cs ix oid)\<bar> \<le> int (length cs) * (int n * D)"
proof -
  let ?z = "\<lambda>cs. sum_list (map (\<lambda>(t, d). int (count_list (tpid_orders ix t) oid) * sint d) cs)"
  have word: "order_delta cs ix oid = word_of_int (?z cs)" for cs
    by (induction cs) (auto simp: order_delta_def wi_hom_add [symmetric] wi_hom_mult [symmetric])
  have "\<bar>?z cs\<bar> \<le> int (length cs) * (int n * D)" using assms(1)
  proof (induction cs)
    case (Cons c cs)
    obtain t d where c: "c = (t, d)" by (cases c)
    have "int (count_list (tpid_orders ix t) oid) * \<bar>sint d\<bar> \<le> int n * D"
      using assms(2) Cons.prems c D by (intro mult_mono) (auto simp: tpid_bound_def)
    then have "\<bar>int (count_list (tpid_orders ix t) oid) * sint d\<bar> \<le> int n * D"
      by (simp only: abs_mult abs_of_nat)
    moreover have "\<bar>?z cs\<bar> \<le> int (length cs) * (int n * D)" using Cons by simp
    moreover have "?z (c # cs) = int (count_list (tpid_orders ix t) oid) * sint d + ?z cs" by (simp add: c)
    ultimately have "\<bar>?z (c # cs)\<bar> \<le> int n * D + int (length cs) * (int n * D)"
      using abs_triangle_ineq [of "int (count_list (tpid_orders ix t) oid) * sint d" "?z cs"] by linarith
    then show ?case by (simp add: distrib_right)
  qed simp
  with small show ?thesis unfolding word by (subst sint_of_bounded) linarith+
qed

lemma unit_diff_scaled:
  assumes "unit_update n u"
  shows "\<bar>sint (scale_score rt (f32_sub (NewContrib u) (OldContrib u)))\<bar> \<le> 2 ^ 7"
proof -
  obtain m e where new: "NewContrib u = F32 m e" "0 \<le> f32_val (F32 m e)" "f32_val (F32 m e) < 1"
    using assms unit_float_cases unfolding unit_update_def by metis
  obtain m' e' where old: "OldContrib u = F32 m' e'" "0 \<le> f32_val (F32 m' e')" "f32_val (F32 m' e') < 1"
    using assms unit_float_cases unfolding unit_update_def by metis
  have "\<bar>f32_val (F32 m e) - f32_val (F32 m' e')\<bar> \<le> 2 powi 0" using new(2,3) old(2,3) by auto
  from f32_sub_within [OF this] have "f32_within 0 (f32_sub (NewContrib u) (OldContrib u))"
    by (simp add: new(1) old(1) del: f32_sub.simps)
  from scale_score_within [OF this, of 7] show ?thesis by simp
qed

lemma fetched_update_safe:
  assumes "\<forall>x \<in> set (Updates u). unit_update n x" and "length (Updates u) \<le> 100000" and "tpid_bound 5 ix"
  shows "update_safe w (cgo_update_deltas rt (Some u) ix)"
proof -
  let ?cs = "cgo_contributions rt (Updates u)"
  have small: "\<forall>(t, d) \<in> set ?cs. \<bar>sint d\<bar> \<le> 2 ^ 7"
    using assms(1) unit_diff_scaled by (auto simp: cgo_contributions_def)
  have "length ?cs \<le> 100000"
    unfolding cgo_contributions_def length_map using assms(2) by (rule order_trans [OF length_filter_le])
  then have len: "int (length ?cs) * (int 5 * 2 ^ 7) \<le> 64000000" by simp
  then have "int (length ?cs) * (int 5 * 2 ^ 7) < 2 ^ 31" by simp
  from order_delta_bound [OF small assms(3) this] len
  have bound: "\<bar>sint (order_delta ?cs ix oid)\<bar> \<le> 64000000" for oid
    by (meson order_trans zero_le_numeral zero_le_power)
  have "- (2 ^ 31) + 32768 \<le> sint (order_delta ?cs ix oid) \<and> sint (order_delta ?cs ix oid) < 2 ^ 31 - 32767" for oid
    using bound [of oid] by (simp add: abs_le_iff)
  then have "safe_deltas w (order_delta ?cs ix)" unfolding safe_deltas_def by blast
  then show ?thesis by (simp add: update_safe_def cgo_update_deltas_def)
qed

section \<open>The cycles\<close>

definition cgo_ranked_at :: "workload \<Rightarrow> i64 \<Rightarrow> c_matrix compute_engine \<Rightarrow> bool" where
  "cgo_ranked_at w now e \<longleftrightarrow> ranked_buffer w (slen (Pairs e)) (cgo_pair_tables w now e) (Load (DB e))"

definition only_bintags :: "u32 list \<Rightarrow> inverted_indexes \<Rightarrow> bool" where
  "only_bintags bts ix \<longleftrightarrow> (\<forall>b. b \<notin> set bts \<longrightarrow> bintag_orders ix b = [])"

lemma only_bintags_removes:
  "index_inv ix \<Longrightarrow> only_bintags bts ix \<Longrightarrow> only_bintags bts (fold RemoveOrder oids ix)"
  using idx.removes_absent [of ix oids] by (simp add: only_bintags_def)

text \<open>The state between two cycles.\<close>

definition cgo_steady :: "workload \<Rightarrow> pair_slice \<Rightarrow> nat \<Rightarrow> u32 list \<Rightarrow> c_matrix compute_engine \<Rightarrow> bool" where
  "cgo_steady w ps rows bts e \<longleftrightarrow>
     cgo_inv w e \<and> cgo_rows_ok e \<and> all_active_pairs e \<and> pendingWarmup e = [] \<and> Pairs e = ps \<and>
     cNumPPS (Matrix e) = rows \<and> tpid_bound 5 (Indexes e) \<and> only_bintags bts (Indexes e)"

lemma cgo_steady_cycle:
  assumes st: "cgo_steady w ps rows bts e" and rt: "sort_contract rt"
    and safe: "\<And>ix. tpid_bound 5 ix \<Longrightarrow> update_safe w (cgo_update_deltas rt update ix)"
  shows "\<exists>stats e'. cgo_RunCycleWithDict rt w clk update e = Inr (stats, e') \<and> cgo_steady w ps rows bts e' \<and>
           cgo_ranked_at w (now_secs clk) e' \<and>
           Meta (Registry e') = map (purge_meta (now_secs clk)) (Meta (Registry e)) \<and>
           Indexes e' = fold RemoveOrder (expired_ids (now_secs clk) (Registry e)) (Indexes e)"
proof -
  let ?ix = "fold RemoveOrder (expired_ids (now_secs clk) (Registry e)) (Indexes e)"
  from st have e: "cgo_inv w e" "cgo_rows_ok e" "all_active_pairs e" "pendingWarmup e = []"
    "tpid_bound 5 (Indexes e)" "only_bintags bts (Indexes e)" by (simp_all add: cgo_steady_def)
  then have "index_inv (Indexes e)" by (simp add: engine_inv_def store_inv_def)
  note bounds = tpid_bound_removes [OF this] only_bintags_removes [OF this]
  from cgo_cycle_ok [OF e(1) rt e(2) safe [OF bounds(1) [OF e(5)]]] obtain stats e' where
    c: "cgo_RunCycleWithDict rt w clk update e = Inr (stats, e')" "cgo_inv w e'"
    "cNumPPS (Matrix e') = cNumPPS (Matrix e)"
    "store_after_cycle w (now_secs clk) (cgo_update_deltas rt update) (cNumPPS (Matrix e))
       (cell w (c_view (Matrix e))) (cell w (c_view (Matrix e'))) e e'"
    "ranked_buffer w (slen (Pairs e)) (cgo_pair_tables w (now_secs clk) e') (Load (DB e'))"
    "pendingWarmup e' = []"
    "\<forall>k. val (Topology e') k =
       (if k \<in> Key ` set (pendingWarmup e) then Some StatusActive else val (Topology e) k)" by blast
  from c(4) have s: "Pairs e' = Pairs e" "Meta (Registry e') = map (purge_meta (now_secs clk)) (Meta (Registry e))"
    "Indexes e' = ?ix" by (simp_all add: store_after_cycle_def)
  have "all_active_pairs e'" using e(3,4) c(7) by (simp add: all_active_pairs_def s(1))
  moreover have "cgo_rows_ok e'" using cgo_rows_purged [OF e(1,2) s(1) c(3) s(2,3)] .
  ultimately have "cgo_steady w ps rows bts e'"
    using st c(2,3,6) bounds e(5,6) by (simp add: cgo_steady_def s(1,3))
  moreover have "cgo_ranked_at w (now_secs clk) e'" using c(5) by (simp add: cgo_ranked_at_def s(1))
  ultimately show ?thesis using c(1) s(2,3) by blast
qed

definition cgo_fresh_cycles :: "main_clock \<Rightarrow> bool" where
  "cgo_fresh_cycles clk \<longleftrightarrow> (\<forall>i \<in> {1..<101}. fresh_at (seed_now clk) (now_secs (cycle_at clk i)))"

definition made_cgo_dict :: "'g cgo_item_dict_client \<Rightarrow> bool" where
  "made_cgo_dict dict \<longleftrightarrow>
     unit_scores (tpidScores dict) \<and> cNumTPIDs dict = 100000 \<and> UpdateFrac dict = F64 1 0"

lemma cgo_main_cycle_ok:
  assumes R: "rand_contract R" and rt: "sort_contract rt" and d: "made_cgo_dict dict"
    and st: "cgo_steady w ps rows bts e"
  shows "\<exists>dict' e' stats. cgo_main_cycle R rt w clk i (dict, e, report) =
             Inr (dict', e', report @ [(100000, stats)]) \<and>
           made_cgo_dict dict' \<and> cgo_steady w ps rows bts e' \<and> cgo_ranked_at w (now_secs (cycle_at clk i)) e' \<and>
           (fresh_at t (now_secs (cycle_at clk i)) \<longrightarrow> seeded t bts (NumOrders w) (Registry e) (Indexes e) \<longrightarrow>
              seeded t bts (NumOrders w) (Registry e') (Indexes e'))"
proof -
  from cgo_Fetch_ok [OF R, of dict rt] d num_update_all [of dict rt] obtain delay u dict' where
    f: "cgo_Fetch R rt dict = Inr (delay, u, dict')" "length (Updates u) = 100000" "made_cgo_dict dict'"
    "\<forall>x \<in> set (Updates u). unit_update (cNumTPIDs dict) x" by (auto simp: made_cgo_dict_def)
  let ?now = "now_secs (cycle_at clk i)"
  have "update_safe w (cgo_update_deltas rt (Some u) ix)" if "tpid_bound 5 ix" for ix
    using fetched_update_safe [OF f(4) _ that] f(2) by simp
  from cgo_steady_cycle [OF st rt this, of "cycle_at clk i"] obtain stats e' where
    c: "cgo_RunCycleWithDict rt w (cycle_at clk i) (Some u) e = Inr (stats, e')" "cgo_steady w ps rows bts e'"
    "cgo_ranked_at w ?now e'" "Meta (Registry e') = map (purge_meta ?now) (Meta (Registry e))"
    "Indexes e' = fold RemoveOrder (expired_ids ?now (Registry e)) (Indexes e)" by blast
  have "length (Meta (Registry e)) = NumOrders w"
    using st by (simp add: cgo_steady_def engine_inv_def store_inv_def registry_inv_def)
  then have "fresh_at t ?now \<longrightarrow> seeded t bts (NumOrders w) (Registry e) (Indexes e) \<longrightarrow>
      seeded t bts (NumOrders w) (Registry e') (Indexes e')"
    using still_seeded [OF _ _ _ c(4,5)] by blast
  moreover have "cgo_main_cycle R rt w clk i (dict, e, report) = Inr (dict', e', report @ [(100000, stats)])"
    using f(1,2) c(1) by (simp add: cgo_main_cycle_def)
  ultimately show ?thesis using f(3) c(2,3) by blast
qed

lemma cgo_main_cycles_ok:
  fixes R :: "'g go_rand"
  assumes R: "rand_contract R" and rt: "sort_contract rt" and st: "cgo_steady w ps rows bts e"
    and s: "seeded (seed_now clk) bts (NumOrders w) (Registry e) (Indexes e)"
  shows "\<exists>dict' e' report. gfold (cgo_main_cycle R rt w clk) [1..<101] (cgo_NewMockItemDictClient R sd 100000, e, []) =
             Inr (dict', e', report) \<and> cgo_steady w ps rows bts e' \<and>
           map fst report = replicate 100 100000 \<and> cgo_ranked_at w (now_secs (cycle_at clk 100)) e' \<and>
           (cgo_fresh_cycles clk \<longrightarrow> seeded (seed_now clk) bts (NumOrders w) (Registry e') (Indexes e'))"
proof -
  let ?S = "\<lambda>e'. seeded (seed_now clk) bts (NumOrders w) (Registry e') (Indexes e')"
  let ?fresh = "\<lambda>j. fresh_at (seed_now clk) (now_secs (cycle_at clk j))"
  let ?P = "\<lambda>i (dict :: 'g cgo_item_dict_client, e', report :: (nat \<times> cycle_stats) list). made_cgo_dict dict \<and>
      cgo_steady w ps rows bts e' \<and> map fst report = replicate (i - 1) 100000 \<and>
      (1 < i \<longrightarrow> cgo_ranked_at w (now_secs (cycle_at clk (i - 1))) e') \<and> ((\<forall>j \<in> {1..<i}. ?fresh j) \<longrightarrow> ?S e')"
  have "\<exists>s'. gfold (cgo_main_cycle R rt w clk) [1..<101] (cgo_NewMockItemDictClient R sd 100000, e, []) = Inr s' \<and> ?P 101 s'"
  proof (rule gfold_upt_inv)
    show "?P 1 (cgo_NewMockItemDictClient R sd 100000, e, [])"
      using st s cgo_dict_New [OF R] by (simp add: made_cgo_dict_def)
  next
    fix i s' assume i: "1 \<le> i" "i < (101 :: nat)" and P: "?P i s'"
    obtain dict e1 report where s': "s' = (dict, e1, report)" by (cases s') auto
    with P have 1: "made_cgo_dict dict" "cgo_steady w ps rows bts e1" by simp_all
    obtain dict' e2 stats where 2:
      "cgo_main_cycle R rt w clk i (dict, e1, report) = Inr (dict', e2, report @ [(100000, stats)])"
      "made_cgo_dict dict'" "cgo_steady w ps rows bts e2" "cgo_ranked_at w (now_secs (cycle_at clk i)) e2"
      "?fresh i \<longrightarrow> ?S e1 \<longrightarrow> ?S e2"
      using cgo_main_cycle_ok [OF R rt 1, where clk = clk and i = i and report = report and t = "seed_now clk"]
      by blast
    have "?P (Suc i) (dict', e2, report @ [(100000, stats)])"
      using P 2(2-5) i(1) replicate_snoc [OF i(1)] by (simp add: s')
    then show "\<exists>s''. cgo_main_cycle R rt w clk i s' = Inr s'' \<and> ?P (Suc i) s''" unfolding s' using 2(1) by blast
  qed simp
  then show ?thesis by (auto simp: cgo_fresh_cycles_def)
qed

section \<open>The set-up\<close>

lemma cgo_activations:
  "fold (\<lambda>b (t, ps). (cgo_Activate (of_nat p) (of_nat b) t, ps @ [pair_of (of_nat p) (of_nat b)])) bs (t, ps) =
     (fold (\<lambda>b. cgo_Activate (of_nat p) (of_nat b)) bs t, ps @ map (\<lambda>b. pair_of (of_nat p) (of_nat b)) bs)"
  by (induction bs arbitrary: t ps) simp_all

lemma cgo_activations_val:
  "val (fold (\<lambda>b. cgo_Activate (of_nat p) (of_nat b)) bs t) k =
     (if k \<in> Key ` set (map (\<lambda>b. pair_of (of_nat p) (of_nat b)) bs) then Some StatusActive else val t k)"
  by (induction bs arbitrary: t) (auto simp: cgo_Activate_def)

lemma cgo_main_pairs_eq:
  obtains t where "cgo_main_pairs w = (t, pair_grid [0..<numPPS w] [0..<numBinTags w])"
    "\<forall>k. val t k = (if k \<in> Key ` set (pair_grid [0..<numPPS w] [0..<numBinTags w]) then Some StatusActive else None)"
proof -
  let ?row = "\<lambda>pps s. fold (\<lambda>bt (topo, ps).
         (cgo_Activate (of_nat pps) (of_nat bt) topo, ps @ [pair_of (of_nat pps) (of_nat bt)])) [0..<numBinTags w] s"
  let ?ok = "\<lambda>s. \<forall>k. val (fst s) k = (if k \<in> Key ` set (snd s) then Some StatusActive else None)"
  have "snd (fold ?row ns s) = snd s @ pair_grid ns [0..<numBinTags w] \<and> (?ok s \<longrightarrow> ?ok (fold ?row ns s))" for ns s
  proof (induction ns arbitrary: s)
    case (Cons n ns)
    have 1: "snd (?row n s) = snd s @ map (\<lambda>b. pair_of (of_nat n) (of_nat b)) [0..<numBinTags w]"
      by (cases s) (simp only: cgo_activations snd_conv)
    moreover have "?ok (?row n s)" if "?ok s"
      using that by (cases s) (auto simp: cgo_activations cgo_activations_val)
    ultimately show ?case using Cons.IH [of "?row n s"] by (simp add: pair_grid_def)
  qed (simp add: pair_grid_def)
  from this [of "[0..<numPPS w]" "(NewTopologyState, [])"] that show ?thesis
    by (cases "cgo_main_pairs w") (auto simp: cgo_main_pairs_def NewTopologyState_def)
qed

lemma cgo_new_engine_ok:
  assumes ok: "workload_ok w" and rows: "\<forall>pair \<in> set ps. unat (PPSID pair) < numPPS w"
    and active: "\<forall>k. val t k = (if k \<in> Key ` set ps then Some StatusActive else None)"
  shows "\<exists>e. cgo_NewComputeEngine w True (slice_of ps) (NewDoubleBuffer w (length ps)) t nw = Inr e \<and>
           Registry e = NewOrderRegistry w \<and> Indexes e = NewInvertedIndexes \<and> Topology e = t \<and>
           cgo_steady w (slice_of ps) (numPPS w) bts e"
proof -
  let ?db = "NewDoubleBuffer w (length ps)"
  obtain e where e: "cgo_NewComputeEngine w True (slice_of ps) ?db t nw = Inr e" "cgo_inv w e"
    using engine_inv_cgo_New [OF ok, of "slice_of ps" ?db t nw] by (auto simp: NewDoubleBuffer_def Load_def)
  then have f: "Pairs e = slice_of ps" "Topology e = t" "pendingWarmup e = []" "cNumPPS (Matrix e) = numPPS w"
    "Registry e = NewOrderRegistry w" "Indexes e = NewInvertedIndexes"
    by (auto simp: cgo_NewComputeEngine_def Let_def cgo_NewPPSMatrix_def)
  have "only_bintags bts (Indexes e)" "tpid_bound 5 (Indexes e)"
    using seeded_New [of 0 "[]"] tpid_bound_New by (simp_all add: f(6) only_bintags_def seeded_def)
  then have "cgo_steady w (slice_of ps) (numPPS w) bts e"
    using e(2) rows active by (simp add: cgo_steady_def cgo_rows_ok_def all_active_pairs_def f)
  with e(1) f show ?thesis by blast
qed

lemma cgo_main_setup_ok:
  assumes ok: "workload_ok w"
  shows "\<exists>e. cgo_main_setup w True cores env = Inr e \<and> Indexes e = NewInvertedIndexes \<and>
           cgo_steady w (slice_of (pair_grid [0..<numPPS w] [0..<numBinTags w])) (numPPS w) bts e"
proof -
  let ?ps = "pair_grid [0..<numPPS w] [0..<numBinTags w]"
  obtain t where t: "cgo_main_pairs w = (t, ?ps)"
    "\<forall>k. val t k = (if k \<in> Key ` set ?ps then Some StatusActive else None)" using cgo_main_pairs_eq .
  have rows: "\<forall>pair \<in> set ?ps. unat (PPSID pair) < numPPS w"
    using ok by (auto simp: workload_ok_def pair_grid_def unat_of_nat take_bit_eq_mod)
  from cgo_new_engine_ok [OF ok rows, of t "NumWorkersVal (cgo_initFromEnv w cores env)" bts] t(2)
  show ?thesis by (auto simp: cgo_main_setup_def t(1) Let_def)
qed

section \<open>The demos\<close>

lemma cgo_refresh_new: "cgo_RefreshPairIndex ps s = cgo_NewPriorityServer ps"
  by (cases s) (simp add: cgo_RefreshPairIndex_def cgo_NewPriorityServer_def)

lemma cgo_best_of_Nil: "cgo_best_of w k [] ids \<Longrightarrow> ids = []"
  by (auto simp: cgo_best_of_def dest: top_k_length)

text \<open>
  The demo pair's PPS has no row of the matrix, but no order has its bin tag: it is ranked,
  and served with four empty lists.
\<close>

lemma empty_response:
  assumes "response_is (cgo_best_of w k) empty_scratch r"
  shows "r = \<lparr>Heuristic = [], Large = [], PBT = [], Critical = []\<rparr>"
proof -
  have "cgo_best_of w k [] (Heuristic r)" "cgo_best_of w k [] (Large r)" "cgo_best_of w k [] (PBT r)"
    "cgo_best_of w k [] (Critical r)" using assms by (simp_all add: response_is_def empty_scratch_def)
  then show ?thesis by (cases r) (auto dest!: cgo_best_of_Nil)
qed

lemma cgo_breaker_demo_ok:
  assumes st: "cgo_steady w (slice_of ps) rows bts e" and rt: "sort_contract rt"
    and ps: "distinct (map Key ps)" "pending_wf ps" "MakePairKey 99 88 \<notin> Key ` set ps" and bt: "88 \<notin> set bts"
  shows "\<exists>stats e'. cgo_breaker_demo rt w clk srv e =
           Inr (\<lparr>warming_status = StatusWarmingUp,
                 warming_reply = Inl (ApiError GRPCUnavailable ''pair warming up''),
                 promote_cycle = stats, promoted_status = StatusActive,
                 promoted_reply = Inr \<lparr>Heuristic = [], Large = [], PBT = [], Critical = []\<rparr>\<rparr>, e') \<and>
           cgo_inv w e'"
proof -
  let ?k = "MakePairKey 99 88" and ?e1 = "cgo_HandleAddPair 99 88 e"
  let ?req = "\<lparr>rPPSID = 99, rBinTagID = 88, K = 5 :: int\<rparr>"
  from st have e: "cgo_inv w e" "cgo_rows_ok e" "Pairs e = slice_of ps" "only_bintags bts (Indexes e)"
    by (simp_all add: cgo_steady_def)
  then have ix: "index_inv (Indexes e)" by (simp add: engine_inv_def store_inv_def)
  have none: "\<forall>p \<in> set ps. Key p \<noteq> ?k" using ps(3) by (metis imageI)
  have pairs: "elems (Pairs ?e1) = ps @ [pair_of 99 88]"
    using append_pair_ok [of "slice_of ps"] none by (auto simp: cgo_HandleAddPair_def Let_def e(3) list_ex_iff)
  have same: "Registry ?e1 = Registry e" "Indexes ?e1 = Indexes e" "Matrix ?e1 = Matrix e"
    by (simp_all add: cgo_HandleAddPair_def Let_def)
  have empty: "bintag_orders (Indexes e) 88 = []" using e(4) bt by (simp add: only_bintags_def)
  have rows: "cgo_rows_ok ?e1"
    using e(2) empty unfolding cgo_rows_ok_def pairs same e(3) by (auto simp: candidates_def)
  have warm: "val (Topology ?e1) ?k = Some StatusWarmingUp"
    by (simp add: cgo_HandleAddPair_def Let_def cgo_AddWarmingUp_def)
  have inv1: "cgo_inv w ?e1" by (rule engine_inv_topology [OF e(1)])
  have safe: "update_safe w (cgo_update_deltas rt None ix)" for ix
    by (simp add: update_safe_def cgo_update_deltas_def)
  from cgo_cycle_ok [OF inv1 rt rows safe] obtain stats e2 where
    c: "cgo_RunCycleWithDict rt w (cycle_at clk 101) None ?e1 = Inr (stats, e2)" "cgo_inv w e2"
    "Pairs e2 = Pairs ?e1"
    "Indexes e2 = fold RemoveOrder (expired_ids (now_secs (cycle_at clk 101)) (Registry ?e1)) (Indexes ?e1)"
    unfolding store_after_cycle_def by blast
  have keys: "distinct (map Key (elems (Pairs e)))" using ps(1) by (simp add: e(3))
  from cgo_added_pair_served [OF e(1) rt rows safe keys c(1), of ?req] obtain i tabs r where
    i: "i < slen (Pairs e2)" and s: "val (Topology e2) ?k = Some StatusActive" "cgo_pair_tables w (now_secs (cycle_at clk 101)) e2 i = Some tabs"
    "Key (elems (Pairs e2) ! i) = ?k"
    "cgo_GetTopK w (Topology e2) (DB e2) ?req (cgo_NewPriorityServer (elems (Pairs e2))) = Inr (Inr r)"
    "response_is (cgo_best_of w 5) tabs r" by auto
  have "elems (Pairs e2) ! i \<in> set (ps @ [pair_of 99 88])"
    using i length_elems [of "Pairs e2"] c(2) unfolding pairs [symmetric] c(3) [symmetric] engine_inv_def
    by (metis nth_mem)
  with s(3) none have "BinTagID (elems (Pairs e2) ! i) = 88" by auto
  moreover have "bintag_orders (Indexes e2) 88 = []"
    using idx.removes_absent [OF ix] empty by (simp add: c(4) same)
  ultimately have "tabs = empty_scratch" using s(2) by (simp add: cgo_pair_tables_def Let_def)
  with s(5) have r: "r = \<lparr>Heuristic = [], Large = [], PBT = [], Critical = []\<rparr>" by (simp add: empty_response)
  have reply: "cgo_GetTopK w (Topology ?e1) (DB ?e1) ?req srv' =
      Inr (Inl (ApiError GRPCUnavailable ''pair warming up''))" for srv'
    by (simp add: cgo_GetTopK_def cgo_Get_eq Get_def map_zero_def Let_def warm)
  have "fst (cgo_Get (Topology ?e1) ?k) = StatusWarmingUp" "fst (cgo_Get (Topology e2) ?k) = StatusActive"
    by (simp_all add: cgo_Get_def map_zero_def warm s(1))
  then show ?thesis
    using c(1,2) s(4) by (simp add: cgo_breaker_demo_def Let_def reply cgo_refresh_new r)
qed

lemma cgo_eviction_demo_ok:
  assumes inv: "cgo_inv w e" and oid: "unat oid < NumOrders w"
  shows "\<exists>e'. cgo_eviction_demo w oid e = Inr (False, e') \<and> cgo_inv w e'"
proof -
  from cgo_handle_removed_ok [OF inv, of oid] obtain e' where e': "cgo_HandleOrderRemoved w oid e = Inr e'"
    "cgo_inv w e'"
    "\<forall>j < NumOrders w. Meta (Registry e') ! j =
       (if j = unat oid \<and> Active (Meta (Registry e) ! j) then deactivated (Meta (Registry e) ! j)
        else Meta (Registry e) ! j)" by blast
  have "length (Meta (Registry e')) = NumOrders w"
    using e'(2) by (simp add: engine_inv_def store_inv_def registry_inv_def)
  then show ?thesis using e' oid by (auto simp: cgo_eviction_demo_def go_simps)
qed

lemma cgo_table_ids:
  assumes inv: "cgo_inv w e" and tabs: "cgo_pair_tables w now e p = Some tabs" and x: "x \<in> set (tbl tabs t)"
  shows "orderID x \<noteq> -1"
proof -
  from inv have i: "workload_ok w" "index_range w (Indexes e)" by (simp_all add: engine_inv_def store_inv_def)
  obtain sc where "tabs = table_entries now (Registry e) sc
      (bintag_orders (Indexes e) (BinTagID (elems (Pairs e) ! p)))"
    using tabs by (auto simp: cgo_pair_tables_def Let_def)
  then have "orderID x \<in> set (bintag_orders (Indexes e) (BinTagID (elems (Pairs e) ! p)))"
    using x table_orders by blast
  then have "unat (orderID x) < NumOrders w" using i(2) unfolding index_range_def by blast
  with i(1) show ?thesis by (rule order_not_minus_one)
qed

text \<open>With all orders listed and active, the first reply is as long as it can be.\<close>

lemma cgo_full_reply:
  assumes inv: "cgo_inv w e" and s: "seeded t bts (NumOrders w) (Registry e) (Indexes e)"
    and b: "BinTagID (elems (Pairs e) ! p) \<in> set bts" and tabs: "cgo_pair_tables w now e p = Some tabs"
    and r: "cgo_best_of w k (heuristic tabs) ids"
  shows "length ids = min (nat (clip_k w k)) (min (TopK w) (NumOrders w))"
proof -
  let ?reg = "Registry e"
  from inv have ok: "workload_ok w" by (simp add: engine_inv_def)
  have "bintag_orders (Indexes e) (BinTagID (elems (Pairs e) ! p)) = map of_nat [0..<NumOrders w]"
    using s b by (auto simp: seeded_def)
  moreover have "candidates ?reg (map of_nat [0..<NumOrders w]) = map of_nat [0..<NumOrders w]"
    using s order_at [OF ok] by (auto simp: candidates_def filter_id_conv seeded_def)
  ultimately have "length (heuristic tabs) = NumOrders w"
    using tabs by (auto simp: cgo_pair_tables_def Let_def table_entries_def)
  then show ?thesis using r by (auto simp: cgo_best_of_def min.commute dest: top_k_length)
qed

lemma cgo_first_reply:
  assumes st: "cgo_steady w (slice_of ps) rows bts e" and buf: "cgo_ranked_at w now e"
    and ps: "distinct (map Key ps)" "ps \<noteq> []" "ps ! 0 = pair_of 0 0" and b: "0 \<in> set bts"
  shows "\<exists>r. cgo_GetTopK w (Topology e) (DB e) \<lparr>rPPSID = 0, rBinTagID = 0, K = 5\<rparr>
           (cgo_NewPriorityServer (callers_pairs (length ps) e)) = Inr (Inr r) \<and>
           (seeded t bts (NumOrders w) (Registry e) (Indexes e) \<longrightarrow>
              length (Heuristic r) = min (nat (clip_k w 5)) (min (TopK w) (NumOrders w)))"
proof -
  let ?req = "\<lparr>rPPSID = 0, rBinTagID = 0, K = 5 :: int\<rparr>"
  from st have e: "cgo_inv w e" "Pairs e = slice_of ps" "all_active_pairs e" by (simp_all add: cgo_steady_def)
  have k: "Key (ps ! 0) = MakePairKey 0 0" "0 < length ps" using ps(2,3) by simp_all
  have "MakePairKey 0 0 \<in> Key ` set ps" unfolding k(1) [symmetric] using k(2) by (intro imageI nth_mem)
  then have act: "val (Topology e) (MakePairKey (rPPSID ?req) (rBinTagID ?req)) = Some StatusActive"
    using e(3) by (simp add: all_active_pairs_def e(2))
  have callers: "callers_pairs (length ps) e = ps" by (simp add: callers_pairs_def e(2))
  have idx: "PairIndex (cgo_NewPriorityServer (callers_pairs (length ps) e)) (MakePairKey (rPPSID ?req) (rBinTagID ?req)) = Some 0"
    using build_index_distinct [OF ps(1) k(2)] by (simp add: callers refresh_eq k(1))
  obtain tabs where tabs: "cgo_pair_tables w now e 0 = Some tabs" by (simp add: cgo_pair_tables_def Let_def)
  have buf': "ranked_buffer w (length ps) (cgo_pair_tables w now e) (Load (DB e))"
    using buf by (simp add: cgo_ranked_at_def e(2))
  have ids: "\<forall>t. \<forall>x \<in> set (tbl tabs t). orderID x \<noteq> -1" using cgo_table_ids [OF e(1) tabs] by blast
  from cgo_GetTopK_ranked [OF act idx buf' k(2) tabs ids] obtain r where
    r: "cgo_GetTopK w (Topology e) (DB e) ?req (cgo_NewPriorityServer (callers_pairs (length ps) e)) = Inr (Inr r)"
    "response_is (cgo_best_of w (K ?req)) tabs r" by blast
  have "BinTagID (elems (Pairs e) ! 0) \<in> set bts" using b ps(3) by (simp add: e(2))
  from cgo_full_reply [OF e(1) _ this tabs] r(2) have
    "length (Heuristic r) = min (nat (clip_k w 5)) (min (TopK w) (NumOrders w))"
    if "seeded t bts (NumOrders w) (Registry e) (Indexes e)"
    using that by (auto simp: response_is_def)
  with r(1) show ?thesis by blast
qed

section \<open>The whole program\<close>

text \<open>From the set-up to the first cycle.\<close>

lemma cgo_pod_seeded:
  assumes R: "rand_contract R" and ok: "workload_ok w"
    and size: "0 < numBinTags w" "numBinTags w < 2 ^ 32"
    and ps: "ps = pair_grid [0..<numPPS w] [0..<numBinTags w]"
    and stream: "stream = cgo_NewMockKafkaOrderStream R 42 (of_nat (NumOrders w)) 100000 (of_nat (numBinTags w))"
  shows "\<exists>e0 stream' e1 tpids. cgo_main_setup w True cores env = Inr e0 \<and> Pairs e0 = slice_of ps \<and>
           cgo_seed_orders R rt w now_at now (stream, e0) = Inr (stream', e1) \<and>
           cgo_steady w (slice_of ps) (numPPS w) (cgo_bintags w) e1 \<and>
           seeded now (cgo_bintags w) (NumOrders w) (Registry e1) (Indexes e1) \<and>
           cgo_worst_case_check w e1 =
             Inr \<lparr>activeCount = NumOrders w, binTagIDs = numBinTags w, btMin = NumOrders w,
                  btMax = NumOrders w, tpidIDs = tpids\<rparr>"
proof -
  from cgo_main_setup_ok [OF ok] obtain e0 where e0: "cgo_main_setup w True cores env = Inr e0"
    "Indexes e0 = NewInvertedIndexes" "cgo_steady w (slice_of ps) (numPPS w) (cgo_bintags w) e0"
    unfolding ps by blast
  then have inv: "cgo_inv w e0" "Pairs e0 = slice_of ps" by (simp_all add: cgo_steady_def)
  have "0 < sint (sNumTPIDs stream)" "unat (sNumBinTags stream) = numBinTags w"
    using size(2) by (simp_all add: stream cgo_NewMockKafkaOrderStream_def unat_of_nat take_bit_eq_mod)
  from cgo_seed_orders_ok [OF R inv(1) e0(2) this] obtain stream' e1 where
    s: "cgo_seed_orders R rt w now_at now (stream, e0) = Inr (stream', e1)" "cgo_inv w e1"
    "cNumPPS (Matrix e1) = cNumPPS (Matrix e0)" "same_pod e0 e1"
    "seeded now (cgo_bintags w) (NumOrders w) (Registry e1) (Indexes e1)" "tpid_bound 5 (Indexes e1)" by blast
  have "unat (PPSID pair) < numPPS w" if "pair \<in> set ps" for pair
    using that ok by (auto simp: workload_ok_def ps pair_grid_def unat_of_nat take_bit_eq_mod)
  then have "cgo_rows_ok e1"
    using s(3,4) e0(3) by (simp add: cgo_rows_ok_def same_pod_def cgo_steady_def)
  then have steady: "cgo_steady w (slice_of ps) (numPPS w) (cgo_bintags w) e1"
    using s e0(3) by (simp add: cgo_steady_def same_pod_def all_active_pairs_def seeded_def only_bintags_def)
  have "store_inv w (c_wf w) (Registry e1, Indexes e1, Matrix e1)" using s(2) by (simp add: engine_inv_def)
  note wc = worst_case_seeded [OF this s(5) pod_bintags(2) [OF size(2)]]
  have "cgo_worst_case_check w e1 = Inr \<lparr>activeCount = NumOrders w, binTagIDs = numBinTags w, btMin = NumOrders w,
      btMax = NumOrders w, tpidIDs = card (dom (TPIDToOrders (Indexes e1)))\<rparr>"
    using wc size(1) ok unfolding cgo_worst_case_check_def by (simp add: workload_ok_def)
  with e0(1) inv(2) s(1,5) steady show ?thesis by blast
qed

lemma unseen_pair:
  assumes "numBinTags w \<le> 88" "ps = pair_grid [0..<numPPS w] [0..<numBinTags w]"
  shows "(88 :: u32) \<notin> set (cgo_bintags w)" "MakePairKey 99 88 \<notin> Key ` set ps"
proof -
  show bt: "(88 :: u32) \<notin> set (cgo_bintags w)"
  proof
    assume "(88 :: u32) \<in> set (cgo_bintags w)"
    then obtain b where "(88 :: u32) = of_nat b" "b < numBinTags w" by auto
    with assms(1) of_nat_u32_inj [of 88 b] show False by simp
  qed
  show "MakePairKey 99 88 \<notin> Key ` set ps"
  proof
    assume "MakePairKey 99 88 \<in> Key ` set ps"
    then have "(88 :: u32) \<in> set (cgo_bintags w)" by (auto simp: assms(2) pair_grid_def)
    with bt show False ..
  qed
qed

lemma cgo_main_ok:
  assumes R: "rand_contract R" and rt: "sort_contract rt" and ok: "workload_ok w"
    and size: "42 < NumOrders w" "0 < numBinTags w" "numBinTags w \<le> 88"
  shows "\<exists>rep e r tpids stats. cgo_main R rt w True cores env clk = Inr (rep, e) \<and> ptr (Matrix e) = None \<and>
           cgo_worst rep = \<lparr>activeCount = NumOrders w, binTagIDs = numBinTags w, btMin = NumOrders w,
                            btMax = NumOrders w, tpidIDs = tpids\<rparr> \<and>
           map fst (cgo_cycles rep) = replicate 100 100000 \<and>
           first_reply rep = Inr r \<and>
           (cgo_fresh_cycles clk \<longrightarrow>
              length (Heuristic r) = min (nat (clip_k w 5)) (min (TopK w) (NumOrders w))) \<and>
           cgo_breaker rep =
             \<lparr>warming_status = StatusWarmingUp,
              warming_reply = Inl (ApiError GRPCUnavailable ''pair warming up''),
              promote_cycle = stats, promoted_status = StatusActive,
              promoted_reply = Inr \<lparr>Heuristic = [], Large = [], PBT = [], Critical = []\<rparr>\<rparr> \<and>
           \<not> cgo_still_active rep"
proof -
  define ps where "ps = pair_grid [0..<numPPS w] [0..<numBinTags w]"
  let ?stream = "cgo_NewMockKafkaOrderStream R 42 (of_nat (NumOrders w)) 100000 (of_nat (numBinTags w))"
  have nb: "numBinTags w < 2 ^ 32" "0 < numPPS w" "numPPS w < 2 ^ 32" using size(3) ok by (simp_all add: workload_ok_def)
  have keys: "distinct (map Key ps)" unfolding ps_def using nb(1,3) by (intro distinct_keys_grid) auto
  have first: "ps \<noteq> []" "ps ! 0 = pair_of 0 0" "(0 :: u32) \<in> set (cgo_bintags w)"
    using nb(2) size(2) by (auto simp: ps_def pair_grid_def upt_conv_Cons image_iff intro!: bexI [of _ 0])
  note new = unseen_pair [OF size(3) ps_def]
  from cgo_pod_seeded [OF R ok size(2) nb(1) ps_def refl, where cores = cores and env = env and rt = rt
      and now_at = "event_now clk" and now = "seed_now clk"] obtain e0 stream' e1 tpids where
    1: "cgo_main_setup w True cores env = Inr e0" "Pairs e0 = slice_of ps"
    "cgo_seed_orders R rt w (event_now clk) (seed_now clk) (?stream, e0) = Inr (stream', e1)"
    "cgo_steady w (slice_of ps) (numPPS w) (cgo_bintags w) e1"
    "seeded (seed_now clk) (cgo_bintags w) (NumOrders w) (Registry e1) (Indexes e1)"
    "cgo_worst_case_check w e1 = Inr \<lparr>activeCount = NumOrders w, binTagIDs = numBinTags w,
       btMin = NumOrders w, btMax = NumOrders w, tpidIDs = tpids\<rparr>" by (elim exE conjE) (erule (5) that)
  from cgo_main_cycles_ok [OF R rt 1(4,5), of 7] obtain dict e2 report where
    2: "gfold (cgo_main_cycle R rt w clk) [1..<101] (cgo_NewMockItemDictClient R 7 100000, e1, []) =
          Inr (dict, e2, report)" "cgo_steady w (slice_of ps) (numPPS w) (cgo_bintags w) e2"
    "map fst report = replicate 100 100000" "cgo_ranked_at w (now_secs (cycle_at clk 100)) e2"
    "cgo_fresh_cycles clk \<longrightarrow> seeded (seed_now clk) (cgo_bintags w) (NumOrders w) (Registry e2) (Indexes e2)"
    by (elim exE conjE) (erule (4) that)
  from cgo_first_reply [OF 2(2,4) keys first, of "seed_now clk"] obtain r where
    3: "cgo_GetTopK w (Topology e2) (DB e2) \<lparr>rPPSID = 0, rBinTagID = 0, K = 5\<rparr>
          (cgo_NewPriorityServer (callers_pairs (length ps) e2)) = Inr (Inr r)"
    "cgo_fresh_cycles clk \<longrightarrow> length (Heuristic r) = min (nat (clip_k w 5)) (min (TopK w) (NumOrders w))"
    using 2(5) by blast
  have "pending_wf ps" unfolding ps_def by (rule pair_grid_wf)
  from cgo_breaker_demo_ok [OF 2(2) rt keys this new(2,1), of clk "cgo_NewPriorityServer (callers_pairs (length ps) e2)"]
  obtain stats e3 where
    4: "cgo_breaker_demo rt w clk (cgo_NewPriorityServer (callers_pairs (length ps) e2)) e2 =
          Inr (\<lparr>warming_status = StatusWarmingUp,
                warming_reply = Inl (ApiError GRPCUnavailable ''pair warming up''),
                promote_cycle = stats, promoted_status = StatusActive,
                promoted_reply = Inr \<lparr>Heuristic = [], Large = [], PBT = [], Critical = []\<rparr>\<rparr>, e3)"
    "cgo_inv w e3" by blast
  obtain e4 where 5: "cgo_eviction_demo w 42 e3 = Inr (False, e4)"
    using cgo_eviction_demo_ok [OF 4(2), of 42] size(1) by auto
  show ?thesis
    using 2(3) 3(2) by (simp add: cgo_main_def 1 2(1) [unfolded One_nat_def] 3(1) 4(1) 5 cgo_Free_def Let_def)
qed

end
