(* ===== verification/Cgo_Service_Spec.thy ===== *)
theory Cgo_Service_Spec
  imports Service_Spec Cgo_Main
begin

text \<open>
  The cgo pod against the same order book.  Its specification differs from that of the pure pod
  in four places, which is where the programs differ: a new pair is ranked at once, every pair
  added since the last cycle becomes active (even one removed meanwhile), a bin tag without
  orders has empty standings, and the replies have no empty slots and other messages.
\<close>

section \<open>The specification\<close>

record cgo_pod = pod +
  waiting :: "u64 list"

definition cgo_pod_start :: "pair_info list \<Rightarrow> cgo_pod" where
  "cgo_pod_start pairs =
     \<lparr>book = Map.empty, ranked_pairs = pairs,
      states = (\<lambda>k. if k \<in> Key ` set pairs then Some StatusActive else None),
      board = \<lparr>posted_at = 0, posted_book = Map.empty, posted_pairs = pairs\<rparr>, waiting = []\<rparr>"

definition cgo_changes_of :: "go_runtime \<Rightarrow> cgo_item_dict_update option \<Rightarrow> (u64 \<times> i32) list option" where
  "cgo_changes_of rt update =
     (case update of None \<Rightarrow> None
      | Some u \<Rightarrow> if Updates u = [] then None else Some (cgo_contributions rt (Updates u)))"

fun cgo_pod_step :: "go_runtime \<Rightarrow> cgo_engine_event \<Rightarrow> cgo_pod \<Rightarrow> cgo_pod" where
  "cgo_pod_step rt (CgoIngest evt now) s =
     s\<lparr>book := book_ingest (cgo_event_meta evt now) (cevTPIDs evt) (cevEligibleBinTags evt)
                 (clampInt16 (scale_score rt (cevBaseScore evt))) (book s)\<rparr>"
| "cgo_pod_step rt (CgoAddPair p b) s =
     (let k = MakePairKey p b
      in s\<lparr>states := (states s)(k \<mapsto> StatusWarmingUp), waiting := waiting s @ [k],
           ranked_pairs := (if k \<in> Key ` set (ranked_pairs s) then ranked_pairs s
                            else ranked_pairs s @ [pair_of p b])\<rparr>)"
| "cgo_pod_step rt (CgoRemovePair p b) s =
     s\<lparr>states := (states s)(MakePairKey p b \<mapsto> StatusRemoved),
       ranked_pairs := filter (\<lambda>pair. Key pair \<noteq> MakePairKey p b) (ranked_pairs s)\<rparr>"
| "cgo_pod_step rt (CgoOrderRemoved oid) s = s\<lparr>book := book_remove oid (book s)\<rparr>"
| "cgo_pod_step rt (CgoCycle clk update) s =
     (let B = book_shift (cgo_changes_of rt update) (book_expire (now_secs clk) (book s))
      in s\<lparr>book := B, states := (\<lambda>k. if k \<in> set (waiting s) then Some StatusActive else states s k),
           waiting := [],
           board := \<lparr>posted_at = now_secs clk, posted_book = B, posted_pairs = ranked_pairs s\<rparr>\<rparr>)"

definition cgo_reply_ok ::
  "workload \<Rightarrow> cgo_pod \<Rightarrow> get_topk_request \<Rightarrow> api_error + get_topk_response \<Rightarrow> bool" where
  "cgo_reply_ok w s req reply \<longleftrightarrow>
     (let k = MakePairKey (rPPSID req) (rBinTagID req); bd = board s
      in case states s k of
           Some StatusWarmingUp \<Rightarrow> reply = Inl (ApiError GRPCUnavailable ''pair warming up'')
         | Some StatusActive \<Rightarrow>
             if k \<in> Key ` set (ranked_pairs s)
             then \<exists>r. reply = Inr r \<and>
                    response_is (cgo_best_of w (K req))
                      (standings (posted_at bd) (posted_book bd) (tagged w (posted_book bd) (rBinTagID req))) r
             else reply = Inl (ApiError GRPCUnavailable ''pair index not refreshed yet'')
         | _ \<Rightarrow> reply = Inl (ApiError GRPCNotFound ''pair not found''))"

text \<open>The conditions on an event: \<open>safe_event\<close>, and a new pair's PPS has a row.\<close>

fun cgo_event_ok :: "go_runtime \<Rightarrow> workload \<Rightarrow> nat \<Rightarrow> cgo_engine_event \<Rightarrow> bool" where
  "cgo_event_ok rt w n (CgoAddPair p b) = (unat p < numPPS w)"
| "cgo_event_ok rt w n ev = safe_event rt w n ev"

section \<open>The cgo pod keeps it\<close>

definition cgo_pod_rel :: "workload \<Rightarrow> nat \<Rightarrow> cgo_pod \<Rightarrow> c_matrix compute_engine \<Rightarrow> bool" where
  "cgo_pod_rel w n s e \<longleftrightarrow>
     cgo_inv w e \<and> cNumPPS (Matrix e) = numPPS w \<and> tpid_bound n (Indexes e) \<and>
     keeps_book w cNumPPS (\<lambda>cm. cell w (c_view cm)) (Registry e, Indexes e, Matrix e) (book s) \<and>
     elems (Pairs e) = ranked_pairs s \<and> pairs_ok (ranked_pairs s) \<and>
     (\<forall>pair \<in> set (ranked_pairs s). unat (PPSID pair) < numPPS w) \<and>
     val (Topology e) = states s \<and> map Key (pendingWarmup e) = waiting s \<and>
     board_shows w (tagged w) (board s) (Load (DB e))"

lemma cgo_pod_rel_start:
  assumes "workload_ok w" and "numBinTags w < 2 ^ 32" and "snd (cgo_main_pairs w) = ps"
  shows "\<exists>e. cgo_main_setup w True cores env = Inr e \<and> cgo_pod_rel w n (cgo_pod_start ps) e"
proof -
  obtain t where t: "cgo_main_pairs w = (t, pair_grid [0..<numPPS w] [0..<numBinTags w])"
    and states: "\<forall>k. val t k = (if k \<in> Key ` set (pair_grid [0..<numPPS w] [0..<numBinTags w]) then Some StatusActive else None)"
    using cgo_main_pairs_eq .
  have grid: "ps = pair_grid [0..<numPPS w] [0..<numBinTags w]" using assms(3) by (simp add: t)
  let ?nw = "NumWorkersVal (cgo_initFromEnv w cores env)"
  obtain e where e: "cgo_NewComputeEngine w True (slice_of ps) (NewDoubleBuffer w (length ps)) t ?nw = Inr e" "cgo_inv w e"
    using engine_inv_cgo_New [OF assms(1), of "slice_of ps" "NewDoubleBuffer w (length ps)" t ?nw]
    by (auto simp: NewDoubleBuffer_def Load_def)
  then have f: "Pairs e = slice_of ps" "Topology e = t" "pendingWarmup e = []" "cNumPPS (Matrix e) = numPPS w"
    "Registry e = NewOrderRegistry w" "Indexes e = NewInvertedIndexes" "DB e = NewDoubleBuffer w (length ps)"
    by (auto simp: cgo_NewComputeEngine_def Let_def cgo_NewPPSMatrix_def)
  have keys: "distinct (map Key ps)"
    unfolding grid using assms(1,2) by (intro distinct_keys_grid) (auto simp: workload_ok_def)
  have wf: "pending_wf ps" unfolding grid by (rule pair_grid_wf)
  have rows: "\<forall>pair \<in> set ps. unat (PPSID pair) < numPPS w"
    using assms(1) by (auto simp: grid workload_ok_def pair_grid_def unat_of_nat take_bit_eq_mod)
  have vals: "val t = (\<lambda>k. if k \<in> Key ` set ps then Some StatusActive else None)"
    using states by (simp add: fun_eq_iff grid)
  have keeps: "keeps_book w cNumPPS (\<lambda>cm. cell w (c_view cm)) (Registry e, Indexes e, Matrix e) Map.empty"
    unfolding f by (rule keeps_book_New)
  have "cgo_main_setup w True cores env = Inr e"
    using e(1) by (simp add: cgo_main_setup_def t Let_def grid)
  moreover have "cgo_pod_rel w n (cgo_pod_start ps) e"
    using e(2) keys wf rows vals keeps tpid_bound_New
    by (simp add: cgo_pod_rel_def cgo_pod_start_def pairs_ok_def f board_shows_New)
  ultimately show ?thesis by blast
qed

lemma cgo_pod_rel_parts:
  assumes "cgo_pod_rel w n s e"
  shows "cgo_inv w e" "registry_inv w (Registry e)" "index_inv (Indexes e)" "c_wf w (Matrix e)"
    "workload_ok w" "slice_wf (Pairs e)" "length (Meta (Registry e)) = NumOrders w"
    "keeps_book w cNumPPS (\<lambda>cm. cell w (c_view cm)) (Registry e, Indexes e, Matrix e) (book s)"
    "tpid_bound n (Indexes e)"
  using assms by (simp_all add: cgo_pod_rel_def engine_inv_def store_inv_def registry_inv_def)

lemma cgo_pod_rel_store:
  assumes "cgo_pod_rel w n s e" and "cgo_inv w (set_store e (r, ix, m))" and "cNumPPS m = cNumPPS (Matrix e)"
    and "tpid_bound n ix" and "keeps_book w cNumPPS (\<lambda>cm. cell w (c_view cm)) (r, ix, m) B"
  shows "cgo_pod_rel w n (s\<lparr>book := B\<rparr>) (set_store e (r, ix, m))"
  using assms by (simp add: cgo_pod_rel_def)

lemma cgo_pod_ingest:
  assumes rel: "cgo_pod_rel w n s e" and evt: "unat (cevOrderID evt) < NumOrders w" "length (cevTPIDs evt) \<le> n"
  shows "\<exists>e'. cgo_engine_apply rt w (CgoIngest evt now) e = Inr e' \<and>
           cgo_pod_rel w n (cgo_pod_step rt (CgoIngest evt now) s) e'"
proof -
  note i = cgo_pod_rel_parts [OF rel]
  have "store_inv w (c_wf w) (Registry e, Indexes e, Matrix e)" using i(1) by (simp add: engine_inv_def)
  from cgo_IngestOrder_steps [OF this evt(1), of rt now] obtain r ix m where
    g: "cgo_IngestOrder rt w evt now (Registry e, Indexes e, Some (Matrix e)) = Inr (r, ix, Some m)"
    "store_inv w (c_wf w) (r, ix, m)"
    "ingested w (cgo_event_meta evt now) (cevTPIDs evt) (cevEligibleBinTags evt)
       (clampInt16 (scale_score rt (cevBaseScore evt))) cNumPPS (\<lambda>cm. cell w (c_view cm))
       (Registry e, Indexes e, Matrix e) (r, ix, m)" by blast
  have "unat (OrderID (cgo_event_meta evt now)) < NumOrders w" using evt(1) by (simp add: cgo_event_meta_def)
  note keeps = keeps_book_ingest [OF i(8) g(3) this i(7)]
  note bound = tpid_bound_step [OF i(9) g(3) evt(2)]
  have "cgo_inv w (set_store e (r, ix, m))" "cNumPPS m = cNumPPS (Matrix e)"
    using i(1) g(2,3) by (simp_all add: engine_inv_def ingested_def Let_def)
  from cgo_pod_rel_store [OF rel this bound keeps] show ?thesis using g(1) by simp
qed

lemma cgo_pod_removed:
  assumes rel: "cgo_pod_rel w n s e"
  shows "\<exists>e'. cgo_engine_apply rt w (CgoOrderRemoved oid) e = Inr e' \<and>
           cgo_pod_rel w n (cgo_pod_step rt (CgoOrderRemoved oid) s) e'"
proof -
  note i = cgo_pod_rel_parts [OF rel]
  obtain r ix m where ev: "cgo_EvictOrder w oid (Registry e, Indexes e, Matrix e) = Inr (r, ix, m)"
    and m: "cNumPPS m = cNumPPS (Matrix e)"
    and cases: "if unat oid < NumOrders w \<and> Active (Meta (Registry e) ! unat oid)
      then r = (Registry e)\<lparr>Meta := (Meta (Registry e))[unat oid := deactivated (Meta (Registry e) ! unat oid)]\<rparr> \<and>
        ix = RemoveOrder oid (Indexes e) \<and>
        (\<forall>p < cNumPPS (Matrix e). \<forall>j < NumOrders w. cell w (c_view m) p j =
           (if j = unat oid then 0 else cell w (c_view (Matrix e)) p j))
      else (r, ix, m) = (Registry e, Indexes e, Matrix e)"
    using cstore.evict_total [OF i(2,4), of oid "Indexes e"] unfolding cgo_EvictOrder_def cgo_RemoveOrder_eq by blast
  note keeps = keeps_book_evict [OF i(8,3,7) m cases]
  have "tpid_bound n (RemoveOrder oid (Indexes e))"
    using tpid_bound_removes [OF i(3,9), of "[oid]"] by simp
  then have bound: "tpid_bound n ix" using cases i(9) by (auto split: if_splits)
  have "cgo_inv w (set_store e (r, ix, m))"
    using cgo_handle_removed_ok [OF i(1), of oid] ev by (simp add: cgo_HandleOrderRemoved_def)
  from cgo_pod_rel_store [OF rel this m bound keeps] ev show ?thesis by (simp add: cgo_HandleOrderRemoved_def)
qed

lemma pairs_ok_snoc: "pairs_ok ps \<Longrightarrow> MakePairKey p b \<notin> Key ` set ps \<Longrightarrow> pairs_ok (ps @ [pair_of p b])"
  by (auto simp: pairs_ok_def)

lemma cgo_pod_add_pair:
  assumes rel: "cgo_pod_rel w n s e" and p: "unat p < numPPS w"
  shows "cgo_pod_rel w n (cgo_pod_step rt (CgoAddPair p b) s) (cgo_HandleAddPair p b e)"
proof -
  note i = cgo_pod_rel_parts [OF rel]
  have "cgo_inv w (cgo_HandleAddPair p b e)" by (rule engine_inv_topology(4) [OF i(1)])
  moreover have "elems (Pairs (cgo_HandleAddPair p b e)) =
      (if MakePairKey p b \<in> Key ` set (ranked_pairs s) then ranked_pairs s else ranked_pairs s @ [pair_of p b])"
    using rel append_pair_ok [OF i(6)]
    by (auto simp: cgo_pod_rel_def cgo_HandleAddPair_def Let_def list_ex_iff intro: rev_image_eqI)
  ultimately show ?thesis using rel p
    by (auto simp: cgo_pod_rel_def cgo_HandleAddPair_def Let_def cgo_AddWarmingUp_def pairs_ok_snoc)
qed

lemma cgo_pod_remove_pair:
  assumes rel: "cgo_pod_rel w n s e"
  shows "cgo_pod_rel w n (cgo_pod_step rt (CgoRemovePair p b) s) (cgo_HandleRemovePair p b e)"
proof -
  note i = cgo_pod_rel_parts [OF rel]
  have "cgo_inv w (cgo_HandleRemovePair p b e)" by (rule engine_inv_topology(5) [OF i(1)])
  moreover have "elems (filter_in_place P (Pairs e)) = filter P (ranked_pairs s)" for P
    using filter_in_place_ok(1) [OF i(6)] rel by (simp add: cgo_pod_rel_def)
  ultimately show ?thesis using rel
    by (auto simp: cgo_pod_rel_def cgo_HandleRemovePair_def Let_def cgo_Remove_def pairs_ok_filter)
qed

lemma cgo_pod_cycle:
  assumes rel: "cgo_pod_rel w n s e" and rt: "sort_contract rt" and ev: "safe_event rt w n (CgoCycle clk update)"
  shows "\<exists>e'. cgo_engine_apply rt w (CgoCycle clk update) e = Inr e' \<and>
           cgo_pod_rel w n (cgo_pod_step rt (CgoCycle clk update) s) e'"
proof -
  note i = cgo_pod_rel_parts [OF rel]
  let ?now = "now_secs clk" and ?B = "book_shift (cgo_changes_of rt update) (book_expire (now_secs clk) (book s))"
  have bound: "tpid_bound n (fold RemoveOrder oids (Indexes e))" for oids
    by (rule tpid_bound_removes [OF i(3,9)])
  have safe: "update_safe w (cgo_update_deltas rt update (fold RemoveOrder (expired_ids ?now (Registry e)) (Indexes e)))"
    using ev bound by simp
  have rows_ok: "cgo_rows_ok e" using rel by (simp add: cgo_rows_ok_def cgo_pod_rel_def)
  from cgo_cycle_ok [OF i(1) rt rows_ok safe] obtain stats e' where
    c: "cgo_RunCycleWithDict rt w clk update e = Inr (stats, e')" "cgo_inv w e'" "cNumPPS (Matrix e') = cNumPPS (Matrix e)"
    "store_after_cycle w ?now (cgo_update_deltas rt update) (cNumPPS (Matrix e))
       (cell w (c_view (Matrix e))) (cell w (c_view (Matrix e'))) e e'"
    "ranked_buffer w (slen (Pairs e)) (cgo_pair_tables w ?now e') (Load (DB e'))"
    "pendingWarmup e' = []"
    "\<forall>k. val (Topology e') k = (if k \<in> Key ` set (pendingWarmup e) then Some StatusActive else val (Topology e) k)"
    by blast
  have pairs: "elems (Pairs e') = ranked_pairs s" "slen (Pairs e) = length (ranked_pairs s)"
    using c(4) rel length_elems [OF i(6)] by (simp_all add: store_after_cycle_def cgo_pod_rel_def)
  have deltas: "cgo_update_deltas rt update = (\<lambda>ix. map_option (\<lambda>cs. order_delta cs ix) (cgo_changes_of rt update))"
    by (simp add: fun_eq_iff cgo_update_deltas_def cgo_changes_of_def split: option.split)
  have keeps: "keeps_book w cNumPPS (\<lambda>cm. cell w (c_view cm)) (Registry e', Indexes e', Matrix e') ?B"
    using keeps_book_cycle [OF i(8,2,3) c(4) [unfolded deltas] c(3)] .
  have "board_shows w (tagged w) \<lparr>posted_at = ?now, posted_book = ?B, posted_pairs = ranked_pairs s\<rparr> (Load (DB e'))"
  proof (rule board_shows_published [OF c(5) [unfolded pairs(2)]])
    fix p assume p: "p < length (ranked_pairs s)"
    let ?pair = "ranked_pairs s ! p" and ?oids = "bintag_orders (Indexes e') (BinTagID (ranked_pairs s ! p))"
    have row: "unat (PPSID ?pair) < cNumPPS (Matrix e')" using rel p c(3) by (simp add: cgo_pod_rel_def)
    have perm: "mset ?oids = mset (tagged w ?B (BinTagID ?pair))" by (rule mset_tagged [OF keeps i(5)])
    have "\<forall>oid \<in> set ?oids. unat oid < NumOrders w" using mset_eq_setD [OF perm] tagged_range [OF i(5)] by blast
    then have "cgo_pair_tables w ?now e' p = Some (standings ?now ?B ?oids)"
      using table_entries_standings [OF keeps _ row, of ?oids ?now] by (simp add: cgo_pair_tables_def Let_def pairs(1))
    with perm show "\<exists>os. cgo_pair_tables w ?now e' p = Some (standings ?now ?B os) \<and>
        mset os = mset (tagged w ?B (BinTagID ?pair))" by blast
  qed
  moreover have "set (waiting s) = Key ` set (pendingWarmup e)"
    using rel unfolding cgo_pod_rel_def by (metis set_map)
  moreover have "tpid_bound n (Indexes e')" using c(4) bound by (simp add: store_after_cycle_def)
  ultimately have "cgo_pod_rel w n (cgo_pod_step rt (CgoCycle clk update) s) e'"
    using c(2,3,6,7) rel keeps pairs by (auto simp: cgo_pod_rel_def Let_def fun_eq_iff)
  then show ?thesis using c(1) by simp
qed

lemma cgo_pod_follows:
  assumes "cgo_pod_rel w n s e" and "sort_contract rt" and "cgo_event_ok rt w n ev"
  shows "\<exists>e'. cgo_engine_apply rt w ev e = Inr e' \<and> cgo_pod_rel w n (cgo_pod_step rt ev s) e'"
proof (cases ev)
  case (CgoIngest evt now)
  then show ?thesis using cgo_pod_ingest [OF assms(1)] assms(3) by simp
next
  case (CgoAddPair p b)
  then show ?thesis using cgo_pod_add_pair [OF assms(1)] assms(3) by simp
next
  case (CgoRemovePair p b)
  then show ?thesis using cgo_pod_remove_pair [OF assms(1)] by simp
next
  case (CgoOrderRemoved oid)
  then show ?thesis using cgo_pod_removed [OF assms(1)] by simp
next
  case (CgoCycle clk update)
  then show ?thesis using cgo_pod_cycle [OF assms(1,2)] assms(3) by simp
qed

interpretation cgo_sim: simulation "cgo_engine_apply rt w" "cgo_pod_step rt" "cgo_pod_rel w n"
  "\<lambda>ev. sort_contract rt \<and> cgo_event_ok rt w n ev" for rt w n
  by unfold_locales (rule cgo_pod_follows; blast)

section \<open>Every request is answered from the board\<close>

lemma standings_ids:
  "x \<in> set (tbl (standings now B oids) t) \<Longrightarrow> orderID x \<in> set oids"
proof -
  have "fst y \<in> set oids" if "y \<in> set (live_entries B oids)" for y
    using that by (auto simp: live_entries_def split: option.splits if_splits)
  then show "x \<in> set (tbl (standings now B oids) t) \<Longrightarrow> orderID x \<in> set oids"
    by (force simp: standings_def tbl_def Let_def split: if_splits)
qed

lemma cgo_pod_reply:
  assumes rel: "cgo_pod_rel w n s e" and posted: "posted_pairs (board s) = ranked_pairs s"
  shows "\<exists>reply. cgo_GetTopK w (Topology e) (DB e) req (cgo_RefreshPairIndex (elems (Pairs e)) srv) = Inr reply \<and>
           cgo_reply_ok w s req reply"
proof -
  let ?k = "MakePairKey (rPPSID req) (rBinTagID req)" and ?srv = "cgo_RefreshPairIndex (elems (Pairs e)) srv"
  let ?bd = "board s"
  have t: "val (Topology e) ?k = states s ?k" and ps: "elems (Pairs e) = ranked_pairs s" "pairs_ok (ranked_pairs s)"
    using rel by (simp_all add: cgo_pod_rel_def)
  consider "states s ?k = Some StatusActive" "?k \<in> Key ` set (ranked_pairs s)"
    | "states s ?k = Some StatusActive" "?k \<notin> Key ` set (ranked_pairs s)"
    | "states s ?k \<in> {None, Some StatusWarmingUp, Some StatusRemoved}"
    using status_of [of "Topology e" ?k] t by auto
  then show ?thesis
  proof cases
    case 1
    from ranked_row [OF ps(2) 1(2)] obtain i where i: "i < length (ranked_pairs s)"
      "build_index (ranked_pairs s) ?k = Some i" "BinTagID (ranked_pairs s ! i) = rBinTagID req" by blast
    let ?tabs = "standings (posted_at ?bd) (posted_book ?bd) (tagged w (posted_book ?bd) (rBinTagID req))"
    have ids: "orderID x \<noteq> -1" if "x \<in> set (tbl ?tabs t)" for x t
      using order_not_minus_one [OF cgo_pod_rel_parts(5) [OF rel]]
        tagged_range [OF cgo_pod_rel_parts(5) [OF rel] standings_ids [OF that]] .
    have "\<exists>r. cgo_GetTopK w (Topology e) (DB e) req ?srv = Inr (Inr r) \<and> response_is (cgo_best_of w (K req)) ?tabs r"
    proof (rule cgo_GetTopK_ranked)
      show "val (Topology e) ?k = Some StatusActive" using 1(1) t by simp
      show "PairIndex ?srv ?k = Some i" using i(2) by (simp add: refresh_eq ps(1))
      show "ranked_buffer w (length (posted_pairs ?bd)) (\<lambda>j. Some (standings (posted_at ?bd) (posted_book ?bd)
          (tagged w (posted_book ?bd) (BinTagID (posted_pairs ?bd ! j))))) (Load (DB e))"
        using rel by (simp add: cgo_pod_rel_def board_shows_def)
    qed (use i posted ids in simp_all)
    then show ?thesis using 1 by (auto simp: cgo_reply_ok_def Let_def)
  next
    case 2
    then have "build_index (ranked_pairs s) ?k = None" by (simp add: build_index_None)
    with 2 t show ?thesis
      by (simp add: cgo_GetTopK_def cgo_Get_def map_zero_def Let_def refresh_eq ps(1) cgo_reply_ok_def)
  next
    case 3
    with t show ?thesis by (auto simp: cgo_GetTopK_def cgo_Get_def map_zero_def Let_def cgo_reply_ok_def)
  qed
qed

lemma cgo_pod_serves:
  assumes "workload_ok w" and "numBinTags w < 2 ^ 32" and "sort_contract rt"
    and "\<forall>ev \<in> set evs. cgo_event_ok rt w n ev"
    and "s = fold (cgo_pod_step rt) evs (cgo_pod_start (snd (cgo_main_pairs w)))"
  shows "\<exists>e0 e. cgo_main_setup w True cores env = Inr e0 \<and> gfold (cgo_engine_apply rt w) evs e0 = Inr e \<and>
           cgo_pod_rel w n s e \<and>
           (posted_pairs (board s) = ranked_pairs s \<longrightarrow>
              (\<forall>req srv. \<exists>reply.
                 cgo_GetTopK w (Topology e) (DB e) req (cgo_RefreshPairIndex (elems (Pairs e)) srv) = Inr reply \<and>
                 cgo_reply_ok w s req reply))"
proof -
  from cgo_pod_rel_start [OF assms(1,2) refl] obtain e0 where
    0: "cgo_main_setup w True cores env = Inr e0" "cgo_pod_rel w n (cgo_pod_start (snd (cgo_main_pairs w))) e0" by blast
  from cgo_sim.run_follows [OF 0(2), of evs rt] assms(3,4) obtain e where
    "gfold (cgo_engine_apply rt w) evs e0 = Inr e" "cgo_pod_rel w n s e"
    using assms(5) by blast
  with 0(1) cgo_pod_reply show ?thesis by blast
qed

end
