(* ===== verification/Request_Runs.thy ===== *)
theory Request_Runs
  imports Cgo_Service_Spec
begin

text \<open>
  Requests beside whole runs of the engine.  Every event writes the shared state in single
  steps (\<open>event_writes\<close>), and a request's reads may fall anywhere between them, over as many
  events as it likes.  The lemmas show that it is nevertheless answered as the specification
  says for the state between two whole events.
\<close>

section \<open>What an event writes\<close>

text \<open>
  The writes of an event that takes the engine from \<open>e\<close> to \<open>e'\<close>.  Events on orders change
  only what the engine keeps to itself.
\<close>

fun event_writes :: "engine_event \<Rightarrow> 'm compute_engine \<Rightarrow> 'm compute_engine \<Rightarrow> shared_write list" where
  "event_writes (AddPair p b) e e' = [WarmPair p b]"
| "event_writes (RemovePair p b) e e' = [DropPair p b]"
| "event_writes (Cycle clk update) e e' = cycle_writes (Load (DB e')) (pendingWarmup e)"
| "event_writes ev e e' = []"

fun cgo_event_writes :: "cgo_engine_event \<Rightarrow> 'm compute_engine \<Rightarrow> 'm compute_engine \<Rightarrow> shared_write list" where
  "cgo_event_writes (CgoAddPair p b) e e' = [WarmPair p b]"
| "cgo_event_writes (CgoRemovePair p b) e e' = [DropPair p b]"
| "cgo_event_writes (CgoCycle clk update) e e' = cycle_writes (Load (DB e')) (pendingWarmup e)"
| "cgo_event_writes ev e e' = []"

text \<open>The writes of a run, for either program.\<close>

fun run_writes ::
  "('ev \<Rightarrow> 'e \<Rightarrow> 'e go) \<Rightarrow> ('ev \<Rightarrow> 'e \<Rightarrow> 'e \<Rightarrow> shared_write list) \<Rightarrow> 'ev list \<Rightarrow> 'e \<Rightarrow> shared_write list" where
  "run_writes step writes [] e = []"
| "run_writes step writes (ev # evs) e =
     (case step ev e of
        Inl fault \<Rightarrow> []
      | Inr e' \<Rightarrow> writes ev e e' @ run_writes step writes evs e')"

abbreviation pure_writes ::
  "go_runtime \<Rightarrow> workload \<Rightarrow> engine_event list \<Rightarrow> pps_matrix compute_engine \<Rightarrow> shared_write list" where
  "pure_writes rt w \<equiv> run_writes (engine_apply rt w) event_writes"

abbreviation cgo_writes ::
  "go_runtime \<Rightarrow> workload \<Rightarrow> cgo_engine_event list \<Rightarrow> c_matrix compute_engine \<Rightarrow> shared_write list" where
  "cgo_writes rt w \<equiv> run_writes (cgo_engine_apply rt w) cgo_event_writes"

lemma run_writes_all:
  assumes "\<And>ev e e'. ev \<in> set evs \<Longrightarrow> \<forall>wr \<in> set (writes ev e e'). P wr"
  shows "\<forall>wr \<in> set (run_writes step writes evs e). P wr"
  using assms
proof (induction evs arbitrary: e)
  case (Cons ev evs)
  have "\<forall>wr \<in> set (run_writes step writes evs e'). P wr" for e'
    by (rule Cons.IH, rule Cons.prems) simp
  with Cons.prems [of ev] show ?case by (cases "step ev e") auto
qed simp

lemma event_is_writes:
  assumes inv: "pure_inv w e" and rt: "sort_contract rt" and run: "engine_apply rt w ev e = Inr e'"
  shows "(Topology e', DB e') = after_writes pure_write (event_writes ev e e') (Topology e, DB e)"
proof (cases ev)
  case (OrderRemoved oid)
  then show ?thesis using run handle_removed_ok [OF inv, of oid] by auto
next
  case (Cycle clk update)
  then obtain stats where "RunCycleWithDict rt w clk update e = Inr (stats, e')" using run by (auto simp: go_elims)
  from cycle_is_writes [OF inv rt this] Cycle show ?thesis by simp
qed (use run in \<open>auto simp: go_elims HandleAddPair_def HandleRemovePair_def Let_def\<close>)

lemma cgo_event_is_writes:
  assumes rel: "cgo_pod_rel w n s e" and rt: "sort_contract rt" and ev: "cgo_event_ok rt w n ev"
    and run: "cgo_engine_apply rt w ev e = Inr e'"
  shows "(Topology e', DB e') = after_writes cgo_write (cgo_event_writes ev e e') (Topology e, DB e)"
proof (cases ev)
  case (CgoOrderRemoved oid)
  then show ?thesis using run cgo_handle_removed_ok [OF cgo_pod_rel_parts(1) [OF rel], of oid] by auto
next
  case (CgoCycle clk update)
  then obtain stats where c: "cgo_RunCycleWithDict rt w clk update e = Inr (stats, e')" using run by (auto simp: go_elims)
  note i = cgo_pod_rel_parts [OF rel]
  have "tpid_bound n (fold RemoveOrder (expired_ids (now_secs clk) (Registry e)) (Indexes e))"
    by (rule tpid_bound_removes [OF i(3,9)])
  then have safe: "update_safe w (cgo_update_deltas rt update
      (fold RemoveOrder (expired_ids (now_secs clk) (Registry e)) (Indexes e)))"
    using ev CgoCycle by simp
  have "cgo_rows_ok e" using rel by (simp add: cgo_rows_ok_def cgo_pod_rel_def)
  from cgo_cycle_is_writes [OF i(1) rt this safe c] CgoCycle show ?thesis by simp
qed (use run in \<open>auto simp: go_elims cgo_HandleAddPair_def cgo_HandleRemovePair_def Let_def split: option.splits\<close>)

section \<open>The moments of an event\<close>

text \<open>A reply depends on the state of the request's pair and on the published buffer only.\<close>

lemma GetTopK_cong:
  assumes "val t (MakePairKey (rPPSID req) (rBinTagID req)) = val t' (MakePairKey (rPPSID req) (rBinTagID req))"
    and "val t (MakePairKey (rPPSID req) (rBinTagID req)) = Some StatusActive \<Longrightarrow> Load d = Load d'"
  shows "GetTopK w t d req s = GetTopK w t' d' req s" "cgo_GetTopK w t d req s = cgo_GetTopK w t' d' req s"
proof -
  let ?k = "MakePairKey (rPPSID req) (rBinTagID req)"
  have "GetTopK w t d req s = GetTopK w t' d' req s \<and> cgo_GetTopK w t d req s = cgo_GetTopK w t' d' req s"
  proof (cases "val t ?k = Some StatusActive")
    case True
    then have "d = d'" "val t' ?k = Some StatusActive"
      using assms by (cases d; cases d'; simp add: Load_def)+
    with True show ?thesis
      by (simp add: GetTopK_def cgo_GetTopK_def Get_def cgo_Get_def map_zero_def Let_def)
  next
    case False
    with status_of [of t ?k] assms(1) [symmetric] show ?thesis
      by (auto simp: GetTopK_def cgo_GetTopK_def Get_def cgo_Get_def map_zero_def Let_def)
  qed
  then show "GetTopK w t d req s = GetTopK w t' d' req s" "cgo_GetTopK w t d req s = cgo_GetTopK w t' d' req s"
    by blast+
qed

lemma activated_between:
  assumes "pre @ post = map (\<lambda>p. ActivatePair (PPSID p) (BinTagID p)) ps" and "pending_wf ps"
    and "upd = pure_write \<or> upd = cgo_write"
  shows "snd (after_writes upd pre (t, d)) = d \<and>
         (val (fst (after_writes upd pre (t, d))) k = val t k \<and>
            (val t k = Some StatusActive \<longrightarrow> val (fst (after_writes upd (pre @ post) (t, d))) k = val t k) \<or>
          val (fst (after_writes upd pre (t, d))) k = val (fst (after_writes upd (pre @ post) (t, d))) k)"
proof -
  obtain qs where qs: "pre = map (\<lambda>p. ActivatePair (PPSID p) (BinTagID p)) qs" "set qs \<subseteq> set ps"
    using assms(1) by (auto simp: append_eq_map_conv)
  have wf: "pending_wf qs" using assms(2) qs(2) by (auto simp: pending_wf_def)
  let ?after = "\<lambda>rs. after_writes upd (map (\<lambda>p. ActivatePair (PPSID p) (BinTagID p)) rs) (t, d)"
  have "\<exists>C. \<forall>rs. pending_wf rs \<longrightarrow>
      snd (?after rs) = d \<and> val (fst (?after rs)) k = (if C \<and> k \<in> Key ` set rs then Some StatusActive else val t k)"
    using assms(3)
  proof (elim disjE)
    assume u: "upd = pure_write"
    have "val (fold (\<lambda>p. Activate (PPSID p) (BinTagID p)) rs t) k =
        (if val t k = Some StatusWarmingUp \<and> k \<in> Key ` set rs then Some StatusActive else val t k)" if "pending_wf rs" for rs
      unfolding promote_activates [OF that, of _ "[]", symmetric] by (rule promote_all_val [OF that])
    then show ?thesis by (intro exI [of _ "val t k = Some StatusWarmingUp"]) (simp add: u after_activations)
  next
    assume u: "upd = cgo_write"
    show ?thesis using cgo_promote_val by (intro exI [of _ True]) (simp add: u after_activations)
  qed
  then obtain C where C: "\<And>rs. pending_wf rs \<Longrightarrow> snd (?after rs) = d"
    "\<And>rs. pending_wf rs \<Longrightarrow> val (fst (?after rs)) k = (if C \<and> k \<in> Key ` set rs then Some StatusActive else val t k)"
    by blast
  have "Key ` set qs \<subseteq> Key ` set ps" using qs(2) by (rule image_mono)
  then show ?thesis
    unfolding assms(1) unfolding qs(1) using C [OF wf] C [OF assms(2)]
    by (cases "C \<and> k \<in> Key ` set qs") auto
qed

text \<open>
  In the middle of a cycle a request is answered as before or as after it: until the buffer is
  published as before; then, if its pair is served already, as after; and if not, it is refused
  as before.
\<close>

lemma cycle_moments:
  assumes ws: "cycle_writes buf ps = pre @ post" and wf: "pending_wf ps" and upd: "upd = pure_write \<or> upd = cgo_write"
    and mid: "after_writes upd pre (t0, d0) = (t, d)"
    and fin: "after_writes upd (cycle_writes buf ps) (t0, d0) = (t1, d1)"
  shows "(GetTopK w t d req s = GetTopK w t0 d0 req s \<and> cgo_GetTopK w t d req s = cgo_GetTopK w t0 d0 req s) \<or>
         (GetTopK w t d req s = GetTopK w t1 d1 req s \<and> cgo_GetTopK w t d req s = cgo_GetTopK w t1 d1 req s)"
proof (cases pre)
  case Nil
  then show ?thesis using mid by simp
next
  case (Cons wr pre')
  let ?acts = "map (\<lambda>p. ActivatePair (PPSID p) (BinTagID p)) ps" and ?k = "MakePairKey (rPPSID req) (rBinTagID req)"
  have acts: "wr = PublishBuffer buf" "pre' @ post = ?acts" using ws Cons by (simp_all add: cycle_writes_def)
  have pub: "upd (PublishBuffer buf) (t0, d0) = (t0, Publish d0 buf)" using upd by auto
  have m: "after_writes upd pre' (t0, Publish d0 buf) = (t, d)" using mid Cons acts(1) pub by simp
  have f: "after_writes upd (pre' @ post) (t0, Publish d0 buf) = (t1, d1)"
    using fin pub by (simp add: cycle_writes_def acts(2))
  have d: "d = Publish d0 buf" using activated_between [OF acts(2) wf upd, of t0 "Publish d0 buf"] m by simp
  have d1: "d1 = Publish d0 buf"
    using activated_between [of ?acts "[]" ps upd t0 "Publish d0 buf"] wf upd f by (simp add: acts(2))
  from activated_between [OF acts(2) wf upd, of t0 "Publish d0 buf" ?k] m f
  have "val t ?k = val t0 ?k \<and> val t0 ?k \<noteq> Some StatusActive \<or> val t ?k = val t1 ?k" by auto
  then show ?thesis
    using GetTopK_cong [of t req t0 d d0] GetTopK_cong [of t req t1 d d1] d d1 by metis
qed

lemma single_write:
  assumes "ws = pre @ post" and "length ws \<le> 1"
  shows "pre = [] \<or> pre = ws"
  using assms by (cases pre) auto

lemma event_moments:
  assumes inv: "pure_inv w e" and rt: "sort_contract rt" and run: "engine_apply rt w ev e = Inr e'"
    and ws: "event_writes ev e e' = pre @ post" and mid: "after_writes pure_write pre (Topology e, DB e) = (t, d)"
  shows "GetTopK w t d req srv = GetTopK w (Topology e) (DB e) req srv \<or>
         GetTopK w t d req srv = GetTopK w (Topology e') (DB e') req srv"
proof -
  note fin = event_is_writes [OF inv rt run, symmetric]
  show ?thesis
  proof (cases ev)
    case (Cycle clk update)
    have "pending_wf (pendingWarmup e)" using inv by (simp add: engine_inv_def)
    from cycle_moments [OF ws [unfolded Cycle event_writes.simps] this _ mid] fin [unfolded Cycle event_writes.simps]
    show ?thesis by blast
  qed (use single_write [OF ws] mid fin in \<open>auto simp: ws\<close>)
qed

lemma cgo_event_moments:
  assumes rel: "cgo_pod_rel w n s e" and rt: "sort_contract rt" and ev: "cgo_event_ok rt w n ev"
    and run: "cgo_engine_apply rt w ev e = Inr e'"
    and ws: "cgo_event_writes ev e e' = pre @ post" and mid: "after_writes cgo_write pre (Topology e, DB e) = (t, d)"
  shows "cgo_GetTopK w t d req srv = cgo_GetTopK w (Topology e) (DB e) req srv \<or>
         cgo_GetTopK w t d req srv = cgo_GetTopK w (Topology e') (DB e') req srv"
proof -
  note fin = cgo_event_is_writes [OF rel rt ev run, symmetric]
  show ?thesis
  proof (cases ev)
    case (CgoCycle clk update)
    have "pending_wf (pendingWarmup e)" using rel by (simp add: cgo_pod_rel_def engine_inv_def)
    from cycle_moments [OF ws [unfolded CgoCycle cgo_event_writes.simps] this _ mid]
      fin [unfolded CgoCycle cgo_event_writes.simps]
    show ?thesis by blast
  qed (use single_write [OF ws] mid fin in \<open>auto simp: ws\<close>)
qed

section \<open>Requests beside a run\<close>

text \<open>
  A simulation whose engine shares topology and buffer with a server: its events are their
  writes, and between the writes of one event a request is answered as before or after it.
\<close>

locale served_simulation = simulation + request_path +
  fixes writes :: "'a \<Rightarrow> 'b \<Rightarrow> 'b \<Rightarrow> shared_write list"
    and shared_of :: "'b \<Rightarrow> shared"
  assumes event_writes: "rel s e \<Longrightarrow> allowed ev \<Longrightarrow> step ev e = Inr e' \<Longrightarrow>
      shared_of e' = after_writes upd (writes ev e e') (shared_of e)"
    and event_moments: "rel s e \<Longrightarrow> allowed ev \<Longrightarrow> step ev e = Inr e' \<Longrightarrow> writes ev e e' = pre @ post \<Longrightarrow>
      after_writes upd pre (shared_of e) = (t, d) \<Longrightarrow>
      whole t d = whole (fst (shared_of e)) (snd (shared_of e)) \<or>
      whole t d = whole (fst (shared_of e')) (snd (shared_of e'))"
begin

lemma run_moments:
  assumes "rel s e" and "\<forall>ev \<in> set evs. allowed ev"
    and "run_writes step writes evs e = pre @ post" and "after_writes upd pre (shared_of e) = (t, d)"
  shows "\<exists>evs1 evs2 e1. evs = evs1 @ evs2 \<and> rel (fold spec evs1 s) e1 \<and>
           whole t d = whole (fst (shared_of e1)) (snd (shared_of e1))"
  using assms
proof (induction evs arbitrary: s e pre)
  case Nil
  then show ?case by (intro exI [of _ "[]"] exI [of _ e]) auto
next
  case (Cons ev evs)
  have ev: "allowed ev" using Cons.prems(2) by simp
  from follows [OF Cons.prems(1) ev] obtain e1 where e1: "step ev e = Inr e1" "rel (spec ev s) e1" by auto
  have "writes ev e e1 @ run_writes step writes evs e1 = pre @ post" using Cons.prems(3) e1(1) by simp
  then consider us where "writes ev e e1 = pre @ us"
    | us where "pre = writes ev e e1 @ us" "run_writes step writes evs e1 = us @ post"
    by (auto simp: append_eq_append_conv2)
  then show ?case
  proof cases
    case 1
    from event_moments [OF Cons.prems(1) ev e1(1) 1 Cons.prems(4)] show ?thesis
    proof (elim disjE)
      assume "whole t d = whole (fst (shared_of e)) (snd (shared_of e))"
      then show ?thesis using Cons.prems(1) by (intro exI [of _ "[]"] exI [of _ "ev # evs"] exI [of _ e]) simp
    next
      assume "whole t d = whole (fst (shared_of e1)) (snd (shared_of e1))"
      then show ?thesis using e1(2) by (intro exI [of _ "[ev]"] exI [of _ evs] exI [of _ e1]) simp
    qed
  next
    case 2
    then have "after_writes upd us (shared_of e1) = (t, d)"
      using Cons.prems(4) event_writes [OF Cons.prems(1) ev e1(1)] by simp
    from Cons.IH [OF e1(2) _ 2(2) this] Cons.prems(2) obtain evs1 evs2 e2 where
      "evs = evs1 @ evs2" "rel (fold spec evs1 (spec ev s)) e2"
      "whole t d = whole (fst (shared_of e2)) (snd (shared_of e2))" by auto
    then show ?thesis by (intro exI [of _ "ev # evs1"] exI [of _ evs2] exI [of _ e2]) simp
  qed
qed

lemma requests_between_events:
  assumes rel: "rel s e" and evs: "\<forall>ev \<in> set evs. allowed ev"
    and apart: "\<And>ev e e'. ev \<in> set evs \<Longrightarrow> \<forall>wr \<in> set (writes ev e e'). apart wr"
    and path: "serve_path\<^sup>*\<^sup>* (shared_of e, run_writes step writes evs e, Arrived) (sh, ws, Answered a)"
  shows "\<exists>evs1 evs2 e1. evs = evs1 @ evs2 \<and> rel (fold spec evs1 s) e1 \<and>
           a = whole (fst (shared_of e1)) (snd (shared_of e1))"
proof -
  from requests_atomic [OF path run_writes_all [OF apart]] obtain pre post t d where
    1: "run_writes step writes evs e = pre @ post @ ws" "after_writes upd pre (shared_of e) = (t, d)" "a = whole t d"
    by blast
  from run_moments [OF rel evs 1(1,2)] 1(3) show ?thesis by metis
qed

end

interpretation pure_served: served_simulation "engine_apply rt w" "pod_step rt" "pod_rel w"
  "\<lambda>ev. sort_contract rt \<and> event_ok w ev" pure_write "leaves_pair (rPPSID req) (rBinTagID req)"
  "read_status req" "read_row req srv" "read_lists w req" "\<lambda>t d. GetTopK w t d req srv"
  event_writes "\<lambda>e. (Topology e, DB e)" for rt w req srv
proof unfold_locales
  fix s e ev e' pre post t d
  assume rel: "pod_rel w s e" and ok: "sort_contract rt \<and> event_ok w ev" and run: "engine_apply rt w ev e = Inr e'"
  note inv = pod_rel_parts(1) [OF rel] and rt = ok [THEN conjunct1]
  show "(Topology e', DB e') = after_writes pure_write (event_writes ev e e') (Topology e, DB e)"
    by (rule event_is_writes [OF inv rt run])
  assume "event_writes ev e e' = pre @ post" "after_writes pure_write pre (Topology e, DB e) = (t, d)"
  from event_moments [OF inv rt run this]
  show "GetTopK w t d req srv = GetTopK w (fst (Topology e, DB e)) (snd (Topology e, DB e)) req srv \<or>
      GetTopK w t d req srv = GetTopK w (fst (Topology e', DB e')) (snd (Topology e', DB e')) req srv" by simp
qed

interpretation cgo_served: served_simulation "cgo_engine_apply rt w" "cgo_pod_step rt" "cgo_pod_rel w n"
  "\<lambda>ev. sort_contract rt \<and> cgo_event_ok rt w n ev" cgo_write "leaves_pair (rPPSID req) (rBinTagID req)"
  "cgo_read_status req" "cgo_read_row req srv" "cgo_read_lists w req" "\<lambda>t d. cgo_GetTopK w t d req srv"
  cgo_event_writes "\<lambda>e. (Topology e, DB e)" for rt w n req srv
proof unfold_locales
  fix s e ev e' pre post t d
  assume rel: "cgo_pod_rel w n s e" and ok: "sort_contract rt \<and> cgo_event_ok rt w n ev"
    and run: "cgo_engine_apply rt w ev e = Inr e'"
  note rt = ok [THEN conjunct1] and ev = ok [THEN conjunct2]
  show "(Topology e', DB e') = after_writes cgo_write (cgo_event_writes ev e e') (Topology e, DB e)"
    by (rule cgo_event_is_writes [OF rel rt ev run])
  assume "cgo_event_writes ev e e' = pre @ post" "after_writes cgo_write pre (Topology e, DB e) = (t, d)"
  from cgo_event_moments [OF rel rt ev run this]
  show "cgo_GetTopK w t d req srv = cgo_GetTopK w (fst (Topology e, DB e)) (snd (Topology e, DB e)) req srv \<or>
      cgo_GetTopK w t d req srv = cgo_GetTopK w (fst (Topology e', DB e')) (snd (Topology e', DB e')) req srv" by simp
qed

section \<open>Against the specification\<close>

text \<open>Events on orders, and cycles, leave the pairs, so the server's index stays fresh.\<close>

fun pair_event :: "engine_event \<Rightarrow> bool" where
  "pair_event (AddPair p b) = True"
| "pair_event (RemovePair p b) = True"
| "pair_event ev = False"

fun cgo_pair_event :: "cgo_engine_event \<Rightarrow> bool" where
  "cgo_pair_event (CgoAddPair p b) = True"
| "cgo_pair_event (CgoRemovePair p b) = True"
| "cgo_pair_event ev = False"

lemma pairs_stay:
  fixes s :: pod
  assumes "\<forall>ev \<in> set evs. \<not> pair_event ev" and "posted_pairs (board s) = ranked_pairs s"
  shows "ranked_pairs (fold (pod_step rt) evs s) = ranked_pairs s \<and>
         posted_pairs (board (fold (pod_step rt) evs s)) = ranked_pairs s"
proof (rule fold_invariant [where Q = "\<lambda>ev. \<not> pair_event ev"])
  fix ev and s' :: pod assume "\<not> pair_event ev"
    and "ranked_pairs s' = ranked_pairs s \<and> posted_pairs (board s') = ranked_pairs s"
  then show "ranked_pairs (pod_step rt ev s') = ranked_pairs s \<and> posted_pairs (board (pod_step rt ev s')) = ranked_pairs s"
    by (cases ev) (simp_all add: Let_def)
qed (use assms in auto)

lemma cgo_pairs_stay:
  fixes s :: cgo_pod
  assumes "\<forall>ev \<in> set evs. \<not> cgo_pair_event ev" and "posted_pairs (board s) = ranked_pairs s"
  shows "ranked_pairs (fold (cgo_pod_step rt) evs s) = ranked_pairs s \<and>
         posted_pairs (board (fold (cgo_pod_step rt) evs s)) = ranked_pairs s"
proof (rule fold_invariant [where Q = "\<lambda>ev. \<not> cgo_pair_event ev"])
  fix ev and s' :: cgo_pod assume "\<not> cgo_pair_event ev"
    and "ranked_pairs s' = ranked_pairs s \<and> posted_pairs (board s') = ranked_pairs s"
  then show "ranked_pairs (cgo_pod_step rt ev s') = ranked_pairs s \<and>
      posted_pairs (board (cgo_pod_step rt ev s')) = ranked_pairs s"
    by (cases ev) (simp_all add: Let_def)
qed (use assms in auto)

lemma requests_linearizable_from:
  assumes rel: "pod_rel w s e" and rt: "sort_contract rt" and evs: "\<forall>ev \<in> set evs. event_ok w ev \<and> \<not> pair_event ev"
    and posted: "posted_pairs (board s) = ranked_pairs s"
    and path: "pure_serve w req (RefreshPairIndex (elems (Pairs e)) srv) ((Topology e, DB e), pure_writes rt w evs e, Arrived)
      (sh, ws, Answered a)"
  shows "\<exists>evs1 evs2 reply. evs = evs1 @ evs2 \<and> a = Inr reply \<and> reply_ok w (fold (pod_step rt) evs1 s) req reply"
proof -
  let ?srv = "RefreshPairIndex (elems (Pairs e)) srv"
  have apart: "\<forall>wr \<in> set (event_writes ev e1 e2). leaves_pair (rPPSID req) (rBinTagID req) wr"
    if "ev \<in> set evs" for ev and e1 e2 :: "pps_matrix compute_engine"
    using evs that cycle_writes_leave by (cases ev) auto
  obtain evs1 evs2 e1 where
    1: "evs = evs1 @ evs2" "pod_rel w (fold (pod_step rt) evs1 s) e1" "a = GetTopK w (Topology e1) (DB e1) req ?srv"
    using pure_served.requests_between_events [OF rel _ apart path] evs rt by auto
  have same: "ranked_pairs (fold (pod_step rt) evs1 s) = ranked_pairs s"
    "posted_pairs (board (fold (pod_step rt) evs1 s)) = ranked_pairs s"
    using pairs_stay [OF _ posted, of evs1 rt] evs 1(1) by auto
  then have "elems (Pairs e1) = elems (Pairs e)" using 1(2) rel by (simp add: pod_rel_def)
  with pod_reply [OF 1(2), of req srv] same 1(1,3) show ?thesis by auto
qed

lemma cgo_requests_linearizable_from:
  assumes rel: "cgo_pod_rel w n s e" and rt: "sort_contract rt"
    and evs: "\<forall>ev \<in> set evs. cgo_event_ok rt w n ev \<and> \<not> cgo_pair_event ev"
    and posted: "posted_pairs (board s) = ranked_pairs s"
    and path: "cgo_serve w req (cgo_RefreshPairIndex (elems (Pairs e)) srv)
      ((Topology e, DB e), cgo_writes rt w evs e, Arrived) (sh, ws, Answered a)"
  shows "\<exists>evs1 evs2 reply. evs = evs1 @ evs2 \<and> a = Inr reply \<and> cgo_reply_ok w (fold (cgo_pod_step rt) evs1 s) req reply"
proof -
  let ?srv = "cgo_RefreshPairIndex (elems (Pairs e)) srv"
  have apart: "\<forall>wr \<in> set (cgo_event_writes ev e1 e2). leaves_pair (rPPSID req) (rBinTagID req) wr"
    if "ev \<in> set evs" for ev and e1 e2 :: "c_matrix compute_engine"
    using evs that cycle_writes_leave by (cases ev) auto
  obtain evs1 evs2 e1 where
    1: "evs = evs1 @ evs2" "cgo_pod_rel w n (fold (cgo_pod_step rt) evs1 s) e1"
    "a = cgo_GetTopK w (Topology e1) (DB e1) req ?srv"
    using cgo_served.requests_between_events [OF rel _ apart path] evs rt by auto
  have same: "ranked_pairs (fold (cgo_pod_step rt) evs1 s) = ranked_pairs s"
    "posted_pairs (board (fold (cgo_pod_step rt) evs1 s)) = ranked_pairs s"
    using cgo_pairs_stay [OF _ posted, of evs1 rt] evs 1(1) by auto
  then have "elems (Pairs e1) = elems (Pairs e)" using 1(2) rel by (simp add: cgo_pod_rel_def)
  with cgo_pod_reply [OF 1(2), of req srv] same 1(1,3) show ?thesis by auto
qed

text \<open>From the set-up on: a run, then the events that the request overlaps.\<close>

lemma requests_linearizable:
  assumes "workload_ok w" and "numBinTags w < 2 ^ 32" and rt: "sort_contract rt"
    and past: "\<forall>ev \<in> set past. event_ok w ev"
    and run: "gfold (engine_apply rt w) past (fst (main_setup w cores env)) = Inr e"
    and s: "s = fold (pod_step rt) past (pod_start (buildPairs w (PairsPerPod w)))"
    and posted: "posted_pairs (board s) = ranked_pairs s" and srv: "srv = RefreshPairIndex (elems (Pairs e)) srv0"
    and evs: "\<forall>ev \<in> set evs. event_ok w ev \<and> \<not> pair_event ev"
    and path: "pure_serve w req srv ((Topology e, DB e), pure_writes rt w evs e, Arrived) (sh, ws, r)"
  shows "(\<exists>a. pure_serve w req srv (sh, ws, r) (sh, ws, Answered a)) \<and>
         (\<forall>a. r = Answered a \<longrightarrow> (\<exists>evs1 evs2 reply. evs = evs1 @ evs2 \<and> a = Inr reply \<and>
            reply_ok w (fold (pod_step rt) evs1 s) req reply))"
proof -
  have rel: "pod_rel w s e"
    using pure_sim.run_follows [OF pod_rel_start [OF assms(1,2), of cores env], of past rt] rt past run s by auto
  have "\<exists>evs1 evs2 reply. evs = evs1 @ evs2 \<and> a = Inr reply \<and> reply_ok w (fold (pod_step rt) evs1 s) req reply"
    if "r = Answered a" for a
    using requests_linearizable_from [OF rel rt evs posted path [unfolded srv that]] .
  with pure_path.requests_finish show ?thesis by blast
qed

lemma cgo_requests_linearizable:
  assumes "workload_ok w" and "numBinTags w < 2 ^ 32" and rt: "sort_contract rt"
    and past: "\<forall>ev \<in> set past. cgo_event_ok rt w n ev"
    and run: "cgo_main_setup w True cores env = Inr e0" "gfold (cgo_engine_apply rt w) past e0 = Inr e"
    and s: "s = fold (cgo_pod_step rt) past (cgo_pod_start (snd (cgo_main_pairs w)))"
    and posted: "posted_pairs (board s) = ranked_pairs s" and srv: "srv = cgo_RefreshPairIndex (elems (Pairs e)) srv0"
    and evs: "\<forall>ev \<in> set evs. cgo_event_ok rt w n ev \<and> \<not> cgo_pair_event ev"
    and path: "cgo_serve w req srv ((Topology e, DB e), cgo_writes rt w evs e, Arrived) (sh, ws, r)"
  shows "(\<exists>a. cgo_serve w req srv (sh, ws, r) (sh, ws, Answered a)) \<and>
         (\<forall>a. r = Answered a \<longrightarrow> (\<exists>evs1 evs2 reply. evs = evs1 @ evs2 \<and> a = Inr reply \<and>
            cgo_reply_ok w (fold (cgo_pod_step rt) evs1 s) req reply))"
proof -
  from cgo_pod_rel_start [OF assms(1,2) refl, of cores env n] run(1)
  have "cgo_pod_rel w n (cgo_pod_start (snd (cgo_main_pairs w))) e0" by auto
  from cgo_sim.run_follows [OF this, of past rt] rt past run(2) s have rel: "cgo_pod_rel w n s e" by auto
  have "\<exists>evs1 evs2 reply. evs = evs1 @ evs2 \<and> a = Inr reply \<and> cgo_reply_ok w (fold (cgo_pod_step rt) evs1 s) req reply"
    if "r = Answered a" for a
    using cgo_requests_linearizable_from [OF rel rt evs posted path [unfolded srv that]] .
  with cgo_path.requests_finish show ?thesis by blast
qed

end
