(* ===== verification/Cgo_Schedules.thy ===== *)
theory Cgo_Schedules
  imports Phase1_Update Phase2_Rank
begin

text \<open>
  The goroutines of the cgo program.  In phase 1 each makes one call of the C kernel, for its
  range of rows; in phase 2 they share the pairs out as the pure ones do.  The calls and the
  jobs of different workers commute, so any interleaving gives the result of the model, and no
  interleaving reads or writes outside the C block.
\<close>

section \<open>Phase 1\<close>

definition kernel_job :: "workload \<Rightarrow> i32 list \<Rightarrow> nat \<times> nat \<Rightarrow> c_matrix \<Rightarrow> c_matrix go" where
  "kernel_job w delta = (\<lambda>(lo, hi). CUpdateRowRange w lo (int hi - int lo) delta)"

definition kernel_queues :: "nat \<Rightarrow> nat \<Rightarrow> (nat \<times> nat) list list" where
  "kernel_queues n step = map (\<lambda>r. [r]) (row_ranges n step 0)"

definition disjoint_rows :: "nat \<times> nat \<Rightarrow> nat \<times> nat \<Rightarrow> bool" where
  "disjoint_rows r r' \<longleftrightarrow> set (range_jobs r) \<inter> set (range_jobs r') = {}"

text \<open>Kernel calls on disjoint ranges, as the Go loop over all their rows.\<close>

lemma kernel_jobs_rows:
  assumes wf: "c_wf w cm" and len: "length delta = NumOrders w" and safe: "delta_safe delta" "0 < NumOrders w"
    and rs: "\<forall>(lo, hi) \<in> set rs. lo \<le> hi \<and> hi \<le> cNumPPS cm" and d: "distinct (concat (map range_jobs rs))"
  shows "\<exists>cm'. gfold (kernel_job w delta) rs cm = Inr cm' \<and> c_wf w cm' \<and> cNumPPS cm' = cNumPPS cm \<and>
           (\<forall>q < cNumPPS cm. \<forall>j < NumOrders w. cell w (c_view cm') q j =
              (if q \<in> set (concat (map range_jobs rs)) then add_clamped (cell w (c_view cm) q j) (delta ! j)
               else cell w (c_view cm) q j))"
proof -
  let ?m = "c_view cm" and ?ps = "concat (map range_jobs rs)"
  have m: "matrix_wf w ?m" "NumPPS ?m = cNumPPS cm" "c_fits w (NumPPS ?m)"
    using wf by (simp_all add: c_wf_def c_view_def)
  have bounds: "\<forall>(lo, hi) \<in> set rs. lo \<le> hi \<and> hi \<le> NumPPS ?m" unfolding m(2) by (rule rs)
  from c_ranges_refine [OF c_abs_view [OF wf] m(1) len safe bounds m(3)] obtain cm' m' where
    r: "gfold (kernel_job w delta) rs cm = Inr cm'" "gfold (apply_to_row w delta) ?ps ?m = Inr m'" "c_abs cm' m'"
    by (auto simp: kernel_job_def range_rows gfold_concat)
  have "\<forall>p \<in> set ?ps. p < NumPPS ?m" using bounds by (fastforce simp: range_jobs_def)
  from apply_rows_ok [OF m(1) len d this] r(2) have m': "matrix_wf w m'" "NumPPS m' = NumPPS ?m"
    "\<forall>q < NumPPS ?m. \<forall>j < NumOrders w. cell w m' q j =
       (if q \<in> set ?ps then add_clamped (cell w ?m q j) (delta ! j) else cell w ?m q j)" by auto
  have "c_view cm' = m'" "c_wf w cm'" "cNumPPS cm' = NumPPS m'"
    using c_abs_eq [OF r(3)] c_abs_wf [OF r(3) m'(1)] m(3) m'(2) r(3) by (simp_all add: c_abs_def)
  with r(1) m' m(2) show ?thesis by simp
qed

lemma c_matrix_eqI:
  assumes "c_wf w cm" and "c_wf w cm'" and "cNumPPS cm' = cNumPPS cm"
    and "\<And>p j. p < cNumPPS cm \<Longrightarrow> j < NumOrders w \<Longrightarrow> cell w (c_view cm') p j = cell w (c_view cm) p j"
  shows "cm' = (cm :: c_matrix)"
proof -
  have wf: "matrix_wf w (c_view cm)" "matrix_wf w (c_view cm')" using assms(1,2) by (simp_all add: c_wf_def)
  have "c_view cm' = c_view cm"
    using matrix_eqI [OF wf] assms(3,4) by (simp add: c_view_def)
  moreover have "c_abs cm (c_view cm)" "c_abs cm' (c_view cm')" using assms(1,2) by (simp_all add: c_abs_view)
  ultimately show ?thesis by (simp add: c_abs_def)
qed

interpretation kernel_pool: worker_pool "kernel_job w delta"
  "\<lambda>cm. c_wf w cm \<and> cNumPPS cm = n \<and> length delta = NumOrders w \<and> delta_safe delta \<and> 0 < NumOrders w"
  "\<lambda>(lo, hi). lo \<le> hi \<and> hi \<le> n" disjoint_rows
  for w delta n
proof (unfold_locales, goal_cases)
  case (1 cm r)
  have "distinct (concat (map range_jobs [r]))" by (cases r) (simp add: range_jobs_def)
  with 1 kernel_jobs_rows [of w cm delta "[r]"] show ?case
    by (cases "kernel_job w delta r cm") auto
next
  case (2 cm r r')
  have d: "distinct (concat (map range_jobs [r, r']))" "distinct (concat (map range_jobs [r', r]))"
    using 2(4) by (cases r; cases r'; auto simp: range_jobs_def disjoint_rows_def)+
  have run: "gfold (kernel_job w delta) [a, b] cm = gbind (kernel_job w delta a cm) (kernel_job w delta b)" for a b
  proof -
    have "gfold (kernel_job w delta) [b] s = kernel_job w delta b s" for s
      by (cases "kernel_job w delta b s") simp_all
    then show ?thesis by (simp cong: gbind_cong)
  qed
  obtain cm1 where 1: "gfold (kernel_job w delta) [r, r'] cm = Inr cm1" "c_wf w cm1" "cNumPPS cm1 = cNumPPS cm"
    "\<forall>q < cNumPPS cm. \<forall>j < NumOrders w. cell w (c_view cm1) q j =
       (if q \<in> set (concat (map range_jobs [r, r'])) then add_clamped (cell w (c_view cm) q j) (delta ! j)
        else cell w (c_view cm) q j)"
    using kernel_jobs_rows [OF _ _ _ _ _ d(1), of w cm delta] 2(1-3) by auto
  obtain cm2 where 2: "gfold (kernel_job w delta) [r', r] cm = Inr cm2" "c_wf w cm2" "cNumPPS cm2 = cNumPPS cm"
    "\<forall>q < cNumPPS cm. \<forall>j < NumOrders w. cell w (c_view cm2) q j =
       (if q \<in> set (concat (map range_jobs [r', r])) then add_clamped (cell w (c_view cm) q j) (delta ! j)
        else cell w (c_view cm) q j)"
    using kernel_jobs_rows [OF _ _ _ _ _ d(2), of w cm delta] 2(1-3) by auto
  have "set (concat (map range_jobs [r, r'])) = set (concat (map range_jobs [r', r]))" by auto
  then have "cm1 = cm2" using 1(2-4) 2(2-4) by (intro c_matrix_eqI [of w]) auto
  with 1(1) 2(1) show ?case by (simp only: run)
qed

lemma kernel_queues_ok:
  assumes "0 < step"
  shows "concat (kernel_queues n step) = row_ranges n step 0" "across disjoint_rows (kernel_queues n step)"
    "\<forall>q \<in> set (kernel_queues n step). \<forall>(lo, hi) \<in> set q. lo \<le> hi \<and> hi \<le> n"
proof -
  show "concat (kernel_queues n step) = row_ranges n step 0" by (simp add: kernel_queues_def)
  show "across disjoint_rows (kernel_queues n step)"
    unfolding across_def
  proof (intro allI impI ballI)
    fix i k r r' assume ik: "i < length (kernel_queues n step)" "k < length (kernel_queues n step)" "i \<noteq> k"
      and r: "r \<in> set (kernel_queues n step ! i)" "r' \<in> set (kernel_queues n step ! k)"
    let ?rs = "row_ranges n step 0"
    have l: "i < length ?rs" "k < length ?rs" using ik by (simp_all add: kernel_queues_def)
    then have "r = ?rs ! i" "r' = ?rs ! k" using r by (simp_all add: kernel_queues_def)
    moreover have "x \<noteq> y" if "x \<in> set (range_jobs (?rs ! i))" "y \<in> set (range_jobs (?rs ! k))" for x y
    proof -
      have q: "i < length (row_queues n step)" "k < length (row_queues n step)"
        "x \<in> set (row_queues n step ! i)" "y \<in> set (row_queues n step ! k)"
        using l that by (simp_all add: row_queues_def)
      show ?thesis using row_queues_across [OF assms, of n] q ik(3) unfolding across_def by blast
    qed
    ultimately show "disjoint_rows r r'" unfolding disjoint_rows_def by blast
  qed
  show "\<forall>q \<in> set (kernel_queues n step). \<forall>(lo, hi) \<in> set q. lo \<le> hi \<and> hi \<le> n"
    using row_ranges_bounds by (auto simp: kernel_queues_def)
qed

text \<open>Any complete run of the kernel calls ends in the matrix of the sequential model.\<close>

lemma cgo_phase1_interleaved:
  assumes inv: "cgo_inv w e" and us: "Updates u \<noteq> []"
    and safe: "safe_deltas w (order_delta (cgo_contributions rt (Updates u)) (Indexes e))"
    and delta: "cgo_build_delta rt w (Indexes e) (Updates u) = Inr delta"
    and step: "ceil_div (cNumPPS (Matrix e)) (pool_size e (cNumPPS (Matrix e))) = Inr step"
  shows "rtranclp (pool_step (kernel_job w delta)) (kernel_queues (cNumPPS (Matrix e)) step, Matrix e) (qs, cm) \<Longrightarrow>
           pool_done qs \<Longrightarrow> cgo_phase1Update rt w (Some u) e = Inr (e\<lparr>Matrix := cm\<rparr>)"
    and "\<exists>qs cm. rtranclp (pool_step (kernel_job w delta))
           (kernel_queues (cNumPPS (Matrix e)) step, Matrix e) (qs, cm) \<and> pool_done qs"
proof -
  let ?n = "cNumPPS (Matrix e)"
  from inv have i: "index_range w (Indexes e)" "c_wf w (Matrix e)" "0 < ?n" "workload_ok w" "0 < NumOrders w"
    by (simp_all add: engine_inv_def store_inv_def workload_ok_def)
  have d: "length delta = NumOrders w"
    "\<forall>oid. unat oid < NumOrders w \<longrightarrow> delta ! unat oid = order_delta (cgo_contributions rt (Updates u)) (Indexes e) oid"
    using cgo_build_delta_ok [OF i(1), of rt "Updates u"] delta by auto
  note ds = delta_safeI [OF i(4) d(1) safe d(2)]
  have "0 < pool_size e ?n" using pool_size_pos [OF i(3)] by blast
  from ceil_div_ok [OF this i(3)] step have "0 < step" by auto
  note qs = kernel_queues_ok [OF this, of ?n]
  show "cgo_phase1Update rt w (Some u) e = Inr (e\<lparr>Matrix := cm\<rparr>)"
    if "rtranclp (pool_step (kernel_job w delta)) (kernel_queues ?n step, Matrix e) (qs, cm)" "pool_done qs"
  proof -
    have "gfold (kernel_job w delta) (row_ranges ?n step 0) (Matrix e) = Inr cm"
      using kernel_pool.any_run [OF that, of ?n] i(2,5) d(1) ds qs by simp
    then show ?thesis using us delta step by (simp add: cgo_phase1Update_def kernel_job_def Let_def)
  qed
  show "\<exists>qs cm. rtranclp (pool_step (kernel_job w delta)) (kernel_queues ?n step, Matrix e) (qs, cm) \<and> pool_done qs"
    using kernel_pool.run_exists [of w "Matrix e" ?n delta] i(2,5) d(1) ds qs(3) by blast
qed

section \<open>Phase 2\<close>

lemma cgo_phase2_interleaved:
  assumes "cgo_inv w e" and "sort_contract rt" and "cgo_rows_ok e" and "0 < slen (Pairs e)"
    and "ceil_div (slen (Pairs e)) (pool_size e (slen (Pairs e))) = Inr step"
    and "e1 = ensureScratch (pool_size e (slen (Pairs e))) e"
  shows "rtranclp (pool_step (rank_job (cgo_fill_scratch w now e1) (cgo_quickselectAndCopy rt w) w))
           (pair_jobs (slen (Pairs e)) step (pool_size e (slen (Pairs e))),
            (scratch e1, NewReadBuffer w (slen (Pairs e)))) (qs, (bank, buf)) \<Longrightarrow>
         pool_done qs \<Longrightarrow> cgo_phase2Rank rt w now e = Inr (buf, e\<lparr>scratch := bank\<rparr>)"
    and "\<exists>qs bank buf.
           rtranclp (pool_step (rank_job (cgo_fill_scratch w now e1) (cgo_quickselectAndCopy rt w) w))
             (pair_jobs (slen (Pairs e)) step (pool_size e (slen (Pairs e))),
              (scratch e1, NewReadBuffer w (slen (Pairs e)))) (qs, (bank, buf)) \<and> pool_done qs"
proof -
  let ?js = "pair_jobs (slen (Pairs e)) step (pool_size e (slen (Pairs e)))"
  have valid: "\<forall>q \<in> set ?js. \<forall>j \<in> set q. case j of (v, p) \<Rightarrow> v < length (scratch e1) \<and> p < slen (Pairs e)"
    unfolding assms(6) by (rule pair_jobs_valid [OF assms(4,5)])
  show "cgo_phase2Rank rt w now e = Inr (buf, e\<lparr>scratch := bank\<rparr>)"
    if run: "rtranclp (pool_step (rank_job (cgo_fill_scratch w now e1) (cgo_quickselectAndCopy rt w) w))
           (?js, (scratch e1, NewReadBuffer w (slen (Pairs e)))) (qs, (bank, buf))" and "pool_done qs"
  proof -
    have "distinct (map snd (concat ?js))" using pair_jobs_ok [OF assms(4,5)] by simp
    then have "across (\<lambda>(v, p) (v', p'). v \<noteq> v' \<and> p \<noteq> p') ?js" by (rule pair_jobs_across)
    then have "gfold (rank_job (cgo_fill_scratch w now e1) (cgo_quickselectAndCopy rt w) w) (concat ?js)
        (scratch e1, NewReadBuffer w (slen (Pairs e))) = Inr (bank, buf)"
      using cgo_rank.pool.any_run [where c = "(rt, now, e1)" and w = w and n = "length (scratch e1)",
          OF _ that(2)] run assms valid by simp
    then show ?thesis using assms(4-6) by (simp add: cgo_phase2Rank_def Let_def)
  qed
  show "\<exists>qs bank buf. rtranclp (pool_step (rank_job (cgo_fill_scratch w now e1) (cgo_quickselectAndCopy rt w) w))
      (?js, (scratch e1, NewReadBuffer w (slen (Pairs e)))) (qs, (bank, buf)) \<and> pool_done qs"
    using cgo_rank.pool.run_exists [where c = "(rt, now, e1)" and w = w and n = "length (scratch e1)"
        and s = "(scratch e1, NewReadBuffer w (slen (Pairs e)))" and qs = ?js]
      assms valid by (simp add: split_paired_Ex)
qed

end
