(* ===== verification/Topology_Steps.thy ===== *)
theory Topology_Steps
  imports Topology
begin

text \<open>
  The operations of \<^verbatim>\<open>topology.go\<close> as goroutines execute them: a writer takes the
  mutex, loads the published map, copies it entry by entry, sets its entry in the copy,
  stores the copy and releases the mutex; a reader makes one atomic load.  Any number of
  goroutines take these steps in any order.

  The interface \<open>cow_writer\<close> says how the step relation belongs to the operations of
  \<open>Topology\<close>.  From it follows that the operations are linearizable: a write takes effect at
  once, somewhere between its call and its return, none is lost, and each reader sees the
  map after some number of whole writes.  This is why the other theories treat each
  operation as one step.
\<close>

section \<open>The code, step by step\<close>

type_synonym topo_map = "u64 \<rightharpoonup> pair_status"

text \<open>
  Where a goroutine is.  \<open>Copying ev old ks dst\<close>: in the loop of \<^verbatim>\<open>copyMap\<close>, with the
  keys \<open>ks\<close> still to be visited.  The two numbers a reader carries are not in the code: how
  many writes had taken effect when it was called, and when it loaded the map.
\<close>

datatype topo_pc =
    Idle
  | Waiting topo_event
  | Holding topo_event
  | Loaded topo_event topo_map
  | Copying topo_event topo_map "u64 list" topo_map
  | Copied topo_event topo_map
  | Leaving
  | Asking nat
  | Reading nat nat topo_map

record topo_read =
  since :: nat
  taken :: nat
  until :: nat
  seen :: topo_map

text \<open>
  The published map and the mutex are the code's; \<open>called\<close>, \<open>effects\<close> and \<open>reads\<close> record
  the history: the calls and the effects of the writers in their order, and what each
  finished reader has seen.
\<close>

record topo_sys =
  published :: topo_map
  mu :: "nat option"
  pc :: "nat \<Rightarrow> topo_pc"
  called :: "(nat \<times> topo_event) list"
  effects :: "(nat \<times> topo_event) list"
  reads :: "topo_read list"

fun ev_status :: "topo_event \<Rightarrow> pair_status" where
  "ev_status (EvAdd p b) = StatusWarmingUp"
| "ev_status (EvActivate p b) = StatusActive"
| "ev_status (EvRemove p b) = StatusRemoved"

text \<open>When an operation returns without storing.\<close>

fun returns_early :: "topo_event \<Rightarrow> topo_map \<Rightarrow> bool" where
  "returns_early (EvActivate p b) old \<longleftrightarrow> map_zero old (MakePairKey p b) \<noteq> StatusWarmingUp"
| "returns_early _ old \<longleftrightarrow> False"

definition cgo_returns_early :: "topo_event \<Rightarrow> topo_map \<Rightarrow> bool" where
  "cgo_returns_early ev old \<longleftrightarrow> False"

inductive topo_step :: "(topo_event \<Rightarrow> topo_map \<Rightarrow> bool) \<Rightarrow> topo_sys \<Rightarrow> topo_sys \<Rightarrow> bool"
  for early where
  op_called: "pc s t = Idle \<Longrightarrow>
    topo_step early s (s\<lparr>pc := (pc s)(t := Waiting ev), called := called s @ [(t, ev)]\<rparr>)"
| mu_locked: "pc s t = Waiting ev \<Longrightarrow> mu s = None \<Longrightarrow>
    topo_step early s (s\<lparr>mu := Some t, pc := (pc s)(t := Holding ev)\<rparr>)"
| map_loaded: "pc s t = Holding ev \<Longrightarrow>
    topo_step early s (s\<lparr>pc := (pc s)(t := Loaded ev (published s))\<rparr>)"
| early_return: "pc s t = Loaded ev old \<Longrightarrow> early ev old \<Longrightarrow>
    topo_step early s (s\<lparr>pc := (pc s)(t := Leaving), effects := effects s @ [(t, ev)]\<rparr>)"
| copy_started: "pc s t = Loaded ev old \<Longrightarrow> \<not> early ev old \<Longrightarrow> set order = dom old \<Longrightarrow>
    topo_step early s (s\<lparr>pc := (pc s)(t := Copying ev old order Map.empty)\<rparr>)"
| entry_copied: "pc s t = Copying ev old (k # ks) dst \<Longrightarrow>
    topo_step early s (s\<lparr>pc := (pc s)(t := Copying ev old ks (dst(k := old k)))\<rparr>)"
| entry_set: "pc s t = Copying ev old [] dst \<Longrightarrow>
    topo_step early s (s\<lparr>pc := (pc s)(t := Copied ev (dst(ev_key ev \<mapsto> ev_status ev)))\<rparr>)"
| map_stored: "pc s t = Copied ev nxt \<Longrightarrow>
    topo_step early s (s\<lparr>published := nxt, pc := (pc s)(t := Leaving),
      effects := effects s @ [(t, ev)]\<rparr>)"
| mu_unlocked: "pc s t = Leaving \<Longrightarrow>
    topo_step early s (s\<lparr>mu := None, pc := (pc s)(t := Idle)\<rparr>)"
| read_called: "pc s t = Idle \<Longrightarrow>
    topo_step early s (s\<lparr>pc := (pc s)(t := Asking (length (effects s)))\<rparr>)"
| read_loaded: "pc s t = Asking n \<Longrightarrow>
    topo_step early s (s\<lparr>pc := (pc s)(t := Reading n (length (effects s)) (published s))\<rparr>)"
| read_returned: "pc s t = Reading n i m \<Longrightarrow>
    topo_step early s (s\<lparr>pc := (pc s)(t := Idle),
      reads := reads s @ [\<lparr>since = n, taken = i, until = length (effects s), seen = m\<rparr>]\<rparr>)"

inductive_cases topo_stepE: "topo_step early s s'"

definition topo_start :: topo_sys where
  "topo_start = \<lparr>published = val NewTopologyState, mu = None, pc = \<lambda>t. Idle, called = [],
     effects = [], reads = []\<rparr>"

definition cgo_topo_run :: "topo_event list \<Rightarrow> topology_state" where
  "cgo_topo_run evs = fold cgo_topo_apply evs NewTopologyState"

abbreviation pure_goroutines :: "topo_sys \<Rightarrow> bool" where
  "pure_goroutines s \<equiv> (topo_step returns_early)\<^sup>*\<^sup>* topo_start s"

abbreviation cgo_goroutines :: "topo_sys \<Rightarrow> bool" where
  "cgo_goroutines s \<equiv> (topo_step cgo_returns_early)\<^sup>*\<^sup>* topo_start s"

section \<open>What a history shows\<close>

fun holds_mutex :: "topo_pc \<Rightarrow> bool" where
  "holds_mutex (Holding ev) \<longleftrightarrow> True"
| "holds_mutex (Loaded ev old) \<longleftrightarrow> True"
| "holds_mutex (Copying ev old ks dst) \<longleftrightarrow> True"
| "holds_mutex (Copied ev nxt) \<longleftrightarrow> True"
| "holds_mutex Leaving \<longleftrightarrow> True"
| "holds_mutex _ \<longleftrightarrow> False"

text \<open>The call a goroutine is still to carry out.\<close>

fun pending_call :: "topo_pc \<Rightarrow> topo_event list" where
  "pending_call (Waiting ev) = [ev]"
| "pending_call (Holding ev) = [ev]"
| "pending_call (Loaded ev old) = [ev]"
| "pending_call (Copying ev old ks dst) = [ev]"
| "pending_call (Copied ev nxt) = [ev]"
| "pending_call _ = []"

definition calls_of :: "nat \<Rightarrow> (nat \<times> topo_event) list \<Rightarrow> topo_event list" where
  "calls_of t xs = map snd (filter (\<lambda>x. fst x = t) xs)"

lemma calls_of_Nil [simp]: "calls_of t [] = []"
  by (simp add: calls_of_def)

lemma calls_of_snoc [simp]:
  "calls_of t (xs @ [(u, ev)]) = calls_of t xs @ (if u = t then [ev] else [])"
  by (simp add: calls_of_def)

text \<open>
  A history is atomic with respect to a sequential run of the operations: the published map
  is that after all effects, each reader has seen the map after a number of effects that is
  not below that at its call and not above that at its return, and a goroutine's effects are
  its calls, in their order, but for the one it has not carried out yet.
\<close>

definition atomic_history :: "(topo_event list \<Rightarrow> topology_state) \<Rightarrow> topo_sys \<Rightarrow> bool" where
  "atomic_history run s \<longleftrightarrow>
     published s = val (run (map snd (effects s))) \<and>
     (\<forall>r \<in> set (reads s). since r \<le> taken r \<and> taken r \<le> until r \<and> until r \<le> length (effects s) \<and>
        seen r = val (run (take (taken r) (map snd (effects s))))) \<and>
     (\<forall>t. calls_of t (called s) = calls_of t (effects s) @ pending_call (pc s t))"

section \<open>The interface\<close>

locale cow_writer =
  fixes early :: "topo_event \<Rightarrow> topo_map \<Rightarrow> bool"
    and apply_ev :: "topo_event \<Rightarrow> topology_state \<Rightarrow> topology_state"
  assumes early_keeps: "early ev (val t) \<Longrightarrow> apply_ev ev t = t"
    and late_sets: "\<not> early ev (val t) \<Longrightarrow> val (apply_ev ev t) = (val t)(ev_key ev \<mapsto> ev_status ev)"
begin

definition run where
  "run evs = fold apply_ev evs NewTopologyState"

lemma run_snoc [simp]: "run (evs @ [ev]) = apply_ev ev (run evs)"
  by (simp add: run_def)

text \<open>What a goroutine knows of the published map while it holds the mutex.\<close>

fun knows :: "topo_pc \<Rightarrow> topo_map \<Rightarrow> bool" where
  "knows (Loaded ev old) m \<longleftrightarrow> old = m"
| "knows (Copying ev old ks dst) m \<longleftrightarrow>
     old = m \<and> \<not> early ev m \<and> (\<lambda>k. if k \<in> set ks then m k else dst k) = m"
| "knows (Copied ev nxt) m \<longleftrightarrow> \<not> early ev m \<and> nxt = m(ev_key ev \<mapsto> ev_status ev)"
| "knows _ m \<longleftrightarrow> True"

definition locked :: "topo_sys \<Rightarrow> bool" where
  "locked s \<longleftrightarrow> (\<forall>t. holds_mutex (pc s t) = (mu s = Some t)) \<and> (\<forall>t. knows (pc s t) (published s)) \<and>
     published s = val (run (map snd (effects s)))"

fun reader_ok :: "topo_event list \<Rightarrow> topo_pc \<Rightarrow> bool" where
  "reader_ok evs (Asking n) \<longleftrightarrow> n \<le> length evs"
| "reader_ok evs (Reading n i m) \<longleftrightarrow> n \<le> i \<and> i \<le> length evs \<and> m = val (run (take i evs))"
| "reader_ok evs _ \<longleftrightarrow> True"

definition readers_ok :: "topo_sys \<Rightarrow> bool" where
  "readers_ok s \<longleftrightarrow> (\<forall>t. reader_ok (map snd (effects s)) (pc s t)) \<and>
     (\<forall>r \<in> set (reads s). since r \<le> taken r \<and> taken r \<le> until r \<and> until r \<le> length (effects s) \<and>
        seen r = val (run (take (taken r) (map snd (effects s)))))"

definition calls_ok :: "topo_sys \<Rightarrow> bool" where
  "calls_ok s \<longleftrightarrow> (\<forall>t. calls_of t (called s) = calls_of t (effects s) @ pending_call (pc s t))"

lemma not_holds_mutex_knows: "\<not> holds_mutex p \<Longrightarrow> knows p m"
  by (cases p) auto

lemma knows_copied:
  assumes "knows (Copying ev old (k # ks) dst) m"
  shows "knows (Copying ev old ks (dst(k := old k))) m"
proof -
  have old: "old = m" "\<not> early ev m"
    and entries: "(\<lambda>k'. if k' \<in> set (k # ks) then m k' else dst k') = m"
    using assms unfolding knows.simps by blast+
  have "(if x \<in> set ks then m x else (dst(k := m k)) x) = m x" for x
    using fun_cong [OF entries, of x] by (auto split: if_splits)
  with old show ?thesis by (simp add: fun_eq_iff)
qed

lemma reader_ok_more: "reader_ok evs p \<Longrightarrow> reader_ok (evs @ [ev]) p"
  by (cases p) auto

text \<open>The mutex holder is the one goroutine that knows anything.\<close>

lemma lockedD:
  assumes "locked s"
  shows "holds_mutex (pc s t) \<longleftrightarrow> mu s = Some t" and "knows (pc s t) (published s)"
    and "published s = val (run (map snd (effects s)))"
  using assms unfolding locked_def by blast+

lemma locked_move:
  assumes "locked s" "holds_mutex p = holds_mutex (pc s t)" "knows p (published s)"
    and "pc s' = (pc s)(t := p)" "published s' = published s" "mu s' = mu s" "effects s' = effects s"
  shows "locked s'"
  using assms unfolding locked_def by auto

lemma locked_write:
  assumes "locked s" "holds_mutex (pc s t)" "published s' = val (apply_ev ev (run (map snd (effects s))))"
    and "pc s' = (pc s)(t := Leaving)" "mu s' = mu s" "effects s' = effects s @ [(t, ev)]"
  shows "locked s'"
proof -
  have "knows (pc s' u) (published s')" for u
    using assms lockedD(1) [OF assms(1), of u] lockedD(1) [OF assms(1), of t]
    by (auto intro: not_holds_mutex_knows)
  with assms show ?thesis unfolding locked_def by auto
qed

lemma locked_step: "topo_step early s s' \<Longrightarrow> locked s \<Longrightarrow> locked s'"
proof (induction rule: topo_step.induct)
  case (early_return s t ev old)
  with lockedD(1,2) [OF early_return.prems, of t] lockedD(3) [OF early_return.prems] early_keeps
  have "published s = val (apply_ev ev (run (map snd (effects s))))" by auto
  with early_return show ?case by - (rule locked_write [of s t _ ev], simp_all)
next
  case (map_stored s t ev nxt)
  with lockedD(1,2) [OF map_stored.prems, of t] lockedD(3) [OF map_stored.prems] late_sets
  have "nxt = val (apply_ev ev (run (map snd (effects s))))" by auto
  with map_stored show ?case by - (rule locked_write [of s t _ ev], simp_all)
next
  case (copy_started s t ev old order)
  with lockedD(2) [OF copy_started.prems, of t] have "old = published s" by simp
  with copy_started have "knows (Copying ev old order Map.empty) (published s)"
    by (simp add: fun_eq_iff domIff)
  with copy_started show ?case by - (rule locked_move [of s _ t], auto)
next
  case (entry_copied s t ev old k ks dst)
  with lockedD(2) [OF entry_copied.prems, of t]
  have "knows (Copying ev old ks (dst(k := old k))) (published s)"
    using knows_copied by metis
  with entry_copied show ?case by - (rule locked_move [of s _ t], auto)
next
  case (entry_set s t ev old dst)
  with lockedD(2) [OF entry_set.prems, of t] show ?case by - (rule locked_move [of s _ t], auto)
next
  case (mu_locked s t ev)
  then show ?case unfolding locked_def by auto
next
  case (mu_unlocked s t)
  with lockedD(1) [OF mu_unlocked.prems] show ?case unfolding locked_def by auto
qed (rule locked_move, simp_all)+

lemma readers_step: "topo_step early s s' \<Longrightarrow> locked s \<Longrightarrow> readers_ok s \<Longrightarrow> readers_ok s'"
proof (induction rule: topo_step.induct)
  case (read_returned s t n i m)
  then have "reader_ok (map snd (effects s)) (Reading n i m)" unfolding readers_ok_def by metis
  with read_returned show ?case unfolding readers_ok_def by auto
next
  case (read_loaded s t n)
  then have "reader_ok (map snd (effects s)) (Asking n)" unfolding readers_ok_def by metis
  with read_loaded show ?case unfolding readers_ok_def locked_def by auto
qed (auto simp: readers_ok_def locked_def intro: reader_ok_more)

lemma calls_step: "topo_step early s s' \<Longrightarrow> calls_ok s \<Longrightarrow> calls_ok s'"
  by (induction rule: topo_step.induct) (auto simp: calls_ok_def)

lemma start_ok: "locked topo_start" "readers_ok topo_start" "calls_ok topo_start"
  by (simp_all add: locked_def readers_ok_def calls_ok_def topo_start_def run_def)

lemma reachable_ok:
  "(topo_step early)\<^sup>*\<^sup>* topo_start s \<Longrightarrow> locked s \<and> readers_ok s \<and> calls_ok s"
proof (induction rule: rtranclp_induct)
  case (step s s')
  then show ?case using locked_step readers_step calls_step by blast
qed (simp add: start_ok)

theorem linearizable: "(topo_step early)\<^sup>*\<^sup>* topo_start s \<Longrightarrow> atomic_history run s"
  using reachable_ok [of s]
  unfolding atomic_history_def locked_def readers_ok_def calls_ok_def by blast

lemma mutual_exclusion:
  "(topo_step early)\<^sup>*\<^sup>* topo_start s \<Longrightarrow> holds_mutex (pc s t) \<Longrightarrow> holds_mutex (pc s u) \<Longrightarrow> t = u"
  using reachable_ok [of s] lockedD(1) [of s t] lockedD(1) [of s u] by auto

lemma finite_run: "finite (dom (val (run evs)))"
proof (induction evs rule: rev_induct)
  case (snoc ev evs)
  then show ?case
    by (cases "early ev (val (run evs))") (simp_all add: early_keeps late_sets)
qed (simp add: run_def NewTopologyState_def)

text \<open>Whoever holds the mutex can go on, and so can a reader.\<close>

lemma goes_on: 
  "topo_step early s s' \<Longrightarrow> pc s t = p \<Longrightarrow> pc s' t \<noteq> p \<Longrightarrow>
     \<exists>s'. topo_step early s s' \<and> pc s' t \<noteq> pc s t"
  by blast

lemma loaded_goes_on:
  assumes "locked s" and at: "pc s t = Loaded ev old"
  shows "\<exists>s'. topo_step early s s' \<and> pc s' t \<noteq> pc s t"
proof (cases "early ev old")
  case True
  then show ?thesis by (rule goes_on [OF early_return [where early = early, OF at] at]) simp
next
  case False
  have "old = published s" using lockedD(2) [OF assms(1), of t] unfolding at by simp
  then have "old = val (run (map snd (effects s)))" using lockedD(3) [OF assms(1)] by (rule trans)
  then have "finite (dom old)" by (simp only: finite_run)
  then obtain order where "set order = dom old" by (rule exE [OF finite_list])
  show ?thesis by (rule goes_on [OF copy_started [where early = early, OF at False \<open>set order = dom old\<close>] at]) simp
qed

lemma can_go_on:
  assumes "locked s" and "pc s t \<noteq> Idle" and "\<And>ev. pc s t \<noteq> Waiting ev"
  shows "\<exists>s'. topo_step early s s' \<and> pc s' t \<noteq> pc s t"
proof (cases "pc s t")
  case (Holding ev)
  from goes_on [OF map_loaded [OF this] this] show ?thesis by simp
next
  case (Loaded ev old)
  with assms(1) show ?thesis by (rule loaded_goes_on)
next
  case (Copying ev old ks dst)
  show ?thesis
  proof (cases ks)
    case Nil
    with Copying have at: "pc s t = Copying ev old [] dst" by simp
    show ?thesis by (rule goes_on [OF entry_set [OF at] at]) simp
  next
    case (Cons k ks')
    with Copying have at: "pc s t = Copying ev old (k # ks') dst" by simp
    show ?thesis by (rule goes_on [OF entry_copied [OF at] at]) simp
  qed
next
  case (Copied ev nxt)
  from goes_on [OF map_stored [OF this] this] show ?thesis by simp
next
  case Leaving
  from goes_on [OF mu_unlocked [OF this] this] show ?thesis by simp
next
  case (Asking n)
  from goes_on [OF read_loaded [OF this] this] show ?thesis by simp
next
  case (Reading n i m)
  from goes_on [OF read_returned [OF this] this] show ?thesis by simp
qed (use assms in auto)

lemma no_deadlock:
  assumes "(topo_step early)\<^sup>*\<^sup>* topo_start s" and "pc s t \<noteq> Idle"
  shows "\<exists>s' u. topo_step early s s' \<and> pc s u \<noteq> Idle \<and> pc s' u \<noteq> pc s u"
proof (cases "\<exists>ev. pc s t = Waiting ev")
  case False
  with assms reachable_ok can_go_on show ?thesis by metis
next
  case True
  then obtain ev where ev: "pc s t = Waiting ev" by blast
  have l: "locked s" using assms reachable_ok by blast
  show ?thesis
  proof (cases "mu s")
    case None
    from goes_on [OF mu_locked [OF ev this] ev]
    obtain s' where "topo_step early s s'" "pc s' t \<noteq> pc s t" using ev by auto
    with assms(2) show ?thesis by blast
  next
    case (Some u)
    with l have "holds_mutex (pc s u)" using lockedD(1) by blast
    then have "pc s u \<noteq> Idle" "\<And>ev. pc s u \<noteq> Waiting ev" by auto
    with l can_go_on show ?thesis by blast
  qed
qed

end

section \<open>The two implementations\<close>

interpretation cow: cow_writer returns_early topo_apply
proof (unfold_locales, goal_cases)
  case (1 ev t)
  then show ?case by (cases ev) (auto simp: Activate_def Let_def)
next
  case (2 ev t)
  then show ?case by (cases ev) (auto simp: AddWarmingUp_def Activate_def Remove_def Let_def)
qed

interpretation ccow: cow_writer cgo_returns_early cgo_topo_apply
proof (unfold_locales, goal_cases)
  case (2 ev t)
  then show ?case by (cases ev) (auto simp: cgo_AddWarmingUp_def cgo_Activate_def cgo_Remove_def)
qed (simp add: cgo_returns_early_def)

lemma cow_run [simp]: "cow.run = topo_run"
  by (simp add: fun_eq_iff cow.run_def topo_run_def)

lemma ccow_run [simp]: "ccow.run = cgo_topo_run"
  by (simp add: fun_eq_iff ccow.run_def cgo_topo_run_def)

text \<open>
  Goroutine 0 adds the pair (1, 2) while goroutine 1 reads: the reader is called before the
  mutex is taken, loads the map before the store, and returns after it.
\<close>

definition race_end :: topo_sys where
  "race_end = \<lparr>published = [MakePairKey 1 2 \<mapsto> StatusWarmingUp], mu = None, pc = \<lambda>t. Idle,
     called = [(0, EvAdd 1 2)], effects = [(0, EvAdd 1 2)],
     reads = [\<lparr>since = 0, taken = 0, until = 1, seen = Map.empty\<rparr>]\<rparr>"

lemma step_then: "topo_step early s s' \<Longrightarrow> (topo_step early)\<^sup>*\<^sup>* s' e \<Longrightarrow> (topo_step early)\<^sup>*\<^sup>* s e"
  by (rule converse_rtranclp_into_rtranclp)

lemma race:
  assumes "\<not> early (EvAdd 1 2) Map.empty"
  shows "(topo_step early)\<^sup>*\<^sup>* topo_start race_end"
  unfolding topo_start_def NewTopologyState_def
  apply (rule op_called [where t = 0 and ev = "EvAdd 1 2", THEN step_then], simp, simp)
  apply (rule read_called [where t = "Suc 0", THEN step_then], simp, simp)
  apply (rule mu_locked [where t = 0, THEN step_then], simp, simp, simp)
  apply (rule map_loaded [where t = 0, THEN step_then], simp, simp)
  apply (rule copy_started [where t = 0 and order = "[]", THEN step_then], simp, simp add: assms, simp, simp)
  apply (rule read_loaded [where t = "Suc 0", THEN step_then], simp, simp)
  apply (rule entry_set [where t = 0, THEN step_then], simp, simp)
  apply (rule map_stored [where t = 0, THEN step_then], simp, simp)
  apply (rule mu_unlocked [where t = 0, THEN step_then], simp, simp)
  apply (rule read_returned [where t = "Suc 0", THEN step_then], simp)
  apply (simp add: race_end_def fun_upd_idem)
  done

end
