(* ===== verification/Cgo_Common.thy ===== *)
theory Cgo_Common
  imports Priority_Server
begin

text \<open>
  What the cgo program declares in the same way as the pure one, or in other words: the types
  and constants of \<^verbatim>\<open>types.go\<close>, the empty states, the buffer, the partition, the
  copy-on-write helpers, the growth of the scratch bank.  The other theories use one
  definition for both programs; here the cgo text is translated for itself, closer to its
  letter where that matters (the partition's index starts below the slice), and shown to be
  the same, so that what is proved of the shared definitions holds of either program.
\<close>

section \<open>Types and constants\<close>

type_synonym cgo_order_meta = order_meta
type_synonym cgo_pair_info = pair_info
type_synonym cgo_cycle_stats = cycle_stats
type_synonym cgo_score_entry = score_entry
type_synonym cgo_worker_scratch = worker_scratch
type_synonym cgo_read_buffer = read_buffer
type_synonym cgo_double_buffer = double_buffer
type_synonym cgo_pair_status = pair_status
type_synonym cgo_topology_state = topology_state
type_synonym cgo_order_registry = order_registry
type_synonym cgo_inverted_indexes = inverted_indexes
type_synonym cgo_compute_engine = "c_matrix compute_engine"
type_synonym cgo_get_topk_request = get_topk_request
type_synonym cgo_get_topk_response = get_topk_response
type_synonym cgo_api_error = api_error
type_synonym cgo_priority_server = priority_server

definition cgo_PairsPerPod :: "workload \<Rightarrow> nat" where
  "cgo_PairsPerPod w = numPPS w * numBinTags w"

definition cgo_NumTables :: nat where "cgo_NumTables = 4"

text \<open>The table indexes, as the constant block lists them.\<close>

definition cgo_tables :: "nat list" where
  "cgo_tables = [0, 1, 2, 3]"

definition cgo_LargeQtyThreshold :: float32 where "cgo_LargeQtyThreshold = F32 10 0"
definition cgo_CriticalCutoff :: i64 where "cgo_CriticalCutoff = 1800"
definition cgo_NumWorkers :: int where "cgo_NumWorkers = 30"
definition cgo_ScoreScale :: float32 where "cgo_ScoreScale = F32 100 0"
definition cgo_OrderTTLSecs :: i64 where "cgo_OrderTTLSecs = 3600"

text \<open>\<^verbatim>\<open>GRPCNotFound\<close> and \<^verbatim>\<open>GRPCUnavailable\<close>.\<close>

definition cgo_grpc_codes :: "u32 \<times> u32" where
  "cgo_grpc_codes = (5, 14)"

definition cgo_MakePairKey :: "u32 \<Rightarrow> u32 \<Rightarrow> u64" where
  "cgo_MakePairKey ppsID bintagID = push_bit 32 (ucast ppsID) OR ucast bintagID"

section \<open>Empty states\<close>

definition cgo_NewOrderRegistry :: "workload \<Rightarrow> cgo_order_registry" where
  "cgo_NewOrderRegistry w =
     \<lparr>Meta = replicate (NumOrders w) \<lparr>OrderID = 0, RequiredQty = F32 0 0, PBTDeadline = 0,
        Active = False, InsertedAtSecs = 0\<rparr>\<rparr>"

definition cgo_NewInvertedIndexes :: cgo_inverted_indexes where
  "cgo_NewInvertedIndexes = \<lparr>TPIDToOrders = Map.empty, BinTagToOrders = Map.empty,
     reverseTPID = Map.empty, reverseBinTag = Map.empty\<rparr>"

definition cgo_NewTopologyState :: cgo_topology_state where
  "cgo_NewTopologyState = \<lparr>val = Map.empty\<rparr>"

definition cgo_loadMap :: "cgo_topology_state \<Rightarrow> u64 \<rightharpoonup> cgo_pair_status" where
  "cgo_loadMap t = val t"

text \<open>\<^verbatim>\<open>copyMap\<close>, a method here; \<open>order\<close> is the order in which Go visits the keys.\<close>

definition cgo_copyMap :: "u64 list \<Rightarrow> cgo_topology_state \<Rightarrow> u64 \<rightharpoonup> cgo_pair_status" where
  "cgo_copyMap order t = (let src = cgo_loadMap t in fold (\<lambda>k dst. dst(k := src k)) order Map.empty)"

section \<open>The buffer\<close>

text \<open>The allocation loop, which fills the slots one by one.\<close>

definition cgo_NewReadBuffer :: "workload \<Rightarrow> nat \<Rightarrow> cgo_read_buffer" where
  "cgo_NewReadBuffer w numPairs =
     (let size = numPairs * cgo_NumTables * TopK w
      in \<lparr>rbData = fold (\<lambda>i data. data[i := -1]) [0..<size] (replicate size 0),
          NumPairs = numPairs\<rparr>)"

definition cgo_listOffset :: "workload \<Rightarrow> nat \<Rightarrow> nat \<Rightarrow> nat" where
  "cgo_listOffset w pairIdx table = (pairIdx * cgo_NumTables + table) * TopK w"

definition cgo_ListMut :: "workload \<Rightarrow> cgo_read_buffer \<Rightarrow> nat \<Rightarrow> nat \<Rightarrow> i32 list go" where
  "cgo_ListMut w b pairIdx table =
     (let off = cgo_listOffset w pairIdx table in go_slice (rbData b) off (off + TopK w))"

definition cgo_NewDoubleBuffer :: "workload \<Rightarrow> nat \<Rightarrow> cgo_double_buffer" where
  "cgo_NewDoubleBuffer w numPairs = \<lparr>db_ptr = cgo_NewReadBuffer w numPairs\<rparr>"

definition cgo_Load :: "cgo_double_buffer \<Rightarrow> cgo_read_buffer" where
  "cgo_Load db = db_ptr db"

definition cgo_Publish :: "cgo_double_buffer \<Rightarrow> cgo_read_buffer \<Rightarrow> cgo_double_buffer" where
  "cgo_Publish db buf = db\<lparr>db_ptr := buf\<rparr>"

section \<open>The partition and the scratch bank\<close>

definition cgo_medianOfThree :: "cgo_score_entry list \<Rightarrow> nat \<Rightarrow> nat \<Rightarrow> nat \<Rightarrow> nat go" where
  "cgo_medianOfThree e lo mid hi =
     gbind (go_index e lo) (\<lambda>ea. gbind (go_index e mid) (\<lambda>eb. gbind (go_index e hi) (\<lambda>ec.
       let a = score ea; b = score eb; c = score ec
       in if (sint b \<le> sint a \<and> sint c \<le> sint b) \<or> (sint b \<le> sint c \<and> sint a \<le> sint b)
          then Inr mid
          else if (sint a \<le> sint b \<and> sint c \<le> sint a) \<or> (sint a \<le> sint c \<and> sint b \<le> sint a)
          then Inr lo
          else Inr hi)))"

text \<open>
  One round of the partition loop, with the source's own index \<^verbatim>\<open>i\<close>, which is
  \<^verbatim>\<open>lo - 1\<close> at first and incremented before it is used.
\<close>

definition cgo_partition_step ::
  "i32 \<Rightarrow> nat \<Rightarrow> cgo_score_entry list \<times> int \<Rightarrow> (cgo_score_entry list \<times> int) go" where
  "cgo_partition_step pivot j s =
     (case s of (e, i) \<Rightarrow>
        gbind (go_index e j) (\<lambda>x.
          if sint (score x) \<ge> sint pivot
          then let i' = i + 1 in gbind (go_swap e (nat i') j) (\<lambda>e'. Inr (e', i'))
          else Inr (e, i)))"

definition cgo_partitionDesc ::
  "cgo_score_entry list \<Rightarrow> nat \<Rightarrow> nat \<Rightarrow> (cgo_score_entry list \<times> nat) go" where
  "cgo_partitionDesc e lo hi =
     (let mid = lo + (hi - lo) div 2
      in gbind (cgo_medianOfThree e lo mid hi) (\<lambda>pivotIdx.
         gbind (go_swap e pivotIdx hi) (\<lambda>e1.
         gbind (go_index e1 hi) (\<lambda>pv.
         gbind (gfold (cgo_partition_step (score pv)) [lo..<hi] (e1, int lo - 1)) (\<lambda>(e2, i).
         gbind (go_swap e2 (nat (i + 1)) hi) (\<lambda>e3. Inr (e3, nat (i + 1))))))))"

function cgo_ensureScratch :: "nat \<Rightarrow> 'm compute_engine \<Rightarrow> 'm compute_engine" where
  "cgo_ensureScratch numW e =
     (if length (scratch e) < numW
      then cgo_ensureScratch numW
             (e\<lparr>scratch := scratch e @ [\<lparr>heuristic = [], large = [], pbt = [], critical = []\<rparr>]\<rparr>)
      else e)"
  by pat_completeness auto
termination by (relation "measure (\<lambda>(n, e). n - length (scratch e))") auto

declare cgo_ensureScratch.simps [simp del]

section \<open>The agreement\<close>

named_theorems cgo_common \<comment> \<open>the cgo text is the shared definition\<close>

lemma cgo_constants [cgo_common]:
  "cgo_PairsPerPod = PairsPerPod" "cgo_NumTables = NumTables"
  "cgo_tables = [TblHeuristic, TblLarge, TblPBT, TblCritical]"
  "cgo_LargeQtyThreshold = LargeQtyThreshold" "cgo_CriticalCutoff = CriticalCutoff"
  "cgo_NumWorkers = NumWorkers" "cgo_ScoreScale = ScoreScale" "cgo_OrderTTLSecs = OrderTTLSecs"
  "cgo_grpc_codes = (GRPCNotFound, GRPCUnavailable)" "cgo_MakePairKey = MakePairKey"
  by (simp_all add: fun_eq_iff cgo_PairsPerPod_def PairsPerPod_def cgo_NumTables_def table_defs
      cgo_tables_def cgo_LargeQtyThreshold_def LargeQtyThreshold_def cgo_CriticalCutoff_def
      CriticalCutoff_def cgo_NumWorkers_def NumWorkers_def cgo_ScoreScale_def ScoreScale_def
      cgo_OrderTTLSecs_def OrderTTLSecs_def cgo_grpc_codes_def GRPCNotFound_def
      GRPCUnavailable_def cgo_MakePairKey_def MakePairKey_def)

lemma cgo_empty_states [cgo_common]:
  "cgo_NewOrderRegistry = NewOrderRegistry" "cgo_NewInvertedIndexes = NewInvertedIndexes"
  "cgo_NewTopologyState = NewTopologyState" "cgo_loadMap = val"
  by (simp_all add: fun_eq_iff cgo_NewOrderRegistry_def NewOrderRegistry_def zero_meta_def
      cgo_NewInvertedIndexes_def NewInvertedIndexes_def cgo_NewTopologyState_def
      NewTopologyState_def cgo_loadMap_def)

lemma cgo_copyMap_eq: "set order = dom (val t) \<Longrightarrow> cgo_copyMap order t = val t"
  using copyMap_eq [of order "val t"] by (simp add: cgo_copyMap_def copyMap_def cgo_loadMap_def Let_def)

text \<open>The cgo writers copy, change the copy and store it.\<close>

lemma cgo_writers_copy:
  assumes "set order = dom (val t)"
  shows "cgo_AddWarmingUp p b t = t\<lparr>val := (cgo_copyMap order t)(cgo_MakePairKey p b \<mapsto> StatusWarmingUp)\<rparr>"
    and "cgo_Activate p b t = t\<lparr>val := (cgo_copyMap order t)(cgo_MakePairKey p b \<mapsto> StatusActive)\<rparr>"
    and "cgo_Remove p b t = t\<lparr>val := (cgo_copyMap order t)(cgo_MakePairKey p b \<mapsto> StatusRemoved)\<rparr>"
  using cgo_copyMap_eq [OF assms]
  by (simp_all add: cgo_AddWarmingUp_def cgo_Activate_def cgo_Remove_def cgo_constants)

lemma fill_loop:
  "n \<le> length xs \<Longrightarrow> fold (\<lambda>i data. data[i := v]) [0..<n] xs = replicate n v @ drop n xs"
proof (induction n)
  case (Suc n)
  then show ?case
    by (simp add: list_update_append Cons_nth_drop_Suc [symmetric] replicate_append_same [symmetric])
qed simp

lemma cgo_buffers [cgo_common]:
  "cgo_NewReadBuffer = NewReadBuffer" "cgo_listOffset = listOffset" "cgo_ListMut = ListMut"
  "cgo_NewDoubleBuffer = NewDoubleBuffer" "cgo_Load = Load" "cgo_Publish = Publish"
proof -
  show new: "cgo_NewReadBuffer = NewReadBuffer"
    by (simp add: fun_eq_iff cgo_NewReadBuffer_def NewReadBuffer_def Let_def fill_loop cgo_constants)
  show off: "cgo_listOffset = listOffset"
    by (simp add: fun_eq_iff cgo_listOffset_def listOffset_def cgo_constants)
  show "cgo_ListMut = ListMut" by (simp add: fun_eq_iff cgo_ListMut_def ListMut_def off)
  show "cgo_NewDoubleBuffer = NewDoubleBuffer"
    by (simp add: fun_eq_iff cgo_NewDoubleBuffer_def NewDoubleBuffer_def new)
qed (simp_all add: fun_eq_iff cgo_Load_def Load_def cgo_Publish_def Publish_def)

lemma cgo_median [cgo_common]: "cgo_medianOfThree = medianOfThree"
  by (auto simp: fun_eq_iff cgo_medianOfThree_def medianOfThree_def Let_def intro!: gbind_cong)

text \<open>The two loops walk in step, the cgo index one below.\<close>

abbreviation one_below :: "'a \<times> nat \<Rightarrow> 'a \<times> int" where
  "one_below \<equiv> \<lambda>(e, i). (e, int i - 1)"

lemma partition_step_below:
  "cgo_partition_step pv j (one_below s) = gbind (partition_step pv j s) (\<lambda>s'. Inr (one_below s'))"
  by (cases s) (auto simp: cgo_partition_step_def partition_step_def Let_def gbind_assoc
      nat_add_distrib intro!: gbind_cong)

lemma partition_loop_below:
  "gfold (cgo_partition_step pv) js (one_below s) =
     gbind (gfold (partition_step pv) js s) (\<lambda>s'. Inr (one_below s'))"
  by (induction js arbitrary: s) (simp_all add: partition_step_below gbind_assoc del: split_paired_All)

lemma cgo_partition [cgo_common]: "cgo_partitionDesc = partitionDesc"
proof (intro ext)
  fix e lo hi
  have loop: "gfold (cgo_partition_step pv) js (e', int lo - 1) =
      gbind (gfold (partition_step pv) js (e', lo)) (\<lambda>s'. Inr (one_below s'))" for pv js e'
    using partition_loop_below [of pv js "(e', lo)"] by simp
  show "cgo_partitionDesc e lo hi = partitionDesc e lo hi"
    unfolding cgo_partitionDesc_def partitionDesc_def cgo_median Let_def loop gbind_assoc
    by (intro gbind_cong refl) auto
qed

lemma cgo_scratch [cgo_common]: "cgo_ensureScratch = ensureScratch"
proof (intro ext)
  fix n and e :: "'m compute_engine"
  show "cgo_ensureScratch n e = ensureScratch n e"
  proof (induction n e rule: cgo_ensureScratch.induct)
    case (1 n e)
    then show ?case
      by (subst cgo_ensureScratch.simps, subst ensureScratch.simps) (simp add: empty_scratch_def)
  qed
qed

text \<open>So what holds of the shared partition holds of the cgo text.\<close>

lemma cgo_partitionDesc_ok:
  assumes "lo \<le> hi" and "hi < length e"
  shows "\<exists>e' p. cgo_partitionDesc e lo hi = Inr (e', p) \<and> mset e' = mset e \<and>
           (\<forall>i. i < lo \<or> hi < i \<longrightarrow> e' ! i = e ! i) \<and> lo \<le> p \<and> p \<le> hi \<and>
           (\<forall>i. lo \<le> i \<and> i \<le> p \<longrightarrow> key (e' ! p) \<le> key (e' ! i)) \<and>
           (\<forall>i. p < i \<and> i \<le> hi \<longrightarrow> key (e' ! i) < key (e' ! p))"
  using partitionDesc_ok [OF assms] unfolding cgo_partition rearranged_def by blast

end
