(* ===== verification/Go_Tests.thy ===== *)
theory Go_Tests
  imports Pure_Main
begin

text \<open>
  \<^verbatim>\<open>compute_test.go\<close> of the pure program: each test as a function of the generator, the
  run-time and the clock, whose result says whether the test passes (neither
  \<^verbatim>\<open>t.Error\<close> nor \<^verbatim>\<open>t.Fatal\<close> is reached).  The lemmas show that all of them pass
  for every generator within its contract.  The numbers of pairs and orders are the tests'
  own; the sizes are those of the program or any larger ones.
\<close>

section \<open>The fixtures\<close>

definition makePairs :: "nat \<Rightarrow> pair_info list" where
  "makePairs numPairs =
     map (\<lambda>i. \<lparr>PPSID = of_nat i + 1, BinTagID = of_nat (100 + i),
                Key = MakePairKey (of_nat i + 1) (of_nat (100 + i))\<rparr>) [0..<numPairs]"

text \<open>The literal with which the tests make an engine: no scratch bank, no number of workers.\<close>

definition test_engine :: "workload \<Rightarrow> pair_info list \<Rightarrow> pps_matrix compute_engine" where
  "test_engine w pairs =
     \<lparr>Matrix = NewPPSMatrix w (numPPS w), Registry = NewOrderRegistry w, Indexes = NewInvertedIndexes,
      Pairs = slice_of pairs, DB = NewDoubleBuffer w (length pairs), Topology = setup_topology pairs,
      numWorkers = 0, scratch = [], pendingWarmup = []\<rparr>"

text \<open>
  One event of the stream with a base score of the test's, ingested.  \<open>now_at\<close> is the clock as
  the stream reads it, \<open>nowSecs\<close> the test's own reading.
\<close>

definition test_ingest ::
  "'g go_rand \<Rightarrow> go_runtime \<Rightarrow> workload \<Rightarrow> (nat \<Rightarrow> i64) \<Rightarrow> (nat \<Rightarrow> float32) \<Rightarrow> i64 \<Rightarrow> nat \<Rightarrow>
     'g mock_order_stream \<times> pps_matrix store \<Rightarrow> ('g mock_order_stream \<times> pps_matrix store) go" where
  "test_ingest R rt w now_at base nowSecs i s =
     (case s of (stream, st) \<Rightarrow>
        gbind (Next R w (now_at i) (of_nat i) stream) (\<lambda>(evt, stream').
        gbind (IngestOrder rt w (evt\<lparr>evBaseScore := base i\<rparr>) nowSecs st) (\<lambda>st'.
        Inr (stream', st'))))"

definition seedSmallEngine ::
  "'g go_rand \<Rightarrow> go_runtime \<Rightarrow> workload \<Rightarrow> (nat \<Rightarrow> i64) \<Rightarrow> i64 \<Rightarrow> nat \<Rightarrow> nat \<Rightarrow> pps_matrix compute_engine go" where
  "seedSmallEngine R rt w now_at nowSecs numPairs numOrders =
     (let eng = test_engine w (makePairs numPairs);
          base = (\<lambda>i. f32_div (f32_of_int (int i)) (f32_of_int (int numOrders)))
      in gbind (gfold (test_ingest R rt w now_at base nowSecs) [0..<numOrders]
                  (NewMockKafkaOrderStream R (int numPairs), (Registry eng, Indexes eng, Matrix eng)))
           (\<lambda>(stream, st). Inr (set_store eng st)))"

section \<open>The tests\<close>

definition TestComputeCycleBasic ::
  "'g go_rand \<Rightarrow> go_runtime \<Rightarrow> workload \<Rightarrow> (nat \<Rightarrow> i64) \<Rightarrow> i64 \<Rightarrow> cycle_clock \<Rightarrow> bool go" where
  "TestComputeCycleBasic R rt w now_at nowSecs clk =
     gbind (seedSmallEngine R rt w now_at nowSecs 5 1000) (\<lambda>eng.
     gbind (RunCycle rt w clk eng) (\<lambda>(stats, eng').
     let buf = Load (DB eng')
     in gfold (\<lambda>p ok. gbind (GetList w buf p TblHeuristic 10) (\<lambda>hList.
                Inr (ok \<and> (\<exists>id \<in> set hList. 0 \<le> sint id)))) [0..<5] True))"

definition TestTopologyWarmupToActive ::
  "go_runtime \<Rightarrow> workload \<Rightarrow> cycle_clock \<Rightarrow> bool go" where
  "TestTopologyWarmupToActive rt w clk =
     (let eng = HandleAddPair 99 199 (test_engine w (makePairs 2)); key = MakePairKey 99 199
      in case Get (Topology eng) key of (status, ok) \<Rightarrow>
           if \<not> ok then Inr False
           else let passed = (status = StatusWarmingUp)
                in gbind (RunCycle rt w clk eng) (\<lambda>(stats, eng').
                   case Get (Topology eng') key of (status', ok') \<Rightarrow>
                     if \<not> ok' then Inr False else Inr (passed \<and> status' = StatusActive)))"

definition refused_with :: "u32 \<Rightarrow> api_error + get_topk_response \<Rightarrow> bool" where
  "refused_with code a = (case a of Inl err \<Rightarrow> Code err = code | Inr r \<Rightarrow> False)"

definition TestCircuitBreakerWarmingUp :: "workload \<Rightarrow> bool go" where
  "TestCircuitBreakerWarmingUp w =
     (let pairs = makePairs 3; srv = NewPriorityServer pairs;
          topo = AddWarmingUp 77 177 (setup_topology pairs)
      in gbind (GetTopK w topo (NewDoubleBuffer w 3) \<lparr>rPPSID = 77, rBinTagID = 177, K = 10\<rparr> srv)
           (\<lambda>a. Inr (refused_with GRPCUnavailable a)))"

definition TestCircuitBreakerRemoved :: "workload \<Rightarrow> bool go" where
  "TestCircuitBreakerRemoved w =
     (let pairs = makePairs 3; srv = NewPriorityServer pairs
      in gbind (go_index pairs 0) (\<lambda>p.
         let topo = Remove (PPSID p) (BinTagID p) (setup_topology pairs)
         in gbind (GetTopK w topo (NewDoubleBuffer w 3) \<lparr>rPPSID = PPSID p, rBinTagID = BinTagID p, K = 10\<rparr> srv)
              (\<lambda>a. Inr (refused_with GRPCNotFound a))))"

text \<open>\<^verbatim>\<open>float32(i+1) * 0.1\<close>\<close>

definition tenths :: "nat \<Rightarrow> float32" where
  "tenths i = f32_mul (f32_of_int (int i + 1)) (F32 13421773 (-27))"

definition new_store :: "workload \<Rightarrow> pps_matrix store" where
  "new_store w = (NewOrderRegistry w, NewInvertedIndexes, NewPPSMatrix w (numPPS w))"

definition ingestion_round ::
  "'g go_rand \<Rightarrow> go_runtime \<Rightarrow> workload \<Rightarrow> (nat \<Rightarrow> i64) \<Rightarrow> i64 \<Rightarrow> nat \<Rightarrow>
     bool \<times> 'g mock_order_stream \<times> pps_matrix store \<Rightarrow>
     (bool \<times> 'g mock_order_stream \<times> pps_matrix store) go" where
  "ingestion_round R rt w now_at nowSecs i s =
     (case s of (ok, s1) \<Rightarrow>
        gbind (test_ingest R rt w now_at tenths nowSecs i s1) (\<lambda>(stream, (r, ix, m)).
        gbind (go_index (Meta r) i) (\<lambda>meta.
        gbind (Row w m 0) (\<lambda>row.
        gbind (go_index row i) (\<lambda>v.
        Inr (ok \<and> Active meta \<and> OrderID meta = of_nat i \<and> InsertedAtSecs meta = nowSecs \<and>
               \<not> sint v \<le> 0,
             stream, (r, ix, m)))))))"

definition TestKafkaOrderIngestion ::
  "'g go_rand \<Rightarrow> go_runtime \<Rightarrow> workload \<Rightarrow> (nat \<Rightarrow> i64) \<Rightarrow> i64 \<Rightarrow> bool go" where
  "TestKafkaOrderIngestion R rt w now_at nowSecs =
     gbind (gfold (ingestion_round R rt w now_at nowSecs) [0..<500]
              (True, NewMockKafkaOrderStream R 5, new_store w)) (\<lambda>(ok, stream, (r, ix, m)).
     Inr (ok \<and> card (dom (TPIDToOrders ix)) \<noteq> 0 \<and> card (dom (BinTagToOrders ix)) \<noteq> 0))"

text \<open>
  \<open>first\<close> is the key that Go's loop over the map visits first, and 0 if it visits none; \<open>late\<close> says
  whether the second reading of the clock is after the deadline.  The delta is
  \<^verbatim>\<open>0.01\<close> as a \<^verbatim>\<open>float32\<close>.
\<close>

definition TestItemDictLatency ::
  "'g go_rand \<Rightarrow> go_runtime \<Rightarrow> workload \<Rightarrow> (nat \<Rightarrow> i64) \<Rightarrow> i64 \<Rightarrow> ((u64 \<rightharpoonup> u32 list) \<Rightarrow> u64) \<Rightarrow> i64 \<Rightarrow>
     cycle_clock \<Rightarrow> bool \<Rightarrow> bool go" where
  "TestItemDictLatency R rt w now_at nowSecs first stamp clk late =
     gbind (seedSmallEngine R rt w now_at nowSecs 5 500) (\<lambda>eng.
     let tpid = first (TPIDToOrders (Indexes eng));
         update = \<lparr>TPIDDeltas = replicate 50 \<lparr>TPID = tpid, ScoreDelta = F32 10737418 (-30)\<rparr>,
                   Timestamp = stamp\<rparr>
     in gbind (RunCycleWithDict rt w clk (Some update) eng) (\<lambda>(stats, eng').
        Inr (\<not> late \<and> \<not> sint (TotalMs stats) > 2000)))"

definition TestOrderEviction ::
  "'g go_rand \<Rightarrow> go_runtime \<Rightarrow> workload \<Rightarrow> (nat \<Rightarrow> i64) \<Rightarrow> i64 \<Rightarrow> bool go" where
  "TestOrderEviction R rt w now_at nowSecs =
     gbind (gfold (test_ingest R rt w now_at (\<lambda>i. F32 1 (-1)) nowSecs) [0..<10]
              (NewMockKafkaOrderStream R 1, new_store w)) (\<lambda>(stream, st).
     gbind (go_index (Meta (fst st)) 3) (\<lambda>before.
     if \<not> Active before then Inr False
     else gbind (EvictOrder w 3 st) (\<lambda>(r, ix, m).
          gbind (go_index (Meta r) 3) (\<lambda>after.
          gfold (\<lambda>p ok. gbind (Row w m p) (\<lambda>row. gbind (go_index row 3) (\<lambda>v. Inr (ok \<and> v = 0))))
            [0..<numPPS w] (\<not> Active after \<and> InsertedAtSecs after = 0)))))"

definition TestPurgeExpired ::
  "'g go_rand \<Rightarrow> go_runtime \<Rightarrow> workload \<Rightarrow> (nat \<Rightarrow> i64) \<Rightarrow> bool go" where
  "TestPurgeExpired R rt w now_at =
     (let baseTime = 1000000; freshTime = baseTime + OrderTTLSecs - 1; half = (\<lambda>i. F32 1 (-1))
      in gbind (gfold (test_ingest R rt w now_at half baseTime) [0..<3]
                  (NewMockKafkaOrderStream R 1, new_store w)) (\<lambda>s.
         gbind (gfold (test_ingest R rt w now_at half freshTime) [3..<5] s) (\<lambda>(stream, st).
         gbind (PurgeExpired w (baseTime + OrderTTLSecs + 1) st) (\<lambda>(r, ix, m).
         gbind (gfold (\<lambda>i ok. gbind (go_index (Meta r) i) (\<lambda>meta. Inr (ok \<and> \<not> Active meta))) [0..<3] True) (\<lambda>old.
         gfold (\<lambda>i ok. gbind (go_index (Meta r) i) (\<lambda>meta. Inr (ok \<and> Active meta))) [3..<5] old)))))"

section \<open>The fixtures are what they seem\<close>

text \<open>A loop of checks, none of which fails.\<close>

lemma checks_pass: "(\<And>x. x \<in> set xs \<Longrightarrow> check x True = Inr True) \<Longrightarrow> gfold check xs True = Inr True"
  by (induction xs) simp_all

lemma makePairs_wf: "pending_wf (makePairs n)" "length (makePairs n) = n"
  by (auto simp: pending_wf_def makePairs_def)

lemma test_engine_inv:
  assumes "workload_ok w"
  shows "pure_inv w (test_engine w pairs)"
  using assms store_inv_New [of w "numPPS w"]
  by (simp add: engine_inv_def test_engine_def workload_ok_def NewDoubleBuffer_def Load_def)

text \<open>
  After \<open>n\<close> events: exactly the first \<open>n\<close> orders are active, inserted at the times \<open>at\<close>, with
  the scores \<open>sc\<close> in every row; they are listed under every bin tag of the stream, and some
  TPID is listed too.
\<close>

definition loaded ::
  "workload \<Rightarrow> (nat \<Rightarrow> i64) \<Rightarrow> (nat \<Rightarrow> i16) \<Rightarrow> nat \<Rightarrow> pps_matrix store \<Rightarrow> bool" where
  "loaded w ins sc n st \<longleftrightarrow>
     (case st of (r, ix, m) \<Rightarrow>
        store_inv w (matrix_wf w) st \<and> NumPPS m = numPPS w \<and>
        (\<forall>j < NumOrders w. Active (Meta r ! j) = (j < n)) \<and>
        (\<forall>j < n. OrderID (Meta r ! j) = of_nat j \<and> InsertedAtSecs (Meta r ! j) = ins j) \<and>
        (\<forall>b. bintag_orders ix b = (if b \<in> set (pure_bintags w) then map of_nat [0..<n] else [])) \<and>
        (\<forall>p < numPPS w. \<forall>j < n. cell w m p j = sc j) \<and>
        (0 < n \<longrightarrow> (\<exists>t. tpid_orders ix t \<noteq> [])))"

lemma loaded_New: "loaded w ins sc 0 (new_store w)"
  using store_inv_New [of w "numPPS w"]
  by (simp add: loaded_def new_store_def NewOrderRegistry_def zero_meta_def NewInvertedIndexes_def
      bintag_orders_def NewPPSMatrix_def)

text \<open>An ingested event with the next order's ID loads one order more.\<close>

lemma loaded_ingested:
  assumes L: "loaded w ins sc i (r, ix, m)" and i: "i < NumOrders w" "NumOrders w \<le> 2 ^ 31"
    and bts: "numBinTags w < 2 ^ 32" and ts: "ts \<noteq> []" and inv: "store_inv w (matrix_wf w) (r', ix', m')"
    and ing: "ingested w mt ts (pure_bintags w) (sc i) NumPPS (cell w) (r, ix, m) (r', ix', m')"
    and mt: "OrderID mt = of_nat i" "Active mt" "InsertedAtSecs mt = ins i"
  shows "loaded w ins sc (Suc i) (r', ix', m')"
proof -
  have l: "store_inv w (matrix_wf w) (r, ix, m)" "NumPPS m = numPPS w"
    "\<forall>j < NumOrders w. Active (Meta r ! j) = (j < i)"
    "\<forall>j < i. OrderID (Meta r ! j) = of_nat j \<and> InsertedAtSecs (Meta r ! j) = ins j"
    "\<forall>b. bintag_orders ix b = (if b \<in> set (pure_bintags w) then map of_nat [0..<i] else [])"
    "\<forall>p < numPPS w. \<forall>j < i. cell w m p j = sc j"
    using L by (simp_all add: loaded_def)
  have u: "unat (of_nat i :: u32) = i" "i < 2 ^ 32" using i by (simp_all add: unat_of_nat take_bit_eq_mod)
  have len: "length (Meta r) = NumOrders w" using l(1) by (simp add: store_inv_def registry_inv_def)
  from ing have M: "Meta r' = (Meta r)[i := mt]"
    and B: "\<And>b. bintag_orders ix' b = removeAll (of_nat i) (bintag_orders ix b) @
          replicate (count_list (pure_bintags w) b) (of_nat i)"
    and T: "\<And>t. tpid_orders ix' t = removeAll (of_nat i) (tpid_orders ix t) @
          replicate (count_list ts t) (of_nat i)"
    and C: "NumPPS m' = numPPS w" "\<forall>p < numPPS w. \<forall>j < NumOrders w. cell w m' p j =
          (if j = i then sc i else cell w m p j)"
    using mt(1) u(1) l(2) by (simp_all add: ingested_def Let_def)
  have "count_list (pure_bintags w) b = (if b \<in> set (pure_bintags w) then 1 else 0)" for b
    using pod_bintags(1) [OF bts] by (rule distinct_count)
  then have "bintag_orders ix' b = (if b \<in> set (pure_bintags w) then map of_nat [0..<Suc i] else [])" for b
    using l(5) u(2) by (simp add: B of_nat_notin_seeded)
  moreover have "tpid_orders ix' (hd ts) \<noteq> []"
    using ts by (simp add: T count_list_0_iff)
  moreover have "Active (Meta r' ! j) = (j < Suc i)" if "j < NumOrders w" for j
    using l(3) that mt(2) len by (auto simp: M nth_list_update less_Suc_eq)
  moreover have "OrderID (Meta r' ! j) = of_nat j \<and> InsertedAtSecs (Meta r' ! j) = ins j" if "j < Suc i" for j
    using l(4) that mt(1,3) i len by (auto simp: M nth_list_update less_Suc_eq)
  moreover have "cell w m' p j = sc j" if "p < numPPS w" "j < Suc i" for p j
    using C(2) l(6) that i by (auto simp: less_Suc_eq)
  ultimately show ?thesis using inv C(1) by (auto simp: loaded_def)
qed

lemma test_ingest_ok:
  assumes R: "rand_contract R" and L: "loaded w ins sc i st" and i: "i < NumOrders w" "NumOrders w \<le> 2 ^ 31"
    and bts: "numBinTags w < 2 ^ 32" and new: "ins i = nowSecs" "sc i = clampInt16 (scale_score rt (base i))"
  shows "\<exists>stream' st'. test_ingest R rt w now_at base nowSecs i (stream, st) = Inr (stream', st') \<and>
           loaded w ins sc (Suc i) st'"
proof -
  obtain r ix m where st: "st = (r, ix, m)" by (cases st)
  note L' = L [unfolded st]
  have u: "unat (of_nat i :: u32) = i" using i by (simp add: unat_of_nat take_bit_eq_mod)
  obtain evt g where evt: "Next R w (now_at i) (of_nat i) stream = Inr (evt, stream\<lparr>stream_rng := g\<rparr>)"
    "stream_event w (now_at i) (of_nat i) evt" using Next_ok [OF R] by blast
  let ?evt = "evt\<lparr>evBaseScore := base i\<rparr>"
  have e: "evOrderID ?evt = of_nat i" "evActive ?evt" "EligibleBinTags ?evt = pure_bintags w" "TPIDs ?evt \<noteq> []"
    using evt(2) by (auto simp: stream_event_def)
  then have "unat (evOrderID ?evt) < NumOrders w" using u i by simp
  moreover have "store_inv w (matrix_wf w) (r, ix, m)" using L' by (simp add: loaded_def)
  ultimately obtain r' ix' m' where st':
    "IngestOrder rt w ?evt nowSecs (r, ix, m) = Inr (r', ix', m')"
    "store_inv w (matrix_wf w) (r', ix', m')"
    "ingested w (event_meta ?evt nowSecs) (TPIDs ?evt) (pure_bintags w) (sc i) NumPPS (cell w) (r, ix, m) (r', ix', m')"
    using IngestOrder_steps [of w "(r, ix, m)" ?evt rt nowSecs] e(3) new(2) by auto
  have "loaded w ins sc (Suc i) (r', ix', m')"
    by (rule loaded_ingested [OF L' i bts e(4) st'(2,3)]) (use e new(1) in \<open>simp_all add: event_meta_def\<close>)
  moreover have "test_ingest R rt w now_at base nowSecs i (stream, st) = Inr (stream\<lparr>stream_rng := g\<rparr>, r', ix', m')"
    using evt(1) st'(1) by (simp add: test_ingest_def st)
  ultimately show ?thesis by blast
qed

text \<open>A run of events, from any number of orders to any other.\<close>

lemma test_orders_ok:
  assumes R: "rand_contract R" and L: "loaded w ins sc a st" and n: "a \<le> b" "b \<le> NumOrders w" "NumOrders w \<le> 2 ^ 31"
    and bts: "numBinTags w < 2 ^ 32"
    and new: "\<And>i. a \<le> i \<Longrightarrow> i < b \<Longrightarrow> ins i = nowSecs \<and> sc i = clampInt16 (scale_score rt (base i))"
  shows "\<exists>stream' st'. gfold (test_ingest R rt w now_at base nowSecs) [a..<b] (stream, st) = Inr (stream', st') \<and>
           loaded w ins sc b st'"
proof -
  let ?P = "\<lambda>i (stream :: 'a mock_order_stream, st'). loaded w ins sc i st'"
  have "\<exists>s'. gfold (test_ingest R rt w now_at base nowSecs) [a..<b] (stream, st) = Inr s' \<and> ?P b s'"
  proof (rule gfold_upt_inv)
    show "?P a (stream, st)" using L by simp
  next
    fix i s assume i: "a \<le> i" "i < b" and P: "?P i s"
    obtain stream1 st1 where s: "s = (stream1, st1)" by (cases s)
    have "loaded w ins sc i st1" "i < NumOrders w" using P i n by (simp_all add: s)
    from test_ingest_ok [OF R this n(3) bts, of nowSecs rt base now_at stream1] new [OF i]
    show "\<exists>s'. test_ingest R rt w now_at base nowSecs i s = Inr s' \<and> ?P (Suc i) s'" by (auto simp: s)
  qed (rule n(1))
  then show ?thesis by auto
qed

lemma seedSmallEngine_ok:
  assumes R: "rand_contract R" and w: "workload_ok w" "numBinTags w < 2 ^ 32" and n: "n \<le> NumOrders w"
  shows "\<exists>e sc. seedSmallEngine R rt w now_at nowSecs np n = Inr e \<and> pure_inv w e \<and>
           Pairs e = slice_of (makePairs np) \<and> Topology e = setup_topology (makePairs np) \<and>
           pendingWarmup e = [] \<and> loaded w (\<lambda>_. nowSecs) sc n (Registry e, Indexes e, Matrix e)"
proof -
  let ?e = "test_engine w (makePairs np)"
  let ?base = "\<lambda>i. f32_div (f32_of_int (int i)) (f32_of_int (int n))"
  let ?sc = "\<lambda>i. clampInt16 (scale_score rt (?base i))"
  have st: "(Registry ?e, Indexes ?e, Matrix ?e) = new_store w" by (simp add: test_engine_def new_store_def)
  have w31: "NumOrders w \<le> 2 ^ 31" "0 < numPPS w" using w(1) by (simp_all add: workload_ok_def)
  obtain stream r ix m where s:
    "gfold (test_ingest R rt w now_at ?base nowSecs) [0..<n] (NewMockKafkaOrderStream R (int np), new_store w) =
       Inr (stream, r, ix, m)" "loaded w (\<lambda>_. nowSecs) ?sc n (r, ix, m)"
    using test_orders_ok [OF R loaded_New le0 n w31(1) w(2), where ins = "\<lambda>_. nowSecs" and sc = ?sc
        and base = ?base and stream = "NewMockKafkaOrderStream R (int np)"] by (simp (no_asm_use)) blast
  then have "pure_inv w (set_store ?e (r, ix, m))"
    using test_engine_inv [OF w(1), of "makePairs np"] w31(2) by (simp add: engine_inv_def loaded_def)
  with s show ?thesis
    by (intro exI [of _ "set_store ?e (r, ix, m)"] exI [of _ ?sc])
      (simp add: seedSmallEngine_def Let_def st, simp add: test_engine_def)
qed

section \<open>The cycle tests\<close>

text \<open>Where every active order is fresh, a cycle purges nothing.\<close>

lemma purge_nothing:
  assumes "\<forall>m \<in> set (Meta r). Active m \<longrightarrow> InsertedAtSecs m = t" and "fresh_at t now"
  shows "map (purge_meta now) (Meta r) = Meta r" "expired_ids now r = []"
proof -
  have "\<not> expired now m" if "m \<in> set (Meta r)" for m
    using assms that by (auto simp: expired_def fresh_at_def)
  then show "map (purge_meta now) (Meta r) = Meta r" "expired_ids now r = []"
    by (simp_all add: purge_meta_def expired_ids_def map_idI)
qed

lemma loaded_fresh:
  assumes "loaded w (\<lambda>_. t) sc n (r, ix, m)" and "fresh_at t now" and "n \<le> NumOrders w"
  shows "map (purge_meta now) (Meta r) = Meta r" "expired_ids now r = []"
proof -
  have "length (Meta r) = NumOrders w"
    using assms(1) by (simp add: loaded_def store_inv_def registry_inv_def)
  then have "\<forall>m \<in> set (Meta r). Active m \<longrightarrow> InsertedAtSecs m = t"
    using assms(1,3) by (auto simp: loaded_def in_set_conv_nth)
  then show "map (purge_meta now) (Meta r) = Meta r" "expired_ids now r = []"
    using assms(2) by (rule purge_nothing)+
qed

text \<open>A pair whose list of eligible orders holds an active order has a first entry.\<close>

lemma first_entry:
  assumes slot: "ranked_slot w (Some (table_entries now reg sc oids)) TblHeuristic xs"
    and oid: "oid \<in> set oids" "Active (Meta reg ! unat oid)" and k: "0 < TopK w" "0 < k"
    and range: "\<forall>oid \<in> set oids. unat oid < 2 ^ 31"
  shows "\<exists>id \<in> set (take k xs). 0 \<le> sint id"
proof -
  let ?tabs = "table_entries now reg sc oids"
  obtain ys where ys: "top_k (TopK w) (tbl ?tabs TblHeuristic) ys"
    "xs = map orderID ys @ replicate (TopK w - length ys) (-1)"
    using slot by (auto simp: ranked_slot_def)
  have "oid \<in> set (candidates reg oids)" using oid by (simp add: candidates_def)
  then have "tbl ?tabs TblHeuristic \<noteq> []" by (auto simp: tbl_def table_entries_def Let_def)
  then have "ys \<noteq> []" using top_k_length [OF ys(1)] k(1) by (auto simp: min_def split: if_splits)
  then have y: "hd ys \<in> set ys" "orderID (hd ys) \<in> set (take k xs)"
    using k(2) ys(2) by (cases ys; cases k; simp)+
  have "hd ys \<in> set (tbl ?tabs TblHeuristic)" using top_k_set [OF ys(1)] y(1) by blast
  then have "unat (orderID (hd ys)) < 2 ^ 31" using table_orders range by blast
  then show ?thesis using y(2) sint_nonneg by blast
qed

lemma zero_listed: "0 < n \<Longrightarrow> (0 :: u32) \<in> set (map of_nat [0..<n])"
  unfolding set_map by (rule image_eqI [of _ _ 0]) simp_all

lemma TestComputeCycleBasic_ok:
  assumes R: "rand_contract R" and rt: "sort_contract rt" and w: "workload_ok w" "numBinTags w < 2 ^ 32"
    and n: "1000 \<le> NumOrders w" and k: "0 < TopK w" and fresh: "fresh_at nowSecs (now_secs clk)"
  shows "TestComputeCycleBasic R rt w now_at nowSecs clk = Inr True"
proof -
  let ?now = "now_secs clk"
  obtain e sc where e: "seedSmallEngine R rt w now_at nowSecs 5 1000 = Inr e" "pure_inv w e"
    "Pairs e = slice_of (makePairs 5)" "Topology e = setup_topology (makePairs 5)"
    "loaded w (\<lambda>_. nowSecs) sc 1000 (Registry e, Indexes e, Matrix e)"
    using seedSmallEngine_ok [OF R w n, of rt now_at nowSecs 5] by blast
  note same = loaded_fresh [OF e(5) fresh n]
  from cycle_ok [OF e(2) rt, of clk None] obtain stats e' where
    c: "RunCycleWithDict rt w clk None e = Inr (stats, e')" "pure_inv w e'"
    "store_after_cycle w ?now (update_deltas rt None) (NumPPS (Matrix e)) (cell w (Matrix e)) (cell w (Matrix e')) e e'"
    "ranked_buffer w (slen (Pairs e)) (pair_tables w ?now (e'\<lparr>Topology := Topology e\<rparr>)) (Load (DB e'))"
    by blast
  have e': "Pairs e' = slice_of (makePairs 5)" "Meta (Registry e') = Meta (Registry e)" "Indexes e' = Indexes e"
    using c(3) same e(3) by (simp_all add: store_after_cycle_def)
  have w31: "NumOrders w \<le> 2 ^ 31" using w(1) by (simp add: workload_ok_def)
  have list: "\<exists>id \<in> set (take 10 (rb_list w (Load (DB e')) p TblHeuristic)). 0 \<le> sint id" if p: "p < 5" for p
  proof -
    let ?pair = "makePairs 5 ! p" and ?ix = "Indexes e'" and ?r = "Registry e'"
    let ?oids = "pair_orders w ?r ?ix ?pair"
    have "val (Topology e) k \<noteq> Some StatusRemoved" for k
      using setup_topology_val [OF makePairs_wf(1), of 5 k] by (simp add: e(4))
    then obtain s where t: "pair_tables w ?now (e'\<lparr>Topology := Topology e\<rparr>) p = Some (table_entries ?now ?r s ?oids)"
      by (simp add: pair_tables_def Let_def e')
    have "p < slen (Pairs e)" using p by (simp add: e(3) makePairs_wf)
    from ranked_buffer_slot [OF c(4) this, of TblHeuristic]
    have slot: "ranked_slot w (Some (table_entries ?now ?r s ?oids)) TblHeuristic (rb_list w (Load (DB e')) p TblHeuristic)"
      by (simp add: t table_defs)
    have "bintag_orders ?ix (BinTagID ?pair) = [] \<or> bintag_orders ?ix (BinTagID ?pair) = map of_nat [0..<1000]"
      using e(5) by (simp add: loaded_def e'(3))
    then have "0 \<in> set ?oids" using zero_listed [of "NumOrders w"] zero_listed [of 1000] n
      unfolding pair_orders_def by (elim disjE) (simp_all only: if_True if_False if_cancel list.map, simp_all)
    moreover have "Active (Meta ?r ! unat (0 :: u32))" using e(5) n by (simp add: loaded_def e'(2))
    moreover have "\<forall>oid \<in> set ?oids. unat oid < 2 ^ 31"
      using pair_orders_range [of w ?ix] c(2) w(1) w31
      by (fastforce simp: engine_inv_def store_inv_def)
    ultimately show ?thesis using first_entry [OF slot _ _ k, of 0 10] by simp
  qed
  have "rb_wf w (Load (DB e'))" "NumPairs (Load (DB e')) = 5"
    using c(4) by (simp_all add: ranked_buffer_def e(3) makePairs_wf)
  then have "GetList w (Load (DB e')) p TblHeuristic 10 = Inr (take 10 (rb_list w (Load (DB e')) p TblHeuristic))" if "p < 5" for p
    using that by (simp add: GetList_ok table_defs)
  then have "gfold (\<lambda>p ok. gbind (GetList w (Load (DB e')) p TblHeuristic 10)
      (\<lambda>hList. Inr (ok \<and> (\<exists>id \<in> set hList. 0 \<le> sint id)))) [0..<5] True = Inr True"
    using list by (intro checks_pass) simp
  then show ?thesis using e(1) c(1) by (simp add: TestComputeCycleBasic_def RunCycle_def Let_def)
qed

lemma TestTopologyWarmupToActive_ok:
  assumes w: "workload_ok w" and rt: "sort_contract rt"
  shows "TestTopologyWarmupToActive rt w clk = Inr True"
proof -
  let ?e = "HandleAddPair 99 199 (test_engine w (makePairs 2))" and ?k = "MakePairKey 99 199"
  have inv: "pure_inv w ?e" using test_engine_inv [OF w] by (rule engine_inv_topology)
  have e: "val (Topology ?e) ?k = Some StatusWarmingUp" "pair_of 99 199 \<in> set (pendingWarmup ?e)"
    by (simp_all add: HandleAddPair_def topo_val)
  from cycle_ok [OF inv rt, of clk None] obtain stats e' where
    c: "RunCycleWithDict rt w clk None ?e = Inr (stats, e')" "promoted (pendingWarmup ?e) (Topology ?e) (Topology e')"
    by blast
  have "?k \<in> Key ` set (pendingWarmup ?e)" using e(2) by (metis image_eqI pair_of_simps(3))
  then have "val (Topology e') ?k = Some StatusActive" using c(2) e(1) by (simp add: promoted_def)
  then have "Get (Topology e') ?k = (StatusActive, True)" "Get (Topology ?e) ?k = (StatusWarmingUp, True)"
    using e(1) by (simp_all add: Get_eq_Some)
  then show ?thesis using c(1) by (simp add: TestTopologyWarmupToActive_def RunCycle_def Let_def)
qed

lemma TestItemDictLatency_ok:
  assumes R: "rand_contract R" and rt: "sort_contract rt" and w: "workload_ok w" "numBinTags w < 2 ^ 32"
    and n: "500 \<le> NumOrders w"
  shows "TestItemDictLatency R rt w now_at nowSecs first stamp clk late =
           Inr (\<not> late \<and> sint (total_elapsed clk) \<le> 2000)"
proof -
  obtain e where e: "seedSmallEngine R rt w now_at nowSecs 5 500 = Inr e" "pure_inv w e"
    using seedSmallEngine_ok [OF R w n, of rt now_at nowSecs 5] by blast
  let ?u = "\<lparr>TPIDDeltas = replicate 50 \<lparr>TPID = first (TPIDToOrders (Indexes e)), ScoreDelta = F32 10737418 (-30)\<rparr>,
      Timestamp = stamp\<rparr>"
  from cycle_ok [OF e(2) rt, of clk "Some ?u"] obtain stats e' where
    c: "RunCycleWithDict rt w clk (Some ?u) e = Inr (stats, e')" by blast
  then have "TotalMs stats = total_elapsed clk"
    by (auto simp: RunCycleWithDict_def cycle_result_def Let_def gbind_eq_Inr)
  then show ?thesis using e(1) c by (simp add: TestItemDictLatency_def Let_def not_less)
qed

section \<open>The server tests\<close>

lemma TestCircuitBreakerWarmingUp_ok: "TestCircuitBreakerWarmingUp w = Inr True"
proof -
  let ?req = "\<lparr>rPPSID = 77, rBinTagID = 177, K = 10\<rparr>"
  have "val (AddWarmingUp 77 177 (setup_topology (makePairs 3))) (MakePairKey (rPPSID ?req) (rBinTagID ?req)) =
      Some StatusWarmingUp" by (simp add: topo_val)
  from GetTopK_warming [OF this, of w "NewDoubleBuffer w 3" "NewPriorityServer (makePairs 3)"]
  show ?thesis by (auto simp: TestCircuitBreakerWarmingUp_def Let_def refused_with_def)
qed

lemma TestCircuitBreakerRemoved_ok: "TestCircuitBreakerRemoved w = Inr True"
proof -
  let ?p = "makePairs 3 ! 0"
  let ?req = "\<lparr>rPPSID = PPSID ?p, rBinTagID = BinTagID ?p, K = 10\<rparr>"
  have "val (Remove (PPSID ?p) (BinTagID ?p) (setup_topology (makePairs 3)))
      (MakePairKey (rPPSID ?req) (rBinTagID ?req)) \<in> {None, Some StatusRemoved}" by (simp add: topo_val)
  from GetTopK_not_found [OF this, of w "NewDoubleBuffer w 3" "NewPriorityServer (makePairs 3)"]
  show ?thesis using makePairs_wf(2) [of 3]
    by (auto simp: TestCircuitBreakerRemoved_def Let_def refused_with_def go_index_def)
qed

section \<open>The store tests\<close>

text \<open>The scores of the ingestion test are positive: between \<open>2 ^ 2\<close> and \<open>2 ^ 13\<close>.\<close>

lemma tenths_positive:
  assumes "i < 500"
  shows "0 < sint (clampInt16 (scale_score rt (tenths i)))"
proof -
  have int: "f32_of_int (int i + 1) = F32 (int i + 1) 0"
    unfolding f32_of_int_def using assms by (intro f32_round_exact) simp_all
  have v: "f32_val (F32 13421773 (-27)) = 13421773 / 134217728" "f32_val (F32 (int i + 1) 0) = real i + 1"
    by (simp_all add: power_int_minus)
  have "real i + 1 \<le> 500" using assms by simp
  then have p: "2 powi (-4) \<le> f32_val (F32 (int i + 1) 0) * f32_val (F32 13421773 (-27))"
    "f32_val (F32 (int i + 1) 0) * f32_val (F32 13421773 (-27)) \<le> 2 powi 6"
    unfolding v by (simp_all add: power_int_minus)
  have t: "f32_at_least (-4) (tenths i)" "f32_within 6 (tenths i)"
    unfolding tenths_def int using f32_mul_at_least [OF p] by auto
  then obtain m e where me: "tenths i = F32 m e" "2 powi (-4) \<le> f32_val (F32 m e)" "\<bar>f32_val (F32 m e)\<bar> \<le> 2 powi 6"
    by (auto simp: f32_at_least_def f32_within_def)
  have "2 powi 2 \<le> f32_val (F32 m e) * f32_val (F32 100 0)" "f32_val (F32 m e) * f32_val (F32 100 0) \<le> 2 powi 13"
    using me(2,3) by (simp_all add: power_int_minus)
  from f32_mul_at_least [OF this] have s: "f32_at_least 2 (f32_mul (tenths i) ScoreScale)"
    "f32_within 13 (f32_mul (tenths i) ScoreScale)"
    unfolding me(1) ScoreScale_def by auto
  from int32_at_least [of 2 _ 13] s have "2 ^ 2 \<le> sint (scale_score rt (tenths i))"
    by (simp add: scale_score_def)
  moreover from int32_within [of 13] s(2) have "\<bar>sint (scale_score rt (tenths i))\<bar> \<le> 2 ^ 13"
    by (simp add: scale_score_def)
  ultimately show ?thesis by (simp add: sint_clampInt16 clamp_int_def)
qed

lemma dom_tpids:
  assumes "index_inv ix"
  shows "dom (TPIDToOrders ix) = {t. tpid_orders ix t \<noteq> []}"
  using assms by (auto simp: index_inv_def no_empty_def tpid_orders_def map_list_def split: option.splits)

lemma loaded_indexes:
  assumes L: "loaded w ins sc n (r, ix, m)" and "0 < n" "0 < numBinTags w"
  shows "card (dom (TPIDToOrders ix)) \<noteq> 0" "card (dom (BinTagToOrders ix)) \<noteq> 0"
proof -
  have i: "index_inv ix" "index_range w ix" using L by (simp_all add: loaded_def store_inv_def)
  have "dom (TPIDToOrders ix) \<noteq> {}" using L assms(2) by (simp add: loaded_def dom_tpids [OF i(1)])
  then show "card (dom (TPIDToOrders ix)) \<noteq> 0" by simp
  have "dom (BinTagToOrders ix) = set (pure_bintags w)"
    using L assms(2) by (auto simp: loaded_def dom_bintags [OF i(1)])
  then show "card (dom (BinTagToOrders ix)) \<noteq> 0" using assms(3) by simp
qed

text \<open>What the tests read from a loaded store.\<close>

lemma loaded_reads:
  assumes L: "loaded w ins sc n (r, ix, m)" and j: "j < NumOrders w"
  shows "go_index (Meta r) j = Inr (Meta r ! j)"
    and "p < numPPS w \<Longrightarrow> \<exists>row. Row w m p = Inr row \<and> go_index row j = Inr (cell w m p j)"
proof -
  have s: "length (Meta r) = NumOrders w" "matrix_wf w m" "NumPPS m = numPPS w"
    using L by (simp_all add: loaded_def store_inv_def registry_inv_def)
  then show "go_index (Meta r) j = Inr (Meta r ! j)" using j by (simp add: go_index_def)
  show "p < numPPS w \<Longrightarrow> \<exists>row. Row w m p = Inr row \<and> go_index row j = Inr (cell w m p j)"
    using s(2,3) j Row_ok [of w m p] by (auto simp: go_index_def)
qed

lemma ingestion_round_ok:
  assumes R: "rand_contract R" and L: "loaded w (\<lambda>_. nowSecs) sc i st" and i: "i < 500" "500 \<le> NumOrders w"
    and w: "NumOrders w \<le> 2 ^ 31" "0 < numPPS w" "numBinTags w < 2 ^ 32"
    and sc: "sc = (\<lambda>i. clampInt16 (scale_score rt (tenths i)))"
  shows "\<exists>stream' st'. ingestion_round R rt w now_at nowSecs i (True, stream, st) = Inr (True, stream', st') \<and>
           loaded w (\<lambda>_. nowSecs) sc (Suc i) st'"
proof -
  have n: "i < NumOrders w" using i by simp
  obtain stream' r ix m where t: "test_ingest R rt w now_at tenths nowSecs i (stream, st) = Inr (stream', r, ix, m)"
    "loaded w (\<lambda>_. nowSecs) sc (Suc i) (r, ix, m)"
    using test_ingest_ok [OF R L n w(1,3), of nowSecs rt tenths now_at stream] by (auto simp: sc)
  note reads = loaded_reads [OF t(2) n]
  obtain row where row: "Row w m 0 = Inr row" "go_index row i = Inr (cell w m 0 i)" using reads(2) [of 0] w(2) by blast
  have "Active (Meta r ! i)" "OrderID (Meta r ! i) = of_nat i" "InsertedAtSecs (Meta r ! i) = nowSecs"
    "cell w m 0 i = sc i"
    using t(2) n w(2) by (auto simp: loaded_def)
  then show ?thesis using t reads(1) row tenths_positive [OF i(1), of rt]
    by (simp add: ingestion_round_def sc)
qed

lemma TestKafkaOrderIngestion_ok:
  assumes R: "rand_contract R" and w: "workload_ok w" "0 < numBinTags w" "numBinTags w < 2 ^ 32"
    and n: "500 \<le> NumOrders w"
  shows "TestKafkaOrderIngestion R rt w now_at nowSecs = Inr True"
proof -
  define sc where "sc = (\<lambda>i. clampInt16 (scale_score rt (tenths i)))"
  have w31: "NumOrders w \<le> 2 ^ 31" "0 < numPPS w" using w(1) by (simp_all add: workload_ok_def)
  let ?P = "\<lambda>i (ok, stream :: 'a mock_order_stream, st). ok \<and> loaded w (\<lambda>_. nowSecs) sc i st"
  have "\<exists>s'. gfold (ingestion_round R rt w now_at nowSecs) [0..<500]
      (True, NewMockKafkaOrderStream R 5, new_store w) = Inr s' \<and> ?P 500 s'"
  proof (rule gfold_upt_inv)
    show "?P 0 (True, NewMockKafkaOrderStream R 5, new_store w)" by (simp add: loaded_New)
  next
    fix i s assume i: "i < (500 :: nat)" and P: "?P i s"
    then obtain stream st where s: "s = (True, stream, st)" "loaded w (\<lambda>_. nowSecs) sc i st" by (cases s) auto
    from ingestion_round_ok [OF R s(2) i n w31 w(3) sc_def, of now_at stream]
    show "\<exists>s'. ingestion_round R rt w now_at nowSecs i s = Inr s' \<and> ?P (Suc i) s'" by (auto simp: s(1))
  qed simp
  then obtain stream r ix m where run: "gfold (ingestion_round R rt w now_at nowSecs) [0..<500]
      (True, NewMockKafkaOrderStream R 5, new_store w) = Inr (True, stream, r, ix, m)"
    and L: "loaded w (\<lambda>_. nowSecs) sc 500 (r, ix, m)" by auto
  from loaded_indexes [OF L _ w(2)] run show ?thesis by (simp add: TestKafkaOrderIngestion_def)
qed

lemma TestOrderEviction_ok:
  assumes R: "rand_contract R" and w: "workload_ok w" "numBinTags w < 2 ^ 32" and n: "10 \<le> NumOrders w"
  shows "TestOrderEviction R rt w now_at nowSecs = Inr True"
proof -
  let ?half = "\<lambda>i :: nat. F32 1 (-1)"
  let ?sc = "\<lambda>i. clampInt16 (scale_score rt (?half i))"
  have w31: "NumOrders w \<le> 2 ^ 31" "0 < numPPS w" using w(1) by (simp_all add: workload_ok_def)
  obtain stream r ix m where s:
    "gfold (test_ingest R rt w now_at ?half nowSecs) [0..<10] (NewMockKafkaOrderStream R 1, new_store w) =
       Inr (stream, r, ix, m)" "loaded w (\<lambda>_. nowSecs) ?sc 10 (r, ix, m)"
    using test_orders_ok [OF R loaded_New le0 n w31(1) w(2), where ins = "\<lambda>_. nowSecs" and sc = ?sc
        and base = ?half and stream = "NewMockKafkaOrderStream R 1"] by (simp (no_asm_use)) blast
  have i: "registry_inv w r" "matrix_wf w m" "NumPPS m = numPPS w" "Active (Meta r ! 3)"
    using s(2) n by (simp_all add: loaded_def store_inv_def)
  have u: "unat (3 :: u32) = 3" by simp
  have "unat (3 :: u32) < NumOrders w" using n by simp
  from pstore.evict_active [OF i(1) this _ i(2), of ix] i(4) obtain m' where m':
    "EvictOrder w 3 (r, ix, m) = Inr (r\<lparr>Meta := (Meta r)[3 := deactivated (Meta r ! 3)]\<rparr>, RemoveOrder 3 ix, m')"
    "matrix_wf w m'" "NumPPS m' = NumPPS m"
    "\<forall>p < NumPPS m. \<forall>j < NumOrders w. cell w m' p j = (if j = 3 then 0 else cell w m p j)"
    unfolding EvictOrder_def u by blast
  have zero: "\<exists>row. Row w m' p = Inr row \<and> go_index row 3 = Inr 0" if "p < numPPS w" for p
    using m'(2-4) that i(3) n Row_ok [of w m' p] by (auto simp: go_index_def)
  have "gfold (\<lambda>p ok. gbind (Row w m' p) (\<lambda>row. gbind (go_index row 3) (\<lambda>v. Inr (ok \<and> v = 0))))
      [0..<numPPS w] True = Inr True"
    using zero by (intro checks_pass) fastforce
  moreover have "length (Meta r) = NumOrders w" using i(1) by (simp add: registry_inv_def)
  ultimately show ?thesis using s(1) m'(1) i(4) n
    by (simp add: TestOrderEviction_def Let_def go_index_def)
qed

text \<open>The purge test: the first three orders are one second past their time to live.\<close>

lemma TestPurgeExpired_ok:
  assumes R: "rand_contract R" and w: "workload_ok w" "numBinTags w < 2 ^ 32" and n: "5 \<le> NumOrders w"
  shows "TestPurgeExpired R rt w now_at = Inr True"
proof -
  let ?half = "\<lambda>i :: nat. F32 1 (-1)" and ?base = "1000000 :: i64"
  let ?fresh = "?base + OrderTTLSecs - 1" and ?now = "?base + OrderTTLSecs + 1"
  let ?ins = "\<lambda>i :: nat. if i < 3 then ?base else ?fresh"
  let ?sc = "\<lambda>i. clampInt16 (scale_score rt (?half i))"
  have w31: "NumOrders w \<le> 2 ^ 31" "3 \<le> NumOrders w" using w(1) n by (simp_all add: workload_ok_def)
  obtain stream0 st0 where s0:
    "gfold (test_ingest R rt w now_at ?half ?base) [0..<3] (NewMockKafkaOrderStream R 1, new_store w) =
       Inr (stream0, st0)" "loaded w ?ins ?sc 3 st0"
    using test_orders_ok [OF R loaded_New le0 w31(2,1) w(2), where ins = ?ins and sc = ?sc
        and base = ?half and stream = "NewMockKafkaOrderStream R 1" and nowSecs = ?base and rt = rt
        and now_at = now_at] by auto
  obtain stream r ix m where s:
    "gfold (test_ingest R rt w now_at ?half ?fresh) [3..<5] (stream0, st0) = Inr (stream, r, ix, m)"
    "loaded w ?ins ?sc 5 (r, ix, m)"
    using test_orders_ok [OF R s0(2) _ n w31(1) w(2), where base = ?half and stream = stream0 and nowSecs = ?fresh
        and rt = rt and now_at = now_at] by auto
  have i: "registry_inv w r" "matrix_wf w m" using s(2) by (simp_all add: loaded_def store_inv_def)
  then have len: "length (Meta r) = NumOrders w" by (simp add: registry_inv_def)
  obtain m' where p: "PurgeExpired w ?now (r, ix, m) =
      Inr (r\<lparr>Meta := map (purge_meta ?now) (Meta r)\<rparr>, fold RemoveOrder (expired_ids ?now r) ix, m')"
    using pstore.purge_ok [OF i] unfolding PurgeExpired_def by blast
  have act: "Active (Meta r ! j)" "InsertedAtSecs (Meta r ! j) = ?ins j" if "j < 5" for j
    using s(2) that n by (simp_all add: loaded_def)
  have old: "expired ?now (Meta r ! j)" if "j < 3" for j
    using act [of j] that by (simp add: expired_def OrderTTLSecs_def)
  have new: "\<not> expired ?now (Meta r ! j)" if "3 \<le> j" "j < 5" for j
    using act [of j] that by (simp add: expired_def OrderTTLSecs_def)
  have "gfold (\<lambda>i ok. gbind (go_index (map (purge_meta ?now) (Meta r)) i) (\<lambda>meta. Inr (ok \<and> \<not> Active meta)))
      [0..<3] True = Inr True"
    using old len n by (intro checks_pass) (simp add: go_index_def purge_meta_def)
  moreover have "gfold (\<lambda>i ok. gbind (go_index (map (purge_meta ?now) (Meta r)) i) (\<lambda>meta. Inr (ok \<and> Active meta)))
      [3..<5] True = Inr True"
    using new act(1) len n by (intro checks_pass) (auto simp: go_index_def purge_meta_def)
  ultimately show ?thesis using s0(1) s(1) p by (simp add: TestPurgeExpired_def Let_def)
qed

end
