(* ===== verification/Cgo_Tests.thy ===== *)
theory Cgo_Tests
  imports Go_Tests Cgo_Main
begin

text \<open>
  \<^verbatim>\<open>compute_test.go\<close> of the cgo program.  Two of its tests depend on the numbers the
  generator draws: the cycle test needs an order with the first pair's bin tag, and the
  ingestion test counts index entries as if no order could be drawn twice.  The lemmas say
  exactly when these two pass; the others always do.  The matrix a test frees at its end is
  not looked at afterwards, so the release is left out.
\<close>

section \<open>The fixtures\<close>

definition cgo_buildPairs :: "nat \<Rightarrow> nat \<Rightarrow> pair_info list" where
  "cgo_buildPairs numPPSArg nbt =
     fold (\<lambda>p. fold (\<lambda>b pairs. pairs @ [\<lparr>PPSID = of_nat p, BinTagID = of_nat b,
                                          Key = MakePairKey (of_nat p) (of_nat b)\<rparr>]) [0..<nbt])
       [0..<numPPSArg] []"

definition cgo_ingest_all ::
  "go_runtime \<Rightarrow> workload \<Rightarrow> i64 \<Rightarrow> cgo_kafka_order_event list \<Rightarrow> c_matrix option store \<Rightarrow>
     c_matrix option store go" where
  "cgo_ingest_all rt w nowSecs = gfold (\<lambda>evt. cgo_IngestOrder rt w evt nowSecs)"

text \<open>What the ingestion leaves is the engine's: its registry, indexes and matrix are pointers.\<close>

definition put_store :: "c_matrix compute_engine \<Rightarrow> c_matrix option store \<Rightarrow> c_matrix compute_engine" where
  "put_store e st = (case st of (r, ix, mo) \<Rightarrow>
     (case mo of None \<Rightarrow> e\<lparr>Registry := r, Indexes := ix\<rparr> | Some m \<Rightarrow> set_store e (r, ix, m)))"

section \<open>The tests\<close>

text \<open>
  The check of the list's order, on the scores of the pair's row; it ends at an empty slot.
\<close>

fun descending :: "workload \<Rightarrow> c_matrix \<Rightarrow> nat \<Rightarrow> i32 list \<Rightarrow> bool go" where
  "descending w m row (before # after # ids) =
     (if sint before < 0 \<or> sint after < 0 then Inr True
      else gbind (row_read w m row (unat before)) (\<lambda>a.
           gbind (row_read w m row (unat after)) (\<lambda>b.
           gbind (descending w m row (after # ids)) (\<lambda>ok. Inr (\<not> sint a < sint b \<and> ok)))))"
| "descending w m row ids = Inr True"

definition test_cycle ::
  "'g go_rand \<Rightarrow> go_runtime \<Rightarrow> workload \<Rightarrow> (nat \<Rightarrow> cycle_clock) \<Rightarrow> nat \<Rightarrow>
     bool \<times> 'g cgo_item_dict_client \<times> c_matrix compute_engine \<Rightarrow>
     (bool \<times> 'g cgo_item_dict_client \<times> c_matrix compute_engine) go" where
  "test_cycle R rt w clk i s =
     (case s of (ok, dict, e) \<Rightarrow>
        gbind (cgo_Fetch R rt dict) (\<lambda>(delayMs, update, dict').
        gbind (cgo_RunCycleWithDict rt w (clk i) (Some update) e) (\<lambda>(stats, e').
        Inr (ok \<and> \<not> sint (TotalMs stats) > 30000, dict', e'))))"

definition cgo_TestComputeCycleBasic ::
  "'g go_rand \<Rightarrow> go_runtime \<Rightarrow> workload \<Rightarrow> bool \<Rightarrow> i64 \<Rightarrow> i64 \<Rightarrow> (nat \<Rightarrow> cycle_clock) \<Rightarrow> bool go" where
  "cgo_TestComputeCycleBasic R rt w enough_memory batch_now nowSecs clk =
     (let pairs = cgo_buildPairs 1 5;
          topo = fold (\<lambda>p. cgo_Activate (PPSID p) (BinTagID p)) pairs NewTopologyState;
          db = NewDoubleBuffer w (length pairs);
          stream = cgo_NewMockKafkaOrderStream R 42 (of_nat (NumOrders w)) 5000 5
      in gbind (cgo_NewComputeEngine w enough_memory (slice_of pairs) db topo NumWorkers) (\<lambda>e0.
         gbind (GenerateBatch R rt batch_now 10000 stream) (\<lambda>(events, stream').
         gbind (cgo_ingest_all rt w nowSecs events (Registry e0, Indexes e0, Some (Matrix e0))) (\<lambda>st.
         gbind (gfold (test_cycle R rt w clk) [0..<2]
                  (True, cgo_NewMockItemDictClient R 7 5000, put_store e0 st)) (\<lambda>(ok, dict, e).
         gbind (cgo_GetList w (Load (DB e)) 0 TblHeuristic (int (TopK w))) (\<lambda>hList.
         if length hList = 0 then Inr False
         else gbind (descending w (Matrix e) (cgo_Row w 0) hList) (\<lambda>sorted. Inr (ok \<and> sorted))))))))"

definition cgo_TestTopologyWarmupToActive ::
  "go_runtime \<Rightarrow> workload \<Rightarrow> bool \<Rightarrow> cycle_clock \<Rightarrow> bool go" where
  "cgo_TestTopologyWarmupToActive rt w enough_memory clk =
     (let pairs = cgo_buildPairs 1 1; topo = cgo_Activate 0 0 NewTopologyState;
          db = NewDoubleBuffer w (length pairs); newKey = MakePairKey 99 88
      in gbind (cgo_NewComputeEngine w enough_memory (slice_of pairs) db topo NumWorkers) (\<lambda>e0.
         let e1 = cgo_HandleAddPair 99 88 e0
         in case cgo_Get (Topology e1) newKey of (status, found) \<Rightarrow>
              if \<not> found then Inr False
              else if status \<noteq> StatusWarmingUp then Inr False
              else gbind (cgo_RunCycleWithDict rt w clk None e1) (\<lambda>(stats, e2).
                   case cgo_Get (Topology e2) newKey of (status', found') \<Rightarrow>
                     if \<not> found' then Inr False
                     else if status' \<noteq> StatusActive then Inr False
                     else Inr True)))"

definition cgo_breaker_test :: "workload \<Rightarrow> u32 \<Rightarrow> u32 \<Rightarrow> topology_state \<Rightarrow> u32 \<Rightarrow> bool go" where
  "cgo_breaker_test w ppsID btID topo code =
     (let srv = cgo_NewPriorityServer [\<lparr>PPSID = ppsID, BinTagID = btID, Key = MakePairKey ppsID btID\<rparr>]
      in gbind (cgo_GetTopK w topo (NewDoubleBuffer w 1) \<lparr>rPPSID = ppsID, rBinTagID = btID, K = 10\<rparr> srv)
           (\<lambda>a. Inr (refused_with code a)))"

definition cgo_TestCircuitBreakerWarmingUp :: "workload \<Rightarrow> bool go" where
  "cgo_TestCircuitBreakerWarmingUp w =
     cgo_breaker_test w 5 3 (cgo_AddWarmingUp 5 3 NewTopologyState) GRPCUnavailable"

definition cgo_TestCircuitBreakerRemoved :: "workload \<Rightarrow> bool go" where
  "cgo_TestCircuitBreakerRemoved w =
     cgo_breaker_test w 7 2 (cgo_Remove 7 2 (cgo_Activate 7 2 NewTopologyState)) GRPCNotFound"

text \<open>\<open>visit\<close> is the order in which Go's loop visits the keys of the map.\<close>

definition cgo_TestKafkaOrderIngestion ::
  "'g go_rand \<Rightarrow> go_runtime \<Rightarrow> workload \<Rightarrow> bool \<Rightarrow> i64 \<Rightarrow> i64 \<Rightarrow> ((u32 \<rightharpoonup> u32 list) \<Rightarrow> u32 list) \<Rightarrow> bool go" where
  "cgo_TestKafkaOrderIngestion R rt w enough_memory batch_now nowSecs visit =
     (let stream = cgo_NewMockKafkaOrderStream R 123 (of_nat (NumOrders w)) 10000 20
      in gbind (GenerateBatch R rt batch_now 500 stream) (\<lambda>(events, stream').
         gbind (cgo_NewPPSMatrix w enough_memory 1) (\<lambda>matrix.
         gbind (cgo_ingest_all rt w nowSecs events (NewOrderRegistry w, NewInvertedIndexes, Some matrix))
           (\<lambda>(r, ix, mo).
         if card (dom (BinTagToOrders ix)) = 0 then Inr False
         else if card (dom (TPIDToOrders ix)) = 0 then Inr False
         else let total = fold (\<lambda>b n. n + length (map_list (BinTagToOrders ix) b)) (visit (BinTagToOrders ix)) 0
              in Inr (\<not> total < 500)))))"

text \<open>
  The measured time of a call is its delay and what the scheduler adds, \<open>extra\<close>, both in
  milliseconds.
\<close>

definition cgo_TestItemDictLatency :: "'g go_rand \<Rightarrow> go_runtime \<Rightarrow> (nat \<Rightarrow> int) \<Rightarrow> bool go" where
  "cgo_TestItemDictLatency R rt extra =
     gbind (gfold (\<lambda>i (ok, client).
              gbind (cgo_Fetch R rt client) (\<lambda>(delayMs, update, client').
              let elapsed = delayMs + extra i
              in Inr (ok \<and> \<not> elapsed < 90 \<and> \<not> elapsed > 260, client'))) [0..<3]
             (True, cgo_NewMockItemDictClient R 999 5000)) (\<lambda>(ok, client). Inr ok)"

definition cgo_TestOrderEviction ::
  "go_runtime \<Rightarrow> workload \<Rightarrow> bool \<Rightarrow> i64 \<Rightarrow> bool go" where
  "cgo_TestOrderEviction rt w enough_memory nowSecs =
     (let evt = \<lparr>cevOrderID = 100, cevRequiredQty = F32 5 0, cevPBTDeadline = -1, cevTPIDs = [1, 2],
                 cevEligibleBinTags = [10, 11], cevBaseScore = F32 1 (-1)\<rparr>
      in gbind (cgo_NewPPSMatrix w enough_memory 1) (\<lambda>matrix.
         gbind (cgo_IngestOrder rt w evt nowSecs (NewOrderRegistry w, NewInvertedIndexes, Some matrix)) (\<lambda>(r, ix, mo).
         gbind (go_index (Meta r) 100) (\<lambda>before.
         if \<not> Active before then Inr False
         else if length (map_list (BinTagToOrders ix) 10) = 0 then Inr False
         else case mo of
           None \<Rightarrow> Inl UnsafeAccess
         | Some m \<Rightarrow>
             gbind (cgo_EvictOrder w 100 (r, ix, m)) (\<lambda>(r', ix', m').
             gbind (go_index (Meta r') 100) (\<lambda>after.
             if Active after then Inr False
             else if length (map_list (BinTagToOrders ix') 10) \<noteq> 0 then Inr False
             else if length (map_list (TPIDToOrders ix') 1) \<noteq> 0 then Inr False
             else Inr True))))))"

section \<open>Batches\<close>

text \<open>The last event of each order of a batch.\<close>

definition latest ::
  "cgo_kafka_order_event list \<Rightarrow> (u32 \<rightharpoonup> cgo_kafka_order_event) \<Rightarrow> (u32 \<rightharpoonup> cgo_kafka_order_event)" where
  "latest evts = fold (\<lambda>evt m. m(cevOrderID evt \<mapsto> evt)) evts"

lemma latest_simps [simp]:
  "latest [] m = m" "latest (evt # evts) m = latest evts (m(cevOrderID evt \<mapsto> evt))"
  by (simp_all add: latest_def)

lemma latest_in: "latest evts m oid = Some evt \<Longrightarrow> evt \<in> set evts \<or> m oid = Some evt"
proof (induction evts arbitrary: m)
  case (Cons e evts)
  have "evt \<in> set evts \<or> (m(cevOrderID e \<mapsto> e)) oid = Some evt"
    using Cons.prems by (intro Cons.IH) (simp only: latest_simps)
  then show ?case by (auto split: if_splits)
qed simp

text \<open>The store reflects the last event of each order, and has no other order.\<close>

definition event_tags :: "(u32 \<rightharpoonup> cgo_kafka_order_event) \<Rightarrow> u32 \<Rightarrow> u32 list" where
  "event_tags evs oid = (case evs oid of None \<Rightarrow> [] | Some evt \<Rightarrow> cevEligibleBinTags evt)"

definition reflects ::
  "workload \<Rightarrow> i64 \<Rightarrow> (u32 \<rightharpoonup> cgo_kafka_order_event) \<Rightarrow> order_registry \<Rightarrow> inverted_indexes \<Rightarrow> bool" where
  "reflects w now evs r ix \<longleftrightarrow>
     (\<forall>oid. unat oid < NumOrders w \<longrightarrow>
        Active (Meta r ! unat oid) = (evs oid \<noteq> None) \<and>
        (evs oid \<noteq> None \<longrightarrow> InsertedAtSecs (Meta r ! unat oid) = now)) \<and>
     (\<forall>oid. evs oid \<noteq> None \<longrightarrow> (\<exists>t. oid \<in> set (tpid_orders ix t))) \<and>
     (\<forall>oid b. count_list (bintag_orders ix b) oid = count_list (event_tags evs oid) b)"

lemma event_tags_Some:
  "b \<in> set (event_tags evs oid) \<Longrightarrow> \<exists>evt. evs oid = Some evt \<and> b \<in> set (cevEligibleBinTags evt)"
  by (cases "evs oid") (simp_all add: event_tags_def)

lemma event_tags_upd [simp]:
  "event_tags (evs(oid \<mapsto> evt)) x = (if x = oid then cevEligibleBinTags evt else event_tags evs x)"
  by (simp add: event_tags_def)

lemma reflects_New: "reflects w now Map.empty (NewOrderRegistry w) NewInvertedIndexes"
  by (simp add: reflects_def event_tags_def NewOrderRegistry_def zero_meta_def NewInvertedIndexes_def bintag_orders_def)

lemma reflects_step:
  assumes prev: "reflects w now evs r ix" and len: "length (Meta r) = NumOrders w"
    and ing: "ingested w (cgo_event_meta evt now) (cevTPIDs evt) (cevEligibleBinTags evt) base rows sc
        (r, ix, m) (r', ix', m')"
    and tpid: "cevTPIDs evt \<noteq> []"
  shows "reflects w now (evs(cevOrderID evt \<mapsto> evt)) r' ix'"
proof -
  have M: "Meta r' = (Meta r)[unat (cevOrderID evt) := cgo_event_meta evt now]"
    and B: "\<And>b. bintag_orders ix' b = removeAll (cevOrderID evt) (bintag_orders ix b) @
          replicate (count_list (cevEligibleBinTags evt) b) (cevOrderID evt)"
    and T: "\<And>t. tpid_orders ix' t = removeAll (cevOrderID evt) (tpid_orders ix t) @
          replicate (count_list (cevTPIDs evt) t) (cevOrderID evt)"
    using ing by (simp_all add: ingested_def cgo_event_meta_def Let_def)
  have "cevOrderID evt \<in> set (tpid_orders ix' (hd (cevTPIDs evt)))"
    using tpid by (simp add: T count_list_0_iff)
  moreover have "\<exists>t. oid \<in> set (tpid_orders ix' t)" if "evs oid \<noteq> None" "oid \<noteq> cevOrderID evt" for oid
    using prev that by (auto simp: T reflects_def)
  ultimately have listed: "\<exists>t. oid \<in> set (tpid_orders ix' t)" if "(evs(cevOrderID evt \<mapsto> evt)) oid \<noteq> None" for oid
    using that by (auto split: if_splits)
  have bin: "count_list (bintag_orders ix' b) oid =
      (if oid = cevOrderID evt then count_list (cevEligibleBinTags evt) b else count_list (bintag_orders ix b) oid)" for oid b
    by (simp add: B count_list_append count_list_removeAll count_list_replicate_eq)
  have slot: "Meta r' ! unat oid = (if oid = cevOrderID evt then cgo_event_meta evt now else Meta r ! unat oid)"
    if "unat oid < NumOrders w" for oid
    using that len by (auto simp: M nth_list_update word_unat_eq_iff)
  have "count_list (bintag_orders ix' b) oid = count_list (event_tags (evs(cevOrderID evt \<mapsto> evt)) oid) b" for oid b
    using prev by (simp add: bin reflects_def)
  moreover have "Active (Meta r' ! unat oid) = ((evs(cevOrderID evt \<mapsto> evt)) oid \<noteq> None) \<and>
      ((evs(cevOrderID evt \<mapsto> evt)) oid \<noteq> None \<longrightarrow> InsertedAtSecs (Meta r' ! unat oid) = now)"
    if "unat oid < NumOrders w" for oid
    using prev that slot [OF that] by (simp add: reflects_def cgo_event_meta_def)
  ultimately show ?thesis using listed unfolding reflects_def by blast
qed

lemma reflects_listed:
  assumes "reflects w now evs r ix"
  shows "oid \<in> set (bintag_orders ix b) \<longleftrightarrow> b \<in> set (event_tags evs oid)"
proof -
  have "count_list (bintag_orders ix b) oid = count_list (event_tags evs oid) b"
    using assms by (simp add: reflects_def)
  then show ?thesis by (metis count_list_0_iff)
qed

lemma cgo_ingest_all_ok:
  assumes "store_inv w (c_wf w) (r, ix, m)" and "reflects w now evs r ix" and "tpid_bound 5 ix"
    and "\<forall>evt \<in> set evts. unat (cevOrderID evt) < NumOrders w \<and> cevTPIDs evt \<noteq> [] \<and> length (cevTPIDs evt) \<le> 5"
  shows "\<exists>r' ix' m'. cgo_ingest_all rt w now evts (r, ix, Some m) = Inr (r', ix', Some m') \<and>
           store_inv w (c_wf w) (r', ix', m') \<and> cNumPPS m' = cNumPPS m \<and> tpid_bound 5 ix' \<and>
           reflects w now (latest evts evs) r' ix'"
  using assms
proof (induction evts arbitrary: r ix m evs)
  case Nil
  then show ?case by (simp add: cgo_ingest_all_def)
next
  case (Cons evt evts)
  have evt: "unat (cevOrderID evt) < NumOrders w" "length (cevTPIDs evt) \<le> 5" "cevTPIDs evt \<noteq> []" using Cons.prems(4) by simp_all
  from cgo_IngestOrder_steps [OF Cons.prems(1) evt(1), of rt now] obtain r1 ix1 m1 where 1:
    "cgo_IngestOrder rt w evt now (r, ix, Some m) = Inr (r1, ix1, Some m1)" "store_inv w (c_wf w) (r1, ix1, m1)"
    "ingested w (cgo_event_meta evt now) (cevTPIDs evt) (cevEligibleBinTags evt)
       (clampInt16 (scale_score rt (cevBaseScore evt))) cNumPPS (\<lambda>cm. cell w (c_view cm)) (r, ix, m) (r1, ix1, m1)"
    by blast
  have len: "length (Meta r) = NumOrders w" using Cons.prems(1) by (simp add: store_inv_def registry_inv_def)
  have rows: "cNumPPS m1 = cNumPPS m" using 1(3) by (simp add: ingested_def Let_def)
  have "\<forall>evt \<in> set evts. unat (cevOrderID evt) < NumOrders w \<and> cevTPIDs evt \<noteq> [] \<and> length (cevTPIDs evt) \<le> 5"
    using Cons.prems(4) by simp
  from Cons.IH [OF 1(2) reflects_step [OF Cons.prems(2) len 1(3) evt(3)] tpid_bound_step [OF Cons.prems(3) 1(3) evt(2)] this]
  show ?case using 1(1) rows by (auto simp: cgo_ingest_all_def simp del: fun_upd_apply)
qed

text \<open>A batch into an empty store: what both generator tests do.\<close>

lemma batch_ingested:
  assumes R: "rand_contract R" and ok: "workload_ok w" and n: "0 < sint ts" "0 < unat nb" "0 \<le> k"
    and m: "c_wf w m"
  shows "\<exists>events stream' r ix m'. GenerateBatch R rt batch_now k (cgo_NewMockKafkaOrderStream R sd (of_nat (NumOrders w)) ts nb) =
             Inr (events, stream') \<and> length events = nat k \<and>
           (\<forall>evt \<in> set events. unat (cevOrderID evt) < NumOrders w \<and> 1 \<le> length (cevEligibleBinTags evt) \<and>
              length (cevEligibleBinTags evt) \<le> 4 \<and> (\<forall>b \<in> set (cevEligibleBinTags evt). unat b < unat nb)) \<and>
           cgo_ingest_all rt w now events (NewOrderRegistry w, NewInvertedIndexes, Some m) = Inr (r, ix, Some m') \<and>
           store_inv w (c_wf w) (r, ix, m') \<and> cNumPPS m' = cNumPPS m \<and> tpid_bound 5 ix \<and>
           reflects w now (latest events Map.empty) r ix"
proof -
  let ?s = "cgo_NewMockKafkaOrderStream R sd (of_nat (NumOrders w)) ts nb"
  have s: "unat (sNumOrders ?s) = NumOrders w" "sNumTPIDs ?s = ts" "sNumBinTags ?s = nb" "0 < NumOrders w"
    using ok by (simp_all add: cgo_NewMockKafkaOrderStream_def workload_ok_def unat_of_nat take_bit_eq_mod)
  from GenerateBatch_ok [OF R, of ?s k rt batch_now] n s obtain events stream' where
    e: "GenerateBatch R rt batch_now k ?s = Inr (events, stream')" "length events = nat k"
    "\<forall>evt \<in> set events. batch_event_drawn ?s batch_now evt" by auto
  have evts: "\<forall>evt \<in> set events. unat (cevOrderID evt) < NumOrders w \<and> cevTPIDs evt \<noteq> [] \<and> length (cevTPIDs evt) \<le> 5"
    using e(3) by (auto simp: batch_event_drawn_def cgo_event_drawn_def s)
  have "store_inv w (c_wf w) (NewOrderRegistry w, NewInvertedIndexes, m)"
    using m by (simp add: store_inv_def registry_inv_New index_inv_New index_range_New)
  from cgo_ingest_all_ok [OF this reflects_New tpid_bound_New evts, of rt now] obtain r ix m' where
    "cgo_ingest_all rt w now events (NewOrderRegistry w, NewInvertedIndexes, Some m) = Inr (r, ix, Some m')"
    "store_inv w (c_wf w) (r, ix, m')" "cNumPPS m' = cNumPPS m" "tpid_bound 5 ix"
    "reflects w now (latest events Map.empty) r ix" by blast
  moreover have "\<forall>evt \<in> set events. unat (cevOrderID evt) < NumOrders w \<and> 1 \<le> length (cevEligibleBinTags evt) \<and>
      length (cevEligibleBinTags evt) \<le> 4 \<and> (\<forall>b \<in> set (cevEligibleBinTags evt). unat b < unat nb)"
    using e(3) by (simp add: batch_event_drawn_def s)
  ultimately show ?thesis using e(1,2) by blast
qed

section \<open>The tests without randomness\<close>

lemma fold_snoc: "fold (\<lambda>x xs. xs @ [f x]) ys = (\<lambda>acc. acc @ map f ys)"
  by (induction ys) (simp_all add: fun_eq_iff)

lemma fold_append: "fold (\<lambda>x xs. xs @ f x) ys = (\<lambda>acc. acc @ concat (map f ys))"
  by (induction ys) (simp_all add: fun_eq_iff)

lemma cgo_buildPairs_eq: "cgo_buildPairs n m = pair_grid [0..<n] [0..<m]"
  by (simp add: cgo_buildPairs_def fold_snoc fold_append pair_grid_def pair_of_def)

lemma cgo_activate_all:
  "pending_wf ps \<Longrightarrow> val (fold (\<lambda>p. cgo_Activate (PPSID p) (BinTagID p)) ps t) k =
     (if k \<in> Key ` set ps then Some StatusActive else val t k)"
  by (induction ps arbitrary: t) (auto simp: cgo_Activate_def pending_wf_def)

lemma cgo_TestTopologyWarmupToActive_ok:
  assumes w: "workload_ok w" and rt: "sort_contract rt"
  shows "cgo_TestTopologyWarmupToActive rt w True clk = Inr True"
proof -
  let ?t = "cgo_Activate 0 0 NewTopologyState" and ?k = "MakePairKey 99 88"
  have pairs: "cgo_buildPairs (Suc 0) (Suc 0) = [pair_of 0 0]" by (simp add: cgo_buildPairs_eq pair_grid_def)
  have "\<forall>k. val ?t k = (if k \<in> Key ` set [pair_of 0 0] then Some StatusActive else None)"
    by (simp add: cgo_Activate_def NewTopologyState_def)
  moreover have "\<forall>pair \<in> set [pair_of 0 0]. unat (PPSID pair) < numPPS w"
    using w by (simp add: workload_ok_def)
  ultimately obtain e0 where e0: "cgo_NewComputeEngine w True (slice_of [pair_of 0 0]) (NewDoubleBuffer w 1) ?t NumWorkers = Inr e0"
    "Indexes e0 = NewInvertedIndexes" "cgo_steady w (slice_of [pair_of 0 0]) (numPPS w) [] e0"
    using cgo_new_engine_ok [OF w, of "[pair_of 0 0]" ?t NumWorkers "[]"] by auto
  let ?e1 = "cgo_HandleAddPair 99 88 e0"
  have inv1: "cgo_inv w ?e1" using e0(3) by (intro engine_inv_topology) (simp add: cgo_steady_def)
  have "Indexes ?e1 = NewInvertedIndexes" by (simp add: cgo_HandleAddPair_def Let_def e0(2))
  then have rows: "cgo_rows_ok ?e1"
    by (simp add: cgo_rows_ok_def candidates_def NewInvertedIndexes_def bintag_orders_def)
  have safe: "update_safe w (cgo_update_deltas rt None ix)" for ix
    by (simp add: update_safe_def cgo_update_deltas_def)
  have pending: "?k \<in> Key ` set (pendingWarmup ?e1)" and warm: "val (Topology ?e1) ?k = Some StatusWarmingUp"
    by (simp_all add: cgo_HandleAddPair_def Let_def cgo_AddWarmingUp_def)
  from cgo_cycle_ok [OF inv1 rt rows safe, of clk] pending obtain stats e2 where
    c: "cgo_RunCycleWithDict rt w clk None ?e1 = Inr (stats, e2)" "val (Topology e2) ?k = Some StatusActive" by auto
  then show ?thesis using e0(1) warm
    by (simp add: cgo_TestTopologyWarmupToActive_def pairs Let_def cgo_Get_eq Get_def map_zero_def)
qed

lemma cgo_breaker_tests_ok:
  "cgo_TestCircuitBreakerWarmingUp w = Inr True" "cgo_TestCircuitBreakerRemoved w = Inr True"
  by (simp_all add: cgo_TestCircuitBreakerWarmingUp_def cgo_TestCircuitBreakerRemoved_def cgo_breaker_test_def
      cgo_GetTopK_def cgo_Get_eq Get_def map_zero_def Let_def refused_with_def cgo_AddWarmingUp_def
      cgo_Remove_def cgo_Activate_def)

lemma cgo_TestOrderEviction_ok:
  assumes w: "workload_ok w" and n: "100 < NumOrders w"
  shows "cgo_TestOrderEviction rt w True nowSecs = Inr True"
proof -
  let ?evt = "\<lparr>cevOrderID = 100, cevRequiredQty = F32 5 0, cevPBTDeadline = -1, cevTPIDs = [1, 2],
      cevEligibleBinTags = [10, 11], cevBaseScore = F32 1 (-1)\<rparr>"
  obtain m where m: "cgo_NewPPSMatrix w True 1 = Inr m" "c_wf w m"
    using w by (simp add: workload_ok_def cgo_NewPPSMatrix_def c_wf_def c_view_def matrix_wf_def c_fits_def)
  have inv: "store_inv w (c_wf w) (NewOrderRegistry w, NewInvertedIndexes, m)"
    using m(2) by (simp add: store_inv_def registry_inv_New index_inv_New index_range_New)
  have "unat (cevOrderID ?evt) < NumOrders w" using n by simp
  from cgo_IngestOrder_steps [OF inv this, of rt nowSecs] obtain r ix m1 where
    1: "cgo_IngestOrder rt w ?evt nowSecs (NewOrderRegistry w, NewInvertedIndexes, Some m) = Inr (r, ix, Some m1)"
    "store_inv w (c_wf w) (r, ix, m1)"
    "ingested w (cgo_event_meta ?evt nowSecs) [1, 2] [10, 11] (clampInt16 (scale_score rt (F32 1 (-1)))) cNumPPS
       (\<lambda>cm. cell w (c_view cm)) (NewOrderRegistry w, NewInvertedIndexes, m) (r, ix, m1)" by auto
  have i: "registry_inv w r" "index_inv ix" "c_wf w m1" using 1(2) by (simp_all add: store_inv_def)
  then have len: "length (Meta r) = NumOrders w" by (simp add: registry_inv_def)
  have lists: "bintag_orders ix 10 = [100]" "tpid_orders ix 1 = [100]" "Meta r ! 100 = cgo_event_meta ?evt nowSecs"
    using 1(3) n by (simp_all add: ingested_def Let_def cgo_event_meta_def NewInvertedIndexes_def
        bintag_orders_def tpid_orders_def NewOrderRegistry_def)
  then have "Active (Meta r ! 100)" by (simp add: cgo_event_meta_def)
  with cstore.evict_active [OF i(1), of 100 m1 ix] n i(3) obtain m2 where
    2: "cgo_EvictOrder w 100 (r, ix, m1) =
      Inr (r\<lparr>Meta := (Meta r)[100 := deactivated (Meta r ! 100)]\<rparr>, RemoveOrder 100 ix, m2)"
    by (auto simp: cgo_EvictOrder_def cgo_RemoveOrder_eq)
  have "bintag_orders (RemoveOrder 100 ix) 10 = []" "tpid_orders (RemoveOrder 100 ix) 1 = []"
    using lists by (simp_all add: bintag_orders_RemoveOrder [OF i(2)] tpid_orders_RemoveOrder [OF i(2)])
  with lists \<open>Active (Meta r ! 100)\<close> 1(1) 2 len n m(1) show ?thesis
    by (simp add: cgo_TestOrderEviction_def Let_def go_index_def bintag_orders_def tpid_orders_def deactivated_def)
qed

text \<open>A fetch of the dictionary, as the tests make it.\<close>

definition dict_ok :: "u64 \<Rightarrow> 'g cgo_item_dict_client \<Rightarrow> bool" where
  "dict_ok n c \<longleftrightarrow> unit_scores (tpidScores c) \<and> cNumTPIDs c = n \<and> UpdateFrac c = F64 1 0"

lemma dict_ok_New: "rand_contract R \<Longrightarrow> dict_ok n (cgo_NewMockItemDictClient R sd n)"
  by (simp add: dict_ok_def cgo_dict_New)

lemma dict_ok_fetch:
  fixes c :: "'g cgo_item_dict_client"
  assumes R: "rand_contract R" and c: "dict_ok n c" and n: "0 < sint n" "uint n \<le> 100000"
  obtains delay u c' where "cgo_Fetch R rt c = Inr (delay, u, c')" "100 \<le> delay" "delay \<le> 200" "dict_ok n c'"
    "\<And>w ix. tpid_bound 5 ix \<Longrightarrow> update_safe w (cgo_update_deltas rt (Some u) ix)"
proof -
  have "num_update rt c = max 1 (uint n)" using num_update_all [of c rt] c n(2) by (simp add: dict_ok_def)
  then have num: "nat (num_update rt c) \<le> 100000" using n(2) by simp
  have "0 < sint (cNumTPIDs c)" "unit_scores (tpidScores c)" using c n(1) by (simp_all add: dict_ok_def)
  from cgo_Fetch_ok [OF R this, of rt] obtain delay u c' where
    f: "cgo_Fetch R rt c = Inr (delay, u, c')" "100 \<le> delay" "delay \<le> 200" "length (Updates u) = nat (num_update rt c)"
    "\<forall>x \<in> set (Updates u). unit_update (cNumTPIDs c) x" "unit_scores (tpidScores c')"
    "cNumTPIDs c' = cNumTPIDs c" "UpdateFrac c' = UpdateFrac c" by blast
  have "length (Updates u) \<le> 100000" using f(4) num by simp
  with fetched_update_safe [OF f(5) this] f c that show ?thesis by (simp add: dict_ok_def)
qed

lemma cgo_TestItemDictLatency_ok:
  fixes R :: "'g go_rand"
  assumes R: "rand_contract R" and extra: "\<forall>i < 3. 0 \<le> extra i \<and> extra i \<le> 60"
  shows "cgo_TestItemDictLatency R rt extra = Inr True"
proof -
  let ?call = "\<lambda>i (ok, client). gbind (cgo_Fetch R rt client) (\<lambda>(delayMs, update, client').
      let elapsed = delayMs + extra i in Inr (ok \<and> \<not> elapsed < 90 \<and> \<not> elapsed > 260, client'))"
  let ?P = "\<lambda>i :: nat. \<lambda>(ok, c :: 'g cgo_item_dict_client). ok \<and> dict_ok 5000 c"
  have "\<exists>s'. gfold ?call [0..<3] (True, cgo_NewMockItemDictClient R 999 5000) = Inr s' \<and> ?P 3 s'"
  proof (rule gfold_upt_inv)
    show "?P 0 (True, cgo_NewMockItemDictClient R 999 5000)" using dict_ok_New [OF R] by simp
  next
    fix i s assume i: "i < (3 :: nat)" and P: "?P i s"
    obtain c where s: "s = (True, c)" "dict_ok 5000 c" using P by (cases s) auto
    obtain delay u c' where "cgo_Fetch R rt c = Inr (delay, u, c')" "100 \<le> delay" "delay \<le> 200" "dict_ok 5000 c'"
      by (rule dict_ok_fetch [OF R s(2), where rt = rt]) simp_all
    with extra i show "\<exists>s'. ?call i s = Inr s' \<and> ?P (Suc i) s'" by (auto simp: s(1) Let_def)
  qed simp
  then show ?thesis by (auto simp: cgo_TestItemDictLatency_def)
qed

section \<open>The ingestion test\<close>

text \<open>
  \<open>visit\<close> gives each key of the map once.
\<close>

definition visits :: "((u32 \<rightharpoonup> u32 list) \<Rightarrow> u32 list) \<Rightarrow> bool" where
  "visits visit \<longleftrightarrow> (\<forall>m. distinct (visit m) \<and> set (visit m) = dom m)"

lemma fold_add: "fold (\<lambda>b n. n + f b) bs (k :: nat) = k + sum_list (map f bs)"
  by (induction bs arbitrary: k) simp_all

lemma latest_dom: "dom (latest evts m) = dom m \<union> cevOrderID ` set evts"
  by (induction evts arbitrary: m) auto

text \<open>The entries of the bin-tag index, counted by list or by order.\<close>

lemma reflects_total:
  assumes "index_inv ix" and "reflects w now evs r ix" and "visits visit"
  shows "fold (\<lambda>b n. n + length (map_list (BinTagToOrders ix) b)) (visit (BinTagToOrders ix)) 0 =
           (\<Sum>oid \<in> dom evs. length (event_tags evs oid))"
proof -
  let ?B = "dom (BinTagToOrders ix)"
  have B: "?B = {b. bintag_orders ix b \<noteq> []}" using dom_bintags [OF assms(1)] .
  have bin: "length (bintag_orders ix b) = (\<Sum>oid \<in> dom evs. count_list (event_tags evs oid) b)" for b
  proof -
    have "set (bintag_orders ix b) \<subseteq> dom evs"
      using reflects_listed [OF assms(2)] event_tags_Some by fastforce
    from sum_count_set [OF this] assms(2) show ?thesis by (simp add: reflects_def)
  qed
  have tags: "(\<Sum>b \<in> ?B. count_list (event_tags evs oid) b) = length (event_tags evs oid)" for oid
    by (rule sum_count_set) (auto simp: B reflects_listed [OF assms(2), symmetric])
  have "fold (\<lambda>b n. n + length (map_list (BinTagToOrders ix) b)) (visit (BinTagToOrders ix)) 0 =
      (\<Sum>b \<in> ?B. length (bintag_orders ix b))"
    using assms(3) by (simp add: fold_add visits_def bintag_orders_def sum_list_distinct_conv_sum_set)
  also have "\<dots> = (\<Sum>b \<in> ?B. \<Sum>oid \<in> dom evs. count_list (event_tags evs oid) b)" by (simp only: bin)
  also have "\<dots> = (\<Sum>oid \<in> dom evs. \<Sum>b \<in> ?B. count_list (event_tags evs oid) b)" by (rule sum.swap)
  also have "\<dots> = (\<Sum>oid \<in> dom evs. length (event_tags evs oid))" by (simp only: tags)
  finally show ?thesis .
qed

lemma cgo_TestKafkaOrderIngestion_ok:
  assumes R: "rand_contract R" and ok: "workload_ok w" and visit: "visits visit"
  shows "\<exists>events stream'. GenerateBatch R rt batch_now 500
             (cgo_NewMockKafkaOrderStream R 123 (of_nat (NumOrders w)) 10000 20) = Inr (events, stream') \<and>
           length events = 500 \<and>
           cgo_TestKafkaOrderIngestion R rt w True batch_now nowSecs visit =
             Inr (500 \<le> (\<Sum>oid \<in> cevOrderID ` set events. length (event_tags (latest events Map.empty) oid))) \<and>
           (distinct (map cevOrderID events) \<longrightarrow>
              cgo_TestKafkaOrderIngestion R rt w True batch_now nowSecs visit = Inr True) \<and>
           (4 * card (cevOrderID ` set events) < 500 \<longrightarrow>
              cgo_TestKafkaOrderIngestion R rt w True batch_now nowSecs visit = Inr False)"
proof -
  obtain m where m: "cgo_NewPPSMatrix w True 1 = Inr m" "c_wf w m"
    using ok by (simp add: workload_ok_def cgo_NewPPSMatrix_def c_wf_def c_view_def matrix_wf_def c_fits_def)
  have "0 < sint (10000 :: u64)" "0 < unat (20 :: u32)" "0 \<le> (500 :: int)" by simp_all
  from batch_ingested [OF R ok this m(2), of rt batch_now 123 nowSecs] obtain events stream' r ix m' where
    1: "GenerateBatch R rt batch_now 500 (cgo_NewMockKafkaOrderStream R 123 (of_nat (NumOrders w)) 10000 20) =
          Inr (events, stream')" "length events = nat 500"
    "\<forall>evt \<in> set events. unat (cevOrderID evt) < NumOrders w \<and> 1 \<le> length (cevEligibleBinTags evt) \<and>
       length (cevEligibleBinTags evt) \<le> 4 \<and> (\<forall>b \<in> set (cevEligibleBinTags evt). unat b < unat (20 :: u32))"
    "cgo_ingest_all rt w nowSecs events (NewOrderRegistry w, NewInvertedIndexes, Some m) = Inr (r, ix, Some m')"
    "store_inv w (c_wf w) (r, ix, m')" "cNumPPS m' = cNumPPS m" "tpid_bound 5 ix"
    "reflects w nowSecs (latest events Map.empty) r ix" by (elim exE conjE) (erule (7) that)
  let ?evs = "latest events Map.empty"
  have ix: "index_inv ix" using 1(5) by (simp add: store_inv_def)
  have dom: "dom ?evs = cevOrderID ` set events" by (simp add: latest_dom)
  have tags: "1 \<le> length (event_tags ?evs oid) \<and> length (event_tags ?evs oid) \<le> 4" if "oid \<in> dom ?evs" for oid
  proof -
    from that obtain evt where "?evs oid = Some evt" by blast
    with latest_in [OF this] 1(3) show ?thesis by (simp add: event_tags_def)
  qed
  have "hd events \<in> set events" using 1(2) by (intro hd_in_set) auto
  then have oid: "cevOrderID (hd events) \<in> dom ?evs" by (simp add: dom)
  then have "event_tags ?evs (cevOrderID (hd events)) \<noteq> []" using tags by fastforce
  then have "bintag_orders ix (hd (event_tags ?evs (cevOrderID (hd events)))) \<noteq> []"
    using reflects_listed [OF 1(8)] hd_in_set by (metis empty_iff empty_set)
  then have bins: "card (dom (BinTagToOrders ix)) \<noteq> 0" by (auto simp: dom_bintags [OF ix])
  have "?evs (cevOrderID (hd events)) \<noteq> None" using oid by (simp only: domIff not_False_eq_True)
  then obtain t where "cevOrderID (hd events) \<in> set (tpid_orders ix t)" using 1(8) unfolding reflects_def by blast
  then have "tpid_orders ix t \<noteq> []" by auto
  then have tpids: "card (dom (TPIDToOrders ix)) \<noteq> 0" by (auto simp: dom_tpids [OF ix])
  have total: "fold (\<lambda>b n. n + length (map_list (BinTagToOrders ix) b)) (visit (BinTagToOrders ix)) 0 =
      (\<Sum>oid \<in> cevOrderID ` set events. length (event_tags ?evs oid))"
    using reflects_total [OF ix 1(8) visit] by (simp only: dom)
  have "cgo_TestKafkaOrderIngestion R rt w True batch_now nowSecs visit =
      Inr (500 \<le> (\<Sum>oid \<in> cevOrderID ` set events. length (event_tags ?evs oid)))"
    using bins tpids by (simp add: cgo_TestKafkaOrderIngestion_def 1(1,4) m(1) [unfolded One_nat_def] total Let_def not_less)
  moreover have "card (cevOrderID ` set events) \<le> (\<Sum>oid \<in> cevOrderID ` set events. length (event_tags ?evs oid))"
    using sum_bounded_below [of "dom ?evs" 1 "\<lambda>oid. length (event_tags ?evs oid)"] tags by (simp add: dom)
  moreover have "(\<Sum>oid \<in> cevOrderID ` set events. length (event_tags ?evs oid)) \<le> 4 * card (cevOrderID ` set events)"
    using sum_bounded_above [of "dom ?evs" "\<lambda>oid. length (event_tags ?evs oid)" 4] tags by (simp add: dom)
  moreover have "card (cevOrderID ` set events) = 500" if "distinct (map cevOrderID events)"
    using distinct_card [OF that] 1(2) by simp
  ultimately show ?thesis
    using 1(1,2) by (intro exI [of _ events] exI [of _ stream'] conjI impI) simp_all
qed

section \<open>The cycle test\<close>

lemma descending_ok:
  assumes m: "c_wf w m" "p < cNumPPS m"
  shows "\<forall>v \<in> set ids. unat v < NumOrders w \<Longrightarrow>
         sorted_wrt (\<lambda>v v'. sint (cell w (c_view m) p (unat v')) \<le> sint (cell w (c_view m) p (unat v))) ids \<Longrightarrow>
         descending w m (cgo_Row w p) ids = Inr True"
proof (induction ids rule: induct_list012)
  case (3 v v' ids)
  then show ?case by (simp add: row_read_ok [OF m] not_less)
qed simp_all

lemma cgo_list_descending:
  assumes st: "cgo_steady w (slice_of ps) rows bts e" and buf: "cgo_ranked_at w now e"
    and ps: "0 < length ps" "ps ! 0 = pair_of 0 0" and rows: "0 < rows"
  shows "\<exists>ids. cgo_GetList w (Load (DB e)) 0 TblHeuristic (int (TopK w)) = Inr ids \<and>
           descending w (Matrix e) (cgo_Row w 0) ids = Inr True \<and>
           (ids = [] \<longleftrightarrow> TopK w = 0 \<or> candidates (Registry e) (bintag_orders (Indexes e) 0) = [])"
proof -
  from st have e: "cgo_inv w e" "Pairs e = slice_of ps" "cNumPPS (Matrix e) = rows" by (simp_all add: cgo_steady_def)
  then have i: "c_wf w (Matrix e)" "index_range w (Indexes e)" by (simp_all add: engine_inv_def store_inv_def)
  let ?sc = "\<lambda>oid. cell w (c_view (Matrix e)) 0 (unat oid)" and ?oids = "bintag_orders (Indexes e) 0"
  let ?tabs = "table_entries now (Registry e) ?sc ?oids"
  have tabs: "cgo_pair_tables w now e 0 = Some ?tabs" using ps by (simp add: cgo_pair_tables_def Let_def e(2))
  have b: "ranked_buffer w (length ps) (cgo_pair_tables w now e) (Load (DB e))"
    using buf by (simp add: cgo_ranked_at_def e(2))
  from ranked_buffer_slot [OF this ps(1), of TblHeuristic]
  obtain ys where ys: "top_k (TopK w) (heuristic ?tabs) ys"
    "rb_list w (Load (DB e)) 0 TblHeuristic = map orderID ys @ replicate (TopK w - length ys) (-1)"
    by (auto simp: tabs ranked_slot_def table_numbers)
  have entry: "score x = scast (?sc (orderID x))" "orderID x \<in> set ?oids" if "x \<in> set ys" for x
    using that top_k_set [OF ys(1)] by (auto simp: table_entries_def candidates_def Let_def)
  have range: "unat (orderID x) < NumOrders w" if "x \<in> set ys" for x
    using entry(2) [OF that] i(2) by (auto simp: index_range_def)
  have len: "length ys \<le> TopK w" using top_k_length [OF ys(1)] by simp
  have "-1 \<notin> set (map orderID ys)"
    using range order_not_minus_one e(1) by (auto simp: engine_inv_def) (metis)
  from take_valid [OF this, of "TopK w" "TopK w - length ys"] len
  have ids: "takeWhile (\<lambda>v. v \<noteq> -1) (take (TopK w) (rb_list w (Load (DB e)) 0 TblHeuristic)) = map orderID ys"
    by (simp add: ys(2))
  have get: "cgo_GetList w (Load (DB e)) 0 TblHeuristic (int (TopK w)) = Inr (map orderID ys)"
    using cgo_GetList_ok [of w "Load (DB e)" 0 TblHeuristic "int (TopK w)"] b ps(1) ids
    by (simp add: ranked_buffer_def table_numbers)
  have "map key ys = map (\<lambda>x. sint (?sc (orderID x))) ys"
    using entry(1) by (simp add: sint_scast_32)
  with top_k_sorted [OF ys(1)] have "sorted_wrt (\<lambda>v v'. sint (?sc v') \<le> sint (?sc v)) (map orderID ys)"
    by (simp add: sorted_wrt_map)
  with range rows have "descending w (Matrix e) (cgo_Row w 0) (map orderID ys) = Inr True"
    by (intro descending_ok [OF i(1)]) (auto simp: e(3))
  moreover have "ys = [] \<longleftrightarrow> TopK w = 0 \<or> candidates (Registry e) ?oids = []"
    using top_k_length [OF ys(1)] by (auto simp: table_entries_def Let_def min_def split: if_splits)
  ultimately show ?thesis using get by auto
qed

lemma cgo_total_ms: "cgo_RunCycleWithDict rt w clk update e = Inr (stats, e') \<Longrightarrow> TotalMs stats = total_elapsed clk"
  by (auto simp: cgo_RunCycleWithDict_def cycle_result_def Let_def gbind_eq_Inr)

lemma test_cycle_ok:
  assumes R: "rand_contract R" and rt: "sort_contract rt" and st: "cgo_steady w ps rows bts e"
    and d: "dict_ok 5000 dict" and fresh: "fresh_at t (now_secs (clk i))"
      "\<forall>m \<in> set (Meta (Registry e)). Active m \<longrightarrow> InsertedAtSecs m = t"
  shows "\<exists>dict' e'. test_cycle R rt w clk i (ok, dict, e) =
             Inr (ok \<and> \<not> sint (total_elapsed (clk i)) > 30000, dict', e') \<and> dict_ok 5000 dict' \<and>
           cgo_steady w ps rows bts e' \<and> cgo_ranked_at w (now_secs (clk i)) e' \<and>
           Meta (Registry e') = Meta (Registry e) \<and> Indexes e' = Indexes e"
proof -
  obtain delay u dict' where f: "cgo_Fetch R rt dict = Inr (delay, u, dict')" "dict_ok 5000 dict'"
    "\<And>ix. tpid_bound 5 ix \<Longrightarrow> update_safe w (cgo_update_deltas rt (Some u) ix)"
    by (rule dict_ok_fetch [OF R d, where rt = rt]) simp_all
  from cgo_steady_cycle [OF st rt f(3), of "clk i"] purge_nothing [OF fresh(2,1)] obtain stats e' where
    "cgo_RunCycleWithDict rt w (clk i) (Some u) e = Inr (stats, e')" "cgo_steady w ps rows bts e'"
    "cgo_ranked_at w (now_secs (clk i)) e'" "Meta (Registry e') = Meta (Registry e)" "Indexes e' = Indexes e"
    by auto
  with f(1,2) cgo_total_ms show ?thesis by (auto simp: test_cycle_def)
qed

lemma test_cycles_ok:
  fixes R :: "'g go_rand"
  assumes R: "rand_contract R" and rt: "sort_contract rt" and st: "cgo_steady w ps rows bts e"
    and fresh: "\<forall>i < 2. fresh_at t (now_secs (clk i))"
      "\<forall>m \<in> set (Meta (Registry e)). Active m \<longrightarrow> InsertedAtSecs m = t"
  shows "\<exists>dict' e'. gfold (test_cycle R rt w clk) [0..<2] (True, cgo_NewMockItemDictClient R sd 5000, e) =
             Inr (\<forall>i < 2. \<not> sint (total_elapsed (clk i)) > 30000, dict', e') \<and>
           cgo_steady w ps rows bts e' \<and> cgo_ranked_at w (now_secs (clk 1)) e' \<and>
           Meta (Registry e') = Meta (Registry e) \<and> Indexes e' = Indexes e"
proof -
  let ?P = "\<lambda>i (ok, dict :: 'g cgo_item_dict_client, e').
      ok = (\<forall>j < i. \<not> sint (total_elapsed (clk j)) > 30000) \<and> dict_ok 5000 dict \<and> cgo_steady w ps rows bts e' \<and>
      (0 < i \<longrightarrow> cgo_ranked_at w (now_secs (clk (i - 1))) e') \<and>
      Meta (Registry e') = Meta (Registry e) \<and> Indexes e' = Indexes e"
  let ?s = "(True, cgo_NewMockItemDictClient R sd 5000, e)"
  have "\<exists>s'. gfold (test_cycle R rt w clk) [0..<2] ?s = Inr s' \<and> ?P 2 s'"
  proof (rule gfold_upt_inv)
    show "?P 0 ?s" using st dict_ok_New [OF R] by simp
  next
    fix i s assume i: "i < (2 :: nat)" and P: "?P i s"
    obtain ok dict e1 where s: "s = (ok, dict, e1)" by (cases s) auto
    from P have 1: "ok = (\<forall>j < i. \<not> sint (total_elapsed (clk j)) > 30000)" "dict_ok 5000 dict"
      "cgo_steady w ps rows bts e1" "Meta (Registry e1) = Meta (Registry e)" "Indexes e1 = Indexes e"
      by (simp_all add: s)
    have "\<forall>m \<in> set (Meta (Registry e1)). Active m \<longrightarrow> InsertedAtSecs m = t" using fresh(2) 1(4) by simp
    from test_cycle_ok [OF R rt 1(3,2) _ this, of clk i ok] fresh(1) i obtain dict' e' where
      2: "test_cycle R rt w clk i (ok, dict, e1) = Inr (ok \<and> \<not> sint (total_elapsed (clk i)) > 30000, dict', e')"
      "dict_ok 5000 dict'" "cgo_steady w ps rows bts e'" "cgo_ranked_at w (now_secs (clk i)) e'"
      "Meta (Registry e') = Meta (Registry e1)" "Indexes e' = Indexes e1" by auto
    have "?P (Suc i) (ok \<and> \<not> sint (total_elapsed (clk i)) > 30000, dict', e')"
      using 2 1 by (auto simp: less_Suc_eq)
    with 2(1) show "\<exists>s'. test_cycle R rt w clk i s = Inr s' \<and> ?P (Suc i) s'" unfolding s by blast
  qed simp
  then show ?thesis by auto
qed

text \<open>What the ingestion leaves: a pod between two cycles, with fresh orders only.\<close>

lemma reflects_fresh:
  assumes "reflects w now evs r ix" and "registry_inv w r" and "NumOrders w \<le> 2 ^ 31"
  shows "\<forall>m \<in> set (Meta r). Active m \<longrightarrow> InsertedAtSecs m = now"
proof
  fix m assume "m \<in> set (Meta r)"
  then obtain j where j: "j < NumOrders w" "m = Meta r ! j"
    using assms(2) by (auto simp: registry_inv_def in_set_conv_nth)
  then have "unat (of_nat j :: u32) = j" using assms(3) by (simp add: unat_of_nat take_bit_eq_mod)
  with assms(1) j show "Active m \<longrightarrow> InsertedAtSecs m = now" unfolding reflects_def by metis
qed

lemma reflects_candidates:
  assumes "reflects w now evs r ix" and "index_range w ix"
  shows "candidates r (bintag_orders ix b) = [] \<longleftrightarrow> (\<forall>oid. b \<notin> set (event_tags evs oid))"
proof -
  have "Active (Meta r ! unat oid)" if "oid \<in> set (bintag_orders ix b)" for oid
  proof -
    have "evs oid \<noteq> None" using that reflects_listed [OF assms(1)] event_tags_Some by fastforce
    moreover have "unat oid < NumOrders w" using that assms(2) by (simp add: index_range_def)
    ultimately show ?thesis using assms(1) unfolding reflects_def by blast
  qed
  then have "candidates r (bintag_orders ix b) = bintag_orders ix b"
    by (simp add: candidates_def filter_id_conv)
  moreover have "bintag_orders ix b = [] \<longleftrightarrow> (\<forall>oid. oid \<notin> set (bintag_orders ix b))" by auto
  ultimately show ?thesis by (simp add: reflects_listed [OF assms(1)])
qed

lemma steady_ingested:
  assumes st: "cgo_steady w ps (numPPS w) bts e" and rows: "\<forall>pair \<in> set (elems ps). unat (PPSID pair) < numPPS w"
    and s: "store_inv w (c_wf w) (r, ix, m)" "cNumPPS m = numPPS w" "tpid_bound 5 ix" "reflects w now evs r ix"
    and tags: "\<forall>oid. set (event_tags evs oid) \<subseteq> set bts"
  shows "cgo_steady w ps (numPPS w) bts (set_store e (r, ix, m))"
proof -
  have "bintag_orders ix b = []" if "b \<notin> set bts" for b
  proof -
    have "oid \<notin> set (bintag_orders ix b)" for oid using reflects_listed [OF s(4)] tags that by blast
    then show ?thesis by (metis list.set_intros(1) neq_Nil_conv)
  qed
  moreover have "Pairs e = ps" using st by (simp add: cgo_steady_def)
  ultimately show ?thesis using st rows s(1-3)
    by (simp add: cgo_steady_def engine_inv_def cgo_rows_ok_def all_active_pairs_def only_bintags_def)
qed

lemma latest_tags:
  assumes "\<forall>evt \<in> set events. \<forall>b \<in> set (cevEligibleBinTags evt). unat b < n"
  shows "set (event_tags (latest events Map.empty) oid) \<subseteq> set (map of_nat [0..<n] :: u32 list)"
proof
  fix b assume "b \<in> set (event_tags (latest events Map.empty) oid)"
  from event_tags_Some [OF this] obtain evt where "latest events Map.empty oid = Some evt"
    "b \<in> set (cevEligibleBinTags evt)" by blast
  with latest_in [of events Map.empty oid evt] assms have "unat b < n" by auto
  then show "b \<in> set (map of_nat [0..<n])" by (auto intro!: image_eqI [of _ _ "unat b"])
qed

text \<open>The engine of the cycle test, before its orders are ingested.\<close>

lemma cycle_test_engine:
  assumes w: "workload_ok w" and ps: "ps = cgo_buildPairs 1 5"
    and t: "t = fold (\<lambda>p. cgo_Activate (PPSID p) (BinTagID p)) ps NewTopologyState"
  shows "\<exists>e0. cgo_NewComputeEngine w True (slice_of ps) (NewDoubleBuffer w (length ps)) t NumWorkers = Inr e0 \<and>
           Registry e0 = NewOrderRegistry w \<and> Indexes e0 = NewInvertedIndexes \<and>
           cgo_steady w (slice_of ps) (numPPS w) (map of_nat [0..<5]) e0"
    "\<forall>pair \<in> set ps. unat (PPSID pair) < numPPS w" "0 < length ps" "ps ! 0 = pair_of 0 0"
proof -
  have grid: "ps = pair_grid [0..<1] [0..<5]" by (simp add: ps cgo_buildPairs_eq)
  show rows: "\<forall>pair \<in> set ps. unat (PPSID pair) < numPPS w"
    using w by (auto simp: grid pair_grid_def workload_ok_def)
  show "0 < length ps" "ps ! 0 = pair_of 0 0" unfolding grid length_pair_grid by (simp_all add: pair_grid_def upt_conv_Cons)
  have "\<forall>k. val t k = (if k \<in> Key ` set ps then Some StatusActive else None)"
    by (simp add: t cgo_activate_all grid pair_grid_wf) (simp add: NewTopologyState_def)
  from cgo_new_engine_ok [OF w rows this, of NumWorkers "map of_nat [0..<5]"]
  show "\<exists>e0. cgo_NewComputeEngine w True (slice_of ps) (NewDoubleBuffer w (length ps)) t NumWorkers = Inr e0 \<and>
           Registry e0 = NewOrderRegistry w \<and> Indexes e0 = NewInvertedIndexes \<and>
           cgo_steady w (slice_of ps) (numPPS w) (map of_nat [0..<5]) e0" by blast
qed

lemma cgo_TestComputeCycleBasic_ok:
  assumes R: "rand_contract R" and rt: "sort_contract rt" and w: "workload_ok w" "0 < TopK w"
    and fresh: "\<forall>i < 2. fresh_at nowSecs (now_secs (clk i))"
  shows "\<exists>events stream'. GenerateBatch R rt batch_now 10000
             (cgo_NewMockKafkaOrderStream R 42 (of_nat (NumOrders w)) 5000 5) = Inr (events, stream') \<and>
           length events = 10000 \<and>
           cgo_TestComputeCycleBasic R rt w True batch_now nowSecs clk =
             Inr ((\<forall>i < 2. sint (total_elapsed (clk i)) \<le> 30000) \<and>
                  (\<exists>oid. 0 \<in> set (event_tags (latest events Map.empty) oid)))"
proof -
  define ps where "ps = cgo_buildPairs 1 5"
  define t where "t = fold (\<lambda>p. cgo_Activate (PPSID p) (BinTagID p)) ps NewTopologyState"
  let ?bts = "map of_nat [0..<5] :: u32 list"
  note rows = cycle_test_engine(2) [OF w(1) ps_def t_def] and pair0 = cycle_test_engine(3,4) [OF w(1) ps_def t_def]
  from cycle_test_engine(1) [OF w(1) ps_def t_def] obtain e0 where
    e0: "cgo_NewComputeEngine w True (slice_of ps) (NewDoubleBuffer w (length ps)) t NumWorkers = Inr e0"
    "Registry e0 = NewOrderRegistry w" "Indexes e0 = NewInvertedIndexes"
    "cgo_steady w (slice_of ps) (numPPS w) ?bts e0" by blast
  have m: "c_wf w (Matrix e0)" "cNumPPS (Matrix e0) = numPPS w"
    using e0(4) by (simp_all add: cgo_steady_def engine_inv_def store_inv_def)
  have "0 < sint (5000 :: u64)" "0 < unat (5 :: u32)" "0 \<le> (10000 :: int)" by simp_all
  from batch_ingested [OF R w(1) this m(1), of rt batch_now 42 nowSecs] obtain events stream' r ix m' where
    1: "GenerateBatch R rt batch_now 10000 (cgo_NewMockKafkaOrderStream R 42 (of_nat (NumOrders w)) 5000 5) =
          Inr (events, stream')" "length events = nat 10000"
    "\<forall>evt \<in> set events. unat (cevOrderID evt) < NumOrders w \<and> 1 \<le> length (cevEligibleBinTags evt) \<and>
       length (cevEligibleBinTags evt) \<le> 4 \<and> (\<forall>b \<in> set (cevEligibleBinTags evt). unat b < unat (5 :: u32))"
    "cgo_ingest_all rt w nowSecs events (NewOrderRegistry w, NewInvertedIndexes, Some (Matrix e0)) = Inr (r, ix, Some m')"
    "store_inv w (c_wf w) (r, ix, m')" "cNumPPS m' = cNumPPS (Matrix e0)" "tpid_bound 5 ix"
    "reflects w nowSecs (latest events Map.empty) r ix" by (elim exE conjE) (erule (7) that)
  let ?evs = "latest events Map.empty" and ?e1 = "set_store e0 (r, ix, m')"
  have "\<forall>oid. set (event_tags ?evs oid) \<subseteq> set ?bts" using latest_tags [of events 5] 1(3) by simp
  with steady_ingested [OF e0(4) _ 1(5) _ 1(7,8)] rows 1(6) m(2)
  have st: "cgo_steady w (slice_of ps) (numPPS w) ?bts ?e1" by simp
  have i: "registry_inv w r" "index_range w ix" "NumOrders w \<le> 2 ^ 31" "0 < numPPS w"
    using 1(5) w(1) by (simp_all add: store_inv_def workload_ok_def)
  have "\<forall>m \<in> set (Meta (Registry ?e1)). Active m \<longrightarrow> InsertedAtSecs m = nowSecs"
    using reflects_fresh [OF 1(8) i(1,3)] by simp
  from test_cycles_ok [OF R rt st fresh this, of 7] obtain dict e2 where
    2: "gfold (test_cycle R rt w clk) [0..<2] (True, cgo_NewMockItemDictClient R 7 5000, ?e1) =
          Inr (\<forall>i < 2. \<not> sint (total_elapsed (clk i)) > 30000, dict, e2)"
    "cgo_steady w (slice_of ps) (numPPS w) ?bts e2" "cgo_ranked_at w (now_secs (clk 1)) e2"
    "Meta (Registry e2) = Meta r" "Indexes e2 = ix" by auto
  have "candidates (Registry e2) (bintag_orders (Indexes e2) 0) = candidates r (bintag_orders ix 0)"
    by (simp add: candidates_def 2(4,5))
  with cgo_list_descending [OF 2(2,3) pair0 i(4)] w(2) reflects_candidates [OF 1(8) i(2), of 0] obtain ids where
    3: "cgo_GetList w (Load (DB e2)) 0 TblHeuristic (int (TopK w)) = Inr ids"
    "descending w (Matrix e2) (cgo_Row w 0) ids = Inr True"
    "ids = [] \<longleftrightarrow> (\<forall>oid. 0 \<notin> set (event_tags ?evs oid))" by auto
  have "put_store e0 (r, ix, Some m') = ?e1" by (simp add: put_store_def)
  then have "cgo_TestComputeCycleBasic R rt w True batch_now nowSecs clk =
      Inr ((\<forall>i < 2. sint (total_elapsed (clk i)) \<le> 30000) \<and> ids \<noteq> [])"
    unfolding cgo_TestComputeCycleBasic_def ps_def [symmetric] Let_def t_def [symmetric]
    by (simp add: e0(1-3) 1(1,4) 2(1) 3(1,2) not_less)
  with 1(1,2) 3(3) show ?thesis by (intro exI [of _ events] exI [of _ stream']) simp
qed

end
