(* ===== verification/Main_Examples.thy ===== *)
theory Main_Examples
  imports Service_Examples Request_Runs Cgo_Schedules Topology_Steps Cgo_Common Cgo_Tests
begin

text \<open>
  Concrete inputs for the properties of whole runs: a clock for the two main programs, the
  small pods of both programs as corresponding states, and a request that is served while a
  cycle writes.
\<close>

text \<open>The orders are seeded at time 9000, every cycle is at time 10000.\<close>

definition demo_clock :: main_clock where
  "demo_clock = \<lparr>seed_now = 9000, event_now = (\<lambda>i. 9000), dict_seed = 5, fetch_now = (\<lambda>i. 10000),
                 cycle_at = (\<lambda>i. tiny_clock)\<rparr>"

lemma demo_fresh: "fresh_cycles demo_clock" "cgo_fresh_cycles demo_clock"
  by (simp_all add: fresh_cycles_def cgo_fresh_cycles_def fresh_at_def demo_clock_def tiny_clock_def OrderTTLSecs_def)

lemma demo_clip: "clip_k pure_workload 5 = 5" "clip_k cgo_workload 5 = 5"
  by (simp_all add: clip_k_def pure_workload_def cgo_workload_def)

section \<open>The small pods correspond\<close>

lemma tiny_same_store: "same_store tiny tiny_engine tiny_c_engine"
proof -
  have "\<forall>p < 2. \<forall>j < 4. - 32767 \<le> sint (cell tiny tiny_matrix p j) \<and>
      cell tiny (c_view tiny_c_matrix) p j = cell tiny tiny_matrix p j"
    by (auto simp: less_four less_2_cases_iff cell_def tiny_matrix_def tiny_c_matrix_def c_view_def)
  then show ?thesis
    by (simp add: same_store_def clamped_cells_def tiny_matrix_wf tiny_c_matrix_wf)
qed

lemma tiny_same_pairs: "same_pairs tiny_engine tiny_c_engine"
proof -
  have "list_all2 (same_pair 2) tiny_pairs tiny_c_pairs"
    by (simp add: same_pair_def tiny_pairs_def tiny_c_pairs_def pair_row_def)
  then show ?thesis by (simp add: same_pairs_def tiny_matrix_wf)
qed

lemma tiny_same_updates: "same_updates (Some tiny_update) (Some tiny_c_update)"
  by (simp add: same_updates_def tiny_update_def tiny_c_update_def tiny_diff del: f32_sub.simps)

lemma tiny_tpid_bound: "tpid_bound 5 tiny_indexes"
  by (auto simp: tpid_bound_def tiny_tpid_orders)

lemma tiny_in_step: "in_step tiny 5 tiny_engine tiny_c_engine"
  using tiny_inv tiny_c_inv tiny_same_store tiny_same_pairs tiny_tpid_bound by (simp add: in_step_def)

lemma tiny_update_safe:
  assumes "tpid_bound 5 ix"
  shows "update_safe tiny (cgo_update_deltas rt (Some tiny_c_update) ix)"
proof -
  have cs: "cgo_contributions rt (Updates tiny_c_update) = [(7, 50)]"
    by (simp add: cgo_contributions_def tiny_c_update_def tiny_diff tiny_scaled del: f32_sub.simps)
  have bound: "\<bar>sint (order_delta [(7, 50)] ix oid)\<bar> \<le> 250" for oid
    using order_delta_bound [of "[(7, 50)]" 50 5 ix oid] assms by simp
  have "- (2 ^ 31) + 32768 \<le> sint (order_delta [(7, 50)] ix oid) \<and>
      sint (order_delta [(7, 50)] ix oid) < 2 ^ 31 - 32767" for oid
    using bound [of oid] by (simp add: abs_le_iff)
  then show ?thesis
    by (simp add: update_safe_def cgo_update_deltas_def safe_deltas_def cs)
qed

lemma tiny_c_pool: "pool_size tiny_c_engine 3 = 2" "pool_size tiny_c_engine 2 = 2"
  by (simp_all add: pool_size_def tiny_c_engine_def tiny_with_def)

section \<open>A request during a cycle\<close>

text \<open>The request reads the status, the engine publishes, the request reads row and buffer.\<close>

lemma served_while_publishing:
  assumes "status t = Admitted" and "row = Located i" and "upd (PublishBuffer buf) (t, d) = (t, Publish d buf)"
  shows "(serve_step upd status row fetch)\<^sup>*\<^sup>* ((t, d), cycle_writes buf [], Arrived)
           ((t, Publish d buf), [], Answered (fetch (Publish d buf) i))"
proof -
  let ?step = "serve_step upd status row fetch"
  have "?step ((t, d), [PublishBuffer buf], Arrived) ((t, d), [PublishBuffer buf], Admitted)"
    using status_is_read [of upd status row fetch t d] assms(1) by metis
  moreover have "?step ((t, d), [PublishBuffer buf], Admitted) ((t, Publish d buf), [], Admitted)"
    using engine_writes [of upd status row fetch "(t, d)" "PublishBuffer buf" "[]"] assms(3) by simp
  moreover have "?step ((t, Publish d buf), [], Admitted) ((t, Publish d buf), [], Located i)"
    using row_is_read [of upd status row fetch] assms(2) by metis
  moreover have "?step ((t, Publish d buf), [], Located i) ((t, Publish d buf), [], Answered (fetch (Publish d buf) i))"
    by (rule buffer_is_read)
  ultimately show ?thesis unfolding cycle_writes_def by simp
qed

lemma tiny_admitted:
  "read_status (tiny_request 1 1) (setup_topology tiny_pairs) = Admitted"
  "cgo_read_status (tiny_request 1 1) (setup_topology tiny_pairs) = Admitted"
  by (simp_all add: read_status_def cgo_read_status_def tiny_request_def Get_def cgo_Get_eq map_zero_def tiny_keys)

lemma tiny_located:
  "read_row (tiny_request 1 1) (NewPriorityServer tiny_pairs) = Located 0"
  "cgo_read_row (tiny_request 1 1) (cgo_NewPriorityServer tiny_c_pairs) = Located 1"
proof -
  have "build_index tiny_pairs (MakePairKey 1 1) = Some 0" "build_index tiny_c_pairs (MakePairKey 1 1) = Some 1"
    using build_index_distinct [OF tiny_keys(1), of 0]
      build_index_distinct [of tiny_c_pairs 1] by (simp_all add: tiny_pairs_def tiny_c_pairs_def)
  then show "read_row (tiny_request 1 1) (NewPriorityServer tiny_pairs) = Located 0"
    "cgo_read_row (tiny_request 1 1) (cgo_NewPriorityServer tiny_c_pairs) = Located 1"
    by (simp_all add: read_row_def cgo_read_row_def tiny_request_def refresh_eq)
qed

text \<open>The pods that the main programs set up, and a request for a pair of theirs during a cycle.\<close>

lemma tiny_pod_pairs:
  "buildPairs tiny (PairsPerPod tiny) = [pair_of 1 1, pair_of 1 2, pair_of 2 1, pair_of 2 2]"
  "snd (cgo_main_pairs tiny) = [pair_of 0 0, pair_of 0 1, pair_of 1 0, pair_of 1 1]"
proof -
  obtain t where "cgo_main_pairs tiny = (t, pair_grid [0..<2] [0..<2])"
    using cgo_main_pairs_eq [of tiny] by (metis tiny_simps(2,3))
  then show "snd (cgo_main_pairs tiny) = [pair_of 0 0, pair_of 0 1, pair_of 1 0, pair_of 1 1]"
    by (simp add: pair_grid_def upt_rec)
qed (simp add: buildPairs_pod pair_grid_def upt_rec)

lemma tiny_pod_served:
  assumes "e = fst (main_setup tiny 8 (\<lambda>_. []))"
  obtains sh a where "pure_serve tiny (tiny_request 1 1) (RefreshPairIndex (elems (Pairs e)) srv)
     ((Topology e, DB e), pure_writes amd64_runtime tiny [Cycle tiny_clock None] e, Arrived) (sh, [], Answered a)"
proof -
  have rel: "pod_rel tiny (pod_start (buildPairs tiny (PairsPerPod tiny))) e"
    unfolding assms by (rule pod_rel_start [OF tiny_ok]) simp
  then have ps: "elems (Pairs e) = buildPairs tiny (PairsPerPod tiny)" "pairs_ok (buildPairs tiny (PairsPerPod tiny))"
    and t: "val (Topology e) (MakePairKey 1 1) = Some StatusActive"
    by (simp_all add: pod_rel_def pod_start_def tiny_pod_pairs pair_of_def)
  obtain stats e' where run: "RunCycleWithDict amd64_runtime tiny tiny_clock None e = Inr (stats, e')"
    using tiny_run [OF pod_rel_parts(1) [OF rel]] .
  have "pendingWarmup e = []"
    unfolding assms by (simp add: main_setup_def NewComputeEngine_def Let_def)
  then have ws: "pure_writes amd64_runtime tiny [Cycle tiny_clock None] e = cycle_writes (Load (DB e')) []"
    by (simp add: run)
  have status: "read_status (tiny_request 1 1) (Topology e) = Admitted"
    using t by (simp add: read_status_admitted tiny_request_def)
  have "MakePairKey 1 1 \<in> Key ` set (buildPairs tiny (PairsPerPod tiny))"
    by (simp add: tiny_pod_pairs pair_of_def)
  from ranked_row [OF ps(2) this] obtain i where
    "read_row (tiny_request 1 1) (RefreshPairIndex (elems (Pairs e)) srv) = Located i"
    by (auto simp: read_row_def tiny_request_def refresh_eq ps(1))
  note path = served_while_publishing [where upd = pure_write and status = "read_status (tiny_request 1 1)"
      and fetch = "read_lists tiny (tiny_request 1 1)" and t = "Topology e" and d = "DB e" and buf = "Load (DB e')",
      OF status this pure_write.simps(1)]
  show ?thesis by (rule that [unfolded ws, OF path])
qed

lemma tiny_c_pod_served:
  assumes "cgo_main_setup tiny True 8 (\<lambda>_. []) = Inr e"
  obtains sh a where "cgo_serve tiny (tiny_request 1 1) (cgo_RefreshPairIndex (elems (Pairs e)) srv)
     ((Topology e, DB e), cgo_writes amd64_runtime tiny [CgoCycle tiny_clock None] e, Arrived) (sh, [], Answered a)"
proof -
  have rel: "cgo_pod_rel tiny 5 (cgo_pod_start (snd (cgo_main_pairs tiny))) e"
    using cgo_pod_rel_start [OF tiny_ok _ refl, of 8 "\<lambda>_. []" 5] assms by auto
  then have ps: "elems (Pairs e) = snd (cgo_main_pairs tiny)" "pairs_ok (snd (cgo_main_pairs tiny))"
    and t: "val (Topology e) (MakePairKey 1 1) = Some StatusActive" and pending: "pendingWarmup e = []"
    by (simp_all add: cgo_pod_rel_def cgo_pod_start_def tiny_pod_pairs pair_of_def)
  have none: "cgo_event_ok amd64_runtime tiny 5 (CgoCycle tiny_clock None)"
    by (simp add: update_safe_def cgo_update_deltas_def)
  from cgo_pod_cycle [OF rel sort_contract_amd64] none obtain stats e' where
    run: "cgo_RunCycleWithDict amd64_runtime tiny tiny_clock None e = Inr (stats, e')"
    by (fastforce simp: go_elims)
  have ws: "cgo_writes amd64_runtime tiny [CgoCycle tiny_clock None] e = cycle_writes (Load (DB e')) []"
    by (simp add: run pending)
  have status: "cgo_read_status (tiny_request 1 1) (Topology e) = Admitted"
    using t by (simp add: read_status_admitted tiny_request_def)
  have "MakePairKey 1 1 \<in> Key ` set (snd (cgo_main_pairs tiny))"
    by (simp add: tiny_pod_pairs pair_of_def)
  from ranked_row [OF ps(2) this] obtain i where
    "cgo_read_row (tiny_request 1 1) (cgo_RefreshPairIndex (elems (Pairs e)) srv) = Located i"
    by (auto simp: cgo_read_row_def tiny_request_def refresh_eq ps(1))
  note path = served_while_publishing [where upd = cgo_write and status = "cgo_read_status (tiny_request 1 1)"
      and fetch = "cgo_read_lists tiny (tiny_request 1 1)" and t = "Topology e" and d = "DB e" and buf = "Load (DB e')",
      OF status this cgo_write.simps(1)]
  show ?thesis by (rule that [unfolded ws, OF path])
qed

text \<open>The cgo cycle that such a request overlaps.\<close>

lemma tiny_c_served:
  obtains stats e' where
    "cgo_RunCycleWithDict amd64_runtime tiny tiny_clock (Some tiny_c_update) tiny_c_engine = Inr (stats, e')"
    "update_safe tiny (cgo_update_deltas amd64_runtime (Some tiny_c_update)
       (fold RemoveOrder (expired_ids (now_secs tiny_clock) (Registry tiny_c_engine)) (Indexes tiny_c_engine)))"
    "cgo_serve tiny (tiny_request 1 1) (cgo_NewPriorityServer tiny_c_pairs)
       ((Topology tiny_c_engine, DB tiny_c_engine), cycle_writes (Load (DB e')) (pendingWarmup tiny_c_engine), Arrived)
       ((setup_topology tiny_pairs, Publish (NewDoubleBuffer tiny 3) (Load (DB e'))), [],
        Answered (cgo_read_lists tiny (tiny_request 1 1) (Publish (NewDoubleBuffer tiny 3) (Load (DB e'))) 1))"
proof -
  have db: "DB tiny_c_engine = NewDoubleBuffer tiny 3" by (simp add: tiny_c_engine_def tiny_with_def)
  obtain stats e' where run:
    "cgo_RunCycleWithDict amd64_runtime tiny tiny_clock (Some tiny_c_update) tiny_c_engine = Inr (stats, e')"
    by (rule tiny_c_cycle [OF tiny_c_inv tiny_c_rows]) simp_all
  note path = served_while_publishing [where upd = cgo_write and status = "cgo_read_status (tiny_request 1 1)"
      and fetch = "cgo_read_lists tiny (tiny_request 1 1)" and d = "NewDoubleBuffer tiny 3" and buf = "Load (DB e')",
      OF tiny_admitted(2) tiny_located(2) cgo_write.simps(1)]
  show ?thesis by (rule that [OF run]) (use tiny_c_safe path in \<open>simp_all add: tiny_clock_def db\<close>)
qed

section \<open>Batches of the generator that always draws the least value\<close>

lemma draw_list_same: "d s = Inr (x, s) \<Longrightarrow> draw_list d n s = Inr (replicate n x, s)"
  by (induction n) simp_all

lemma still_draws:
  "below_u32 still_rand 5 g = Inr (0, g)" "below_u32 still_rand 20 g = Inr (0, g)"
  "below_u32 still_rand 300000 g = Inr (0, g)"
  "below_u64 still_rand 5000 g = Inr (0, g)" "below_u64 still_rand 10000 g = Inr (0, g)"
  "Intn still_rand 5 g = Inr (0, g)" "Intn still_rand 4 g = Inr (0, g)"
  "Int63n still_rand 6601 g = Inr (0, g)" "draw_float32 still_rand g = (F32 0 0, g)"
  "draw_float64 still_rand g = (F64 0 0, g)"
  by (simp_all add: below_u32_def below_u64_def Int63n_def Intn_def still_rand_def)

lemma still_batch:
  assumes "ts = 5000 \<and> nb = 5 \<or> ts = 10000 \<and> nb = 20" and "0 \<le> n"
  shows "\<exists>evt. GenerateBatch still_rand rt now n (cgo_NewMockKafkaOrderStream still_rand sd 300000 ts nb) =
             Inr (replicate (nat n) evt, cgo_NewMockKafkaOrderStream still_rand sd 300000 ts nb) \<and>
           cevOrderID evt = 0 \<and> cevEligibleBinTags evt = [0]"
proof -
  let ?s = "cgo_NewMockKafkaOrderStream still_rand sd 300000 ts nb"
  obtain d where d: "\<And>g. random_deadline still_rand now g = Inr (d, g)"
    by (cases "f64_lt (F64 0 0) (F64 1 (-1))") (simp_all add: random_deadline_def still_draws del: f64_lt.simps)
  obtain q where q: "\<And>g. random_qty still_rand rt g = (q, g)" by (simp add: random_qty_def still_draws)
  have "\<exists>evt. batch_event still_rand rt now ?s = Inr (evt, ?s) \<and> cevOrderID evt = 0 \<and> cevEligibleBinTags evt = [0]"
    using assms(1)
    by (elim disjE conjE) (simp_all add: batch_event_def cgo_NewMockKafkaOrderStream_def still_draws d q)
  then show ?thesis using draw_list_same assms(2) by (fastforce simp: GenerateBatch_def)
qed

lemma latest_replicate: "0 < n \<Longrightarrow> latest (replicate n evt) m = m(cevOrderID evt \<mapsto> evt)"
proof (induction n arbitrary: m)
  case (Suc n)
  then show ?case by (cases n) simp_all
qed simp

end
