(* ===== verification/Spec2Isabelle.thy ===== *)
theory Spec2Isabelle
  imports Main_Examples
begin

text \<open>
  The priority service: a pod keeps, for every pair of a PPS and a bin tag, four ranked lists
  of orders (best score, large quantity, deadline, critical deadline).  Order events and pair
  events change its state, a compute cycle every few seconds updates the scores and ranks all
  pairs anew, and a server answers requests from the lists of the last cycle.  This is a
  verification library for the two Go programs of the repository,
  \<^verbatim>\<open>go-pure-impl\<close> and \<^verbatim>\<open>go-cgo-impl\<close>, the second of which keeps the
  score matrix on the C heap and updates it with the kernels of \<^verbatim>\<open>scoring.c\<close>.

  \<^bold>\<open>Theories.\<close>  A definition has the name of the Go function or type it models, in lower case
  with underscores for types; \<open>cgo_\<close> marks what is the cgo program's own.
  \<^item> \<open>Go_Prelude\<close>: faults (a Go panic, a read or write outside C memory, undefined behaviour)
    as the left case of a sum, sequencing and loops over it, slices with their bounds checks.
    \<open>Go_Float32\<close>: the float32 operations the code uses, with rounding.
  \<^item> \<open>Service_Types\<close> (\<^verbatim>\<open>types.go\<close>): sizes, keys and records.  \<open>Read_Buffer\<close>
    (\<^verbatim>\<open>types.go\<close>): the flat array of ranked IDs, and the pointer that publishes it.
  \<^item> \<open>Quickselect\<close> (\<^verbatim>\<open>compute.go\<close>): partition, quickselect loop, sort, copy.
  \<^item> \<open>Inverted_Index\<close>, \<open>Order_Registry\<close> (\<^verbatim>\<open>registry.go\<close>), \<open>Topology\<close>
    (\<^verbatim>\<open>topology.go\<close>), \<open>Score_Matrix\<close> (\<^verbatim>\<open>types.go\<close>,
    \<^verbatim>\<open>scoring_bridge.go\<close>, \<^verbatim>\<open>scoring.c\<close>), \<open>Order_Ingest\<close>
    (\<^verbatim>\<open>IngestOrder\<close> of \<^verbatim>\<open>mock.go\<close>).
  \<^item> \<open>Worker_Pool\<close>, \<open>Rank_Pool\<close>, \<open>Cgo_Schedules\<close>: the goroutine pools of the two phases.
    \<open>Engine_State\<close>, \<open>Phase1_Update\<close>, \<open>Phase2_Rank\<close>, \<open>Compute_Cycle\<close> (\<^verbatim>\<open>compute.go\<close>): the
    engine, its events and its cycle.
  \<^item> \<open>Priority_Server\<close> (\<^verbatim>\<open>server.go\<close>), \<open>Request_Steps\<close> (its requests, and
    the engine's writes they see, step by step), \<open>Pair_Life_Cycle\<close> (what becomes of added
    and removed pairs over engine and server), \<open>Engine_Agreement\<close> (the engines of the two
    programs against each other).
  \<^item> \<open>Order_Book\<close>: the orders as one finite map from order IDs to entries, what every operation
    on registry, indexes and matrix does to it, and the four rankings as a function of it.
    \<open>Service_Spec\<close>, \<open>Cgo_Service_Spec\<close>: on top of it the specification of a whole pod, which
    knows no buffer, index, row or word array, and the relation that engine and specification
    keep over every event.  \<open>Request_Runs\<close>: requests beside whole runs, against the same
    specification.
  \<^item> \<open>Topology_Steps\<close>: the writers and readers of the topology as goroutines that take single
    steps.  \<open>Cgo_Common\<close>: the cgo text of what both programs have, shown equal to the
    definitions shared here.
  \<^item> \<open>Go_Random\<close>, \<open>Mock_Streams\<close> (\<^verbatim>\<open>mock.go\<close>,
    \<^verbatim>\<open>buildSyntheticDelta\<close>): the mock item dictionaries and event streams.
  \<^item> \<open>Service_Setup\<close> (\<^verbatim>\<open>config.go\<close>, the set-up part of \<^verbatim>\<open>main.go\<close>),
    \<open>Order_Seeding\<close>, \<open>Pure_Main\<close>, \<open>Cgo_Main\<close> (the rest of both \<^verbatim>\<open>main.go\<close>):
    the programs as a whole, with what they print as a record.  \<open>Go_Tests\<close>, \<open>Cgo_Tests\<close>
    (\<^verbatim>\<open>compute_test.go\<close>): the tests, as functions that say whether they pass.
    \<open>Service_Examples\<close>,
    \<open>Main_Examples\<close>: the concrete inputs at which the properties below are applied.

  \<^bold>\<open>How they interact.\<close>  Ingestion and eviction write the registry, the indexes and the
  matrix, which are passed as a triple (\<open>store\<close>).  A cycle purges the store, adds the update
  to the matrix (phase 1), ranks the pairs into a new buffer (phase 2), publishes it and
  activates the pairs that were warming up.  Engine and server share topology and buffer;
  the server's own state is the index from pair keys to rows of the buffer.  The programs
  feed the engine with events and updates of the mock clients.

  \<^bold>\<open>Interfaces.\<close>  The components meet at locales: the topology operations, the order
  indexes, the score matrix (column writes, row updates), the order store over any index and
  matrix, the selection of the best \<open>k\<close>, the pool of workers, the ranking of a pair, the
  steps of a request, the copy-on-write object with one mutex, and the forward simulation of a
  specification (\<open>simulation\<close>), which \<open>served_simulation\<close> joins with the steps of a request.
  Each is interpreted on the definitions of both programs where both have them, and the lemmas
  of engine and server rest on the interpretations.

  \<^bold>\<open>What is shown.\<close> C1, C2: both programs refine the specification of a pod, over
  every run from the set-up of \<^verbatim>\<open>main\<close>, and answer requests as it says.  C3 to C6: the
  cycle meets its specification and no run of the engine faults.  C7, C8: both
  \<^verbatim>\<open>main\<close> programs run through, and what they report.  C9, C10: the two engines
  compute the same, on a cycle and over any run of common events.  C11 to C15: what the server
  answers after a cycle, that requests beside a running engine are linearizable against the
  specification, and when a request is refused.  C16, C17: the topology is linearizable under
  concurrent writers and readers.  C18 to C21: the selection is correct, terminates, and the
  workers of phase 2 may be scheduled in any way.  C22 to C24: the schedules of phase 1, the C
  kernel as a refinement of the Go loop, and why the updates fetched cannot make it overflow.
  C25, C26: ingestion and purge.  C27 to C31: the life cycle of pairs, including behaviour
  that the comments do not promise (an added pair that is never ranked, a stale index).  C32,
  C33: what the mock clients produce.  C34 to C36: buffer layout, the unchecked row of the
  cgo ranking, and the cgo partition, from its own text.  C37 to C40: the repository's own
  tests, those that pass for whatever is drawn and what the other two depend on.  The
  last section has further facts: the fallback to all active orders where a bin tag has none,
  the cut of far deadlines to 32 bits, requests beside one cycle from any state, removed orders,
  the server's index, delta vector and clamping, completion of phase 2, overflow, a removed
  pair that comes back, a slice overwritten under its owner, latency bounds, keys, set-up,
  configuration.

  \<^bold>\<open>Choices.\<close>  Order IDs, scores, times and keys are words of their width and wrap around;
  Go's \<^verbatim>\<open>int\<close> (64 bits), which holds indexes and sizes only, is \<open>nat\<close> or \<open>int\<close>
  without wrap-around, since the products of the sizes stay below \<open>2 ^ 63\<close>; the casts
  to a C \<^verbatim>\<open>int\<close> in the bridge are kept (\<open>c_int\<close>), and \<open>workload_ok\<close> asks that the sizes fit.  Every loop is
  structural or comes with a measure, so nothing needs fuel.  The sizes are an argument
  (\<open>workload\<close>), as are the clock, the environment, the number of processors, the outcome of
  \<^verbatim>\<open>calloc\<close>, the order \<^verbatim>\<open>sort.Slice\<close> gives equal elements, the value of a float
  conversion that does not fit and whether the compiler fuses a product and a sum
  (\<open>go_runtime\<close>); \<open>amd64_runtime\<close> is one concrete choice.  The generator of
  \<^verbatim>\<open>math/rand\<close> is an argument too (\<open>go_rand\<close>), of which the properties assume the
  documented ranges of its draws (\<open>rand_contract\<close>); \<open>counting_rand\<close> and \<open>still_rand\<close> keep them.  The operations of the topology are
  single steps in the other theories, as \<open>Topology_Steps\<close> justifies; the shared reads of a request and the visible writes
  of the engine are single steps as well and interleave freely, in \<open>Request_Steps\<close> over one
  cycle and in \<open>Request_Runs\<close> over any run.  Engine events do not overlap each other, and the
  server's index is not rebuilt during a request, as the code asks of its callers.  The
  specification speaks of requests only while the ranked pairs are those of the last cycle:
  after a pair event and before the next cycle the rows of index and buffer differ, which is
  the subject of C28 and C31.  The added pairs of the cgo specification have a row of the
  matrix; C8 covers the PPS 99 of \<^verbatim>\<open>main\<close>, which has none, and whose bin tag no order
  has.

  \<^bold>\<open>Not modelled.\<close>  The algorithm of \<^verbatim>\<open>math/rand\<close>, the layout of what is printed
  (the values are there), \<^verbatim>\<open>printMemStats\<close>, which prints counters of the Go run-time,
  and the passing of time (a sleep is a duration in the result, a clock reading an
  argument); the Rust and Kotlin programs, which are not part of the two Go programs.
\<close>

section \<open>The pods against their specification\<close>

text \<open>
  C1: The pure pod as a whole.  For every list of events (ingestions, pairs added and removed,
  orders removed, cycles) whose ingested orders have IDs of the registry, the pod that \<^verbatim>\<open>main\<close> sets up runs through and ends in a state
  that keeps the specification's state \<open>s\<close>, which the same events give on an order book, a map
  of pair states and a notice board.  While the ranked pairs are those of the last cycle,
  \<open>GetTopK\<close> never faults, and its reply is the one the specification allows: the refusal of a
  pair that is unknown, removed or warming up, or four lists that are the best orders of the
  pair on the board.
\<close>

theorem pod_meets_specification:
  assumes "workload_ok w" and "numBinTags w < 2 ^ 32" and "sort_contract rt" and "\<forall>ev \<in> set evs. event_ok w ev"
    and "s = fold (pod_step rt) evs (pod_start (buildPairs w (PairsPerPod w)))"
  shows "\<exists>e. gfold (engine_apply rt w) evs (fst (main_setup w cores env)) = Inr e \<and> pod_rel w s e \<and>
           (posted_pairs (board s) = ranked_pairs s \<longrightarrow>
              (\<forall>req srv. \<exists>reply. GetTopK w (Topology e) (DB e) req (RefreshPairIndex (elems (Pairs e)) srv) = Inr reply \<and>
                 reply_ok w s req reply))"
  using assms by (rule pod_serves)

theorem pod_meets_specification_witness:
  "\<exists>e r x. gfold (engine_apply amd64_runtime tiny)
            [Ingest (tiny_event 2) 9999, RemovePair 1 1, AddPair 5 5, Cycle tiny_clock None]
            (fst (main_setup tiny 8 (\<lambda>_. []))) = Inr e \<and>
     GetTopK tiny (Topology e) (DB e) (tiny_request 2 1) (NewPriorityServer (elems (Pairs e))) = Inr (Inr r) \<and>
     GetTopK tiny (Topology e) (DB e) (tiny_request 1 1) (NewPriorityServer (elems (Pairs e))) =
       Inr (Inl (ApiError GRPCNotFound (pair_message 1 1 ''not found'')))"
proof -
  let ?evs = "[Ingest (tiny_event 2) 9999, RemovePair 1 1, AddPair 5 5, Cycle tiny_clock None]"
  have spec: "\<exists>e. gfold (engine_apply amd64_runtime tiny) ?evs (fst (main_setup tiny 8 (\<lambda>_. []))) = Inr e \<and>
      pod_rel tiny s e \<and>
      (posted_pairs (board s) = ranked_pairs s \<longrightarrow>
         (\<forall>req srv. \<exists>reply. GetTopK tiny (Topology e) (DB e) req (RefreshPairIndex (elems (Pairs e)) srv) = Inr reply \<and>
            reply_ok tiny s req reply))"
    if "s = fold (pod_step amd64_runtime) ?evs (pod_start (buildPairs tiny (PairsPerPod tiny)))" for s
    by (rule pod_meets_specification [OF tiny_ok _ sort_contract_amd64 _ that]) (simp_all add: tiny_event_def)
  obtain s where s: "s = fold (pod_step amd64_runtime) ?evs (pod_start (buildPairs tiny (PairsPerPod tiny)))" by blast
  have at: "states s (MakePairKey 2 1) = Some StatusActive" "states s (MakePairKey 1 1) = Some StatusRemoved"
    "MakePairKey 2 1 \<in> Key ` set (ranked_pairs s)" "posted_pairs (board s) = ranked_pairs s"
    by (simp_all add: s pod_start_def promote_states_def tiny_pod_pairs Let_def pair_of_def MakePairKey_def)
  from spec [OF s] at(4) obtain e where
    e: "gfold (engine_apply amd64_runtime tiny) ?evs (fst (main_setup tiny 8 (\<lambda>_. []))) = Inr e"
    "\<And>req srv. \<exists>reply. GetTopK tiny (Topology e) (DB e) req (RefreshPairIndex (elems (Pairs e)) srv) = Inr reply \<and>
       reply_ok tiny s req reply" by blast
  obtain reply where "GetTopK tiny (Topology e) (DB e) (tiny_request 2 1) (NewPriorityServer (elems (Pairs e))) = Inr reply"
      "reply_ok tiny s (tiny_request 2 1) reply" unfolding NewPriorityServer_def using e(2) by blast
  moreover obtain reply' where
      "GetTopK tiny (Topology e) (DB e) (tiny_request 1 1) (NewPriorityServer (elems (Pairs e))) = Inr reply'"
      "reply_ok tiny s (tiny_request 1 1) reply'" unfolding NewPriorityServer_def using e(2) by blast
  moreover have "\<exists>r. reply = Inr r" "reply' = Inl (ApiError GRPCNotFound (pair_message 1 1 ''not found''))"
    using calculation(2,4) at(1-3) by (auto simp: reply_ok_def tiny_request_def Let_def)
  ultimately show ?thesis using e(1) by blast
qed

text \<open>
  C2: The cgo pod as a whole, against a specification that differs where the programs do: a new
  pair is ranked at once, all pairs added since the last cycle become active, and the replies
  have no empty slots and other messages.  The events are limited to what the C code can take:
  at most \<open>n\<close> TPIDs per order, updates whose sums cannot overflow for such orders, and new pairs
  with a row.
\<close>

theorem cgo_pod_meets_specification:
  assumes "workload_ok w" and "numBinTags w < 2 ^ 32" and "sort_contract rt"
    and "\<forall>ev \<in> set evs. cgo_event_ok rt w n ev"
    and "s = fold (cgo_pod_step rt) evs (cgo_pod_start (snd (cgo_main_pairs w)))"
  shows "\<exists>e0 e. cgo_main_setup w True cores env = Inr e0 \<and> gfold (cgo_engine_apply rt w) evs e0 = Inr e \<and>
           cgo_pod_rel w n s e \<and>
           (posted_pairs (board s) = ranked_pairs s \<longrightarrow>
              (\<forall>req srv. \<exists>reply.
                 cgo_GetTopK w (Topology e) (DB e) req (cgo_RefreshPairIndex (elems (Pairs e)) srv) = Inr reply \<and>
                 cgo_reply_ok w s req reply))"
  using assms by (rule cgo_pod_serves)

theorem cgo_pod_meets_specification_witness:
  "\<exists>e0 e r. cgo_main_setup tiny True 8 (\<lambda>_. []) = Inr e0 \<and>
     gfold (cgo_engine_apply amd64_runtime tiny)
       [CgoIngest (tiny_c_event 2) 9999, CgoRemovePair 0 0, CgoAddPair 1 5, CgoCycle tiny_clock (Some tiny_c_update)]
       e0 = Inr e \<and>
     cgo_GetTopK tiny (Topology e) (DB e) (tiny_request 1 5) (cgo_NewPriorityServer (elems (Pairs e))) = Inr (Inr r) \<and>
     cgo_GetTopK tiny (Topology e) (DB e) (tiny_request 0 0) (cgo_NewPriorityServer (elems (Pairs e))) =
       Inr (Inl (ApiError GRPCNotFound ''pair not found''))"
proof -
  let ?evs = "[CgoIngest (tiny_c_event 2) 9999, CgoRemovePair 0 0, CgoAddPair 1 5, CgoCycle tiny_clock (Some tiny_c_update)]"
  have spec: "\<exists>e0 e. cgo_main_setup tiny True 8 (\<lambda>_. []) = Inr e0 \<and> gfold (cgo_engine_apply amd64_runtime tiny) ?evs e0 = Inr e \<and>
      cgo_pod_rel tiny 5 s e \<and>
      (posted_pairs (board s) = ranked_pairs s \<longrightarrow>
         (\<forall>req srv. \<exists>reply.
            cgo_GetTopK tiny (Topology e) (DB e) req (cgo_RefreshPairIndex (elems (Pairs e)) srv) = Inr reply \<and>
            cgo_reply_ok tiny s req reply))"
    if "s = fold (cgo_pod_step amd64_runtime) ?evs (cgo_pod_start (snd (cgo_main_pairs tiny)))" for s
    by (rule cgo_pod_meets_specification [OF tiny_ok _ sort_contract_amd64 _ that])
      (use tiny_update_safe in \<open>simp_all add: tiny_c_event_def\<close>)
  obtain s where s: "s = fold (cgo_pod_step amd64_runtime) ?evs (cgo_pod_start (snd (cgo_main_pairs tiny)))" by blast
  have at: "states s (MakePairKey 1 5) = Some StatusActive" "states s (MakePairKey 0 0) = Some StatusRemoved"
    "MakePairKey 1 5 \<in> Key ` set (ranked_pairs s)" "posted_pairs (board s) = ranked_pairs s"
    by (simp_all add: s cgo_pod_start_def tiny_pod_pairs Let_def pair_of_def MakePairKey_def)
  from spec [OF s] at(4) obtain e0 e where
    e: "cgo_main_setup tiny True 8 (\<lambda>_. []) = Inr e0" "gfold (cgo_engine_apply amd64_runtime tiny) ?evs e0 = Inr e"
    "\<And>req srv. \<exists>reply. cgo_GetTopK tiny (Topology e) (DB e) req (cgo_RefreshPairIndex (elems (Pairs e)) srv) = Inr reply \<and>
       cgo_reply_ok tiny s req reply" by blast
  have new: "cgo_NewPriorityServer ps = cgo_RefreshPairIndex ps (NewPriorityServer [])" for ps
    by (simp add: refresh_eq)
  obtain reply where "cgo_GetTopK tiny (Topology e) (DB e) (tiny_request 1 5) (cgo_NewPriorityServer (elems (Pairs e))) = Inr reply"
      "cgo_reply_ok tiny s (tiny_request 1 5) reply" unfolding new using e(3) by blast
  moreover obtain reply' where
      "cgo_GetTopK tiny (Topology e) (DB e) (tiny_request 0 0) (cgo_NewPriorityServer (elems (Pairs e))) = Inr reply'"
      "cgo_reply_ok tiny s (tiny_request 0 0) reply'" unfolding new using e(3) by blast
  moreover have "\<exists>r. reply = Inr r" "reply' = Inl (ApiError GRPCNotFound ''pair not found'')"
    using calculation(2,4) at(1-3) by (auto simp: cgo_reply_ok_def tiny_request_def Let_def)
  ultimately show ?thesis using e(1,2) by blast
qed

section \<open>The compute cycle\<close>

text \<open>
  C3: A cycle of the pure implementation never faults, keeps the invariant, and does what
  it is for: expired orders leave the registry, the indexes and the matrix; every other
  score is shifted by the update, clamped; every pair's four lists in the published buffer
  hold the best of its orders (those under its bin tag or, where there is none, all active
  ones), best first, \<open>-1\<close> in the rest, and only \<open>-1\<close> for a removed pair; and the pairs that
  were warming up are active.
\<close>

theorem cycle_correct:
  assumes "pure_inv w e" and "sort_contract rt"
  shows "\<exists>stats e'. RunCycleWithDict rt w clk update e = Inr (stats, e') \<and> pure_inv w e' \<and>
           store_after_cycle w (now_secs clk) (update_deltas rt update) (NumPPS (Matrix e))
             (cell w (Matrix e)) (cell w (Matrix e')) e e' \<and>
           ranked_buffer w (slen (Pairs e))
             (pair_tables w (now_secs clk) (e'\<lparr>Topology := Topology e\<rparr>)) (Load (DB e')) \<and>
           promoted (pendingWarmup e) (Topology e) (Topology e')"
  using cycle_ok [OF assms, of clk update] by blast

theorem cycle_correct_witness:
  "\<exists>stats e'. RunCycleWithDict amd64_runtime tiny tiny_clock (Some tiny_update) tiny_engine =
       Inr (stats, e') \<and>
     ranked_buffer tiny 3 (pair_tables tiny 10000 (e'\<lparr>Topology := setup_topology tiny_pairs\<rparr>))
       (Load (DB e'))"
  using cycle_correct [OF tiny_inv sort_contract_amd64, of tiny_clock "Some tiny_update"]
  by (auto simp: tiny_clock_def)

text \<open>
  C4: After a cycle of the pure engine, every ID in a published list is an order of the
  registry that is active and has not outlived its TTL; the pair has not been removed; and the
  order is listed under the pair's bin tag, unless no order is, where the code falls back to
  all active orders.
\<close>

theorem published_orders_are_live:
  assumes "pure_inv w e" and "sort_contract rt"
    and "RunCycleWithDict rt w clk update e = Inr (stats, e')"
    and "p < slen (Pairs e)" and "t < NumTables"
    and "v \<in> set (rb_list w (Load (DB e')) p t)" and "v \<noteq> -1"
  shows "unat v < NumOrders w \<and> Active (Meta (Registry e') ! unat v) \<and>
         \<not> expired (now_secs clk) (Meta (Registry e') ! unat v) \<and>
         val (Topology e) (Key (elems (Pairs e) ! p)) \<noteq> Some StatusRemoved \<and>
         (v \<in> set (bintag_orders (Indexes e') (BinTagID (elems (Pairs e) ! p))) \<or>
          bintag_orders (Indexes e') (BinTagID (elems (Pairs e) ! p)) = [])"
  using assms by (rule published_orders)

theorem published_orders_are_live_witness:
  "\<exists>stats e'. RunCycleWithDict amd64_runtime tiny tiny_clock None tiny_engine = Inr (stats, e') \<and>
     rb_list tiny (Load (DB e')) 0 TblHeuristic = [0, 3] \<and>
     (\<forall>v \<in> {0, 3 :: u32}. Active (Meta (Registry e') ! unat v) \<and> \<not> expired 10000 (Meta (Registry e') ! unat v)) \<and>
     bintag_orders (Indexes e') 1 = [0, 3]"
proof -
  obtain stats e' where run: "RunCycleWithDict amd64_runtime tiny tiny_clock None tiny_engine = Inr (stats, e')"
    and lists: "rb_list tiny (Load (DB e')) 0 TblHeuristic = [0, 3]" "bintag_orders (Indexes e') 1 = [0, 3]"
    by (rule tiny_published)
  have "Active (Meta (Registry e') ! unat v) \<and> \<not> expired 10000 (Meta (Registry e') ! unat v)" if "v \<in> {0, 3}" for v :: u32
  proof -
    have v: "v \<in> set (rb_list tiny (Load (DB e')) 0 TblHeuristic)" "v \<noteq> -1" using that by (auto simp: lists(1))
    have "0 < slen (Pairs tiny_engine)" "TblHeuristic < NumTables" by (simp_all add: table_defs)
    from published_orders_are_live [OF tiny_inv sort_contract_amd64 run this v] show ?thesis
      by (simp add: tiny_clock_def)
  qed
  then have "\<forall>v \<in> {0, 3 :: u32}. Active (Meta (Registry e') ! unat v) \<and> \<not> expired 10000 (Meta (Registry e') ! unat v)"
    by (rule ballI)
  then show ?thesis using run lists by (intro exI conjI)
qed

text \<open>
  C5: No sequence of events makes the engine of a new pod panic or leave its invariant, as
  long as each ingested order has an ID of the registry.
\<close>

theorem engine_runs_never_fault:
  assumes "workload_ok w" and "sort_contract rt" and "\<forall>ev \<in> set evs. event_ok w ev"
  shows "\<exists>e'. gfold (engine_apply rt w) evs (fst (main_setup w cores env)) = Inr e' \<and> pure_inv w e'"
  using engine_run_ok [OF main_setup_inv [OF assms(1)] assms(2,3)] .

theorem engine_runs_never_fault_witness:
  "\<exists>e'. gfold (engine_apply amd64_runtime tiny)
          [Ingest (tiny_event 2) 9999, AddPair 2 2, Cycle tiny_clock (Some tiny_update),
           OrderRemoved 2, RemovePair 1 1, Cycle tiny_clock None]
          (fst (main_setup tiny 8 (\<lambda>_. []))) = Inr e' \<and> pure_inv tiny e'"
  by (rule engine_runs_never_fault) (simp_all add: tiny_ok sort_contract_amd64 tiny_event_def)

text \<open>
  C6: The cgo cycle does the same on the C heap, provided every ranked PPS has a row of the
  matrix, or else its bin tag has no active order, and no sum in the C kernel can overflow;
  its pairs are promoted unconditionally.
\<close>

theorem cgo_cycle_correct:
  assumes "cgo_inv w e" and "sort_contract rt" and "cgo_rows_ok e"
    and "update_safe w (cgo_update_deltas rt update
        (fold RemoveOrder (expired_ids (now_secs clk) (Registry e)) (Indexes e)))"
  shows "\<exists>stats e'. cgo_RunCycleWithDict rt w clk update e = Inr (stats, e') \<and> cgo_inv w e' \<and>
           store_after_cycle w (now_secs clk) (cgo_update_deltas rt update) (cNumPPS (Matrix e))
             (cell w (c_view (Matrix e))) (cell w (c_view (Matrix e'))) e e' \<and>
           ranked_buffer w (slen (Pairs e)) (cgo_pair_tables w (now_secs clk) e') (Load (DB e')) \<and>
           pendingWarmup e' = [] \<and>
           (\<forall>k. val (Topology e') k =
              (if k \<in> Key ` set (pendingWarmup e) then Some StatusActive else val (Topology e) k))"
  using cgo_cycle_ok [OF assms] by blast

theorem cgo_cycle_correct_witness:
  "\<exists>stats e'. cgo_RunCycleWithDict amd64_runtime tiny tiny_clock (Some tiny_c_update) tiny_c_engine =
       Inr (stats, e') \<and>
     ranked_buffer tiny 3 (cgo_pair_tables tiny 10000 e') (Load (DB e'))"
  using cgo_cycle_correct [OF tiny_c_inv sort_contract_amd64 tiny_c_rows,
      of "Some tiny_c_update" tiny_clock] tiny_c_safe
  by (auto simp: tiny_clock_def)

section \<open>The two main programs\<close>

text \<open>
  C7: The whole \<^verbatim>\<open>main\<close> of the pure program runs without a panic, for every random
  generator that keeps its contract: seeding makes every order active and lists it under every
  bin tag, each of the three cycles gets 100000 deltas, the demo requests are refused as the
  program announces, the request for an active pair gets the full number of IDs unless orders
  have outlived their TTL meanwhile, and the evicted order is inactive.
\<close>

theorem pure_main_runs:
  assumes "rand_contract R" and "sort_contract rt" and "workload_ok w"
    and "42 < NumOrders w" and "2 \<le> PairsPerPod w" and "numPPS w < 999" and "numBinTags w < 2 ^ 32"
  shows "\<exists>rep e r tpids. pure_main R rt w cores env clk = Inr (rep, e) \<and> pure_inv w e \<and>
           worst rep = \<lparr>activeCount = NumOrders w, binTagIDs = numBinTags w, btMin = NumOrders w,
                        btMax = NumOrders w, tpidIDs = tpids\<rparr> \<and>
           map fst (cycles rep) = [100000, 100000, 100000] \<and>
           breaker rep =
             \<lparr>warming_answer = Inl (ApiError GRPCUnavailable (pair_message 999 888 ''is warming up'')),
              removed_answer = Inl (ApiError GRPCNotFound (pair_message 1 1 ''not found'')),
              active_answer = Inr r\<rparr> \<and>
           (fresh_cycles clk \<longrightarrow>
              non_empty_slots r = min (nat (clip_k w 5)) (min (TopK w) (NumOrders w))) \<and>
           \<not> still_active rep"
  by (rule pure_main_ok [OF assms])

theorem pure_main_runs_witness:
  "\<exists>rep e r. pure_main counting_rand amd64_runtime pure_workload 8 (\<lambda>v. []) demo_clock = Inr (rep, e) \<and>
     active_answer (breaker rep) = Inr r \<and> non_empty_slots r = 5 \<and> activeCount (worst rep) = 1000000"
proof -
  have size: "42 < NumOrders pure_workload" "2 \<le> PairsPerPod pure_workload" "numPPS pure_workload < 999"
    "numBinTags pure_workload < 2 ^ 32" "NumOrders pure_workload = 1000000" "TopK pure_workload = 1000"
    by (simp_all add: pure_workload_def PairsPerPod_def)
  have five: "min (nat (clip_k pure_workload 5)) (min (TopK pure_workload) (NumOrders pure_workload)) = 5"
    by (simp add: demo_clip size)
  from pure_main_runs [OF rand_contract_counting sort_contract_amd64 workload_ok_pure size(1-4),
      of 8 "\<lambda>v. []" demo_clock] obtain rep e r tpids where
    "pure_main counting_rand amd64_runtime pure_workload 8 (\<lambda>v. []) demo_clock = Inr (rep, e)"
    "worst rep = \<lparr>activeCount = NumOrders pure_workload, binTagIDs = numBinTags pure_workload,
       btMin = NumOrders pure_workload, btMax = NumOrders pure_workload, tpidIDs = tpids\<rparr>"
    "breaker rep =
       \<lparr>warming_answer = Inl (ApiError GRPCUnavailable (pair_message 999 888 ''is warming up'')),
        removed_answer = Inl (ApiError GRPCNotFound (pair_message 1 1 ''not found'')),
        active_answer = Inr r\<rparr>"
    "fresh_cycles demo_clock \<longrightarrow>
       non_empty_slots r = min (nat (clip_k pure_workload 5)) (min (TopK pure_workload) (NumOrders pure_workload))"
    by (elim exE conjE) (erule (3) that)
  with five demo_fresh(1) size(5) show ?thesis by auto
qed

text \<open>
  C8: The whole \<^verbatim>\<open>main\<close> of the cgo program runs without a panic, an access outside the C
  block or an overflow in the kernel, given the memory for the matrix: over a hundred cycles
  with 100000 updates each; the new pair of the demo, whose PPS has no row, is refused, then
  promoted and answered with empty lists, because no order has its bin tag; the matrix is
  freed at the end.
\<close>

theorem cgo_main_runs:
  assumes "rand_contract R" and "sort_contract rt" and "workload_ok w"
    and "42 < NumOrders w" and "0 < numBinTags w" and "numBinTags w \<le> 88"
  shows "\<exists>rep e r tpids stats. cgo_main R rt w True cores env clk = Inr (rep, e) \<and> ptr (Matrix e) = None \<and>
           cgo_worst rep = \<lparr>activeCount = NumOrders w, binTagIDs = numBinTags w, btMin = NumOrders w,
                            btMax = NumOrders w, tpidIDs = tpids\<rparr> \<and>
           map fst (cgo_cycles rep) = replicate 100 100000 \<and>
           first_reply rep = Inr r \<and>
           (cgo_fresh_cycles clk \<longrightarrow>
              length (Heuristic r) = min (nat (clip_k w 5)) (min (TopK w) (NumOrders w))) \<and>
           cgo_breaker rep =
             \<lparr>warming_status = StatusWarmingUp,
              warming_reply = Inl (ApiError GRPCUnavailable ''pair warming up''),
              promote_cycle = stats, promoted_status = StatusActive,
              promoted_reply = Inr \<lparr>Heuristic = [], Large = [], PBT = [], Critical = []\<rparr>\<rparr> \<and>
           \<not> cgo_still_active rep"
  by (rule cgo_main_ok [OF assms])

theorem cgo_main_runs_witness:
  "\<exists>rep e r. cgo_main counting_rand amd64_runtime cgo_workload True 8 (\<lambda>v. []) demo_clock = Inr (rep, e) \<and>
     first_reply rep = Inr r \<and> length (Heuristic r) = 5 \<and> ptr (Matrix e) = None"
proof -
  have size: "42 < NumOrders cgo_workload" "0 < numBinTags cgo_workload"
    "numBinTags cgo_workload \<le> 88" "NumOrders cgo_workload = 300000" "TopK cgo_workload = 1000"
    by (simp_all add: cgo_workload_def)
  have five: "min (nat (clip_k cgo_workload 5)) (min (TopK cgo_workload) (NumOrders cgo_workload)) = 5"
    by (simp add: demo_clip size)
  from cgo_main_runs [OF rand_contract_counting sort_contract_amd64 workload_ok_cgo size(1-3),
      of 8 "\<lambda>v. []" demo_clock] obtain rep e r where
    "cgo_main counting_rand amd64_runtime cgo_workload True 8 (\<lambda>v. []) demo_clock = Inr (rep, e)"
    "ptr (Matrix e) = None" "first_reply rep = Inr r"
    "cgo_fresh_cycles demo_clock \<longrightarrow> length (Heuristic r) =
       min (nat (clip_k cgo_workload 5)) (min (TopK cgo_workload) (NumOrders cgo_workload))"
    by (elim exE conjE) (erule (3) that)
  with five demo_fresh(2) show ?thesis by auto
qed

section \<open>The two engines side by side\<close>

text \<open>
  C9: From corresponding states and updates that cannot make a kernel sum overflow, a cycle of the
  pure and a cycle of the cgo engine both succeed and lead to corresponding states.  Where an
  order is left under the bin tag of a pair, both ranked the same entries, the two published
  lists are best lists of them with the same scores, and with distinct scores they are equal.
  Where none is left, the programs differ: the cgo lists are empty, while the pure engine ranks
  all active orders.
\<close>

theorem engines_agree_on_a_cycle:
  assumes "pure_inv w e" and "cgo_inv w ce" and "sort_contract rt"
    and "same_store w e ce" and "same_pairs e ce" and "same_updates update cupdate"
    and "update_safe w (cgo_update_deltas rt cupdate
        (fold RemoveOrder (expired_ids (now_secs clk) (Registry ce)) (Indexes ce)))"
  shows "\<exists>stats e' cstats ce'. RunCycleWithDict rt w clk update e = Inr (stats, e') \<and>
           cgo_RunCycleWithDict rt w clk cupdate ce = Inr (cstats, ce') \<and>
           same_store w e' ce' \<and> same_pairs e' ce' \<and>
           (\<forall>p < slen (Pairs e). \<forall>t < NumTables.
              bintag_orders (Indexes e') (BinTagID (elems (Pairs e') ! p)) \<noteq> [] \<longrightarrow>
              (\<exists>tabs. pair_tables w (now_secs clk) (e'\<lparr>Topology := Topology e\<rparr>) p = Some tabs \<and>
                 cgo_pair_tables w (now_secs clk) ce' p = Some tabs \<and>
                 same_ranking w (tbl tabs t) (rb_list w (Load (DB e')) p t) (rb_list w (Load (DB ce')) p t))) \<and>
           (\<forall>p < slen (Pairs e). \<forall>t < NumTables.
              bintag_orders (Indexes e') (BinTagID (elems (Pairs e') ! p)) = [] \<longrightarrow>
              rb_list w (Load (DB ce')) p t = replicate (TopK w) (-1))"
  using same_cycle [OF assms] by blast

theorem engines_agree_on_a_cycle_witness:
  "\<exists>stats e' cstats ce'.
     RunCycleWithDict amd64_runtime tiny tiny_clock (Some tiny_update) tiny_engine = Inr (stats, e') \<and>
     cgo_RunCycleWithDict amd64_runtime tiny tiny_clock (Some tiny_c_update) tiny_c_engine = Inr (cstats, ce') \<and>
     same_store tiny e' ce'"
proof -
  have "update_safe tiny (cgo_update_deltas amd64_runtime (Some tiny_c_update)
      (fold RemoveOrder (expired_ids (now_secs tiny_clock) (Registry tiny_c_engine)) (Indexes tiny_c_engine)))"
    using tiny_c_safe by (simp add: tiny_clock_def)
  from engines_agree_on_a_cycle [OF tiny_inv tiny_c_inv sort_contract_amd64 tiny_same_store tiny_same_pairs
      tiny_same_updates this] show ?thesis by blast
qed

text \<open>
  C10: Over any sequence of corresponding ingestions, removals of orders and cycles, neither
  engine faults and the two stay in corresponding states, as long as the ingested orders have
  IDs of the registry and at most \<open>n\<close> TPIDs, and no update can make a kernel sum overflow for
  such orders.
\<close>

theorem engines_stay_in_step:
  assumes "list_all2 same_event evs cevs" and "\<forall>cev \<in> set cevs. safe_event rt w n cev"
    and "in_step w n e ce" and "sort_contract rt"
  shows "\<exists>e' ce'. gfold (engine_apply rt w) evs e = Inr e' \<and> gfold (cgo_engine_apply rt w) cevs ce = Inr ce' \<and>
           in_step w n e' ce'"
  by (rule in_step_run [OF assms])

theorem engines_stay_in_step_witness:
  "\<exists>e' ce'. gfold (engine_apply amd64_runtime tiny)
       [Ingest (tiny_event 2) 9999, Cycle tiny_clock (Some tiny_update), OrderRemoved 2, Cycle tiny_clock None]
       tiny_engine = Inr e' \<and>
     gfold (cgo_engine_apply amd64_runtime tiny)
       [CgoIngest (tiny_c_event 2) 9999, CgoCycle tiny_clock (Some tiny_c_update), CgoOrderRemoved 2,
        CgoCycle tiny_clock None] tiny_c_engine = Inr ce' \<and> same_store tiny e' ce'"
proof -
  have none: "update_safe tiny (cgo_update_deltas amd64_runtime None ix)" for ix
    by (simp add: update_safe_def cgo_update_deltas_def)
  have "\<exists>e' ce'. gfold (engine_apply amd64_runtime tiny)
       [Ingest (tiny_event 2) 9999, Cycle tiny_clock (Some tiny_update), OrderRemoved 2, Cycle tiny_clock None]
       tiny_engine = Inr e' \<and>
     gfold (cgo_engine_apply amd64_runtime tiny)
       [CgoIngest (tiny_c_event 2) 9999, CgoCycle tiny_clock (Some tiny_c_update), CgoOrderRemoved 2,
        CgoCycle tiny_clock None] tiny_c_engine = Inr ce' \<and> in_step tiny 5 e' ce'"
    by (rule engines_stay_in_step [OF _ _ tiny_in_step sort_contract_amd64])
      (use tiny_same_updates tiny_update_safe none in
        \<open>simp_all add: tiny_event_def tiny_c_event_def same_updates_def\<close>)
  then show ?thesis unfolding in_step_def by blast
qed

section \<open>Requests\<close>

text \<open>
  C11: After a cycle, a request for an active pair that is among the engine's ranked pairs, which
  have distinct keys, on a server whose index was built from them, is answered with the four rankings of that cycle, cut at the requested
  length.
\<close>

theorem served_after_cycle:
  assumes "pure_inv w e" and "sort_contract rt"
    and "RunCycleWithDict rt w clk update e = Inr (stats, e')"
    and "distinct (map Key (elems (Pairs e)))" and "p < slen (Pairs e)"
    and "Key (elems (Pairs e) ! p) = MakePairKey (rPPSID req) (rBinTagID req)"
    and "val (Topology e') (Key (elems (Pairs e) ! p)) = Some StatusActive"
  shows "\<exists>tabs r. pair_tables w (now_secs clk) (e'\<lparr>Topology := Topology e\<rparr>) p = Some tabs \<and>
           GetTopK w (Topology e') (DB e') req (NewPriorityServer (elems (Pairs e'))) = Inr (Inr r) \<and>
           response_is (best_of w (K req)) tabs r"
  using assms by (rule served_ok)

theorem served_after_cycle_witness:
  "\<exists>stats e' tabs r.
     RunCycleWithDict amd64_runtime tiny tiny_clock (Some tiny_update) tiny_engine = Inr (stats, e') \<and>
     pair_tables tiny 10000 (e'\<lparr>Topology := setup_topology tiny_pairs\<rparr>) 0 = Some tabs \<and>
     GetTopK tiny (Topology e') (DB e') (tiny_request 1 1) (NewPriorityServer (elems (Pairs e'))) = Inr (Inr r) \<and>
     response_is (best_of tiny 1) tabs r"
proof -
  obtain stats e' where
    run: "RunCycleWithDict amd64_runtime tiny tiny_clock (Some tiny_update) tiny_engine = Inr (stats, e')"
    and active: "val (Topology e') (MakePairKey 1 1) = Some StatusActive" by (rule tiny_cycle)
  have "\<exists>tabs r. pair_tables tiny (now_secs tiny_clock) (e'\<lparr>Topology := Topology tiny_engine\<rparr>) 0 = Some tabs \<and>
      GetTopK tiny (Topology e') (DB e') (tiny_request 1 1) (NewPriorityServer (elems (Pairs e'))) = Inr (Inr r) \<and>
      response_is (best_of tiny (K (tiny_request 1 1))) tabs r"
    by (rule served_after_cycle [OF tiny_inv sort_contract_amd64 run])
      (use active tiny_keys(1) in \<open>simp_all add: tiny_request_def\<close>, simp_all add: tiny_pairs_def)
  then show ?thesis using run by (auto simp: tiny_clock_def tiny_request_def)
qed

text \<open>
  C12: The cgo server answers such a request with the IDs only: no empty slot is returned,
  and there are as many IDs as were ranked, up to the requested length.
\<close>

theorem cgo_served_after_cycle:
  assumes "cgo_inv w e" and "sort_contract rt" and "cgo_rows_ok e"
    and "update_safe w (cgo_update_deltas rt update
        (fold RemoveOrder (expired_ids (now_secs clk) (Registry e)) (Indexes e)))"
    and "cgo_RunCycleWithDict rt w clk update e = Inr (stats, e')"
    and "distinct (map Key (elems (Pairs e)))" and "p < slen (Pairs e)"
    and "Key (elems (Pairs e) ! p) = MakePairKey (rPPSID req) (rBinTagID req)"
    and "val (Topology e') (Key (elems (Pairs e) ! p)) = Some StatusActive"
  shows "\<exists>tabs r. cgo_pair_tables w (now_secs clk) e' p = Some tabs \<and>
           cgo_GetTopK w (Topology e') (DB e') req (cgo_NewPriorityServer (elems (Pairs e'))) =
             Inr (Inr r) \<and>
           response_is (cgo_best_of w (K req)) tabs r"
  using assms by (rule cgo_served_ok)

theorem cgo_served_after_cycle_witness:
  "\<exists>stats e' tabs r.
     cgo_RunCycleWithDict amd64_runtime tiny tiny_clock (Some tiny_c_update) tiny_c_engine = Inr (stats, e') \<and>
     cgo_pair_tables tiny 10000 e' 1 = Some tabs \<and>
     cgo_GetTopK tiny (Topology e') (DB e') (tiny_request 1 1) (cgo_NewPriorityServer (elems (Pairs e'))) = Inr (Inr r) \<and>
     response_is (cgo_best_of tiny 1) tabs r"
proof -
  obtain stats e' where
    run: "cgo_RunCycleWithDict amd64_runtime tiny tiny_clock (Some tiny_c_update) tiny_c_engine = Inr (stats, e')"
    and active: "\<forall>k. val (Topology e') k =
       (if k \<in> Key ` set (pendingWarmup tiny_c_engine) then Some StatusActive
        else val (Topology tiny_c_engine) k)"
    using tiny_c_cycle [OF tiny_c_inv tiny_c_rows] by auto
  have "\<exists>tabs r. cgo_pair_tables tiny (now_secs tiny_clock) e' 1 = Some tabs \<and>
      cgo_GetTopK tiny (Topology e') (DB e') (tiny_request 1 1) (cgo_NewPriorityServer (elems (Pairs e'))) = Inr (Inr r) \<and>
      response_is (cgo_best_of tiny (K (tiny_request 1 1))) tabs r"
    by (rule cgo_served_after_cycle [OF tiny_c_inv sort_contract_amd64 tiny_c_rows _ run])
      (use active tiny_c_safe in \<open>simp_all add: tiny_request_def tiny_c_pairs_def tiny_keys tiny_clock_def\<close>)
  then show ?thesis using run by (auto simp: tiny_clock_def tiny_request_def)
qed

text \<open>
  C13: Requests beside the running pure engine are linearizable against the specification.  Take
  any run from \<^verbatim>\<open>main\<close>'s set-up to a state \<open>e\<close> whose pairs are those of the last
  cycle, a server that has refreshed its index there, and then any events that add or remove
  no pair.  The three reads of a request may fall anywhere between the single writes of these
  events: it can always be finished by its own steps, and its answer is no fault but a reply
  that the specification allows after some of the events.
\<close>

theorem requests_are_linearizable:
  assumes "workload_ok w" and "numBinTags w < 2 ^ 32" and "sort_contract rt"
    and "\<forall>ev \<in> set past. event_ok w ev"
    and "gfold (engine_apply rt w) past (fst (main_setup w cores env)) = Inr e"
    and "s = fold (pod_step rt) past (pod_start (buildPairs w (PairsPerPod w)))"
    and "posted_pairs (board s) = ranked_pairs s" and "srv = RefreshPairIndex (elems (Pairs e)) srv0"
    and "\<forall>ev \<in> set evs. event_ok w ev \<and> \<not> pair_event ev"
    and "pure_serve w req srv ((Topology e, DB e), pure_writes rt w evs e, Arrived) (sh, ws, r)"
  shows "(\<exists>a. pure_serve w req srv (sh, ws, r) (sh, ws, Answered a)) \<and>
         (\<forall>a. r = Answered a \<longrightarrow> (\<exists>evs1 evs2 reply. evs = evs1 @ evs2 \<and> a = Inr reply \<and>
            reply_ok w (fold (pod_step rt) evs1 s) req reply))"
  using assms by (rule requests_linearizable)

theorem requests_are_linearizable_witness:
  "\<exists>e srv sh reply s0. e = fst (main_setup tiny 8 (\<lambda>_. [])) \<and>
     s0 = pod_start (buildPairs tiny (PairsPerPod tiny)) \<and>
     pure_serve tiny (tiny_request 1 1) srv
       ((Topology e, DB e), pure_writes amd64_runtime tiny [Cycle tiny_clock None] e, Arrived)
       (sh, [], Answered (Inr reply)) \<and>
     (reply_ok tiny s0 (tiny_request 1 1) reply \<or>
      reply_ok tiny (pod_step amd64_runtime (Cycle tiny_clock None) s0) (tiny_request 1 1) reply)"
proof -
  let ?e = "fst (main_setup tiny 8 (\<lambda>_. []))" and ?s = "pod_start (buildPairs tiny (PairsPerPod tiny))"
  obtain sh a where path: "pure_serve tiny (tiny_request 1 1) (RefreshPairIndex (elems (Pairs ?e)) (NewPriorityServer []))
      ((Topology ?e, DB ?e), pure_writes amd64_runtime tiny [Cycle tiny_clock None] ?e, Arrived) (sh, [], Answered a)"
    by (rule tiny_pod_served [OF refl])
  have posted: "posted_pairs (board ?s) = ranked_pairs ?s" by (simp add: pod_start_def)
  obtain evs1 evs2 reply where at: "[Cycle tiny_clock None] = evs1 @ evs2" "a = Inr reply"
      "reply_ok tiny (fold (pod_step amd64_runtime) evs1 ?s) (tiny_request 1 1) reply"
    using requests_are_linearizable [where past = "[]" and evs = "[Cycle tiny_clock None]" and cores = 8
          and env = "\<lambda>_. []" and s = ?s, OF tiny_ok _ sort_contract_amd64 _ _ _ posted refl _ path] by auto
  have "evs1 = [] \<or> evs1 = [Cycle tiny_clock None]" using at(1) by (auto simp: Cons_eq_append_conv)
  then have "reply_ok tiny ?s (tiny_request 1 1) reply \<or>
      reply_ok tiny (pod_step amd64_runtime (Cycle tiny_clock None) ?s) (tiny_request 1 1) reply"
    using at(3) by (elim disjE) (simp_all del: pod_step.simps)
  with path show ?thesis unfolding at(2) by blast
qed

text \<open>
  C14: The same for the cgo engine and server.
\<close>

theorem cgo_requests_are_linearizable:
  assumes "workload_ok w" and "numBinTags w < 2 ^ 32" and "sort_contract rt"
    and "\<forall>ev \<in> set past. cgo_event_ok rt w n ev"
    and "cgo_main_setup w True cores env = Inr e0" and "gfold (cgo_engine_apply rt w) past e0 = Inr e"
    and "s = fold (cgo_pod_step rt) past (cgo_pod_start (snd (cgo_main_pairs w)))"
    and "posted_pairs (board s) = ranked_pairs s" and "srv = cgo_RefreshPairIndex (elems (Pairs e)) srv0"
    and "\<forall>ev \<in> set evs. cgo_event_ok rt w n ev \<and> \<not> cgo_pair_event ev"
    and "cgo_serve w req srv ((Topology e, DB e), cgo_writes rt w evs e, Arrived) (sh, ws, r)"
  shows "(\<exists>a. cgo_serve w req srv (sh, ws, r) (sh, ws, Answered a)) \<and>
         (\<forall>a. r = Answered a \<longrightarrow> (\<exists>evs1 evs2 reply. evs = evs1 @ evs2 \<and> a = Inr reply \<and>
            cgo_reply_ok w (fold (cgo_pod_step rt) evs1 s) req reply))"
  using assms by (rule cgo_requests_linearizable)

theorem cgo_requests_are_linearizable_witness:
  "\<exists>e srv sh reply s0. cgo_main_setup tiny True 8 (\<lambda>_. []) = Inr e \<and>
     s0 = cgo_pod_start (snd (cgo_main_pairs tiny)) \<and>
     cgo_serve tiny (tiny_request 1 1) srv
       ((Topology e, DB e), cgo_writes amd64_runtime tiny [CgoCycle tiny_clock None] e, Arrived)
       (sh, [], Answered (Inr reply)) \<and>
     (cgo_reply_ok tiny s0 (tiny_request 1 1) reply \<or>
      cgo_reply_ok tiny (cgo_pod_step amd64_runtime (CgoCycle tiny_clock None) s0) (tiny_request 1 1) reply)"
proof -
  let ?s = "cgo_pod_start (snd (cgo_main_pairs tiny))"
  obtain e where e: "cgo_main_setup tiny True 8 (\<lambda>_. []) = Inr e"
    using cgo_pod_rel_start [OF tiny_ok _ refl] by fastforce
  obtain sh a where path: "cgo_serve tiny (tiny_request 1 1) (cgo_RefreshPairIndex (elems (Pairs e)) (NewPriorityServer []))
      ((Topology e, DB e), cgo_writes amd64_runtime tiny [CgoCycle tiny_clock None] e, Arrived) (sh, [], Answered a)"
    by (rule tiny_c_pod_served [OF e])
  have ok: "cgo_event_ok amd64_runtime tiny 5 (CgoCycle tiny_clock None)"
    by (simp add: update_safe_def cgo_update_deltas_def)
  have posted: "posted_pairs (board ?s) = ranked_pairs ?s" by (simp add: cgo_pod_start_def)
  obtain evs1 evs2 reply where at: "[CgoCycle tiny_clock None] = evs1 @ evs2" "a = Inr reply"
      "cgo_reply_ok tiny (fold (cgo_pod_step amd64_runtime) evs1 ?s) (tiny_request 1 1) reply"
    using cgo_requests_are_linearizable [where past = "[]" and evs = "[CgoCycle tiny_clock None]" and n = 5
          and s = ?s, OF tiny_ok _ sort_contract_amd64 _ e _ _ posted refl _ path] ok by auto
  have "evs1 = [] \<or> evs1 = [CgoCycle tiny_clock None]" using at(1) by (auto simp: Cons_eq_append_conv)
  then have "cgo_reply_ok tiny ?s (tiny_request 1 1) reply \<or>
      cgo_reply_ok tiny (cgo_pod_step amd64_runtime (CgoCycle tiny_clock None) ?s) (tiny_request 1 1) reply"
    using at(3) by (elim disjE) (simp_all del: cgo_pod_step.simps)
  with path e show ?thesis unfolding at(2) by blast
qed

text \<open>
  C15: Exactly when the pure server refuses: UNAVAILABLE (14) for a pair that is warming up;
  NOT_FOUND (5) for a pair that is unknown or removed, or that is active and not in the
  index.
\<close>

theorem refusals:
  "((\<exists>msg. GetTopK w topo db req s = Inr (Inl (ApiError GRPCUnavailable msg))) =
      (val topo (MakePairKey (rPPSID req) (rBinTagID req)) = Some StatusWarmingUp)) \<and>
   ((\<exists>msg. GetTopK w topo db req s = Inr (Inl (ApiError GRPCNotFound msg))) =
      (val topo (MakePairKey (rPPSID req) (rBinTagID req)) \<in> {None, Some StatusRemoved} \<or>
       (val topo (MakePairKey (rPPSID req) (rBinTagID req)) = Some StatusActive \<and>
        PairIndex s (MakePairKey (rPPSID req) (rBinTagID req)) = None)))"
proof (cases "val topo (MakePairKey (rPPSID req) (rBinTagID req))")
  case None
  then show ?thesis
    by (simp add: GetTopK_def Get_def map_zero_def Let_def GRPCNotFound_def GRPCUnavailable_def)
next
  case (Some st)
  then show ?thesis
    by (cases st) (auto simp: GetTopK_def Get_def map_zero_def Let_def GRPCNotFound_def
        GRPCUnavailable_def go_elims split: option.splits)
qed

section \<open>Concurrent writers of the topology\<close>

text \<open>
  C16: The topology is linearizable.  However goroutines interleave the steps of their writes
  and reads (mutex, load, copy loop, store, unlock), the published map is that of the
  operations run one after the other in the order of their effects; a goroutine's effects
  are its calls in their order, so that no write is lost or repeated; and a reader has seen
  the map between two whole operations, at a moment between its call and its return.
\<close>

theorem topology_linearizable:
  assumes "pure_goroutines s"
  shows "atomic_history topo_run s"
  using cow.linearizable [OF assms] by simp

theorem topology_linearizable_witness:
  "atomic_history topo_run race_end \<and> map snd (effects race_end) = [EvAdd 1 2] \<and>
     map seen (reads race_end) = [Map.empty]"
  using topology_linearizable [OF race [of returns_early]] by (simp add: race_end_def)

text \<open>
  C17: The topology of the cgo program is linearizable in the same sense; its activation always
  stores.
\<close>

theorem cgo_topology_linearizable:
  assumes "cgo_goroutines s"
  shows "atomic_history cgo_topo_run s"
  using ccow.linearizable [OF assms] by simp

theorem cgo_topology_linearizable_witness:
  "atomic_history cgo_topo_run race_end \<and> map since (reads race_end) = [0]"
  using cgo_topology_linearizable [OF race [of cgo_returns_early]]
  by (simp add: race_end_def cgo_returns_early_def)

section \<open>Ranking\<close>

text \<open>
  C18: The selection of both implementations returns without a fault for any scratch slice
  and any output of \<^verbatim>\<open>TopK\<close> slots, permutes the scratch slice, and writes the IDs of the
  best entries, best first; the score sequences of the two are equal, and with distinct
  scores so are the outputs.
\<close>

theorem selections_agree:
  assumes "sort_contract rt" and "TopK w \<le> length dst"
  shows "\<exists>ys zs e e'.
           quickselectAndCopy rt w dst xs = Inr (map orderID ys @ drop (length ys) dst, e) \<and>
           cgo_quickselectAndCopy rt w dst xs = Inr (map orderID zs @ drop (length zs) dst, e') \<and>
           mset e = mset xs \<and> mset e' = mset xs \<and>
           top_k (TopK w) xs ys \<and> top_k (TopK w) xs zs \<and> map key ys = map key zs \<and>
           (distinct (map key xs) \<longrightarrow> ys = zs)"
proof -
  obtain ys e where 1: "quickselectAndCopy rt w dst xs = Inr (map orderID ys @ drop (length ys) dst, e)"
    "mset e = mset xs" "top_k (TopK w) xs ys"
    using quickselectAndCopy_ok [OF assms, of xs] unfolding select_and_copy_ok_def by blast
  obtain zs e' where 2: "cgo_quickselectAndCopy rt w dst xs = Inr (map orderID zs @ drop (length zs) dst, e')"
    "mset e' = mset xs" "top_k (TopK w) xs zs"
    using cgo_quickselectAndCopy_ok [OF assms, of xs] unfolding select_and_copy_ok_def by blast
  from 1 2 top_k_scores [OF 1(3) 2(3)] top_k_unique [OF _ 1(3) 2(3)] show ?thesis by blast
qed

theorem selections_agree_witness:
  "\<exists>e e'. quickselectAndCopy amd64_runtime tiny [-1, -1] tiny_entries = Inr ([2, 4], e) \<and>
     cgo_quickselectAndCopy amd64_runtime tiny [-1, -1] tiny_entries = Inr ([2, 4], e')"
proof -
  have best: "map orderID ys = [2, 4]" if "top_k 2 tiny_entries ys" for ys
  proof -
    have "map key ys = [9, 7]" using that by (simp add: top_k_def tiny_entries_def)
    then obtain y z where ys: "ys = [y, z]" "key y = 9" "key z = 7" by auto
    with top_k_set [OF that] show ?thesis by (auto simp: tiny_entries_def)
  qed
  have "TopK tiny \<le> length [-1, -1 :: i32]" by simp
  from selections_agree [OF sort_contract_amd64 this, of tiny_entries] obtain ys zs e e' where
    "quickselectAndCopy amd64_runtime tiny [-1, -1] tiny_entries =
       Inr (map orderID ys @ drop (length ys) [-1, -1], e)" "top_k 2 tiny_entries ys"
    "cgo_quickselectAndCopy amd64_runtime tiny [-1, -1] tiny_entries =
       Inr (map orderID zs @ drop (length zs) [-1, -1], e')" "top_k 2 tiny_entries zs"
    by auto
  moreover from this best have "length ys = 2" "length zs = 2" using map_eq_imp_length_eq [of orderID _ id]
    by (metis length_Cons length_map list.size(3) numeral_2_eq_2 One_nat_def)+
  ultimately show ?thesis using best by simp
qed

text \<open>
  C19: The pure \<^verbatim>\<open>quickselectTopK\<close> terminates without a fault for every \<^verbatim>\<open>k\<close>
  and permutes its slice.  For \<^verbatim>\<open>k\<close> between 0 and the length, both excluded, it leaves
  the \<^verbatim>\<open>k\<close> best entries in front, in descending order; for any other \<^verbatim>\<open>k\<close> it
  leaves the slice as it is, unsorted.
\<close>

theorem quickselect_sorts_prefix:
  assumes "sort_contract rt"
  shows "\<exists>e'. quickselectTopK rt e k = Inr e' \<and> mset e' = mset e \<and>
           (if 0 < k \<and> k < int (length e) then top_k (nat k) e (take (nat k) e') else e' = e)"
proof (cases "0 < k \<and> k < int (length e)")
  case True
  then have k: "0 < nat k" "nat k < length e" "int (nat k) = k" by auto
  obtain e' e'' where sel: "pure_select e (nat k) = Inr e'" "sort_prefix rt e' (nat k) = Inr e''" "mset e'' = mset e"
    "top_k (nat k) e (take (nat k) e'')"
    using pure_sel.select_then_sort [OF assms k(1), of e] k(2) by auto
  then have "quickselectTopK rt e k = Inr e''"
    using quickselectTopK_select [OF k(1), of rt e] k(2,3) by simp
  then show ?thesis unfolding if_P [OF True] using sel by blast
next
  case False
  then show ?thesis by (auto simp: quickselectTopK_def)
qed

theorem quickselect_sorts_prefix_witness:
  "\<exists>e'. quickselectTopK amd64_runtime tiny_entries 3 = Inr e' \<and> map key (take 3 e') = [9, 7, 5] \<and>
     quickselectTopK amd64_runtime tiny_entries 5 = Inr tiny_entries"
  using quickselect_sorts_prefix [OF sort_contract_amd64, of tiny_entries 3]
    quickselect_sorts_prefix [OF sort_contract_amd64, of tiny_entries 5]
  by (auto simp: top_k_def tiny_entries_def)

text \<open>
  C20: The goroutines of phase 2 may be interleaved in any way: whenever all have finished,
  the buffer and the scratch bank are those of the model's sequential loop.
\<close>

theorem phase2_any_schedule:
  assumes "pure_inv w e" and "sort_contract rt" and "0 < slen (Pairs e)"
    and "ceil_div (slen (Pairs e)) (pool_size e (slen (Pairs e))) = Inr step"
    and "e1 = ensureScratch (pool_size e (slen (Pairs e))) e"
    and "rtranclp (pool_step (rank_job (fill_scratch w now e1) (quickselectAndCopy rt w) w))
           (pair_jobs (slen (Pairs e)) step (pool_size e (slen (Pairs e))),
            (scratch e1, NewReadBuffer w (slen (Pairs e)))) (qs, (bank, buf))"
    and "pool_done qs"
  shows "phase2Rank rt w now e = Inr (buf, e\<lparr>scratch := bank\<rparr>)"
  using assms by (rule phase2_schedule)

theorem phase2_any_schedule_witness:
  "\<exists>qs bank buf.
     rtranclp (pool_step (rank_job (fill_scratch tiny 10000 (ensureScratch 2 tiny_engine))
         (quickselectAndCopy amd64_runtime tiny) tiny))
       (pair_jobs 3 2 2, (scratch (ensureScratch 2 tiny_engine), NewReadBuffer tiny 3))
       (qs, (bank, buf)) \<and>
     phase2Rank amd64_runtime tiny 10000 tiny_engine = Inr (buf, tiny_engine\<lparr>scratch := bank\<rparr>)"
proof -
  have n: "0 < slen (Pairs tiny_engine)" by simp
  have step: "ceil_div (slen (Pairs tiny_engine)) (pool_size tiny_engine (slen (Pairs tiny_engine))) = Inr 2"
    by (simp add: tiny_pool ceil_div_def)
  from phase2_run_exists [OF tiny_inv sort_contract_amd64 n step refl]
    phase2_any_schedule [OF tiny_inv sort_contract_amd64 n step refl]
  show ?thesis by (simp add: tiny_pool) blast
qed

text \<open>
  C21: The goroutines of the cgo phase 2 may be interleaved in any way too, if every ranked PPS has a
  row of the matrix or else its bin tag has no active order: a complete run exists, and every
  complete run ends, without a read outside the C block, in the buffer and the scratch slices
  of the sequential model.
\<close>

theorem cgo_phase2_any_schedule:
  assumes "cgo_inv w e" and "sort_contract rt" and "cgo_rows_ok e" and "0 < slen (Pairs e)"
    and "ceil_div (slen (Pairs e)) (pool_size e (slen (Pairs e))) = Inr step"
    and "e1 = ensureScratch (pool_size e (slen (Pairs e))) e"
    and "start = (pair_jobs (slen (Pairs e)) step (pool_size e (slen (Pairs e))),
                  (scratch e1, NewReadBuffer w (slen (Pairs e))))"
    and "job = rank_job (cgo_fill_scratch w now e1) (cgo_quickselectAndCopy rt w) w"
  shows "(\<exists>qs bank buf. rtranclp (pool_step job) start (qs, (bank, buf)) \<and> pool_done qs) \<and>
         (\<forall>qs bank buf. rtranclp (pool_step job) start (qs, (bank, buf)) \<and> pool_done qs \<longrightarrow>
            cgo_phase2Rank rt w now e = Inr (buf, e\<lparr>scratch := bank\<rparr>))"
  using cgo_phase2_interleaved [OF assms(1-6)] unfolding assms(7,8) by blast

theorem cgo_phase2_any_schedule_witness:
  "\<exists>qs bank buf.
     rtranclp (pool_step (rank_job (cgo_fill_scratch tiny 10000 (ensureScratch 2 tiny_c_engine))
         (cgo_quickselectAndCopy amd64_runtime tiny) tiny))
       (pair_jobs 3 2 2, (scratch (ensureScratch 2 tiny_c_engine), NewReadBuffer tiny 3))
       (qs, (bank, buf)) \<and>
     cgo_phase2Rank amd64_runtime tiny 10000 tiny_c_engine = Inr (buf, tiny_c_engine\<lparr>scratch := bank\<rparr>)"
proof -
  have n: "0 < slen (Pairs tiny_c_engine)" by simp
  have step: "ceil_div (slen (Pairs tiny_c_engine)) (pool_size tiny_c_engine (slen (Pairs tiny_c_engine))) = Inr 2"
    by (simp add: tiny_c_pool ceil_div_def)
  from cgo_phase2_any_schedule [OF tiny_c_inv sort_contract_amd64 tiny_c_rows n step refl refl refl, of 10000]
  show ?thesis unfolding tiny_c_engine_simps tiny_c_pool by blast
qed

section \<open>Score updates\<close>

text \<open>
  C22: The kernel calls of the cgo phase 1 may be interleaved in any way: a complete run exists, and
  every complete run ends, without a fault, in the matrix of the sequential model, for deltas
  that cannot make a sum of the kernel overflow.
\<close>

theorem cgo_phase1_any_schedule:
  assumes "cgo_inv w e" and "Updates u \<noteq> []"
    and "safe_deltas w (order_delta (cgo_contributions rt (Updates u)) (Indexes e))"
    and "cgo_build_delta rt w (Indexes e) (Updates u) = Inr delta"
    and "ceil_div (cNumPPS (Matrix e)) (pool_size e (cNumPPS (Matrix e))) = Inr step"
  shows "(\<exists>qs cm. rtranclp (pool_step (kernel_job w delta))
            (kernel_queues (cNumPPS (Matrix e)) step, Matrix e) (qs, cm) \<and> pool_done qs) \<and>
         (\<forall>qs cm. rtranclp (pool_step (kernel_job w delta))
            (kernel_queues (cNumPPS (Matrix e)) step, Matrix e) (qs, cm) \<and> pool_done qs \<longrightarrow>
            cgo_phase1Update rt w (Some u) e = Inr (e\<lparr>Matrix := cm\<rparr>))"
  using cgo_phase1_interleaved [OF assms] by blast

theorem cgo_phase1_any_schedule_witness:
  "\<exists>delta qs cm. rtranclp (pool_step (kernel_job tiny delta)) (kernel_queues 2 1, tiny_c_matrix) (qs, cm) \<and>
     pool_done qs \<and>
     cgo_phase1Update amd64_runtime tiny (Some tiny_c_update) tiny_c_engine = Inr (tiny_c_engine\<lparr>Matrix := cm\<rparr>)"
proof -
  obtain delta where d: "cgo_build_delta amd64_runtime tiny (Indexes tiny_c_engine) (Updates tiny_c_update) = Inr delta"
    using cgo_build_delta_ok [OF tiny_indexes_inv(2), of amd64_runtime "Updates tiny_c_update"] by auto
  have us: "Updates tiny_c_update \<noteq> []" by (simp add: tiny_c_update_def)
  have safe: "safe_deltas tiny (order_delta (cgo_contributions amd64_runtime (Updates tiny_c_update)) (Indexes tiny_c_engine))"
    using tiny_update_safe [OF tiny_tpid_bound, of amd64_runtime] us
    by (simp add: update_safe_def cgo_update_deltas_def)
  have step: "ceil_div (cNumPPS (Matrix tiny_c_engine)) (pool_size tiny_c_engine (cNumPPS (Matrix tiny_c_engine))) = Inr 1"
    by (simp add: tiny_c_pool tiny_c_matrix_wf ceil_div_def)
  from cgo_phase1_any_schedule [OF tiny_c_inv us safe d step] show ?thesis
    unfolding tiny_c_engine_simps tiny_c_matrix_wf by blast
qed

text \<open>
  C23: The C kernel, called through \<^verbatim>\<open>CUpdateRowRange\<close> on a range of rows inside the
  block, does what the Go loop does on those rows, for deltas that cannot overflow and sizes
  that a C \<^verbatim>\<open>int\<close> can hold.
\<close>

theorem c_kernel_refines_go_loop:
  assumes "c_abs cm m" and "matrix_wf w m" and "length delta = NumOrders w" and "delta_safe delta"
    and "start + n \<le> NumPPS m" and "0 < NumOrders w" and "c_fits w (NumPPS m)"
  shows "\<exists>cm' m'. CUpdateRowRange w start (int n) delta cm = Inr cm' \<and>
           gfold (apply_to_row w delta) [start..<start + n] m = Inr m' \<and> c_abs cm' m'"
  using row_range_refines [OF assms] by blast

theorem c_kernel_refines_go_loop_witness:
  "\<exists>cm' m'. CUpdateRowRange tiny 1 1 [50, 0, -7, 70000] tiny_c_matrix = Inr cm' \<and>
     gfold (apply_to_row tiny [50, 0, -7, 70000]) [1] tiny_matrix = Inr m' \<and> c_abs cm' m'"
proof -
  have "c_abs tiny_c_matrix tiny_matrix" "delta_safe [50, 0, -7, 70000]" "c_fits tiny (NumPPS tiny_matrix)"
    by (simp_all add: c_abs_def tiny_c_matrix_def tiny_matrix_def delta_safe_def c_fits_def)
  from c_kernel_refines_go_loop [OF this(1) tiny_matrix_wf(1) _ this(2) _ _ this(3), of 1 1] show ?thesis
    by (simp add: tiny_matrix_wf)
qed

text \<open>
  C24: No update that the cgo item dictionary hands out, of at most 100000 entries, can make a
  sum of the C kernel overflow, whatever the scores are, if no order lists a TPID more than
  five times (its stream draws at most five).
\<close>

theorem fetched_updates_are_safe:
  assumes "rand_contract R" and "0 < sint (cNumTPIDs c)" and "unit_scores (tpidScores c)"
    and "num_update rt c \<le> 100000" and "tpid_bound 5 ix"
  shows "\<exists>delay u c'. cgo_Fetch R rt c = Inr (delay, u, c') \<and>
           update_safe w (cgo_update_deltas rt (Some u) ix)"
proof -
  obtain delay u c' where u: "cgo_Fetch R rt c = Inr (delay, u, c')" "length (Updates u) = nat (num_update rt c)"
    "\<forall>x \<in> set (Updates u). unit_update (cNumTPIDs c) x"
    using cgo_Fetch_ok [OF assms(1-3), of rt] by blast
  have "length (Updates u) \<le> 100000" using u(2) assms(4) by simp
  from fetched_update_safe [OF u(3) this assms(5)] u(1) show ?thesis by blast
qed

theorem fetched_updates_are_safe_witness:
  "\<exists>delay u c'. cgo_Fetch counting_rand amd64_runtime (cgo_NewMockItemDictClient counting_rand 7 100000) =
       Inr (delay, u, c') \<and>
     update_safe tiny (cgo_update_deltas amd64_runtime (Some u) tiny_indexes)"
  by (rule fetched_updates_are_safe)
    (simp_all add: rand_contract_counting cgo_dict_New [OF rand_contract_counting] num_update_all tiny_tpid_bound)

section \<open>Orders\<close>

text \<open>
  C25: An ingested order replaces whatever the slot held: its metadata, its index entries
  (one per occurrence in the event) and its score in every row, and nothing else changes.
\<close>

theorem ingest_replaces:
  assumes "store_inv w (matrix_wf w) st" and "unat (evOrderID evt) < NumOrders w"
  shows "\<exists>st'. IngestOrder rt w evt nowSecs st = Inr st' \<and> store_inv w (matrix_wf w) st' \<and>
           ingested w (event_meta evt nowSecs) (TPIDs evt) (EligibleBinTags evt)
             (clampInt16 (scale_score rt (evBaseScore evt))) NumPPS (cell w) st st'"
  using assms by (rule IngestOrder_steps)

theorem ingest_replaces_witness:
  "\<exists>st'. IngestOrder amd64_runtime tiny (tiny_event 1) 9999 (tiny_registry, tiny_indexes, tiny_matrix) = Inr st' \<and>
     ingested tiny (event_meta (tiny_event 1) 9999) [7] [1] 50 NumPPS (cell tiny)
       (tiny_registry, tiny_indexes, tiny_matrix) st'"
proof -
  have "unat (evOrderID (tiny_event 1)) < NumOrders tiny" by (simp add: tiny_event_def)
  from ingest_replaces [OF tiny_store_inv(1) this, of amd64_runtime 9999] show ?thesis
    by (auto simp: tiny_event_def tiny_scaled clampInt16_def)
qed

text \<open>
  C26: The purge deactivates exactly the orders whose age exceeds the TTL, takes them out of
  every index list and zeroes their scores in every row; every other order is untouched.
\<close>

theorem purge_is_exact:
  assumes "registry_inv w r" and "index_inv ix" and "matrix_wf w m"
  shows "\<exists>r' ix' m'. PurgeExpired w now (r, ix, m) = Inr (r', ix', m') \<and>
           Meta r' = map (\<lambda>x. if expired now x then deactivated x else x) (Meta r) \<and>
           (\<forall>t. tpid_orders ix' t = filter (\<lambda>x. x \<notin> set (expired_ids now r)) (tpid_orders ix t)) \<and>
           (\<forall>b. bintag_orders ix' b = filter (\<lambda>x. x \<notin> set (expired_ids now r)) (bintag_orders ix b)) \<and>
           NumPPS m' = NumPPS m \<and>
           (\<forall>p < NumPPS m. \<forall>j < NumOrders w.
              cell w m' p j = (if expired now (Meta r ! j) then 0 else cell w m p j))"
proof -
  obtain m' where "PurgeExpired w now (r, ix, m) =
      Inr (r\<lparr>Meta := map (purge_meta now) (Meta r)\<rparr>, fold RemoveOrder (expired_ids now r) ix, m')"
    "NumPPS m' = NumPPS m" "\<forall>p < NumPPS m. \<forall>j < NumOrders w.
       cell w m' p j = (if expired now (Meta r ! j) then 0 else cell w m p j)"
    using pstore.purge_ok [OF assms(1,3)] unfolding PurgeExpired_def by blast
  then show ?thesis
    using idx.removes_absent [OF assms(2), of "expired_ids now r"]
    by (simp add: purge_meta_def [abs_def])
qed

theorem purge_is_exact_witness:
  "\<exists>r' ix' m'. PurgeExpired tiny 10000 (tiny_registry, tiny_indexes, tiny_matrix) = Inr (r', ix', m') \<and>
     bintag_orders ix' 1 = [0, 3] \<and> \<not> Active (Meta r' ! 1) \<and> Active (Meta r' ! 3)"
proof -
  obtain r' ix' m' where r: "PurgeExpired tiny 10000 (tiny_registry, tiny_indexes, tiny_matrix) = Inr (r', ix', m')"
    "Meta r' = map (\<lambda>x. if expired 10000 x then deactivated x else x) (Meta tiny_registry)"
    "\<forall>b. bintag_orders ix' b =
       filter (\<lambda>x. x \<notin> set (expired_ids 10000 tiny_registry)) (bintag_orders tiny_indexes b)"
    using purge_is_exact [OF tiny_registry_inv tiny_indexes_inv(1) tiny_matrix_wf(1), of 10000] by blast
  have "bintag_orders ix' 1 = [0, 3]" by (simp add: r(3) tiny_expired tiny_bintag_orders)
  moreover have "\<not> Active (Meta r' ! 1)" "Active (Meta r' ! 3)"
    by (simp_all add: r(2) tiny_registry_def tiny_meta_def expired_def OrderTTLSecs_def)
  ultimately show ?thesis using r(1) by blast
qed

section \<open>Pairs\<close>

text \<open>
  C27: The life cycle of a pair: after any sequence of topology operations a pair is active
  exactly when it was added, was activated since, and has not been added or removed since
  that addition.
\<close>

theorem active_pairs:
  "val (topo_run evs) (MakePairKey p b) = Some StatusActive \<longleftrightarrow>
     (\<exists>pre post. evs = pre @ EvAdd p b # post \<and> EvAdd p b \<notin> set post \<and> EvRemove p b \<notin> set post \<and>
        EvActivate p b \<in> set post)"
  using topo_run_active [of evs p b] by (auto simp: since_add_def untouched_def)

text \<open>
  C28: A pair added through the pure engine is made active by the next cycle though that
  cycle does not rank it: with the engine's pairs in the server's index it is NOT_FOUND, and
  with the pair appended to them, as \<^verbatim>\<open>main\<close> does, the request panics.
\<close>

theorem added_pair_is_not_ranked:
  assumes "pure_inv w e" and "sort_contract rt" and "0 < TopK w"
    and "MakePairKey p b \<notin> Key ` set (elems (Pairs e))"
    and "RunCycleWithDict rt w clk update (HandleAddPair p b e) = Inr (stats, e')"
    and "rPPSID req = p" and "rBinTagID req = b"
  shows "val (Topology e') (MakePairKey p b) = Some StatusActive \<and>
         (\<exists>msg. GetTopK w (Topology e') (DB e') req (RefreshPairIndex (elems (Pairs e')) s) =
            Inr (Inl (ApiError GRPCNotFound msg))) \<and>
         GetTopK w (Topology e') (DB e') req (RefreshPairIndex (elems (Pairs e') @ [pair_of p b]) s) =
           Inl SliceOutOfRange"
  using assms by (rule added_pair_not_served)

theorem added_pair_is_not_ranked_witness:
  "\<exists>stats e'. RunCycleWithDict amd64_runtime tiny tiny_clock None (HandleAddPair 2 2 tiny_engine) = Inr (stats, e') \<and>
     val (Topology e') (MakePairKey 2 2) = Some StatusActive \<and>
     GetTopK tiny (Topology e') (DB e') (tiny_request 2 2)
       (RefreshPairIndex (elems (Pairs e') @ [pair_of 2 2]) (NewPriorityServer tiny_pairs)) =
       Inl SliceOutOfRange"
proof -
  obtain stats e' where
    run: "RunCycleWithDict amd64_runtime tiny tiny_clock None (HandleAddPair 2 2 tiny_engine) = Inr (stats, e')"
    using tiny_added_inv by (rule tiny_run)
  from added_pair_is_not_ranked [OF tiny_inv sort_contract_amd64 _ _ run, of "tiny_request 2 2"] run
  show ?thesis by (auto simp: tiny_request_def tiny_keys)
qed

text \<open>
  C29: A pair added through the cgo engine, whose ranked pairs have distinct keys, is ranked by the
  next cycle and served after it, if every ranked PPS, that of the new pair included, has a row of the matrix or else its bin tag has no
  active order, and no sum of the kernel can overflow in that cycle.
\<close>

theorem cgo_added_pair_is_served:
  assumes "cgo_inv w e" and "sort_contract rt" and "cgo_rows_ok (cgo_HandleAddPair p b e)"
    and "update_safe w (cgo_update_deltas rt update
        (fold RemoveOrder (expired_ids (now_secs clk) (Registry e)) (Indexes e)))"
    and "distinct (map Key (elems (Pairs e)))"
    and "cgo_RunCycleWithDict rt w clk update (cgo_HandleAddPair p b e) = Inr (stats, e')"
    and "rPPSID req = p" and "rBinTagID req = b"
  shows "val (Topology e') (MakePairKey p b) = Some StatusActive \<and>
         (\<exists>i tabs r. i < slen (Pairs e') \<and> cgo_pair_tables w (now_secs clk) e' i = Some tabs \<and>
            Key (elems (Pairs e') ! i) = MakePairKey p b \<and>
            cgo_GetTopK w (Topology e') (DB e') req (cgo_NewPriorityServer (elems (Pairs e'))) =
              Inr (Inr r) \<and>
            response_is (cgo_best_of w (K req)) tabs r)"
  using assms by (rule cgo_added_pair_served)

theorem cgo_added_pair_is_served_witness:
  "\<exists>stats e' r. cgo_RunCycleWithDict amd64_runtime tiny tiny_clock (Some tiny_c_update)
       (cgo_HandleAddPair 1 2 tiny_c_engine) = Inr (stats, e') \<and>
     val (Topology e') (MakePairKey 1 2) = Some StatusActive \<and>
     cgo_GetTopK tiny (Topology e') (DB e') (tiny_request 1 2)
       (cgo_NewPriorityServer (elems (Pairs e'))) = Inr (Inr r)"
proof -
  let ?e = "cgo_HandleAddPair 1 2 tiny_c_engine"
  have inv: "cgo_inv tiny ?e" by (rule engine_inv_topology [OF tiny_c_inv])
  have rows: "cgo_rows_ok ?e"
    by (simp add: cgo_rows_ok_def cgo_HandleAddPair_def Let_def tiny_c_pairs_def tiny_c_matrix_wf
        append_pair_ok tiny_c_engine_def tiny_with_def)
  have parts: "Registry ?e = tiny_registry" "Indexes ?e = tiny_indexes"
    by (simp_all add: cgo_HandleAddPair_def Let_def)
  obtain stats e' where
    run: "cgo_RunCycleWithDict amd64_runtime tiny tiny_clock (Some tiny_c_update) ?e = Inr (stats, e')"
    by (rule tiny_c_cycle [OF inv rows parts])
  have "distinct (map Key (elems (Pairs tiny_c_engine)))" by (simp add: tiny_c_pairs_def)
  from cgo_added_pair_is_served [OF tiny_c_inv sort_contract_amd64 rows _ this run, of "tiny_request 1 2"]
    tiny_c_safe run
  show ?thesis by (auto simp: tiny_request_def tiny_clock_def)
qed

text \<open>
  C30: A removed pair is out of the ranked pairs, and stays removed over the next cycle even
  if its promotion was pending; a request for it is NOT_FOUND.
\<close>

theorem removed_pair_stays_removed:
  assumes "pure_inv w e" and "sort_contract rt"
    and "RunCycleWithDict rt w clk update (HandleRemovePair p b e) = Inr (stats, e')"
    and "rPPSID req = p" and "rBinTagID req = b"
  shows "elems (Pairs e') = filter (\<lambda>x. Key x \<noteq> MakePairKey p b) (elems (Pairs e)) \<and>
         val (Topology e') (MakePairKey p b) = Some StatusRemoved \<and>
         (\<exists>msg. GetTopK w (Topology e') (DB e') req s = Inr (Inl (ApiError GRPCNotFound msg)))"
  using assms by (rule removed_pair_stays)

theorem removed_pair_stays_removed_witness:
  "\<exists>stats e'. RunCycleWithDict amd64_runtime tiny tiny_clock None (HandleRemovePair 2 1 tiny_engine) = Inr (stats, e') \<and>
     elems (Pairs e') = [pair_of 1 1, pair_of 1 2] \<and>
     val (Topology e') (MakePairKey 2 1) = Some StatusRemoved"
proof -
  obtain stats e' where
    run: "RunCycleWithDict amd64_runtime tiny tiny_clock None (HandleRemovePair 2 1 tiny_engine) = Inr (stats, e')"
    using tiny_removed_inv by (rule tiny_run)
  from removed_pair_stays_removed [OF tiny_inv sort_contract_amd64 run, of "tiny_request 2 1"] run
  show ?thesis by (auto simp: tiny_request_def tiny_pairs_def)
qed

text \<open>
  C31: A server whose index was built before a pair was removed is stale from the next cycle
  on: the rows of the later pairs have moved down by one, and a request for the last pair
  panics.
\<close>

theorem stale_index_panics:
  assumes "pure_inv w e" and "sort_contract rt" and "0 < TopK w"
    and "distinct (map Key (elems (Pairs e)))"
    and "Suc i < slen (Pairs e)" and "Key (elems (Pairs e) ! i) = MakePairKey p b"
    and "Key (last (elems (Pairs e))) = MakePairKey (rPPSID req) (rBinTagID req)"
    and "val (Topology e) (Key (last (elems (Pairs e)))) = Some StatusActive"
    and "RunCycleWithDict rt w clk update (HandleRemovePair p b e) = Inr (stats, e')"
  shows "GetTopK w (Topology e') (DB e') req (NewPriorityServer (elems (Pairs e))) = Inl SliceOutOfRange \<and>
         elems (Pairs e') = take i (elems (Pairs e)) @ drop (Suc i) (elems (Pairs e))"
  using assms by (rule stale_index)

theorem stale_index_panics_witness:
  "\<exists>stats e'. RunCycleWithDict amd64_runtime tiny tiny_clock None (HandleRemovePair 1 1 tiny_engine) = Inr (stats, e') \<and>
     GetTopK tiny (Topology e') (DB e') (tiny_request 1 2) (NewPriorityServer tiny_pairs) =
       Inl SliceOutOfRange"
proof -
  obtain stats e' where
    run: "RunCycleWithDict amd64_runtime tiny tiny_clock None (HandleRemovePair 1 1 tiny_engine) = Inr (stats, e')"
    using tiny_removed_inv by (rule tiny_run)
  have "Suc 0 < slen (Pairs tiny_engine)" "Key (elems (Pairs tiny_engine) ! 0) = MakePairKey 1 1"
    "distinct (map Key (elems (Pairs tiny_engine)))" "0 < TopK tiny"
    by (simp_all add: tiny_pairs_def)
  moreover have "Key (last (elems (Pairs tiny_engine))) =
      MakePairKey (rPPSID (tiny_request 1 2)) (rBinTagID (tiny_request 1 2))"
    by (simp add: tiny_pairs_def tiny_request_def)
  moreover have "val (Topology tiny_engine) (Key (last (elems (Pairs tiny_engine)))) = Some StatusActive"
    by (simp add: tiny_keys) (simp add: tiny_pairs_def)
  ultimately show ?thesis
    using stale_index_panics [OF tiny_inv sort_contract_amd64 _ _ _ _ _ _ run, of 0 "tiny_request 1 2"] run
    by auto
qed

section \<open>Mock clients\<close>

text \<open>
  C32: The cgo item dictionary, with at least one TPID and scores in \<open>[0, 1)\<close>, is consistent: a fetch takes 100 to 200 ms and gives one update or
  as many as the fraction asks for; every update's old contribution is what the dictionary
  then holds for the TPID, the dictionary ends with the new ones, and so the differences of a
  TPID over the fetch add up, exactly, to the change of its score.
\<close>

theorem dictionary_chain:
  assumes "rand_contract R" and "0 < sint (cNumTPIDs c)" and "unit_scores (tpidScores c)"
  shows "\<exists>delay u c'. cgo_Fetch R rt c = Inr (delay, u, c') \<and> 100 \<le> delay \<and> delay \<le> 200 \<and>
           length (Updates u) = nat (num_update rt c) \<and> 1 \<le> length (Updates u) \<and>
           chained (tpidScores c) (Updates u) \<and> tpidScores c' = fold set_score (Updates u) (tpidScores c) \<and>
           unit_scores (tpidScores c') \<and>
           (\<forall>t. contrib_sum t (Updates u) =
              f32_val (map_zero (tpidScores c') t) - f32_val (map_zero (tpidScores c) t))"
proof -
  have "1 \<le> num_update rt c" by (simp add: num_update_def Let_def)
  then have one: "1 \<le> nat (num_update rt c)" by simp
  obtain delay u c' where u: "cgo_Fetch R rt c = Inr (delay, u, c')" "100 \<le> delay" "delay \<le> 200"
    "length (Updates u) = nat (num_update rt c)" "chained (tpidScores c) (Updates u)"
    "tpidScores c' = fold set_score (Updates u) (tpidScores c)" "unit_scores (tpidScores c')"
    using cgo_Fetch_ok [OF assms, of rt] by blast
  then show ?thesis using one chained_telescopes [OF u(5)] by auto
qed

theorem dictionary_chain_witness:
  "\<exists>delay u c'. cgo_Fetch counting_rand amd64_runtime (cgo_NewMockItemDictClient counting_rand 7 100000) =
       Inr (delay, u, c') \<and> length (Updates u) = 100000"
proof -
  let ?c = "cgo_NewMockItemDictClient counting_rand 7 100000"
  have "num_update amd64_runtime ?c = 100000"
    using num_update_all [of ?c] by (simp add: cgo_dict_New [OF rand_contract_counting])
  then show ?thesis
    using dictionary_chain [OF rand_contract_counting, of ?c amd64_runtime]
    by (auto simp: cgo_dict_New [OF rand_contract_counting])
qed

text \<open>
  C33: \<^verbatim>\<open>GenerateBatch\<close> gives as many events as asked for, each for an order, TPIDs and one
  to four bin tags of the stream's universe, which has at least one of each; a negative count
  panics.
\<close>

theorem batch_events:
  assumes "rand_contract R" and "0 < unat (sNumOrders s)" and "0 < sint (sNumTPIDs s)" and "0 < unat (sNumBinTags s)"
  shows "if 0 \<le> n
         then \<exists>evts g. GenerateBatch R rt now n s = Inr (evts, s\<lparr>cstream_rng := g\<rparr>) \<and>
                length evts = nat n \<and> (\<forall>evt \<in> set evts. batch_event_drawn s now evt)
         else GenerateBatch R rt now n s = Inl MakeOutOfRange"
  using GenerateBatch_ok [OF assms, of n rt now] by (simp add: GenerateBatch_def)

theorem batch_events_witness:
  "\<exists>evts s'. GenerateBatch counting_rand amd64_runtime 1000 3 (cgo_NewMockKafkaOrderStream counting_rand 42 4 8 2) =
     Inr (evts, s') \<and> length evts = 3 \<and> (\<forall>evt \<in> set evts. unat (cevOrderID evt) < 4)"
proof -
  let ?s = "cgo_NewMockKafkaOrderStream counting_rand 42 4 8 2"
  have "0 < unat (sNumOrders ?s)" "0 < sint (sNumTPIDs ?s)" "0 < unat (sNumBinTags ?s)" "unat (sNumOrders ?s) = 4"
    by (simp_all add: cgo_NewMockKafkaOrderStream_def)
  from batch_events [OF rand_contract_counting this(1-3), of 3 amd64_runtime 1000] this(4) show ?thesis
    by (auto simp: batch_event_drawn_def)
qed

section \<open>Memory and common code\<close>

text \<open>
  C34: What the ranking puts into the list of a pair and a table is what is read back there,
  and every other list of the buffer is as it was.
\<close>

theorem buffer_layout:
  assumes "rb_wf w b" and "p < NumPairs b" and "t < NumTables" and "length xs = TopK w"
    and "t' < NumTables"
  shows "ListMut w (put_list w b p t xs) p t = Inr xs \<and>
         rb_wf w (put_list w b p t xs) \<and>
         rb_list w (put_list w b p t xs) p' t' = (if (p', t') = (p, t) then xs else rb_list w b p' t')"
  using rb_simps [OF assms(1-4)] assms(5) by (auto simp: ListMut_ok assms(2,3))

theorem buffer_layout_witness:
  "rb_list tiny (put_list tiny (NewReadBuffer tiny 3) 1 2 [7, 8]) 1 2 = [7, 8] \<and>
   rb_list tiny (put_list tiny (NewReadBuffer tiny 3) 1 2 [7, 8]) 1 3 = [-1, -1]"
  using buffer_layout [of tiny "NewReadBuffer tiny 3" 1 2 "[7, 8]" 2 1]
    buffer_layout [of tiny "NewReadBuffer tiny 3" 1 2 "[7, 8]" 3 1] rb_list_New [of 1 3 3 tiny]
  by (simp add: NumTables_def numeral_2_eq_2)

text \<open>
  C35: The cgo ranking does not check the row of a PPS: for a pair whose PPS ID is not below
  the number of rows, the scan reads outside the C block as soon as it meets an active order.
\<close>

theorem unchecked_row_is_unsafe:
  assumes "cgo_inv w e" and "p < slen (Pairs e)"
    and "cNumPPS (Matrix e) \<le> unat (PPSID (elems (Pairs e) ! p))"
    and "oid \<in> set (bintag_orders (Indexes e) (BinTagID (elems (Pairs e) ! p)))"
    and "Active (Meta (Registry e) ! unat oid)"
  shows "cgo_fill_scratch w now e p sc = Inl UnsafeAccess"
  using assms by (rule cgo_row_unsafe)

theorem unchecked_row_is_unsafe_witness:
  "cgo_fill_scratch tiny 10000 (tiny_c_engine\<lparr>Pairs := slice_of [pair_of 99 1]\<rparr>) 0 empty_scratch =
     Inl UnsafeAccess"
proof -
  have "cgo_inv tiny (tiny_c_engine\<lparr>Pairs := slice_of [pair_of 99 1]\<rparr>)"
    using tiny_c_inv by (simp add: engine_inv_def)
  from unchecked_row_is_unsafe [OF this, of 0 0 10000 empty_scratch] show ?thesis
    by (simp add: tiny_c_matrix_wf tiny_bintag_orders)
      (simp add: tiny_registry_def tiny_meta_def)
qed

text \<open>
  C36: The partition of the cgo program, which counts from one below the slice, never faults on
  bounds inside the slice: it permutes the entries between the bounds and leaves the others,
  and it returns an index there such that no entry up to it has a lower score than the entry
  at the index, and every entry after it, up to the upper bound, has a lower one.
\<close>

theorem cgo_partition_splits:
  assumes "lo \<le> hi" and "hi < length e"
  shows "\<exists>e' p. cgo_partitionDesc e lo hi = Inr (e', p) \<and> mset e' = mset e \<and>
           (\<forall>i. i < lo \<or> hi < i \<longrightarrow> e' ! i = e ! i) \<and> lo \<le> p \<and> p \<le> hi \<and>
           (\<forall>i. lo \<le> i \<and> i \<le> p \<longrightarrow> key (e' ! p) \<le> key (e' ! i)) \<and>
           (\<forall>i. p < i \<and> i \<le> hi \<longrightarrow> key (e' ! i) < key (e' ! p))"
  using assms by (rule cgo_partitionDesc_ok)

theorem cgo_partition_splits_witness:
  "\<exists>e' p. cgo_partitionDesc tiny_entries 1 3 = Inr (e', p) \<and> mset e' = mset tiny_entries \<and>
     e' ! 0 = entry 5 0 \<and> e' ! 4 = entry 7 4 \<and> (\<forall>i. p < i \<and> i \<le> 3 \<longrightarrow> key (e' ! i) < key (e' ! p))"
proof -
  have "(1 :: nat) \<le> 3" "3 < length tiny_entries" by (simp_all add: tiny_entries_def)
  from cgo_partition_splits [OF this] obtain e' p where
    "cgo_partitionDesc tiny_entries 1 3 = Inr (e', p)" "mset e' = mset tiny_entries"
    "\<forall>i. i < 1 \<or> 3 < i \<longrightarrow> e' ! i = tiny_entries ! i" "\<forall>i. p < i \<and> i \<le> 3 \<longrightarrow> key (e' ! i) < key (e' ! p)"
    by blast
  then show ?thesis by (auto simp: tiny_entries_def)
qed

section \<open>The tests of the two programs\<close>

text \<open>
  C37: The tests of the pure program pass, for every generator within its contract: the cycle
  test, the warm-up test, both circuit-breaker tests, the ingestion, eviction and purge tests,
  and the latency test where the measured cycle takes at most two seconds and is not late.
  Their cycles must run within the orders' time to live.
\<close>

theorem pure_tests_pass:
  assumes "rand_contract R" and "sort_contract rt" and "workload_ok w"
    and "0 < numBinTags w" and "numBinTags w < 2 ^ 32" and "1000 \<le> NumOrders w" and "0 < TopK w"
    and "fresh_at nowSecs (now_secs clk)" and "sint (total_elapsed clk) \<le> 2000"
  shows "TestComputeCycleBasic R rt w now_at nowSecs clk = Inr True \<and>
         TestTopologyWarmupToActive rt w clk = Inr True \<and>
         TestCircuitBreakerWarmingUp w = Inr True \<and> TestCircuitBreakerRemoved w = Inr True \<and>
         TestKafkaOrderIngestion R rt w now_at nowSecs = Inr True \<and>
         TestItemDictLatency R rt w now_at nowSecs first stamp clk False = Inr True \<and>
         TestOrderEviction R rt w now_at nowSecs = Inr True \<and>
         TestPurgeExpired R rt w now_at = Inr True"
proof -
  have n: "500 \<le> NumOrders w" "10 \<le> NumOrders w" "5 \<le> NumOrders w" using assms(6) by simp_all
  note R = assms(1) and rt = assms(2) and w = assms(3,5)
  show ?thesis
    using TestComputeCycleBasic_ok [OF R rt w assms(6,7,8)] TestTopologyWarmupToActive_ok [OF w(1) rt]
      TestCircuitBreakerWarmingUp_ok TestCircuitBreakerRemoved_ok
      TestKafkaOrderIngestion_ok [OF R assms(3,4,5) n(1)] TestItemDictLatency_ok [OF R rt w n(1)]
      TestOrderEviction_ok [OF R w n(2)] TestPurgeExpired_ok [OF R w n(3)] assms(9)
    by simp
qed

theorem pure_tests_pass_witness:
  "TestComputeCycleBasic counting_rand amd64_runtime pure_workload (\<lambda>i. 9000) 9000 tiny_clock = Inr True \<and>
   TestPurgeExpired counting_rand amd64_runtime pure_workload (\<lambda>i. 9000) = Inr True"
  using pure_tests_pass [OF rand_contract_counting sort_contract_amd64 workload_ok_pure, of 9000 tiny_clock
      "\<lambda>i. 9000" "\<lambda>m. 0" 0]
  by (simp add: pure_workload_def fresh_at_def tiny_clock_def OrderTTLSecs_def)

text \<open>
  C38: Of the tests of the cgo program these pass whatever is drawn: the warm-up test, although
  its new pair's PPS need not have a row, both circuit-breaker tests, the eviction test, and
  the latency test where the scheduler adds at most 60 ms to a call.
\<close>

theorem cgo_tests_pass:
  assumes "rand_contract R" and "sort_contract rt" and "workload_ok w" and "100 < NumOrders w"
    and "\<forall>i < 3. 0 \<le> extra i \<and> extra i \<le> 60"
  shows "cgo_TestTopologyWarmupToActive rt w True clk = Inr True \<and>
         cgo_TestCircuitBreakerWarmingUp w = Inr True \<and> cgo_TestCircuitBreakerRemoved w = Inr True \<and>
         cgo_TestOrderEviction rt w True nowSecs = Inr True \<and>
         cgo_TestItemDictLatency R rt extra = Inr True"
  using cgo_TestTopologyWarmupToActive_ok [OF assms(3,2)] cgo_breaker_tests_ok
    cgo_TestOrderEviction_ok [OF assms(3,4)] cgo_TestItemDictLatency_ok [OF assms(1,5)] by simp

theorem cgo_tests_pass_witness:
  "cgo_TestTopologyWarmupToActive amd64_runtime cgo_workload True tiny_clock = Inr True \<and>
   cgo_TestItemDictLatency counting_rand amd64_runtime (\<lambda>i. 60) = Inr True"
  using cgo_tests_pass [OF rand_contract_counting sort_contract_amd64 workload_ok_cgo, of "\<lambda>i. 60" tiny_clock]
  by (simp add: cgo_workload_def)

text \<open>
  C39: The cycle test of the cgo program, with fresh orders: batch, ingestion, both cycles and the
  reads of the matrix run without a fault, the list is in descending order, and the test
  passes exactly when no cycle took longer than 30 s and some order's last event has the bin
  tag of the first pair.
\<close>

theorem cgo_cycle_test:
  assumes "rand_contract R" and "sort_contract rt" and "workload_ok w" and "0 < TopK w"
    and "\<forall>i < 2. fresh_at nowSecs (now_secs (clk i))"
  shows "\<exists>events stream'. GenerateBatch R rt batch_now 10000
             (cgo_NewMockKafkaOrderStream R 42 (of_nat (NumOrders w)) 5000 5) = Inr (events, stream') \<and>
           length events = 10000 \<and>
           cgo_TestComputeCycleBasic R rt w True batch_now nowSecs clk =
             Inr ((\<forall>i < 2. sint (total_elapsed (clk i)) \<le> 30000) \<and>
                  (\<exists>oid. 0 \<in> set (event_tags (latest events Map.empty) oid)))"
  using assms by (rule cgo_TestComputeCycleBasic_ok)

theorem cgo_cycle_test_witness:
  "cgo_TestComputeCycleBasic still_rand amd64_runtime cgo_workload True 9000 9000 (\<lambda>i. tiny_clock) = Inr True"
proof -
  have hyps: "0 < TopK cgo_workload" "\<forall>i < 2. fresh_at 9000 (now_secs ((\<lambda>i :: nat. tiny_clock) i))"
    by (simp_all add: cgo_workload_def fresh_at_def tiny_clock_def OrderTTLSecs_def)
  let ?s = "cgo_NewMockKafkaOrderStream still_rand 42 (of_nat (NumOrders cgo_workload)) 5000 5"
  obtain evt where evt: "GenerateBatch still_rand amd64_runtime 9000 10000 ?s = Inr (replicate 10000 evt, ?s)"
    "cevOrderID evt = 0" "cevEligibleBinTags evt = [0]"
    using still_batch [of 5000 5 10000 amd64_runtime 9000 42] by (auto simp: cgo_workload_def)
  have "0 \<in> set (event_tags (latest (replicate 10000 evt) Map.empty) 0)"
    unfolding latest_replicate [of 10000, simplified] by (simp add: evt(2,3))
  then show ?thesis
    using cgo_cycle_test [OF rand_contract_still sort_contract_amd64 workload_ok_cgo hyps, of 9000] evt(1)
    by (auto simp: tiny_clock_def)
qed

text \<open>
  C40: The ingestion test of the cgo program counts the entries of the bin-tag index: they are as
  many as the last events of the drawn orders have bin tags.  So it passes when the batch has
  no order twice; with fewer than 125 different orders it fails, which the generator's contract
  does not exclude.
\<close>

theorem cgo_ingestion_test:
  assumes "rand_contract R" and "workload_ok w" and "visits visit"
  shows "\<exists>events stream'. GenerateBatch R rt batch_now 500
             (cgo_NewMockKafkaOrderStream R 123 (of_nat (NumOrders w)) 10000 20) = Inr (events, stream') \<and>
           length events = 500 \<and>
           cgo_TestKafkaOrderIngestion R rt w True batch_now nowSecs visit =
             Inr (500 \<le> (\<Sum>oid \<in> cevOrderID ` set events. length (event_tags (latest events Map.empty) oid))) \<and>
           (distinct (map cevOrderID events) \<longrightarrow>
              cgo_TestKafkaOrderIngestion R rt w True batch_now nowSecs visit = Inr True) \<and>
           (4 * card (cevOrderID ` set events) < 500 \<longrightarrow>
              cgo_TestKafkaOrderIngestion R rt w True batch_now nowSecs visit = Inr False)"
  using assms by (rule cgo_TestKafkaOrderIngestion_ok)

theorem cgo_ingestion_test_witness:
  "cgo_TestKafkaOrderIngestion still_rand amd64_runtime cgo_workload True 9000 9000
     (\<lambda>m. sorted_list_of_set (dom m)) = Inr False"
proof -
  have "visits (\<lambda>m :: u32 \<rightharpoonup> u32 list. sorted_list_of_set (dom m))" by (simp add: visits_def)
  note test = cgo_ingestion_test [OF rand_contract_still workload_ok_cgo this, of amd64_runtime 9000 9000]
  let ?s = "cgo_NewMockKafkaOrderStream still_rand 123 (of_nat (NumOrders cgo_workload)) 10000 20"
  obtain evt where evt: "GenerateBatch still_rand amd64_runtime 9000 500 ?s = Inr (replicate 500 evt, ?s)"
    using still_batch [of 10000 20 500 amd64_runtime 9000 123] by (auto simp: cgo_workload_def)
  have "card (cevOrderID ` set (replicate 500 evt)) = 1" by simp
  with test evt show ?thesis by (auto)
qed

section \<open>Further facts\<close>

text \<open>
  Where no order is left under the bin tag of a ranked pair that is not removed, the pure
  cycle nevertheless publishes an order for the pair as soon as any order is active.
\<close>

theorem unlisted_bin_tag_falls_back:
  assumes "pure_inv w e" and "sort_contract rt"
    and "RunCycleWithDict rt w clk update e = Inr (stats, e')"
    and "p < slen (Pairs e)" and "0 < TopK w"
    and "val (Topology e) (Key (elems (Pairs e) ! p)) \<noteq> Some StatusRemoved"
    and "bintag_orders (Indexes e') (BinTagID (elems (Pairs e) ! p)) = []"
    and "unat (oid :: u32) < NumOrders w" and "Active (Meta (Registry e') ! unat oid)"
  shows "\<exists>v \<in> set (rb_list w (Load (DB e')) p TblHeuristic). v \<noteq> -1"
  using assms by (rule fallback_orders)

theorem unlisted_bin_tag_falls_back_witness:
  "\<exists>(e' :: pps_matrix compute_engine). bintag_orders (Indexes e') 9 = [] \<and>
     (\<exists>v \<in> set (rb_list tiny (Load (DB e')) 0 TblHeuristic). v \<noteq> -1)"
proof -
  let ?e = "tiny_engine\<lparr>Pairs := slice_of [pair_of 1 9]\<rparr>"
  have inv: "pure_inv tiny ?e" using tiny_inv by (simp add: engine_inv_def)
  from cycle_ok [OF this sort_contract_amd64, of tiny_clock None] obtain stats e' where
    run: "RunCycleWithDict amd64_runtime tiny tiny_clock None ?e = Inr (stats, e')"
    and post: "Meta (Registry e') = map (purge_meta 10000) (Meta tiny_registry)"
      "Indexes e' = RemoveOrder 1 tiny_indexes"
    by (auto simp: store_after_cycle_def tiny_clock_def tiny_expired)
  have none: "bintag_orders (Indexes e') 9 = []"
    by (simp add: post bintag_orders_RemoveOrder tiny_indexes_inv tiny_bintag_orders)
  have "Active (Meta (Registry e') ! unat (0 :: u32))"
    by (simp add: post purge_meta_def expired_def tiny_registry_def tiny_meta_def OrderTTLSecs_def)
  moreover have "val (Topology ?e) (Key (elems (Pairs ?e) ! 0)) \<noteq> Some StatusRemoved"
    by simp
  ultimately show ?thesis
    using unlisted_bin_tag_falls_back [OF inv sort_contract_amd64 run, of 0 0] none by auto
qed

text \<open>
  The lateness of an order in seconds is cut to 32 bits: a deadline \<open>2 ^ 31 + 1\<close> seconds ahead
  counts as the latest of all.
\<close>

theorem far_deadline_ranks_latest:
  "sint (lateness now (m\<lparr>PBTDeadline := now + 2 ^ 31 + 1\<rparr>)) = 2 ^ 31 - 1"
proof -
  have "now - (now + 2 ^ 31 + 1) = - (2 ^ 31 + 1)" by simp
  then have "lateness now (m\<lparr>PBTDeadline := now + 2 ^ 31 + 1\<rparr>) = ucast (- (2 ^ 31 + 1) :: i64)"
    by (simp add: lateness_def)
  also have "sint \<dots> = 2 ^ 31 - 1" by code_simp
  finally show ?thesis .
qed

text \<open>
  Every request that overlaps a cycle of the pure engine, its three reads falling between the
  cycle's writes in any way, is answered as if it had run whole at one moment; and the writes
  are what the cycle does to the topology and the published buffer.
\<close>

theorem requests_are_atomic:
  assumes "pure_inv w e" and "sort_contract rt"
    and "RunCycleWithDict rt w clk update e = Inr (stats, e')"
    and "ws0 = cycle_writes (Load (DB e')) (pendingWarmup e)"
    and "pure_serve w req s ((Topology e, DB e), ws0, Arrived) (sh, ws, Answered a)"
  shows "(\<exists>(t, d) \<in> set (moments pure_write ws0 (Topology e, DB e)). a = GetTopK w t d req s) \<and>
         (Topology e', DB e') = after_writes pure_write ws0 (Topology e, DB e)"
  using pure_path.requests_in_moments [OF assms(5) [unfolded assms(4)] cycle_writes_leave] cycle_is_writes [OF assms(1-3)]
  by (simp add: assms(4))

theorem requests_are_atomic_witness:
  "\<exists>buf. let ws = cycle_writes buf []; sh = (setup_topology tiny_pairs, NewDoubleBuffer tiny 3);
             req = tiny_request 1 1; s = NewPriorityServer tiny_pairs
         in \<exists>(t, d) \<in> set (moments pure_write ws sh).
              read_lists tiny req (Publish (NewDoubleBuffer tiny 3) buf) 0 = GetTopK tiny t d req s"
proof -
  have db: "DB tiny_engine = NewDoubleBuffer tiny 3" by (simp add: tiny_engine_def tiny_with_def)
  obtain stats e' where run: "RunCycleWithDict amd64_runtime tiny tiny_clock None tiny_engine = Inr (stats, e')"
    using tiny_run [OF tiny_inv] .
  note path = served_while_publishing [where upd = pure_write and status = "read_status (tiny_request 1 1)"
      and fetch = "read_lists tiny (tiny_request 1 1)" and d = "NewDoubleBuffer tiny 3" and buf = "Load (DB e')",
      OF tiny_admitted(1) tiny_located(1) pure_write.simps(1)]
  have "pure_serve tiny (tiny_request 1 1) (NewPriorityServer tiny_pairs)
      ((Topology tiny_engine, DB tiny_engine), cycle_writes (Load (DB e')) [], Arrived)
      ((setup_topology tiny_pairs, Publish (NewDoubleBuffer tiny 3) (Load (DB e'))), [],
       Answered (read_lists tiny (tiny_request 1 1) (Publish (NewDoubleBuffer tiny 3) (Load (DB e'))) 0))"
    using path by (simp add: db)
  from requests_are_atomic [OF tiny_inv sort_contract_amd64 run _ this] show ?thesis
    by (intro exI [of _ "Load (DB e')"]) (simp add: db Let_def)
qed

text \<open>
  The same holds for the cgo server and cycle.
\<close>

theorem cgo_requests_are_atomic:
  assumes "cgo_inv w e" and "sort_contract rt" and "cgo_rows_ok e"
    and "update_safe w (cgo_update_deltas rt update
        (fold RemoveOrder (expired_ids (now_secs clk) (Registry e)) (Indexes e)))"
    and "cgo_RunCycleWithDict rt w clk update e = Inr (stats, e')"
    and "ws0 = cycle_writes (Load (DB e')) (pendingWarmup e)"
    and "cgo_serve w req s ((Topology e, DB e), ws0, Arrived) (sh, ws, Answered a)"
  shows "(\<exists>(t, d) \<in> set (moments cgo_write ws0 (Topology e, DB e)). a = cgo_GetTopK w t d req s) \<and>
         (Topology e', DB e') = after_writes cgo_write ws0 (Topology e, DB e)"
  using cgo_path.requests_in_moments [OF assms(7) [unfolded assms(6)] cycle_writes_leave] cgo_cycle_is_writes [OF assms(1-5)]
  by (simp add: assms(6))

theorem cgo_requests_are_atomic_witness:
  "\<exists>buf. let ws = cycle_writes buf []; sh = (setup_topology tiny_pairs, NewDoubleBuffer tiny 3);
             req = tiny_request 1 1; s = cgo_NewPriorityServer tiny_c_pairs
         in \<exists>(t, d) \<in> set (moments cgo_write ws sh).
              cgo_read_lists tiny req (Publish (NewDoubleBuffer tiny 3) buf) 1 = cgo_GetTopK tiny t d req s"
proof -
  have db: "DB tiny_c_engine = NewDoubleBuffer tiny 3" by (simp add: tiny_c_engine_def tiny_with_def)
  obtain stats e' where served:
    "cgo_RunCycleWithDict amd64_runtime tiny tiny_clock (Some tiny_c_update) tiny_c_engine = Inr (stats, e')"
    "update_safe tiny (cgo_update_deltas amd64_runtime (Some tiny_c_update)
       (fold RemoveOrder (expired_ids (now_secs tiny_clock) (Registry tiny_c_engine)) (Indexes tiny_c_engine)))"
    "cgo_serve tiny (tiny_request 1 1) (cgo_NewPriorityServer tiny_c_pairs)
       ((Topology tiny_c_engine, DB tiny_c_engine), cycle_writes (Load (DB e')) (pendingWarmup tiny_c_engine), Arrived)
       ((setup_topology tiny_pairs, Publish (NewDoubleBuffer tiny 3) (Load (DB e'))), [],
        Answered (cgo_read_lists tiny (tiny_request 1 1) (Publish (NewDoubleBuffer tiny 3) (Load (DB e'))) 1))"
    by (rule tiny_c_served)
  then show ?thesis
    using cgo_requests_are_atomic [OF tiny_c_inv sort_contract_amd64 tiny_c_rows served(2,1) refl served(3)]
    by (intro exI [of _ "Load (DB e')"]) (simp add: db Let_def)
qed

text \<open>
  No request that overlaps a cycle of the pure engine panics, if the server's index stays
  within the ranked pairs and, for a pair active from the start, within the old buffer.
\<close>

theorem requests_never_fault:
  assumes "pure_inv w e" and "sort_contract rt"
    and "RunCycleWithDict rt w clk update e = Inr (stats, e')"
    and "row_fits w req s (Topology e) (DB e)"
    and "\<forall>p. PairIndex s (MakePairKey (rPPSID req) (rBinTagID req)) = Some p \<longrightarrow> p < slen (Pairs e)"
    and "pure_serve w req s ((Topology e, DB e), cycle_writes (Load (DB e')) (pendingWarmup e), Arrived)
           (sh, ws, Answered a)"
  shows "\<exists>x. a = Inr x"
proof -
  have buf: "rb_wf w (Load (DB e))" "rb_wf w (Load (DB e'))" "NumPairs (Load (DB e')) = slen (Pairs e)"
    using cycle_ok [OF assms(1,2), of clk update] assms(1,3) by (auto simp: engine_inv_def ranked_buffer_def)
  from pure_path.requests_in_moments [OF assms(6) cycle_writes_leave] obtain t d where
    m: "(t, d) \<in> set (moments pure_write (cycle_writes (Load (DB e')) (pendingWarmup e)) (Topology e, DB e))"
    "a = GetTopK w t d req s" by blast
  have new: "\<forall>p. PairIndex s (MakePairKey (rPPSID req) (rBinTagID req)) = Some p \<longrightarrow> p < NumPairs (Load (DB e'))"
    using assms(5) by (simp only: buf(3))
  have "rb_wf w (Load d) \<and> row_fits w req s t d"
    using moments_row_fits [OF buf(1,2) assms(4) new UnI1 [OF m(1)]] .
  then show ?thesis using GetTopK_total(1) m(2) by blast
qed

theorem requests_never_fault_witness:
  "\<exists>buf x. read_lists tiny (tiny_request 1 1) (Publish (NewDoubleBuffer tiny 3) buf) 0 = Inr x"
proof -
  have db: "DB tiny_engine = NewDoubleBuffer tiny 3" by (simp add: tiny_engine_def tiny_with_def)
  obtain stats e' where run: "RunCycleWithDict amd64_runtime tiny tiny_clock None tiny_engine = Inr (stats, e')"
    using tiny_run [OF tiny_inv] .
  note path = served_while_publishing [where upd = pure_write and status = "read_status (tiny_request 1 1)"
      and fetch = "read_lists tiny (tiny_request 1 1)" and d = "NewDoubleBuffer tiny 3" and buf = "Load (DB e')",
      OF tiny_admitted(1) tiny_located(1) pure_write.simps(1)]
  have path: "pure_serve tiny (tiny_request 1 1) (NewPriorityServer tiny_pairs)
      ((Topology tiny_engine, DB tiny_engine), cycle_writes (Load (DB e')) (pendingWarmup tiny_engine), Arrived)
      ((setup_topology tiny_pairs, Publish (NewDoubleBuffer tiny 3) (Load (DB e'))), [],
       Answered (read_lists tiny (tiny_request 1 1) (Publish (NewDoubleBuffer tiny 3) (Load (DB e'))) 0))"
    using path by (simp add: db)
  have "p < 3" if "build_index tiny_pairs k = Some p" for p k
    using build_index_Some [OF that] by (simp add: tiny_pairs_def)
  then show ?thesis
    using requests_never_fault [OF tiny_inv sort_contract_amd64 run _ _ path]
    by (auto simp: row_fits_def Let_def db refresh_eq NewDoubleBuffer_def Load_def NewReadBuffer_def)
qed

text \<open>
  Once an order has been removed, no later cycle's buffer lists it, until it is ingested
  again.
\<close>

theorem removed_order_is_unlisted:
  assumes "pure_inv w e" and "sort_contract rt" and "unat oid < NumOrders w"
    and "HandleOrderRemoved w oid e = Inr e1"
    and "RunCycleWithDict rt w clk update e1 = Inr (stats, e')"
  shows "unlisted w (slen (Pairs e')) (Load (DB e')) oid"
  using assms by (rule removed_order_unlisted)

theorem removed_order_is_unlisted_witness:
  "\<exists>(e' :: pps_matrix compute_engine). unlisted tiny (slen (Pairs e')) (Load (DB e')) 3"
proof -
  obtain e1 where 1: "HandleOrderRemoved tiny 3 tiny_engine = Inr e1" "pure_inv tiny e1"
    using handle_removed_ok [OF tiny_inv] by blast
  obtain stats e' where "RunCycleWithDict amd64_runtime tiny tiny_clock None e1 = Inr (stats, e')"
    using 1(2) by (rule tiny_run)
  from removed_order_is_unlisted [OF tiny_inv sort_contract_amd64 _ 1(1) this] show ?thesis by auto
qed

text \<open>
  The index that both servers build maps the key of a pair to its row, when the keys are
  distinct, and has no other key.
\<close>

theorem index_is_position:
  assumes "distinct (map Key ps)"
  shows "PairIndex (NewPriorityServer ps) k = Some i \<longleftrightarrow> i < length ps \<and> Key (ps ! i) = k"
  using build_index_distinct [OF assms] build_index_Some [of ps k i] by (auto simp: refresh_eq)

theorem index_is_position_witness:
  "PairIndex (NewPriorityServer tiny_pairs) (MakePairKey 2 1) = Some 1"
  using index_is_position [OF tiny_keys(1), of "MakePairKey 2 1" 1]
  by (simp add: tiny_pairs_def)

text \<open>
  The cgo server differs in one case: an active pair that is not in its index is
  UNAVAILABLE (14), not NOT_FOUND.
\<close>

theorem cgo_refusals:
  "((\<exists>msg. cgo_GetTopK w topo db req s = Inr (Inl (ApiError GRPCUnavailable msg))) =
      (val topo (MakePairKey (rPPSID req) (rBinTagID req)) = Some StatusWarmingUp \<or>
       (val topo (MakePairKey (rPPSID req) (rBinTagID req)) = Some StatusActive \<and>
        PairIndex s (MakePairKey (rPPSID req) (rBinTagID req)) = None))) \<and>
   ((\<exists>msg. cgo_GetTopK w topo db req s = Inr (Inl (ApiError GRPCNotFound msg))) =
      (val topo (MakePairKey (rPPSID req) (rBinTagID req)) \<in> {None, Some StatusRemoved}))"
proof (cases "val topo (MakePairKey (rPPSID req) (rBinTagID req))")
  case None
  then show ?thesis
    by (simp add: cgo_GetTopK_def cgo_Get_def map_zero_def Let_def GRPCNotFound_def
        GRPCUnavailable_def)
next
  case (Some st)
  then show ?thesis
    by (cases st) (auto simp: cgo_GetTopK_def cgo_Get_def map_zero_def Let_def GRPCNotFound_def
        GRPCUnavailable_def go_elims split: option.splits)
qed

text \<open>
  The delta of each order is the sum, modulo \<open>2 ^ 32\<close>, of the scaled deltas of the
  update, each counted as often as the order is listed under that TPID; building the vector
  never faults while the indexes hold registry IDs only.
\<close>

theorem delta_vector:
  assumes "index_range w ix"
  shows "\<exists>delta. build_delta rt w ix ds = Inr delta \<and> length delta = NumOrders w \<and>
           (\<forall>oid. unat oid < NumOrders w \<longrightarrow>
              delta ! unat oid =
                sum_list (map (\<lambda>d. of_nat (count_list (tpid_orders ix (TPID d)) oid) *
                                   scale_score rt (ScoreDelta d)) ds))"
proof -
  have "order_delta (contributions rt ds) ix oid =
      sum_list (map (\<lambda>d. of_nat (count_list (tpid_orders ix (TPID d)) oid) *
                         scale_score rt (ScoreDelta d)) ds)" for oid
    by (simp add: order_delta_def contributions_def comp_def)
  with build_delta_ok [OF assms, of rt ds] show ?thesis by simp
qed

theorem delta_vector_witness:
  "\<exists>delta. build_delta amd64_runtime tiny tiny_indexes (TPIDDeltas tiny_update) = Inr delta \<and>
     delta ! 3 = 50 \<and> delta ! 0 = 0"
proof -
  obtain delta where d: "build_delta amd64_runtime tiny tiny_indexes (TPIDDeltas tiny_update) = Inr delta"
    and v: "\<forall>oid. unat oid < 4 \<longrightarrow> delta ! unat oid =
      sum_list (map (\<lambda>d. of_nat (count_list (tpid_orders tiny_indexes (TPID d)) oid) *
                         scale_score amd64_runtime (ScoreDelta d)) (TPIDDeltas tiny_update))"
    using delta_vector [OF tiny_indexes_inv(2), of amd64_runtime "TPIDDeltas tiny_update"] by auto
  from v [rule_format, of 3] v [rule_format, of 0] d show ?thesis
    by (simp add: tiny_update_def tiny_tpid_orders tiny_scaled)
qed

text \<open>
  The goroutines of phase 1 may be interleaved in any way: whenever all have finished,
  the matrix is that of the model's sequential loop.
\<close>

theorem phase1_any_schedule:
  assumes "pure_inv w e"
    and "build_delta rt w (Indexes e) (TPIDDeltas u) = Inr delta"
    and "ceil_div (NumPPS (Matrix e)) (pool_size e (NumPPS (Matrix e))) = Inr step"
    and "rtranclp (pool_step (apply_to_row w delta))
           (row_queues (NumPPS (Matrix e)) step, Matrix e) (qs, m)"
    and "pool_done qs"
  shows "phase1Update rt w (Some u) e = Inr (e\<lparr>Matrix := m\<rparr>)"
  using assms by (rule phase1_interleaved)

theorem phase1_any_schedule_witness:
  "\<exists>m. phase1Update amd64_runtime tiny (Some tiny_update) tiny_engine = Inr (tiny_engine\<lparr>Matrix := m\<rparr>)"
proof -
  obtain delta where d: "build_delta amd64_runtime tiny (Indexes tiny_engine) (TPIDDeltas tiny_update) = Inr delta"
    "length delta = 4"
    using build_delta_ok [OF tiny_indexes_inv(2), of amd64_runtime "TPIDDeltas tiny_update"] by auto
  have step: "ceil_div (NumPPS (Matrix tiny_engine)) (pool_size tiny_engine (NumPPS (Matrix tiny_engine))) = Inr 1"
    by (simp add: tiny_pool tiny_matrix_wf ceil_div_def)
  obtain qs m where "rtranclp (pool_step (apply_to_row tiny delta))
      (row_queues (NumPPS (Matrix tiny_engine)) 1, Matrix tiny_engine) (qs, m)" "pool_done qs"
    using row_run_exists [of tiny tiny_matrix delta 1] d(2) tiny_matrix_wf by auto
  from phase1_any_schedule [OF tiny_inv d(1) step this] show ?thesis by blast
qed

text \<open>
  The cgo ingestion does the same, on the C heap.\<close>

theorem cgo_ingest_replaces:
  assumes "store_inv w (c_wf w) (r, ix, m)" and "unat (cevOrderID evt) < NumOrders w"
  shows "\<exists>r' ix' m'. cgo_IngestOrder rt w evt nowSecs (r, ix, Some m) = Inr (r', ix', Some m') \<and>
           store_inv w (c_wf w) (r', ix', m') \<and>
           ingested w (cgo_event_meta evt nowSecs) (cevTPIDs evt) (cevEligibleBinTags evt)
             (clampInt16 (scale_score rt (cevBaseScore evt))) cNumPPS (\<lambda>cm. cell w (c_view cm))
             (r, ix, m) (r', ix', m')"
  using assms by (rule cgo_IngestOrder_steps)

theorem cgo_ingest_replaces_witness:
  "\<exists>st'. cgo_IngestOrder amd64_runtime tiny (tiny_c_event 1) 9999
       (tiny_registry, tiny_indexes, Some tiny_c_matrix) = Inr st'"
proof -
  have "unat (cevOrderID (tiny_c_event 1)) < NumOrders tiny" by (simp add: tiny_c_event_def)
  from cgo_ingest_replaces [OF tiny_store_inv(2) this, of amd64_runtime 9999] show ?thesis by blast
qed

text \<open>
  No request that overlaps a cycle of the cgo engine panics, under the same condition on the
  server's index.
\<close>

theorem cgo_requests_never_fault:
  assumes "cgo_inv w e" and "sort_contract rt" and "cgo_rows_ok e"
    and "update_safe w (cgo_update_deltas rt update
        (fold RemoveOrder (expired_ids (now_secs clk) (Registry e)) (Indexes e)))"
    and "cgo_RunCycleWithDict rt w clk update e = Inr (stats, e')"
    and "row_fits w req s (Topology e) (DB e)"
    and "\<forall>p. PairIndex s (MakePairKey (rPPSID req) (rBinTagID req)) = Some p \<longrightarrow> p < slen (Pairs e)"
    and "cgo_serve w req s ((Topology e, DB e), cycle_writes (Load (DB e')) (pendingWarmup e), Arrived)
           (sh, ws, Answered a)"
  shows "\<exists>x. a = Inr x"
proof -
  have buf: "rb_wf w (Load (DB e))" "rb_wf w (Load (DB e'))" "NumPairs (Load (DB e')) = slen (Pairs e)"
    using cgo_cycle_ok [OF assms(1-4)] assms(1,5) by (auto simp: engine_inv_def ranked_buffer_def)
  from cgo_path.requests_in_moments [OF assms(8) cycle_writes_leave] obtain t d where
    m: "(t, d) \<in> set (moments cgo_write (cycle_writes (Load (DB e')) (pendingWarmup e)) (Topology e, DB e))"
    "a = cgo_GetTopK w t d req s" by blast
  have new: "\<forall>p. PairIndex s (MakePairKey (rPPSID req) (rBinTagID req)) = Some p \<longrightarrow> p < NumPairs (Load (DB e'))"
    using assms(7) by (simp only: buf(3))
  have "rb_wf w (Load d) \<and> row_fits w req s t d"
    using moments_row_fits [OF buf(1,2) assms(6) new UnI2 [OF m(1)]] .
  then show ?thesis using GetTopK_total(2) m(2) by blast
qed

theorem cgo_requests_never_fault_witness:
  "\<exists>buf x. cgo_read_lists tiny (tiny_request 1 1) (Publish (NewDoubleBuffer tiny 3) buf) 1 = Inr x"
proof -
  have db: "DB tiny_c_engine = NewDoubleBuffer tiny 3" by (simp add: tiny_c_engine_def tiny_with_def)
  have "p < 3" if "build_index tiny_c_pairs k = Some p" for p k
    using build_index_Some [OF that] by (simp add: tiny_c_pairs_def)
  then have fits: "row_fits tiny (tiny_request 1 1) (cgo_NewPriorityServer tiny_c_pairs) (Topology tiny_c_engine) (DB tiny_c_engine)"
    "\<forall>p. PairIndex (cgo_NewPriorityServer tiny_c_pairs)
       (MakePairKey (rPPSID (tiny_request 1 1)) (rBinTagID (tiny_request 1 1))) = Some p \<longrightarrow> p < slen (Pairs tiny_c_engine)"
    by (auto simp: row_fits_def Let_def db refresh_eq NewDoubleBuffer_def Load_def NewReadBuffer_def)
  show ?thesis
    using cgo_requests_never_fault [OF tiny_c_inv sort_contract_amd64 tiny_c_rows _ _ fits] tiny_c_served by metis
qed

text \<open>
  An added PPS of the cgo topology stream comes with as many consecutive bin tags as asked
  for, from a start below 1000, all different; a negative number panics.
\<close>

theorem topology_events:
  assumes "rand_contract R" and "n \<le> 2 ^ 32 - 1000"
  shows "(0 \<le> n \<longrightarrow> (\<exists>evt s'. AddPPSEvent R p n s = Inr (evt, s') \<and> cteKind evt = EvtAddPPS \<and> ctePPSID evt = p \<and>
            distinct (cteBinTagIDs evt) \<and>
            (\<exists>k < 1000. map unat (cteBinTagIDs evt) = [k..<k + nat n]))) \<and>
         (n < 0 \<longrightarrow> AddPPSEvent R p n s = Inl MakeOutOfRange)"
proof -
  obtain t g' where "Int63n R 1000 (ctopo_rng s) = Inr (t, g')"
    by (rule Int63n_ok [OF assms(1), of 1000 "ctopo_rng s"]) auto
  then have "n < 0 \<longrightarrow> AddPPSEvent R p n s = Inl MakeOutOfRange" by (simp add: AddPPSEvent_def Let_def)
  with AddPPSEvent_ok [OF assms(1) _ assms(2), of p s] show ?thesis by blast
qed

theorem topology_events_witness:
  "\<exists>evt s'. AddPPSEvent counting_rand 99 3 (cgo_NewMockKafkaTopologyStream counting_rand 5) = Inr (evt, s') \<and>
     length (cteBinTagIDs evt) = 3"
proof -
  obtain evt s' k where "AddPPSEvent counting_rand 99 3 (cgo_NewMockKafkaTopologyStream counting_rand 5) = Inr (evt, s')"
    "map unat (cteBinTagIDs evt) = [k..<k + nat 3]"
    using topology_events [OF rand_contract_counting, of 3 99 "cgo_NewMockKafkaTopologyStream counting_rand 5"] by auto
  then show ?thesis using length_map [of unat "cteBinTagIDs evt"] by auto
qed

text \<open>
  Adding an order to the indexes replaces its old entries: afterwards it is listed
  under exactly the TPIDs and bin tags of the last event, and removing it takes out every
  occurrence, leaving the other orders in their order.
\<close>

theorem index_upsert:
  assumes "index_inv ix"
  shows "index_inv (AddOrder oid ts bs ix) \<and>
         bintag_orders (AddOrder oid ts bs ix) b =
           removeAll oid (bintag_orders ix b) @ replicate (count_list bs b) oid \<and>
         tpid_orders (AddOrder oid ts bs ix) t =
           removeAll oid (tpid_orders ix t) @ replicate (count_list ts t) oid \<and>
         bintag_orders (RemoveOrder oid (AddOrder oid ts bs ix)) b = removeAll oid (bintag_orders ix b) \<and>
         tpid_orders (RemoveOrder oid (AddOrder oid ts bs ix)) t = removeAll oid (tpid_orders ix t)"
  using assms idx.add_then_remove [OF assms, of oid ts bs t b]
  by (simp add: idx.invar_add idx.bintag_add idx.tpid_add idx.bintag_remove idx.tpid_remove)

theorem index_upsert_witness:
  "bintag_orders (AddOrder 0 [9] [3, 3] tiny_indexes) 1 = [1, 3] \<and>
   bintag_orders (AddOrder 0 [9] [3, 3] tiny_indexes) 3 = [0, 0]"
  using index_upsert [OF tiny_indexes_inv(1), of 0 "[9]" "[3, 3]" 1]
    index_upsert [OF tiny_indexes_inv(1), of 0 "[9]" "[3, 3]" 3]
  by (simp add: tiny_bintag_orders)

text \<open>
  A phase-1 update of a cell stays in \<open>[-32767, 32767]\<close>, and is the exact sum clamped
  to that range unless the sum leaves \<^verbatim>\<open>int32\<close>.
\<close>

theorem cell_update_saturates:
  "- 32767 \<le> sint (add_clamped x d) \<and> sint (add_clamped x d) \<le> 32767 \<and>
   (- (2 ^ 31) \<le> sint x + sint d \<and> sint x + sint d < 2 ^ 31 \<longrightarrow>
      sint (add_clamped x d) = max (-32767) (min 32767 (sint x + sint d)))"
  using add_clamped_exact [of x d]
  by (auto simp: add_clamped_def sint_clampInt16 clamp_int_def)

theorem cell_update_saturates_witness:
  "sint (add_clamped 32000 1000) = 32767"
  using cell_update_saturates [of 32000 1000] by simp

text \<open>
  Every event of the two \<^verbatim>\<open>Next\<close> is for the order asked for and eligible under every
  bin tag of the pod, with a base score in \<open>[0, 1)\<close>, one to ten (one to five) TPIDs of the
  universe, and a deadline in the documented window.
\<close>

theorem stream_events:
  assumes "rand_contract R" and "0 < sint (sNumTPIDs cs)"
  shows "(\<exists>evt g. Next R w now oid s = Inr (evt, s\<lparr>stream_rng := g\<rparr>) \<and> stream_event w now oid evt) \<and>
         (\<exists>evt g. cgo_Next R rt now oid cs = Inr (evt, cs\<lparr>cstream_rng := g\<rparr>) \<and> cgo_event_drawn cs now evt \<and>
            cevOrderID evt = oid \<and> cevEligibleBinTags evt = map of_nat [0..<unat (sNumBinTags cs)])"
  using Next_ok [OF assms(1), of w now oid s] cgo_Next_ok [OF assms, of rt now oid] by blast

theorem stream_events_witness:
  "\<exists>evt g. Next counting_rand pure_workload 1000 7 (NewMockKafkaOrderStream counting_rand 4000) =
     Inr (evt, g) \<and> evOrderID evt = 7 \<and> length (EligibleBinTags evt) = 20"
proof -
  have "0 < sint (sNumTPIDs (cgo_NewMockKafkaOrderStream counting_rand 42 4 8 2))"
    by (simp add: cgo_NewMockKafkaOrderStream_def)
  from stream_events [OF rand_contract_counting this, of pure_workload 1000 7
      "NewMockKafkaOrderStream counting_rand 4000" amd64_runtime] show ?thesis
    by (auto simp: stream_event_def pure_workload_def)
qed

text \<open>
  The goroutines of the topology never block each other for good: where one has not
  returned, some goroutine that has not returned can take a step, under either
  implementation; and at most one is between locking and unlocking the mutex.
\<close>

theorem goroutines_never_block:
  assumes "pure_goroutines s \<and> early = returns_early \<or> cgo_goroutines s \<and> early = cgo_returns_early"
  shows "(pc s t \<noteq> Idle \<longrightarrow> (\<exists>s' u. topo_step early s s' \<and> pc s u \<noteq> Idle \<and> pc s' u \<noteq> pc s u)) \<and>
         (holds_mutex (pc s t) \<longrightarrow> holds_mutex (pc s u) \<longrightarrow> t = u)"
  using assms cow.no_deadlock [of s t] ccow.no_deadlock [of s t] cow.mutual_exclusion [of s t u]
    ccow.mutual_exclusion [of s t u] by blast

theorem goroutines_never_block_witness:
  "\<exists>s s' u. pc s 0 = Waiting (EvAdd 1 2) \<and> topo_step returns_early s s' \<and> pc s' u \<noteq> pc s u"
proof -
  let ?s = "topo_start\<lparr>pc := (pc topo_start)(0 := Waiting (EvAdd 1 2)),
    called := called topo_start @ [(0, EvAdd 1 2)]\<rparr>"
  have "topo_step returns_early topo_start ?s" by (rule op_called) (simp add: topo_start_def)
  then have "pure_goroutines ?s \<and> returns_early = returns_early \<or> cgo_goroutines ?s \<and> returns_early = cgo_returns_early"
    by blast
  from goroutines_never_block [OF this, of 0 0] have
    "\<exists>s' u. topo_step returns_early ?s s' \<and> pc ?s u \<noteq> Idle \<and> pc s' u \<noteq> pc ?s u" by simp
  moreover have "pc ?s 0 = Waiting (EvAdd 1 2)" by simp
  ultimately show ?thesis by blast
qed

text \<open>
  The cgo \<^verbatim>\<open>quickselectTopK\<close>, which steers to index \<^verbatim>\<open>k\<close> and does not sort,
  terminates without a fault for every \<^verbatim>\<open>k\<close>, permutes its slice, and no entry left behind
  the first \<^verbatim>\<open>k\<close> beats one of them.
\<close>

theorem cgo_quickselect_partitions:
  "\<exists>e'. cgo_quickselectTopK e k = Inr e' \<and> mset e' = mset e \<and>
     (\<forall>x \<in> set (take (nat k) e'). \<forall>y \<in> set (drop (nat k) e'). key y \<le> key x)"
proof (cases "k \<le> 0 \<or> int (length e) \<le> k")
  case True
  then show ?thesis by (auto simp: cgo_quickselectTopK_def)
next
  case False
  then have "0 < nat k" "nat k \<le> length e" "int (nat k) = k" by auto
  then show ?thesis using cgo_sel.select_ok [of "nat k" e] by simp
qed

theorem cgo_quickselect_partitions_witness:
  "\<exists>e'. cgo_quickselectTopK tiny_entries 2 = Inr e' \<and> mset e' = mset tiny_entries"
  using cgo_quickselect_partitions [of tiny_entries 2] by blast

text \<open>
  A schedule of phase 2 that completes exists: from the start of phase 2 the pool can always
  take a step until every pair is done.
\<close>

theorem phase2_completes:
  assumes "pure_inv w e" and "sort_contract rt" and "0 < slen (Pairs e)"
    and "ceil_div (slen (Pairs e)) (pool_size e (slen (Pairs e))) = Inr step"
    and "e1 = ensureScratch (pool_size e (slen (Pairs e))) e"
  shows "\<exists>qs bank buf.
           rtranclp (pool_step (rank_job (fill_scratch w now e1) (quickselectAndCopy rt w) w))
             (pair_jobs (slen (Pairs e)) step (pool_size e (slen (Pairs e))),
              (scratch e1, NewReadBuffer w (slen (Pairs e)))) (qs, (bank, buf)) \<and>
           pool_done qs"
  using assms by (rule phase2_run_exists)

theorem phase2_completes_witness:
  "\<exists>qs bank buf.
     rtranclp (pool_step (rank_job (fill_scratch tiny 10000 (ensureScratch 2 tiny_engine))
         (quickselectAndCopy amd64_runtime tiny) tiny))
       (pair_jobs 3 2 2, (scratch (ensureScratch 2 tiny_engine), NewReadBuffer tiny 3))
       (qs, (bank, buf)) \<and> pool_done qs"
  using phase2_completes [OF tiny_inv sort_contract_amd64, of 2 _ 10000]
  by (simp add: tiny_pool ceil_div_def)

text \<open>
  For deltas that overflow the Go loop and the C kernel differ: where Go's sum wraps around
  and the largest score becomes the smallest, the C kernel's sum is undefined.
\<close>

theorem overflow_diverges:
  assumes "0 < sint x" and "sint d = 2 ^ 31 - 1" and "i < length cells" and "cells ! i = x"
    and "i < length delta" and "delta ! i = d"
  shows "sint (add_clamped x d) = -32767 \<and>
         c_update_cell 0 delta i cells = Inl UndefinedBehaviour"
  using wrapped_cell [OF assms(1,2)] assms
  by (simp add: c_update_cell_def mem_read_def Let_def)

theorem overflow_diverges_witness:
  "sint (add_clamped 75 (2 ^ 31 - 1)) = -32767 \<and>
   c_update_cell 0 [0, 2 ^ 31 - 1] 1 [50, 75] = Inl UndefinedBehaviour"
  using overflow_diverges [of 75 "2 ^ 31 - 1" 1 "[50, 75]" "[0, 2 ^ 31 - 1]"] by simp

text \<open>
  An ID outside the registry makes both ingestions panic, the cgo one in spite of its
  guards.
\<close>

theorem ingest_out_of_range:
  assumes "length (Meta r) = NumOrders w" and "NumOrders w \<le> unat oid"
  shows "IngestOrder rt w (evt\<lparr>evOrderID := oid\<rparr>) now (r, ix, m) = Inl IndexOutOfRange \<and>
         cgo_IngestOrder rt w (cevt\<lparr>cevOrderID := oid\<rparr>) now (r, ix, cm) = Inl IndexOutOfRange"
  using assms
  by (simp add: IngestOrder_def cgo_IngestOrder_def Upsert_def go_update_def go_index_def Let_def)

theorem ingest_out_of_range_witness:
  "IngestOrder amd64_runtime tiny (tiny_event 4) 9999 (tiny_registry, tiny_indexes, tiny_matrix) =
     Inl IndexOutOfRange"
proof -
  have "length (Meta tiny_registry) = NumOrders tiny" by (simp add: tiny_registry_def)
  from ingest_out_of_range [OF this, of 4 amd64_runtime "tiny_event 4" 9999] show ?thesis
    by (simp add: tiny_event_def)
qed

text \<open>
  The operations of the pure implementation move every pair along the life cycle
  unknown or removed, warming up, active; in particular only a pair that is warming up or
  already active is active afterwards.
\<close>

theorem life_cycle_steps:
  "life_cycle (val t k) (val (topo_apply ev t) k)"
  by (rule topo_apply_life_cycle)

text \<open>
  In the cgo implementation a pair that is added and removed before the next cycle comes
  back to life with that cycle's promotion, though it is not ranked; in the pure
  implementation it does not.
\<close>

theorem removed_pair_revival:
  assumes "pending_wf (pendingWarmup e)" and "slice_wf (Pairs e)"
  shows "val (Topology (cgo_promoteWarmingPairs (cgo_HandleRemovePair p b (cgo_HandleAddPair p b e))))
           (MakePairKey p b) = Some StatusActive \<and>
         MakePairKey p b \<notin> Key ` set (elems (Pairs (cgo_promoteWarmingPairs
           (cgo_HandleRemovePair p b (cgo_HandleAddPair p b e))))) \<and>
         val (Topology (promoteWarmingPairs (HandleRemovePair p b (HandleAddPair p b e))))
           (MakePairKey p b) = Some StatusRemoved"
  using cgo_removed_pair_revived [OF assms] removed_pair_not_revived [OF assms(1)]
  by (simp add: Let_def)

theorem removed_pair_revival_witness:
  "val (Topology (cgo_promoteWarmingPairs (cgo_HandleRemovePair 1 2 (cgo_HandleAddPair 1 2 tiny_c_engine))))
     (MakePairKey 1 2) = Some StatusActive"
  using removed_pair_revival [of tiny_c_engine 1 2] tiny_c_inv by (simp add: engine_inv_def)

text \<open>
  The promotion never forgets a pending pair that has become active or removed in the
  meantime: it stays on the list.
\<close>

theorem pending_pairs_pile_up:
  assumes "pending_wf (pendingWarmup e)" and "info \<in> set (pendingWarmup e)"
    and "val (Topology e) (Key info) \<in> {Some StatusActive, Some StatusRemoved}"
  shows "info \<in> set (pendingWarmup (promoteWarmingPairs e)) \<and>
         val (Topology (promoteWarmingPairs e)) (Key info) = val (Topology e) (Key info)"
proof -
  have s: "val (Topology e) (Key info) \<noteq> None" "val (Topology e) (Key info) \<noteq> Some StatusWarmingUp"
    using assms(3) by auto
  show ?thesis
    using promote_all_keeps [OF assms(1,2) s] promote_all_val [OF assms(1)] s by (simp add: promote_engine)
qed

theorem pending_pairs_pile_up_witness:
  "pendingWarmup (promoteWarmingPairs (HandleRemovePair 2 2 (HandleAddPair 2 2 tiny_engine))) \<noteq> []"
proof -
  let ?e = "HandleRemovePair 2 2 (HandleAddPair 2 2 tiny_engine)"
  have "pending_wf (pendingWarmup ?e)" "pair_of 2 2 \<in> set (pendingWarmup ?e)"
    "val (Topology ?e) (Key (pair_of 2 2)) \<in> {Some StatusActive, Some StatusRemoved}"
    by (simp_all add: HandleRemovePair_def HandleAddPair_def Let_def topo_val)
  from pending_pairs_pile_up [OF this] show ?thesis by auto
qed

text \<open>
  The latency bounds of the pure dictionary: with bounds set in order a fetch takes a time
  within them and returns one delta per TPID, each for a TPID below 100000 and of absolute
  value at most 1/2; with the bounds in the wrong order it panics.
\<close>

theorem latency_bounds:
  assumes "rand_contract R" and "0 \<le> numTPIDs c"
    and "0 \<le> sint mn" and "0 \<le> sint mx" and "sint mx < 2 ^ 63 - 1"
  shows "if sint mn \<le> sint mx
         then \<exists>lat u c'. FetchUpdate R rt now (SetLatency mn mx c) = Inr (lat, u, c') \<and>
                sint mn \<le> sint lat \<and> sint lat \<le> sint mx \<and> length (TPIDDeltas u) = nat (numTPIDs c) \<and>
                (\<forall>d \<in> set (TPIDDeltas u). unat (TPID d) < 100000 \<and> f32_within (-1) (ScoreDelta d))
         else FetchUpdate R rt now (SetLatency mn mx c) = Inl InvalidArgument"
proof (cases "sint mn \<le> sint mx")
  case True
  then show ?thesis
    using FetchUpdate_ok [OF assms(1), of "SetLatency mn mx c" rt now] assms(2-5)
    by (simp add: SetLatency_def) blast
next
  case False
  then show ?thesis
    using FetchUpdate_bad_latency [of "SetLatency mn mx c" R rt now] assms(4) by (simp add: SetLatency_def)
qed

theorem latency_bounds_witness:
  "FetchUpdate counting_rand amd64_runtime 0 (SetLatency 20 10 (NewMockItemDictClient counting_rand 5)) =
     Inl InvalidArgument"
  using latency_bounds [OF rand_contract_counting, of "NewMockItemDictClient counting_rand 5" 20 10 amd64_runtime 0]
  by (simp add: NewMockItemDictClient_def)

text \<open>
  \<^verbatim>\<open>HandleRemovePair\<close> filters the slice in place: the array that the caller's own
  slice still uses now holds the remaining pairs followed by its old tail.
\<close>

theorem remove_overwrites_callers_slice:
  assumes "slice_wf (Pairs e)"
  shows "elems (Pairs (HandleRemovePair p b e)) =
           filter (\<lambda>x. Key x \<noteq> MakePairKey p b) (elems (Pairs e)) \<and>
         arr (Pairs (HandleRemovePair p b e)) =
           filter (\<lambda>x. Key x \<noteq> MakePairKey p b) (elems (Pairs e)) @
           drop (length (filter (\<lambda>x. Key x \<noteq> MakePairKey p b) (elems (Pairs e)))) (arr (Pairs e))"
  using filter_in_place_ok [OF assms] by (simp add: HandleRemovePair_def Let_def)

theorem remove_overwrites_callers_slice_witness:
  "arr (Pairs (HandleRemovePair 1 1 tiny_engine)) = [pair_of 2 1, pair_of 1 2, pair_of 1 2]"
  using remove_overwrites_callers_slice [of tiny_engine 1 1] tiny_inv
  by (simp add: engine_inv_def tiny_pairs_def tiny_engine_def tiny_with_def)

text \<open>
  The two readers of a list: the pure one returns its first \<open>k\<close> slots, empty ones
  included; the cgo one stops at the first empty slot.  Both panic on a negative \<open>k\<close>, one in
  the slice expression, the other in \<^verbatim>\<open>make\<close>.
\<close>

theorem readers_of_a_list:
  assumes "rb_wf w b" and "p < NumPairs b" and "t < NumTables"
  shows "GetList w b p t k =
           (if k < 0 then Inl SliceOutOfRange else Inr (take (nat k) (rb_list w b p t))) \<and>
         cgo_GetList w b p t k =
           (if k < 0 then Inl MakeOutOfRange
            else Inr (takeWhile (\<lambda>v. v \<noteq> -1) (take (nat k) (rb_list w b p t))))"
  using GetList_ok [OF assms, of k] cgo_GetList_ok [OF assms, of k]
  by (simp add: GetList_def cgo_GetList_def)

theorem readers_of_a_list_witness:
  "GetList tiny (put_list tiny (NewReadBuffer tiny 3) 2 0 [7, -1]) 2 0 2 = Inr [7, -1] \<and>
   cgo_GetList tiny (put_list tiny (NewReadBuffer tiny 3) 2 0 [7, -1]) 2 0 2 = Inr [7]"
  using readers_of_a_list [of tiny "put_list tiny (NewReadBuffer tiny 3) 2 0 [7, -1]" 2 0 2]
    rb_simps(1,2) [of tiny "NewReadBuffer tiny 3" 2 0 "[7, -1]"]
  by (simp add: NumTables_def)

text \<open>
  A pair key holds its PPS ID in the upper and its bin tag in the lower half; both can
  be read back, so different pairs have different keys.
\<close>

theorem pair_key_roundtrip:
  "key_pps (MakePairKey p b) = p \<and> key_bintag (MakePairKey p b) = b \<and>
   (MakePairKey p b = MakePairKey p' b' \<longleftrightarrow> (p, b) = (p', b'))"
  by (simp add: key_pps_MakePairKey key_bintag_MakePairKey)

text \<open>
  The set-up of the pure pod makes each combination of a PPS and a bin tag exactly one
  pair: the engine ranks all of them, all are active and no other pair is, and the engine
  starts in its invariant.
\<close>

theorem pod_setup:
  assumes "workload_ok w" and "numBinTags w < 2 ^ 32"
    and "main_setup w cores env = (e, s)"
  shows "pure_inv w e \<and> slen (Pairs e) = PairsPerPod w \<and> distinct (map Key (elems (Pairs e))) \<and>
         Key ` set (elems (Pairs e)) =
           {MakePairKey (of_nat p) (of_nat b) |p b. p \<in> {1..numPPS w} \<and> b \<in> {1..numBinTags w}} \<and>
         (\<forall>k. val (Topology e) k = (if k \<in> Key ` set (elems (Pairs e)) then Some StatusActive else None)) \<and>
         s = NewPriorityServer (elems (Pairs e))"
proof -
  define ps where "ps = pair_grid [1..<numPPS w + 1] [1..<numBinTags w + 1]"
  note e = main_setup_parts [OF assms(3) ps_def]
  have "distinct (map Key ps)"
    using assms(1,2) unfolding ps_def by (intro distinct_keys_grid) (auto simp: workload_ok_def)
  moreover have "pure_inv w e" using main_setup_inv [OF assms(1), of cores env] assms(3) by simp
  moreover have "elems (Pairs e) = ps" "slen (Pairs e) = PairsPerPod w" using e by simp_all
  moreover have "\<forall>k. val (Topology e) k = (if k \<in> Key ` set ps then Some StatusActive else None)"
    using setup_topology_val [OF pair_grid_wf] unfolding e(2) ps_def by blast
  ultimately show ?thesis using keys_pod [of "numPPS w" "numBinTags w"] e(3) unfolding ps_def by simp
qed

theorem pod_setup_witness:
  "length (elems (Pairs (fst (main_setup tiny 8 (\<lambda>_. []))))) = 4 \<and>
   val (Topology (fst (main_setup tiny 8 (\<lambda>_. [])))) (MakePairKey 3 1) = None"
proof -
  obtain e s where e: "main_setup tiny 8 (\<lambda>_. []) = (e, s)" by fastforce
  from pod_setup [OF tiny_ok _ e] have
    k: "Key ` set (elems (Pairs e)) =
       {MakePairKey (of_nat p) (of_nat b) |p b. p \<in> {1..2} \<and> b \<in> {1..2}}"
    "\<forall>k. val (Topology e) k = (if k \<in> Key ` set (elems (Pairs e)) then Some StatusActive else None)"
    "slen (Pairs e) = 4" "pure_inv tiny e"
    by (simp_all add: PairsPerPod_def)
  have "MakePairKey 3 1 \<notin> Key ` set (elems (Pairs e))"
  proof
    assume "MakePairKey 3 1 \<in> Key ` set (elems (Pairs e))"
    then obtain p where "(3 :: u32) = of_nat p" "1 \<le> p" "p \<le> 2" unfolding k(1) by auto
    then have "p = 1 \<or> p = 2" "(3 :: u32) = of_nat p" by auto
    then show False by auto
  qed
  moreover have "length (elems (Pairs e)) = 4"
    using k(3,4) by (simp add: engine_inv_def length_elems)
  ultimately show ?thesis using k(2) e by simp
qed

text \<open>
  Whatever the environment holds, the configuration has at least one worker, at least
  one processor and no negative memory limit; without the variables it is the default one.
\<close>

theorem config_from_environment:
  assumes "1 \<le> cores"
  shows "1 \<le> NumWorkersVal (initFromEnv w cores env) \<and> 1 \<le> GoMaxProcs (initFromEnv w cores env) \<and>
         0 \<le> MemLimitMB (initFromEnv w cores env) \<and>
         initFromEnv w cores (\<lambda>_. []) = defaultResourceConfig w cores"
proof -
  have "1 \<le> NumWorkersVal cfg' \<and> 1 \<le> GoMaxProcs cfg' \<and> 0 \<le> MemLimitMB cfg'"
    if "1 \<le> NumWorkersVal cfg \<and> 1 \<le> GoMaxProcs cfg \<and> 0 \<le> MemLimitMB cfg"
      "cfg' = env_override v good assign cfg"
      "\<And>n c. good n \<Longrightarrow> 1 \<le> NumWorkersVal c \<and> 1 \<le> GoMaxProcs c \<and> 0 \<le> MemLimitMB c \<Longrightarrow>
         1 \<le> NumWorkersVal (assign n c) \<and> 1 \<le> GoMaxProcs (assign n c) \<and> 0 \<le> MemLimitMB (assign n c)"
    for cfg cfg' :: resource_config and v good assign
    using env_override_cases [of v good assign cfg] that by metis
  note step = this [OF _ refl]
  have "1 \<le> NumWorkersVal (initFromEnv w cores env) \<and> 1 \<le> GoMaxProcs (initFromEnv w cores env) \<and>
      0 \<le> MemLimitMB (initFromEnv w cores env)"
    unfolding initFromEnv_def Let_def
    by (rule step step [OF step] step [OF step [OF step]] step [OF step [OF step [OF step]]])+
      (use assms in \<open>auto simp: defaultResourceConfig_def Let_def\<close>)
  then show ?thesis by (simp add: initFromEnv_def env_override_def)
qed

theorem config_from_environment_witness:
  "1 \<le> NumWorkersVal (initFromEnv tiny 2 (\<lambda>v. if v = ''PS_NUM_WORKERS'' then ''-3'' else []))"
  using config_from_environment [of 2] by simp

end
